(* ===== verification/Omni_Prelude.thy ===== *)
theory Omni_Prelude
  imports Complex_Main "HOL-Library.AList" "HOL-Library.Multiset"
begin

text \<open>
  Shared vocabulary of the development: Python's insertion-ordered dictionaries as association
  lists, the exceptions the modelled code raises, results of fallible code, a generic invariant
  rule for step systems, and the lemmas on sums and filtered queues that the byte budgets of
  several components share.
\<close>

section \<open>Collections of rewrite rules\<close>

named_theorems dict_simps \<open>lookup after a dictionary update\<close>
named_theorems budget_simps \<open>sizes of queues after adding, dropping or filtering entries\<close>

section \<open>Python dictionaries\<close>

text \<open>
  A \<open>dict\<close> keeps insertion order; assigning an existing key keeps its place and a new key goes to
  the end, which is what \<^const>\<open>AList.update\<close> does. Lookup is \<^const>\<open>map_of\<close>.
\<close>

type_synonym ('k, 'v) dict = "('k \<times> 'v) list"

abbreviation dict_get :: "('k, 'v) dict \<Rightarrow> 'k \<Rightarrow> 'v option" where
  "dict_get d k \<equiv> map_of d k"

abbreviation dict_set :: "'k \<Rightarrow> 'v \<Rightarrow> ('k, 'v) dict \<Rightarrow> ('k, 'v) dict" where
  "dict_set \<equiv> AList.update"

abbreviation dict_del :: "'k \<Rightarrow> ('k, 'v) dict \<Rightarrow> ('k, 'v) dict" where
  "dict_del \<equiv> AList.delete"

abbreviation dict_keys :: "('k, 'v) dict \<Rightarrow> 'k list" where
  "dict_keys d \<equiv> map fst d"

abbreviation dict_values :: "('k, 'v) dict \<Rightarrow> 'v list" where
  "dict_values d \<equiv> map snd d"

definition dict_has :: "('k, 'v) dict \<Rightarrow> 'k \<Rightarrow> bool" where
  "dict_has d k \<longleftrightarrow> k \<in> set (dict_keys d)"

text \<open>A Python dict never holds a key twice.\<close>

abbreviation dict_ok :: "('k, 'v) dict \<Rightarrow> bool" where
  "dict_ok d \<equiv> distinct (dict_keys d)"

lemma dict_get_set [simp, dict_simps]:
  "dict_get (dict_set k v d) k' = (if k' = k then Some v else dict_get d k')"
  by (simp add: update_conv')

lemma dict_get_del [simp, dict_simps]:
  "dict_get (dict_del k d) k' = (if k' = k then None else dict_get d k')"
  by (simp add: delete_conv')

lemma dict_has_iff: "dict_has d k \<longleftrightarrow> dict_get d k \<noteq> None"
  by (simp add: dict_has_def map_of_eq_None_iff)

lemma dict_has_set [simp, dict_simps]: "dict_has (dict_set k v d) k' \<longleftrightarrow> k' = k \<or> dict_has d k'"
  by (simp add: dict_has_iff)

lemma dict_has_del [simp, dict_simps]: "dict_has (dict_del k d) k' \<longleftrightarrow> k' \<noteq> k \<and> dict_has d k'"
  by (simp add: dict_has_iff)

lemma dict_has_Nil [simp]: "\<not> dict_has [] k"
  by (simp add: dict_has_def)

lemma dict_ok_set [simp, intro]: "dict_ok d \<Longrightarrow> dict_ok (dict_set k v d)"
  by (rule distinct_update)

lemma dict_ok_del [simp, intro]: "dict_ok d \<Longrightarrow> dict_ok (dict_del k d)"
  by (rule distinct_delete)

lemma delete_filter: "dict_del k d = filter (\<lambda>(k', _). k \<noteq> k') d"
  by (simp add: AList.delete_eq)

lemma dict_set_new: "\<not> dict_has d k \<Longrightarrow> dict_set k v d = d @ [(k, v)]"
  by (induction d) (auto simp: dict_has_def)

lemma dict_set_keys: "dict_keys (dict_set k v d) = (if dict_has d k then dict_keys d else dict_keys d @ [k])"
  by (simp add: update_keys dict_has_def)

lemma dict_get_mem: "dict_get d k = Some v \<Longrightarrow> (k, v) \<in> set d"
  by (rule map_of_SomeD)

lemma dict_mem_get: "dict_ok d \<Longrightarrow> (k, v) \<in> set d \<Longrightarrow> dict_get d k = Some v"
  by simp

lemma dict_get_has [dest]: "dict_get d k = Some v \<Longrightarrow> dict_has d k"
  by (simp add: dict_has_iff)

section \<open>Sums over dictionaries and queues\<close>

definition dict_sum :: "('v \<Rightarrow> int) \<Rightarrow> ('k, 'v) dict \<Rightarrow> int" where
  "dict_sum f d = sum_list (map (\<lambda>(k, v). f v) d)"

lemma dict_sum_Nil [simp]: "dict_sum f [] = 0"
  by (simp add: dict_sum_def)

lemma dict_sum_Cons [simp]: "dict_sum f ((k, v) # d) = f v + dict_sum f d"
  by (simp add: dict_sum_def)

lemma dict_sum_append [simp]: "dict_sum f (d @ e) = dict_sum f d + dict_sum f e"
  by (simp add: dict_sum_def)

lemma dict_sum_set:
  "dict_ok d \<Longrightarrow>
   dict_sum f (dict_set k v d) = dict_sum f d + f v - (case dict_get d k of None \<Rightarrow> 0 | Some w \<Rightarrow> f w)"
  by (induction d) auto

lemma dict_sum_del:
  "dict_ok d \<Longrightarrow>
   dict_sum f (dict_del k d) = dict_sum f d - (case dict_get d k of None \<Rightarrow> 0 | Some w \<Rightarrow> f w)"
proof (induction d)
  case (Cons p d)
  obtain k' w where p: "p = (k', w)" by (cases p)
  show ?case
  proof (cases "k' = k")
    case True
    with Cons.prems p have "dict_get d k = None" and "dict_del k d = d"
      by (auto simp: map_of_eq_None_iff delete_id)
    with True p show ?thesis by simp
  next
    case False
    with Cons p show ?thesis by (simp split: option.splits)
  qed
qed simp

lemma dict_sum_nonneg: "(\<And>k v. (k, v) \<in> set d \<Longrightarrow> 0 \<le> f v) \<Longrightarrow> 0 \<le> dict_sum f d"
  by (induction d) (auto, smt (verit))

lemma dict_sum_pos_ex: "0 < dict_sum f d \<Longrightarrow> \<exists>k v. (k, v) \<in> set d \<and> 0 < f v"
  by (induction d) (auto, smt (verit))

text \<open>The bytes a queue of (entry, size) pairs holds of a budget.\<close>

definition queue_bytes :: "('a \<times> int) list \<Rightarrow> int" where
  "queue_bytes q = sum_list (map snd q)"

lemma queue_bytes_Nil [simp, budget_simps]: "queue_bytes [] = 0"
  by (simp add: queue_bytes_def)

lemma queue_bytes_Cons [simp, budget_simps]: "queue_bytes ((x, n) # q) = n + queue_bytes q"
  by (simp add: queue_bytes_def)

lemma queue_bytes_append [simp, budget_simps]: "queue_bytes (p @ q) = queue_bytes p + queue_bytes q"
  by (simp add: queue_bytes_def)

lemma queue_bytes_partition:
  "queue_bytes (filter P q) + queue_bytes (filter (\<lambda>x. \<not> P x) q) = queue_bytes q"
  by (induction q) auto

lemma queue_bytes_nonneg: "(\<And>x n. (x, n) \<in> set q \<Longrightarrow> 0 \<le> n) \<Longrightarrow> 0 \<le> queue_bytes q"
  by (induction q) (auto, smt (verit))

section \<open>Errors as values\<close>

text \<open>The exceptions the modelled code raises; the string is the literal part of the message.\<close>

datatype error =
    ValueError string
  | RuntimeError string
  | KeyError string
  | IndexError
  | TypeError string
  | TimeoutError string
  | QueueFullError
  | SessionOutputBudgetError
  | SessionIdleTimeoutError
  | CancelledError string
  | StageError string
  | AssertionError
  | ZeroDivisionError

type_synonym 'a result = "error + 'a"

definition bind_r :: "'a result \<Rightarrow> ('a \<Rightarrow> 'b result) \<Rightarrow> 'b result" where
  "bind_r r f = (case r of Inl e \<Rightarrow> Inl e | Inr x \<Rightarrow> f x)"

lemma bind_r_simps [simp]: "bind_r (Inl e) f = Inl e" "bind_r (Inr x) f = f x"
  by (simp_all add: bind_r_def)

lemma bind_r_Inr_iff: "bind_r r f = Inr y \<longleftrightarrow> (\<exists>x. r = Inr x \<and> f x = Inr y)"
  by (cases r) auto

lemma bind_r_InrE:
  assumes "bind_r r f = Inr y"
  obtains x where "r = Inr x" and "f x = Inr y"
  using assms by (auto simp: bind_r_Inr_iff)

text \<open>Mapping a fallible function over a list stops at the first error, as a raising loop does.\<close>

fun map_r :: "('a \<Rightarrow> 'b result) \<Rightarrow> 'a list \<Rightarrow> 'b list result" where
  "map_r f [] = Inr []"
| "map_r f (x # xs) = bind_r (f x) (\<lambda>y. bind_r (map_r f xs) (\<lambda>ys. Inr (y # ys)))"

lemma map_r_Inr_iff: "map_r f xs = Inr ys \<longleftrightarrow> list_all2 (\<lambda>x y. f x = Inr y) xs ys"
  by (induction xs arbitrary: ys) (auto simp: bind_r_Inr_iff list_all2_Cons1)

text \<open>A loop whose body updates a state and may raise.\<close>

fun fold_r :: "('a \<Rightarrow> 's \<Rightarrow> 's result) \<Rightarrow> 'a list \<Rightarrow> 's \<Rightarrow> 's result" where
  "fold_r f [] s = Inr s"
| "fold_r f (x # xs) s = bind_r (f x s) (fold_r f xs)"

lemma fold_r_append: "fold_r f (xs @ ys) s = bind_r (fold_r f xs s) (fold_r f ys)"
  by (induction xs arbitrary: s) (auto simp: bind_r_def split: sum.splits)

lemma fold_r_rule:
  assumes "fold_r f xs s = Inr t" and "P s"
    and "\<And>x s t. x \<in> set xs \<Longrightarrow> P s \<Longrightarrow> f x s = Inr t \<Longrightarrow> P t"
  shows "P t"
  using assms
proof (induction xs arbitrary: s)
  case (Cons x xs)
  from Cons.prems(1) obtain u where u: "f x s = Inr u" "fold_r f xs u = Inr t"
    by (auto simp: bind_r_Inr_iff)
  with Cons.prems(2,3) have "P u" by auto
  with u(2) Cons.prems(3) show ?case by (intro Cons.IH [of u]) auto
qed simp

text \<open>\<open>d[k]\<close>, raising KeyError, and \<open>xs[i]\<close> for a non-negative index, raising IndexError.\<close>

definition dict_lookup :: "('k, 'v) dict \<Rightarrow> 'k \<Rightarrow> 'v result" where
  "dict_lookup d k = (case dict_get d k of None \<Rightarrow> Inl (KeyError []) | Some v \<Rightarrow> Inr v)"

definition nth_r :: "'a list \<Rightarrow> nat \<Rightarrow> 'a result" where
  "nth_r xs i = (if i < length xs then Inr (xs ! i) else Inl IndexError)"

lemma dict_lookup_Inr_iff [simp]: "dict_lookup d k = Inr v \<longleftrightarrow> dict_get d k = Some v"
  by (simp add: dict_lookup_def split: option.splits)

lemma nth_r_Inr_iff [simp]: "nth_r xs i = Inr v \<longleftrightarrow> i < length xs \<and> v = xs ! i"
  by (auto simp: nth_r_def)

text \<open>
  Code that updates a state and may raise: the state it leaves is kept in either case, as Python keeps
  what a raising function has already assigned.
\<close>

type_synonym ('s, 'a) io = "'s \<Rightarrow> 'a result \<times> 's"

definition ret :: "'a \<Rightarrow> ('s, 'a) io" where
  "ret x s = (Inr x, s)"

definition raise :: "error \<Rightarrow> ('s, 'a) io" where
  "raise e s = (Inl e, s)"

definition then_do :: "('s, 'a) io \<Rightarrow> ('a \<Rightarrow> ('s, 'b) io) \<Rightarrow> ('s, 'b) io" where
  "then_do m f s = (case m s of (Inl e, s') \<Rightarrow> (Inl e, s') | (Inr x, s') \<Rightarrow> f x s')"

definition modify :: "('s \<Rightarrow> 's) \<Rightarrow> ('s, unit) io" where
  "modify f s = (Inr (), f s)"

definition with_state :: "('s \<Rightarrow> ('s, 'a) io) \<Rightarrow> ('s, 'a) io" where
  "with_state f s = f s s"

text \<open>\<open>try ... except\<close> and \<open>try ... finally\<close>; an error of the handler or of the final block replaces the first.\<close>

definition except :: "('s, 'a) io \<Rightarrow> (error \<Rightarrow> ('s, 'a) io) \<Rightarrow> ('s, 'a) io" where
  "except m h s = (case m s of (Inl e, s') \<Rightarrow> h e s' | r \<Rightarrow> r)"

definition finally_do :: "('s, 'a) io \<Rightarrow> ('s, unit) io \<Rightarrow> ('s, 'a) io" where
  "finally_do m c s =
     (case m s of (r, s') \<Rightarrow> (case c s' of (Inl e, s'') \<Rightarrow> (Inl e, s'') | (Inr _, s'') \<Rightarrow> (r, s'')))"

named_theorems io_simps \<open>unfolding of state-passing code\<close>

lemmas [io_simps] = ret_def raise_def then_do_def modify_def with_state_def except_def finally_do_def

text \<open>
  \<open>spec P m Q\<close>: run where \<open>P\<close> holds, \<open>m\<close> leaves a state where \<open>Q\<close> holds, whether it returns or raises.
\<close>

definition spec :: "('s \<Rightarrow> bool) \<Rightarrow> ('s, 'a) io \<Rightarrow> ('s \<Rightarrow> bool) \<Rightarrow> bool" where
  "spec P m Q \<longleftrightarrow> (\<forall>s. P s \<longrightarrow> Q (snd (m s)))"

named_theorems spec_intros \<open>rules for \<open>spec\<close>\<close>

lemma spec_ret [spec_intros]: "spec P (ret x) P"
  by (simp add: spec_def ret_def)

lemma spec_raise [spec_intros]: "spec P (raise e) P"
  by (simp add: spec_def raise_def)

lemma spec_then_do [spec_intros]: "spec P m P \<Longrightarrow> (\<And>x. spec P (f x) P) \<Longrightarrow> spec P (then_do m f) P"
  by (simp add: spec_def then_do_def split: prod.splits sum.splits) (metis snd_conv)

lemma spec_then_do_from: "spec P m Q \<Longrightarrow> (\<And>x. spec Q (f x) Q) \<Longrightarrow> spec P (then_do m f) Q"
  by (simp add: spec_def then_do_def split: prod.splits sum.splits) (metis snd_conv)

lemma spec_except [spec_intros]: "spec P m P \<Longrightarrow> (\<And>e. spec P (h e) P) \<Longrightarrow> spec P (except m h) P"
  by (simp add: spec_def except_def split: prod.splits sum.splits) (metis snd_conv)

lemma spec_finally [spec_intros]: "spec P m P \<Longrightarrow> spec P c P \<Longrightarrow> spec P (finally_do m c) P"
  by (simp add: spec_def finally_do_def split: prod.splits sum.splits) (metis snd_conv)

lemma spec_with_state [spec_intros]: "(\<And>s. P s \<Longrightarrow> spec P (f s) P) \<Longrightarrow> spec P (with_state f) P"
  by (simp add: spec_def with_state_def)

lemma spec_with_state_at: "(\<And>s. P s \<Longrightarrow> spec (\<lambda>t. P t \<and> t = s) (f s) P) \<Longrightarrow> spec P (with_state f) P"
  by (simp add: spec_def with_state_def)

lemma spec_modify: "(\<And>s. P s \<Longrightarrow> Q (f s)) \<Longrightarrow> spec P (modify f) Q"
  by (simp add: spec_def modify_def)

lemma spec_weaken: "spec P m Q \<Longrightarrow> (\<And>s. P' s \<Longrightarrow> P s) \<Longrightarrow> spec P' m Q"
  by (simp add: spec_def)

lemma specD: "spec P m Q \<Longrightarrow> P s \<Longrightarrow> Q (snd (m s))"
  by (simp add: spec_def)

text \<open>A dict comprehension: later pairs override the values of earlier ones.\<close>

definition dict_of :: "('k \<times> 'v) list \<Rightarrow> ('k, 'v) dict" where
  "dict_of ps = fold (\<lambda>(k, v). dict_set k v) ps []"

lemma dict_of_get: "dict_get (dict_of ps) k = map_of (rev ps) k"
proof -
  have "dict_get (fold (\<lambda>(k, v). dict_set k v) ps d) k =
      (case map_of (rev ps) k of None \<Rightarrow> dict_get d k | Some v \<Rightarrow> Some v)" for d
  proof (induction ps arbitrary: d)
    case (Cons p ps)
    then show ?case by (cases p) (auto simp: map_add_def split: option.splits)
  qed simp
  then show ?thesis by (simp add: dict_of_def split: option.splits)
qed

lemma map_of_rev_distinct:
  assumes "distinct (map fst ps)"
  shows "map_of (rev ps) k = map_of ps k"
proof (cases "map_of ps k")
  case None
  then have "k \<notin> fst ` set (rev ps)" by (simp add: map_of_eq_None_iff)
  with None show ?thesis by (metis map_of_eq_None_iff)
next
  case (Some v)
  then have "(k, v) \<in> set (rev ps)" by (auto dest: map_of_SomeD)
  moreover have "distinct (map fst (rev ps))" using assms by (simp add: rev_map [symmetric])
  ultimately show ?thesis using Some by (simp add: map_of_is_SomeI)
qed

lemma dict_of_distinct: "distinct (map fst ps) \<Longrightarrow> dict_get (dict_of ps) k = map_of ps k"
  by (simp add: dict_of_get map_of_rev_distinct)

section \<open>Invariants of step systems\<close>

text \<open>
  A component whose operations interleave is a relation between states. The rule below is proved
  once and used through an interpretation for each such component.
\<close>

locale step_system =
  fixes init :: "'s \<Rightarrow> bool"
    and step :: "'s \<Rightarrow> 's \<Rightarrow> bool"
    and inv :: "'s \<Rightarrow> bool"
  assumes inv_init: "init s \<Longrightarrow> inv s"
    and inv_step: "step s t \<Longrightarrow> inv s \<Longrightarrow> inv t"
begin

lemma inv_steps: "step\<^sup>*\<^sup>* s t \<Longrightarrow> inv s \<Longrightarrow> inv t"
  by (induction rule: rtranclp_induct) (auto intro: inv_step)

lemma inv_reachable: "init s \<Longrightarrow> step\<^sup>*\<^sup>* s t \<Longrightarrow> inv t"
  by (blast intro: inv_init inv_steps)

end

section \<open>Lists\<close>

definition first_index :: "('a \<Rightarrow> bool) \<Rightarrow> 'a list \<Rightarrow> nat option" where
  "first_index P xs = (let i = length (takeWhile (\<lambda>x. \<not> P x) xs) in if i < length xs then Some i else None)"

definition remove_first :: "('a \<Rightarrow> bool) \<Rightarrow> 'a list \<Rightarrow> 'a list" where
  "remove_first P xs = takeWhile (\<lambda>x. \<not> P x) xs @ drop 1 (dropWhile (\<lambda>x. \<not> P x) xs)"

lemma remove_first_simps [simp]:
  "remove_first P [] = []"
  "remove_first P (x # xs) = (if P x then xs else x # remove_first P xs)"
  by (simp_all add: remove_first_def)

lemma set_remove_first: "set (remove_first P xs) \<subseteq> set xs"
  by (induction xs) auto

lemma length_filter_remove_first:
  "\<exists>x \<in> set xs. P x \<Longrightarrow> length (filter P (remove_first P xs)) = length (filter P xs) - 1"
  by (induction xs) auto

lemma filter_remove_first_other:
  "(\<And>x. Q x \<Longrightarrow> \<not> P x) \<Longrightarrow> filter Q (remove_first P xs) = filter Q xs"
  by (induction xs) auto

section \<open>Decimal strings\<close>

text \<open>\<open>str(n)\<close>, \<open>s.isdigit()\<close> on ASCII strings and \<open>int(s)\<close> of digits.\<close>

definition digit_char :: "nat \<Rightarrow> char" where
  "digit_char d = char_of (48 + d)"

fun str_nat :: "nat \<Rightarrow> string" where
  "str_nat n = (if n < 10 then [digit_char n] else str_nat (n div 10) @ [digit_char (n mod 10)])"

declare str_nat.simps [simp del]

definition is_digit :: "char \<Rightarrow> bool" where
  "is_digit c \<longleftrightarrow> 48 \<le> (of_char c :: nat) \<and> (of_char c :: nat) \<le> 57"

definition isdigit :: "string \<Rightarrow> bool" where
  "isdigit s \<longleftrightarrow> s \<noteq> [] \<and> list_all is_digit s"

definition int_str :: "string \<Rightarrow> nat" where
  "int_str s = foldl (\<lambda>a c. 10 * a + (of_char c - 48)) 0 s"

lemma of_digit_char [simp]: "d < 10 \<Longrightarrow> (of_char (digit_char d) :: nat) = 48 + d"
  by (simp add: digit_char_def)

lemma is_digit_digit_char: "d < 10 \<Longrightarrow> is_digit (digit_char d)"
  by (simp add: is_digit_def)

lemma isdigit_str_nat: "isdigit (str_nat n)"
proof (induction n rule: str_nat.induct)
  case (1 n)
  then show ?case
    by (cases "n < 10") (simp_all add: str_nat.simps [of n] isdigit_def is_digit_digit_char)
qed

lemma int_str_str_nat: "int_str (str_nat n) = n"
proof (induction n rule: str_nat.induct)
  case (1 n)
  then show ?case
    by (cases "n < 10") (simp_all add: str_nat.simps [of n] int_str_def)
qed

end
