(* ===== verification/Stream_Queue.thy ===== *)
theory Stream_Queue
  imports Omni_Prelude
begin

text \<open>
  The per-request stream queues of \<^verbatim>\<open>sglang_omni/pipeline/stage/stream_queue.py\<close>.
  A reader that blocks in \<open>get\<close> holds the \<^verbatim>\<open>asyncio.Queue\<close> object, not the request id, and
  \<open>close\<close> removes the id while the object lives on; so queue objects have addresses and their
  contents live in a store. The iteration order of the Python set \<open>sq_closed\<close> is a parameter.
\<close>

section \<open>State and events\<close>

record 'a stream_item =
  si_chunk_id :: int
  si_data :: 'a
  si_from_stage :: string
  si_metadata :: "(string, 'a) dict option"

datatype 'a stream_event =
    StreamItem "'a stream_item"
  | StreamSignal (sig_from: "string option") (sig_is_done: bool) (sig_error: "error option")

record 'a stream_queue =
  sq_queues :: "string \<Rightarrow> nat option"
  sq_store :: "nat \<Rightarrow> 'a stream_event list"
  sq_next_addr :: nat
  sq_closed :: "string list"

definition stream_queue_init :: "'a stream_queue" where
  "stream_queue_init = \<lparr>sq_queues = (\<lambda>_. None), sq_store = (\<lambda>_. []), sq_next_addr = 0, sq_closed = []\<rparr>"

datatype 'a get_outcome =
    GotEvent "'a stream_event"   \<comment> \<open>get_with_source: the event itself\<close>
  | GotItem "'a stream_item"
  | GotNone
  | GotRaise error
  | GotWait nat                  \<comment> \<open>awaits the queue object at this address\<close>

section \<open>Operations\<close>

definition sq_open :: "string \<Rightarrow> 'a stream_queue \<Rightarrow> 'a stream_queue" where
  "sq_open r s =
     (let s = s\<lparr>sq_closed := removeAll r (sq_closed s)\<rparr>
      in if sq_queues s r = None
         then s\<lparr>sq_queues := (sq_queues s)(r \<mapsto> sq_next_addr s),
                sq_store := (sq_store s)(sq_next_addr s := []),
                sq_next_addr := Suc (sq_next_addr s)\<rparr>
         else s)"

definition sq_has :: "string \<Rightarrow> 'a stream_queue \<Rightarrow> bool" where
  "sq_has r s \<longleftrightarrow> sq_queues s r \<noteq> None"

definition put_nowait :: "nat \<Rightarrow> 'a stream_event \<Rightarrow> 'a stream_queue \<Rightarrow> 'a stream_queue" where
  "put_nowait a e s = s\<lparr>sq_store := (sq_store s)(a := sq_store s a @ [e])\<rparr>"

definition put_event :: "string \<Rightarrow> 'a stream_event \<Rightarrow> 'a stream_queue \<Rightarrow> 'a stream_queue" where
  "put_event r e s = (case sq_queues s r of None \<Rightarrow> s | Some a \<Rightarrow> put_nowait a e s)"

definition sq_put :: "string \<Rightarrow> 'a stream_item \<Rightarrow> 'a stream_queue \<Rightarrow> 'a stream_queue" where
  "sq_put r item = put_event r (StreamItem item)"

definition put_done :: "string \<Rightarrow> string option \<Rightarrow> 'a stream_queue \<Rightarrow> 'a stream_queue" where
  "put_done r src = put_event r (StreamSignal src True None)"

definition put_error :: "string \<Rightarrow> error \<Rightarrow> string option \<Rightarrow> 'a stream_queue \<Rightarrow> 'a stream_queue" where
  "put_error r e src = put_event r (StreamSignal src False (Some e))"

text \<open>\<open>get_nowait\<close> or the resumption of a blocked \<open>await queue.get()\<close>: both take the head.\<close>

definition take_event :: "nat \<Rightarrow> 'a stream_queue \<Rightarrow> 'a stream_event option \<times> 'a stream_queue" where
  "take_event a s =
     (case sq_store s a of [] \<Rightarrow> (None, s) | e # es \<Rightarrow> (Some e, s\<lparr>sq_store := (sq_store s)(a := es)\<rparr>))"

fun read_event :: "'a stream_event \<Rightarrow> 'a get_outcome" where
  "read_event (StreamSignal src d (Some e)) = GotRaise e"
| "read_event (StreamSignal src d None) = GotNone"
| "read_event (StreamItem i) = GotItem i"

definition resume_get :: "nat \<Rightarrow> 'a stream_queue \<Rightarrow> 'a get_outcome \<times> 'a stream_queue" where
  "resume_get a s =
     (case take_event a s of (None, s') \<Rightarrow> (GotWait a, s') | (Some e, s') \<Rightarrow> (read_event e, s'))"

definition resume_get_with_source :: "nat \<Rightarrow> 'a stream_queue \<Rightarrow> 'a get_outcome \<times> 'a stream_queue" where
  "resume_get_with_source a s =
     (case take_event a s of (None, s') \<Rightarrow> (GotWait a, s') | (Some e, s') \<Rightarrow> (GotEvent e, s'))"

definition sq_get :: "string \<Rightarrow> 'a stream_queue \<Rightarrow> 'a get_outcome \<times> 'a stream_queue" where
  "sq_get r s =
     (case sq_queues s r of
        None \<Rightarrow> (if r \<in> set (sq_closed s) then (GotNone, s)
                 else (GotRaise (RuntimeError ''No queue''), s))
      | Some a \<Rightarrow> resume_get a s)"

definition get_with_source :: "string \<Rightarrow> 'a stream_queue \<Rightarrow> 'a get_outcome \<times> 'a stream_queue" where
  "get_with_source r s =
     (case sq_queues s r of
        None \<Rightarrow> (if r \<in> set (sq_closed s) then (GotEvent (StreamSignal None True None), s)
                 else (GotRaise (RuntimeError ''No queue''), s))
      | Some a \<Rightarrow> resume_get_with_source a s)"

text \<open>
  \<open>close\<close> caps the set of closed ids: beyond 10000 it drops as many as leave 5000, taken in the
  set's iteration order \<open>it\<close>.
\<close>

definition cap_closed :: "(string list \<Rightarrow> string list) \<Rightarrow> string list \<Rightarrow> string list" where
  "cap_closed it c =
     (if length c > 10000
      then let excess = length c - 5000; to_remove = take excess (it c)
           in filter (\<lambda>x. x \<notin> set to_remove) c
      else c)"

definition sq_close ::
  "(string list \<Rightarrow> string list) \<Rightarrow> string \<Rightarrow> 'a stream_queue \<Rightarrow> 'a stream_queue" where
  "sq_close it r s =
     (let q = sq_queues s r;
          s = s\<lparr>sq_queues := (sq_queues s)(r := None),
                sq_closed := cap_closed it (List.insert r (sq_closed s))\<rparr>
      in case q of None \<Rightarrow> s | Some a \<Rightarrow> put_nowait a (StreamSignal None True None) s)"

section \<open>Interleavings\<close>

datatype 'a stream_op =
    Open string | Put string "'a stream_item" | PutDone string "string option"
  | PutError string error "string option" | Get string | GetWithSource string
  | Resume nat | ResumeWithSource nat | Close string

fun sq_step :: "(string list \<Rightarrow> string list) \<Rightarrow> 'a stream_op \<Rightarrow> 'a stream_queue \<Rightarrow> 'a stream_queue" where
  "sq_step it (Open r) s = sq_open r s"
| "sq_step it (Put r i) s = sq_put r i s"
| "sq_step it (PutDone r src) s = put_done r src s"
| "sq_step it (PutError r e src) s = put_error r e src s"
| "sq_step it (Get r) s = snd (sq_get r s)"
| "sq_step it (GetWithSource r) s = snd (get_with_source r s)"
| "sq_step it (Resume a) s = snd (resume_get a s)"
| "sq_step it (ResumeWithSource a) s = snd (resume_get_with_source a s)"
| "sq_step it (Close r) s = sq_close it r s"

fun sq_run :: "(string list \<Rightarrow> string list) \<Rightarrow> 'a stream_op list \<Rightarrow> 'a stream_queue \<Rightarrow> 'a stream_queue" where
  "sq_run it [] s = s"
| "sq_run it (p # ps) s = sq_run it ps (sq_step it p s)"

text \<open>The events the senders put for request \<open>r\<close>, read off the operations alone.\<close>

fun sent_event :: "string \<Rightarrow> 'a stream_op \<Rightarrow> 'a stream_event list" where
  "sent_event r (Put r' i) = (if r' = r then [StreamItem i] else [])"
| "sent_event r (PutDone r' src) = (if r' = r then [StreamSignal src True None] else [])"
| "sent_event r (PutError r' e src) = (if r' = r then [StreamSignal src False (Some e)] else [])"
| "sent_event r _ = []"

definition sent_events :: "string \<Rightarrow> 'a stream_op list \<Rightarrow> 'a stream_event list" where
  "sent_events r ps = concat (map (sent_event r) ps)"

text \<open>The event one operation takes from the queue object at address \<open>a\<close>.\<close>

fun reads_addr :: "'a stream_queue \<Rightarrow> 'a stream_op \<Rightarrow> nat option" where
  "reads_addr s (Get r) = sq_queues s r"
| "reads_addr s (GetWithSource r) = sq_queues s r"
| "reads_addr s (Resume a) = Some a"
| "reads_addr s (ResumeWithSource a) = Some a"
| "reads_addr s _ = None"

definition taken_event :: "nat \<Rightarrow> 'a stream_queue \<Rightarrow> 'a stream_op \<Rightarrow> 'a stream_event list" where
  "taken_event a s p =
     (if reads_addr s p = Some a then (case sq_store s a of [] \<Rightarrow> [] | e # _ \<Rightarrow> [e]) else [])"

fun taken_events ::
  "(string list \<Rightarrow> string list) \<Rightarrow> nat \<Rightarrow> 'a stream_op list \<Rightarrow> 'a stream_queue \<Rightarrow> 'a stream_event list" where
  "taken_events it a [] s = []"
| "taken_events it a (p # ps) s = taken_event a s p @ taken_events it a ps (sq_step it p s)"

definition sq_inv :: "'a stream_queue \<Rightarrow> bool" where
  "sq_inv s \<longleftrightarrow>
     (\<forall>r a. sq_queues s r = Some a \<longrightarrow> a < sq_next_addr s) \<and>
     (\<forall>r r' a. sq_queues s r = Some a \<and> sq_queues s r' = Some a \<longrightarrow> r = r') \<and>
     distinct (sq_closed s) \<and> length (sq_closed s) \<le> 10000"

section \<open>Lemmas\<close>

lemmas sq_defs = sq_open_def put_event_def put_nowait_def sq_put_def put_done_def put_error_def
  take_event_def resume_get_def resume_get_with_source_def sq_get_def get_with_source_def sq_close_def

lemma length_removeAll_distinct: "distinct xs \<Longrightarrow> length (removeAll x xs) \<le> length xs"
  by simp

lemma take_event_store:
  "snd (take_event a s) = s\<lparr>sq_store := (sq_store s)(a := tl (sq_store s a))\<rparr>"
  by (cases s, cases "sq_store s a") (auto simp: take_event_def fun_upd_idem)

lemma resume_state [simp]:
  "snd (resume_get a s) = snd (take_event a s)"
  "snd (resume_get_with_source a s) = snd (take_event a s)"
  by (auto simp: resume_get_def resume_get_with_source_def split: prod.splits option.splits)

lemma cap_closed_bound:
  assumes it: "\<And>c. mset (it c) = mset c" and "distinct c" and "length c \<le> 10001"
  shows "length (cap_closed it c) \<le> 10000"
proof (cases "length c > 10000")
  case True
  let ?rm = "take (length c - 5000) (it c)"
  from it have len: "length (it c) = length c" and "set (it c) = set c"
    by (metis size_mset, metis set_mset_mset)
  moreover from it \<open>distinct c\<close> have "distinct (it c)"
    by (metis mset_eq_imp_distinct_iff)
  ultimately have rm: "card (set ?rm) = length c - 5000" "set ?rm \<subseteq> set c"
    by (simp_all add: distinct_card set_take_subset order_trans[OF set_take_subset])
  have "length (filter (\<lambda>x. x \<notin> set ?rm) c) = card (set c - set ?rm)"
    using \<open>distinct c\<close> by (simp add: distinct_length_filter) (rule arg_cong [where f = card], auto)
  also have "\<dots> = length c - (length c - 5000)"
    using rm \<open>distinct c\<close> by (simp add: card_Diff_subset distinct_card)
  finally show ?thesis using True by (simp add: cap_closed_def Let_def)
qed (simp add: cap_closed_def)

lemma distinct_cap_closed: "distinct c \<Longrightarrow> distinct (cap_closed it c)"
  by (simp add: cap_closed_def Let_def)

lemma sq_inv_init: "sq_inv stream_queue_init"
  by (simp add: sq_inv_def stream_queue_init_def)

lemma sq_inv_store: "sq_inv (s\<lparr>sq_store := f\<rparr>) \<longleftrightarrow> sq_inv s"
  by (simp add: sq_inv_def)

lemma sq_inv_open: "sq_inv s \<Longrightarrow> sq_inv (sq_open r s)"
  unfolding sq_inv_def sq_open_def Let_def
  by (auto simp: less_Suc_eq distinct_removeAll intro: order_trans[OF length_removeAll_distinct] split: if_splits)

lemma sq_inv_close:
  assumes "\<And>c. mset (it c) = mset c" and "sq_inv s"
  shows "sq_inv (sq_close it r s)"
proof -
  have "length (List.insert r (sq_closed s)) \<le> 10001" "distinct (List.insert r (sq_closed s))"
    using assms(2) by (auto simp: sq_inv_def List.insert_def)
  with assms show ?thesis
    by (auto simp: sq_close_def Let_def put_nowait_def sq_inv_def cap_closed_bound distinct_cap_closed
        split: option.splits if_splits)
qed

lemma put_event_inv [simp]: "sq_inv (put_event r e s) = sq_inv s"
  by (simp add: put_event_def put_nowait_def sq_inv_store split: option.splits)

lemma sq_step_inv:
  assumes "\<And>c. mset (it c) = mset c" and "sq_inv s"
  shows "sq_inv (sq_step it p s)"
  using assms
  by (cases p)
     (simp_all add: sq_inv_open sq_inv_close sq_put_def put_done_def put_error_def sq_get_def
        get_with_source_def take_event_store sq_inv_store split: option.splits)

text \<open>One operation moves a queue object's contents by exactly what it puts and takes.\<close>

lemma put_event_queues [simp]: "sq_queues (put_event r e s) = sq_queues s"
  by (simp add: put_event_def put_nowait_def split: option.splits)

lemma put_event_store:
  assumes "sq_inv s" and "sq_queues s r = Some a"
  shows "sq_store (put_event r' e s) a = sq_store s a @ (if r' = r then [e] else [])"
  using assms by (auto simp: put_event_def put_nowait_def sq_inv_def split: option.splits)

lemma sq_open_addr:
  assumes "sq_inv s" and "sq_queues s r = Some a"
  shows "sq_queues (sq_open r' s) r = Some a" and "sq_store (sq_open r' s) a = sq_store s a"
  using assms by (auto simp: sq_open_def Let_def sq_inv_def)

lemma sq_close_addr:
  assumes "sq_inv s" and "sq_queues s r = Some a" and "r' \<noteq> r"
  shows "sq_queues (sq_close it r' s) r = Some a" and "sq_store (sq_close it r' s) a = sq_store s a"
  using assms by (auto simp: sq_close_def Let_def put_nowait_def sq_inv_def split: option.splits)

lemma sq_get_state:
  "snd (sq_get r s) = (case sq_queues s r of None \<Rightarrow> s | Some a \<Rightarrow> snd (take_event a s))"
  "snd (get_with_source r s) = (case sq_queues s r of None \<Rightarrow> s | Some a \<Rightarrow> snd (take_event a s))"
  by (simp_all add: sq_get_def get_with_source_def split: option.splits)

lemma taken_event_reads:
  "reads_addr s p = Some b \<Longrightarrow> taken_event a s p @ sq_store (snd (take_event b s)) a = sq_store s a"
  by (cases "sq_store s a") (auto simp: taken_event_def take_event_store)

lemma sq_step_addr:
  assumes "sq_inv s" and "sq_queues s r = Some a" and "p \<noteq> Close r"
  shows "sq_queues (sq_step it p s) r = Some a"
    and "sq_store s a @ sent_event r p = taken_event a s p @ sq_store (sq_step it p s) a"
proof -
  note addr = sq_open_addr [OF assms(1,2)] sq_close_addr [OF assms(1,2)] put_event_store [OF assms(1,2)]
  show "sq_queues (sq_step it p s) r = Some a"
    using assms(2,3) by (cases p)
      (simp_all add: addr sq_put_def put_done_def put_error_def sq_get_state take_event_store
         split: option.splits)
  show "sq_store s a @ sent_event r p = taken_event a s p @ sq_store (sq_step it p s) a"
  proof (cases "reads_addr s p")
    case None
    with assms(3) show ?thesis
      by (cases p)
         (simp_all add: addr taken_event_def sq_put_def put_done_def put_error_def sq_get_state)
  next
    case (Some b)
    then have "sq_step it p s = snd (take_event b s)" and "sent_event r p = []"
      by (cases p; simp add: sq_get_state)+
    with taken_event_reads [OF Some, of a] show ?thesis by simp
  qed
qed

lemma sq_run_addr:
  assumes it: "\<And>c. mset (it c) = mset c"
    and "sq_inv s" and "sq_queues s r = Some a" and "Close r \<notin> set ps"
  shows "sq_queues (sq_run it ps s) r = Some a \<and>
    sq_store s a @ sent_events r ps = taken_events it a ps s @ sq_store (sq_run it ps s) a"
  using assms(2-)
proof (induction ps arbitrary: s)
  case Nil
  then show ?case by (simp add: sent_events_def)
next
  case (Cons p ps)
  let ?t = "sq_step it p s"
  from Cons.prems have step: "sq_inv ?t" "sq_queues ?t r = Some a"
    "sq_store s a @ sent_event r p = taken_event a s p @ sq_store ?t a"
    using sq_step_inv [OF it, of s p] sq_step_addr [of s r a p it] by auto
  with Cons.IH [of ?t] Cons.prems
  have "sq_queues (sq_run it ps ?t) r = Some a"
    "sq_store ?t a @ sent_events r ps = taken_events it a ps ?t @ sq_store (sq_run it ps ?t) a"
    by auto
  with step(3) show ?case
    by (simp add: sent_events_def) (metis append.assoc)
qed

lemma sq_run_inv:
  assumes "\<And>c. mset (it c) = mset c" and "sq_inv s"
  shows "sq_inv (sq_run it ps s)"
  using assms by (induction ps arbitrary: s) (auto intro: sq_step_inv)

lemma take_event_split:
  "sq_store s a = e # es \<Longrightarrow> take_event a s = (Some e, s\<lparr>sq_store := (sq_store s)(a := es)\<rparr>)"
  by (simp add: take_event_def)

section \<open>Properties\<close>



text \<open>
  Closing a request wakes a blocked reader with a proper end of stream: whatever was queued
  before the close is still read first, in order, and the next event after it is the done sentinel,
  which \<open>get\<close> turns into None. A reader that arrives after the close, while the id is remembered as
  closed, also gets None instead of an error.
\<close>

theorem close_wakes_reader:
  assumes "sq_queues s r = Some a"
  shows "sq_store (sq_close it r s) a = sq_store s a @ [StreamSignal None True None] \<and>
    (sq_store s a = [] \<longrightarrow> fst (resume_get a (sq_close it r s)) = GotNone) \<and>
    \<not> sq_has r (sq_close it r s) \<and>
    (r \<in> set (sq_closed (sq_close it r s)) \<longrightarrow> fst (sq_get r (sq_close it r s)) = GotNone)"
  using assms
  by (auto simp: sq_close_def Let_def put_nowait_def resume_get_def take_event_def sq_has_def sq_get_def)

theorem close_wakes_reader_witness:
  "let s = sq_run (\<lambda>c. c) [Open ''a''] (stream_queue_init :: int stream_queue)
   in sq_queues s ''a'' = Some 0 \<and>
      fst (resume_get 0 (sq_close (\<lambda>c. c) ''a'' s)) = GotNone \<and>
      fst (sq_get ''a'' (sq_close (\<lambda>c. c) ''a'' s)) = GotNone"
proof -
  let ?s = "sq_run (\<lambda>c. c) [Open ''a''] (stream_queue_init :: int stream_queue)"
  have s: "sq_queues ?s ''a'' = Some 0" "sq_store ?s 0 = []"
    "''a'' \<in> set (sq_closed (sq_close (\<lambda>c. c) ''a'' ?s))"
    by (simp_all add: sq_open_def stream_queue_init_def sq_close_def put_nowait_def cap_closed_def)
  show ?thesis
    using s close_wakes_reader [OF s(1), of "\<lambda>c. c"] unfolding Let_def by blast
qed

text \<open>
  The memory of closed requests stays bounded: after any interleaving of operations it holds
  each id at most once and at most 10000 ids, whatever order the set is iterated in when it is cut.
\<close>

theorem closed_ids_bounded:
  assumes "\<And>c. mset (it c) = mset c"
  shows "distinct (sq_closed (sq_run it ps stream_queue_init)) \<and>
    length (sq_closed (sq_run it ps stream_queue_init)) \<le> 10000"
  using sq_run_inv [OF assms sq_inv_init, of ps] by (simp add: sq_inv_def)

theorem closed_ids_bounded_witness:
  "length (sq_closed (sq_run rev [Open ''a'', Close ''a'', Close ''b'']
     (stream_queue_init :: int stream_queue))) \<le> 10000"
  using closed_ids_bounded [of rev "[Open ''a'', Close ''a'', Close ''b''] :: int stream_op list"] by simp

end
