(* ===== verification/Fan_In.thy ===== *)
theory Fan_In
  imports Omni_Prelude
begin

text \<open>
  The input handlers of \<^verbatim>\<open>sglang_omni/pipeline/stage/input.py\<close>: \<open>DirectInput\<close> passes a
  payload through, \<open>AggregatedInput\<close> waits for a request's payloads from several stages and merges
  them. A raising call keeps the changes it made before the raise, so every operation returns its
  outcome together with the state it leaves. The merge function and the dynamic fan-in resolver
  are arguments of the model, as they are of the class. Both handlers interpret the locale that
  states what a stage relies on.
\<close>

section \<open>What a stage relies on\<close>

text \<open>
  \<open>view s r\<close> is what the handler remembers of request \<open>r\<close>; \<open>fresh\<close> is the view of a request it
  knows nothing about.
\<close>

locale input_handler =
  fixes receive :: "string \<Rightarrow> string \<Rightarrow> 'p \<Rightarrow> 's \<Rightarrow> 'm option result \<times> 's"
    and cancel :: "string \<Rightarrow> 's \<Rightarrow> 's"
    and view :: "'s \<Rightarrow> string \<Rightarrow> 'v"
    and fresh :: 'v
  assumes receive_other: "r' \<noteq> r \<Longrightarrow> view (snd (receive r src d s)) r' = view s r'"
    and receive_local: "view s r = view t r \<Longrightarrow>
      fst (receive r src d s) = fst (receive r src d t) \<and>
      view (snd (receive r src d s)) r = view (snd (receive r src d t)) r"
    and receive_ready: "fst (receive r src d s) = Inr (Some m) \<Longrightarrow> view (snd (receive r src d s)) r = fresh"
    and cancel_other: "r' \<noteq> r \<Longrightarrow> view (cancel r s) r' = view s r'"
    and cancel_fresh: "view (cancel r s) r = fresh"
begin

text \<open>Feeding a list of messages (request, source, payload); the outcomes come back in order.\<close>

fun receive_all :: "(string \<times> string \<times> 'p) list \<Rightarrow> 's \<Rightarrow> 'm option result list \<times> 's" where
  "receive_all [] s = ([], s)"
| "receive_all ((r, src, d) # ms) s =
     (let (x, s') = receive r src d s; (xs, s'') = receive_all ms s' in (x # xs, s''))"

lemma receive_all_Cons:
  "fst (receive_all ((r, src, d) # ms) s) =
     fst (receive r src d s) # fst (receive_all ms (snd (receive r src d s)))"
  "snd (receive_all ((r, src, d) # ms) s) = snd (receive_all ms (snd (receive r src d s)))"
  by (simp_all add: split_beta)

text \<open>The outcomes a request sees depend only on its own messages, however others interleave.\<close>

lemma receive_all_isolated:
  assumes "view s r = view t r"
  shows "map snd (filter (\<lambda>((r', _), _). r' = r) (zip ms (fst (receive_all ms s)))) =
      fst (receive_all (filter (\<lambda>(r', _). r' = r) ms) t) \<and>
    view (snd (receive_all ms s)) r = view (snd (receive_all (filter (\<lambda>(r', _). r' = r) ms) t)) r"
  using assms
proof (induction ms arbitrary: s t)
  case (Cons m ms)
  obtain r' src d where m: "m = (r', src, d)" by (cases m) auto
  show ?case
  proof (cases "r' = r")
    case True
    with Cons.IH [of "snd (receive r src d s)" "snd (receive r src d t)"] receive_local [OF Cons.prems]
    show ?thesis by (simp add: m receive_all_Cons del: receive_all.simps)
  next
    case False
    then have "view (snd (receive r' src d s)) r = view t r"
      using Cons.prems by (simp add: receive_other)
    with Cons.IH [of "snd (receive r' src d s)" t] False
    show ?thesis by (simp add: m receive_all_Cons del: receive_all.simps)
  qed
qed simp

end

section \<open>Direct pass-through\<close>

definition direct_receive :: "string \<Rightarrow> string \<Rightarrow> 'p \<Rightarrow> unit \<Rightarrow> 'p option result \<times> unit" where
  "direct_receive r src d s = (Inr (Some d), s)"

definition direct_cancel :: "string \<Rightarrow> unit \<Rightarrow> unit" where
  "direct_cancel r s = s"

interpretation direct: input_handler direct_receive direct_cancel "\<lambda>s r. ()" "()"
  by unfold_locales (simp_all add: direct_receive_def)

section \<open>Aggregated fan-in\<close>

text \<open>What a dynamic resolver returns: one name, an iterable of values, or something else.\<close>

datatype source_value = SStr string | SOther

datatype resolved = RStr string | RIter "source_value list" | RUnsupported

record 'p fan_in =
  fi_pending :: "string \<Rightarrow> (string, 'p) dict option"
  fi_expected :: "string \<Rightarrow> string set option"

type_synonym 'p resolver = "string \<Rightarrow> string \<Rightarrow> 'p \<Rightarrow> resolved option result"

definition fan_in_init :: "'p fan_in" where
  "fan_in_init = \<lparr>fi_pending = (\<lambda>_. None), fi_expected = (\<lambda>_. None)\<rparr>"

definition normalize_expected_sources :: "string set \<Rightarrow> resolved \<Rightarrow> string set result" where
  "normalize_expected_sources sources res =
     bind_r (case res of RStr x \<Rightarrow> Inr [SStr x] | RIter xs \<Rightarrow> Inr xs
             | RUnsupported \<Rightarrow> Inl (ValueError ''unsupported sources''))
       (\<lambda>expected.
          if expected = [] then Inl (ValueError ''no sources'')
          else if SOther \<in> set expected then Inl (ValueError ''non-string sources'')
          else let names = {x. SStr x \<in> set expected}
               in if names - sources \<noteq> {} then Inl (ValueError ''outside static wait_for'')
                  else Inr names)"

text \<open>
  The expected sources of the request, resolving and storing them on first use. None means that a
  resolver is set and has not decided yet.
\<close>

definition expected_for ::
  "string set \<Rightarrow> 'p resolver option \<Rightarrow> string \<Rightarrow> string \<Rightarrow> 'p \<Rightarrow> 'p fan_in \<Rightarrow>
   string set option result \<times> 'p fan_in" where
  "expected_for sources fn r src d s =
     (case fi_expected s r of
        Some ex \<Rightarrow> (Inr (Some ex), s)
      | None \<Rightarrow>
          (case fn of
             None \<Rightarrow> (Inr (Some sources), s)
           | Some f \<Rightarrow>
               (case f r src d of
                  Inl e \<Rightarrow> (Inl e, s)
                | Inr None \<Rightarrow> (Inr None, s)
                | Inr (Some res) \<Rightarrow>
                    (case normalize_expected_sources sources res of
                       Inl e \<Rightarrow> (Inl e, s)
                     | Inr ex \<Rightarrow> (Inr (Some ex), s\<lparr>fi_expected := (fi_expected s)(r \<mapsto> ex)\<rparr>)))))"

definition aggregated_receive ::
  "string set \<Rightarrow> ((string, 'p) dict \<Rightarrow> 'm result) \<Rightarrow> 'p resolver option \<Rightarrow>
   string \<Rightarrow> string \<Rightarrow> 'p \<Rightarrow> 'p fan_in \<Rightarrow> 'm option result \<times> 'p fan_in" where
  "aggregated_receive sources merge fn r src d s =
     (if src \<notin> sources then (Inr None, s)
      else
        let inputs = dict_set src d (case fi_pending s r of None \<Rightarrow> [] | Some p \<Rightarrow> p);
            (ex, s) = expected_for sources fn r src d (s\<lparr>fi_pending := (fi_pending s)(r \<mapsto> inputs)\<rparr>)
        in case ex of
             Inl e \<Rightarrow> (Inl e, s)
           | Inr None \<Rightarrow> (Inr None, s)
           | Inr (Some expected) \<Rightarrow>
               let pending_sources = set (dict_keys inputs) in
               if pending_sources - expected \<noteq> {}
               then (Inl (ValueError ''received sources outside expected fan-in''), s)
               else if pending_sources = expected
               then (bind_r (merge inputs) (\<lambda>m. Inr (Some m)),
                     s\<lparr>fi_pending := (fi_pending s)(r := None), fi_expected := (fi_expected s)(r := None)\<rparr>)
               else (Inr None, s))"

definition aggregated_cancel :: "string \<Rightarrow> 'p fan_in \<Rightarrow> 'p fan_in" where
  "aggregated_cancel r s =
     s\<lparr>fi_pending := (fi_pending s)(r := None), fi_expected := (fi_expected s)(r := None)\<rparr>"

definition fan_in_view :: "'p fan_in \<Rightarrow> string \<Rightarrow> (string, 'p) dict option \<times> string set option" where
  "fan_in_view s r = (fi_pending s r, fi_expected s r)"

section \<open>The aggregated handler meets the contract\<close>

lemma expected_for_other:
  "r' \<noteq> r \<Longrightarrow> fan_in_view (snd (expected_for sources fn r src d s)) r' = fan_in_view s r'"
  by (auto simp: expected_for_def fan_in_view_def split: option.splits sum.splits)

lemma expected_for_local:
  assumes "fan_in_view s r = fan_in_view t r"
  shows "fst (expected_for sources fn r src d s) = fst (expected_for sources fn r src d t)"
    and "fan_in_view (snd (expected_for sources fn r src d s)) r =
      fan_in_view (snd (expected_for sources fn r src d t)) r"
  using assms by (auto simp: expected_for_def fan_in_view_def split: option.splits sum.splits)

lemma expected_for_pending:
  "fi_pending (snd (expected_for sources fn r src d s)) = fi_pending s"
  by (auto simp: expected_for_def split: option.splits sum.splits)

lemma view_update [simp]:
  "fan_in_view (s\<lparr>fi_pending := (fi_pending s)(r := x)\<rparr>) r' =
     (if r' = r then (x, fi_expected s r) else fan_in_view s r')"
  "fan_in_view (s\<lparr>fi_pending := (fi_pending s)(r := x), fi_expected := (fi_expected s)(r := y)\<rparr>) r' =
     (if r' = r then (x, y) else fan_in_view s r')"
  by (auto simp: fan_in_view_def)

interpretation aggregated: input_handler "aggregated_receive sources merge fn" aggregated_cancel
  fan_in_view "(None, None)" for sources merge fn
proof (unfold_locales, goal_cases)
  case (1 r' r src d s)
  then show ?case
    by (auto simp: aggregated_receive_def Let_def split_beta expected_for_other split: sum.splits option.splits)
next
  case (2 s r t src d)
  let ?in = "\<lambda>s. dict_set src d (case fi_pending s r of None \<Rightarrow> [] | Some p \<Rightarrow> p)"
  let ?s = "s\<lparr>fi_pending := (fi_pending s)(r \<mapsto> ?in s)\<rparr>"
  let ?t = "t\<lparr>fi_pending := (fi_pending t)(r \<mapsto> ?in t)\<rparr>"
  from 2 have "?in s = ?in t" and "fan_in_view ?s r = fan_in_view ?t r"
    by (simp_all add: fan_in_view_def)
  note eq = this(1) expected_for_local [OF this(2), of sources fn src d]
  with 2 show ?case
    by (auto simp: aggregated_receive_def Let_def split_beta split: sum.splits option.splits)
next
  case (3 r src d s m)
  then show ?case
    by (auto simp: aggregated_receive_def Let_def split_beta split: sum.splits option.splits if_splits)
qed (simp_all add: aggregated_cancel_def)

section \<open>Firing\<close>

lemma normalize_expected_sources_Inr:
  "normalize_expected_sources sources res = Inr ex \<Longrightarrow> ex \<noteq> {} \<and> ex \<subseteq> sources"
  by (cases res)
     (auto simp: normalize_expected_sources_def bind_r_def Let_def neq_Nil_conv split: if_splits,
      metis source_value.exhaust)

lemma static_step:
  assumes "src \<in> sources" and "fi_expected s r = None"
    and "fi_pending s r = (if p = [] then None else Some p)"
    and "src \<notin> set (dict_keys p)" and "set (dict_keys p) \<subseteq> sources"
  shows "fst (aggregated_receive sources merge None r src d s) =
      (if insert src (set (dict_keys p)) = sources
       then bind_r (merge (p @ [(src, d)])) (\<lambda>m. Inr (Some m)) else Inr None)"
    and "fan_in_view (snd (aggregated_receive sources merge None r src d s)) r =
      (if insert src (set (dict_keys p)) = sources then (None, None) else (Some (p @ [(src, d)]), None))"
proof -
  have new: "dict_set src d p = p @ [(src, d)]"
    using assms(4) by (intro dict_set_new) (simp add: dict_has_def)
  have old: "(case fi_pending s r of None \<Rightarrow> [] | Some p \<Rightarrow> p) = p"
    using assms(3) by simp
  have keys: "set (dict_keys (p @ [(src, d)])) = insert src (set (dict_keys p))" by auto
  show "fst (aggregated_receive sources merge None r src d s) =
      (if insert src (set (dict_keys p)) = sources
       then bind_r (merge (p @ [(src, d)])) (\<lambda>m. Inr (Some m)) else Inr None)"
    and "fan_in_view (snd (aggregated_receive sources merge None r src d s)) r =
      (if insert src (set (dict_keys p)) = sources then (None, None) else (Some (p @ [(src, d)]), None))"
    using assms(1,2,5)
    by (auto simp: aggregated_receive_def expected_for_def Let_def old new keys fan_in_view_def)
qed

lemma static_run:
  assumes "xs \<noteq> []" and "distinct (map fst (p @ xs))" and "set (map fst (p @ xs)) = sources"
    and "fi_expected s r = None" and "fi_pending s r = (if p = [] then None else Some p)"
  shows "fst (aggregated.receive_all sources merge None (map (Pair r) xs) s) =
      replicate (length xs - 1) (Inr None) @ [bind_r (merge (p @ xs)) (\<lambda>m. Inr (Some m))] \<and>
    fan_in_view (snd (aggregated.receive_all sources merge None (map (Pair r) xs) s)) r = (None, None)"
  using assms
proof (induction xs arbitrary: p s)
  case (Cons x xs)
  obtain src d where x: "x = (src, d)" by (cases x)
  let ?t = "snd (aggregated_receive sources merge None r src d s)"
  from Cons.prems x have src: "src \<in> sources" "src \<notin> set (dict_keys p)" "set (dict_keys p) \<subseteq> sources"
    by auto
  note step = static_step [OF src(1) Cons.prems(4,5) src(2,3)]
  show ?case
  proof (cases "xs = []")
    case True
    with Cons.prems x have "insert src (set (dict_keys p)) = sources" by auto
    with True x show ?thesis
      by (simp add: aggregated.receive_all_Cons step del: aggregated.receive_all.simps(2))
  next
    case False
    then obtain y ys where "xs = y # ys" by (cases xs) auto
    with Cons.prems(2,3) x have "fst y \<in> sources" and "fst y \<notin> insert src (set (dict_keys p))"
      by (cases y; force)+
    then have part: "insert src (set (dict_keys p)) \<noteq> sources" by blast
    then have t: "fi_pending ?t r = Some (p @ [(src, d)])" "fi_expected ?t r = None"
      using step(2) [of merge d] by (simp_all add: fan_in_view_def)
    have "fst (aggregated.receive_all sources merge None (map (Pair r) xs) ?t) =
        replicate (length xs - 1) (Inr None) @ [bind_r (merge ((p @ [(src, d)]) @ xs)) (\<lambda>m. Inr (Some m))] \<and>
      fan_in_view (snd (aggregated.receive_all sources merge None (map (Pair r) xs) ?t)) r = (None, None)"
      using Cons.prems x False t by (intro Cons.IH) auto
    moreover obtain n where "length xs = Suc n" using False by (cases xs) auto
    ultimately show ?thesis
      using x part
      by (simp add: aggregated.receive_all_Cons step(1) del: aggregated.receive_all.simps(2))
  qed
qed simp

section \<open>Properties\<close>

text \<open>
  Static fan-in merges exactly once, whatever the arrival order and whatever other requests
  interleave. If the messages of request \<open>r\<close>, in their order, come one from each expected source,
  then every one of them but the last makes the stage wait, the last one returns the merge of all
  the payloads keyed by source in arrival order, and nothing of \<open>r\<close> is left behind.
\<close>

theorem static_fan_in_merges_once:
  assumes "filter (\<lambda>(r', _). r' = r) ms = map (Pair r) xs"
    and "xs \<noteq> []" and "distinct (map fst xs)" and "set (map fst xs) = sources"
    and "fan_in_view s r = (None, None)"
  shows "map snd (filter (\<lambda>((r', _), _). r' = r)
        (zip ms (fst (aggregated.receive_all sources merge None ms s)))) =
      replicate (length xs - 1) (Inr None) @ [bind_r (merge xs) (\<lambda>m. Inr (Some m))] \<and>
    fan_in_view (snd (aggregated.receive_all sources merge None ms s)) r = (None, None)"
proof -
  have "fi_pending s r = None" "fi_expected s r = None"
    using assms(5) by (simp_all add: fan_in_view_def)
  then show ?thesis
    using aggregated.receive_all_isolated [where s = s and t = s and r = r and ms = ms
        and sources = sources and merge = merge and fn = None] assms(1)
      static_run [of xs "[]" sources s r merge] assms(2-4)
    by simp
qed

theorem static_fan_in_merges_once_witness:
  "let ms = [(''a'', ''enc'', 1), (''b'', ''enc'', 9), (''a'', ''img'', 2::int)];
       merge = (\<lambda>d. Inr (sum_list (dict_values d)))
   in map snd (filter (\<lambda>((r', _), _). r' = ''a'')
        (zip ms (fst (aggregated.receive_all {''enc'', ''img''} merge None ms fan_in_init)))) =
      [Inr None, Inr (Some 3)]"
proof -
  let ?ms = "[(''a'', ''enc'', 1), (''b'', ''enc'', 9), (''a'', ''img'', 2::int)]"
  have "filter (\<lambda>(r', _). r' = ''a'') ?ms = map (Pair ''a'') [(''enc'', 1), (''img'', 2)]"
    and "fan_in_view fan_in_init ''a'' = (None, None)"
    and "set (map fst [(''enc'', 1), (''img'', 2::int)]) = {''enc'', ''img''}"
    and "distinct (map fst [(''enc'', 1), (''img'', 2::int)])"
    by (simp_all add: fan_in_view_def fan_in_init_def)
  from static_fan_in_merges_once [OF this(1) _ this(4,3,2), of "\<lambda>d. Inr (sum_list (dict_values d))"]
  show ?thesis by (simp add: Let_def bind_r_def)
qed



end
