(* ===== verification/Topology.thy ===== *)
theory Topology
  imports Omni_Prelude
begin

text \<open>
  Logical processes and replicas: replica names of \<^verbatim>\<open>sglang_omni/config/schema.py\<close>,
  the process compiler of \<^verbatim>\<open>sglang_omni/config/topology.py\<close> and the replica expansion
  and request bindings of \<^verbatim>\<open>sglang_omni/pipeline/replicas.py\<close>. The stage record
  holds the fields these functions read. The process-local edges a pipeline class declares are an
  argument. The binding policy is an interface, stated as a locale and interpreted by the round
  robin policy.
\<close>

section \<open>Replica instance names\<close>

definition rpartition :: "string \<Rightarrow> string \<Rightarrow> string \<times> string \<times> string" where
  "rpartition sep s =
     (case filter (\<lambda>i. take (length sep) (drop i s) = sep) [0..<Suc (length s)] of
        [] \<Rightarrow> ([], [], s)
      | is \<Rightarrow> (take (last is) s, sep, drop (last is + length sep) s))"

definition REPLICA_SEPARATOR :: string where
  "REPLICA_SEPARATOR = ''@r''"

definition replica_instance_name :: "string \<Rightarrow> nat \<Rightarrow> string" where
  "replica_instance_name logical_name replica_id = logical_name @ REPLICA_SEPARATOR @ str_nat replica_id"

definition parse_replica_instance_name :: "string \<Rightarrow> string \<times> nat option" where
  "parse_replica_instance_name name =
     (let (logical, sep, suffix) = rpartition REPLICA_SEPARATOR name
      in if sep = [] \<or> \<not> isdigit suffix then (name, None) else (logical, Some (int_str suffix)))"

section \<open>Stages and processes\<close>

datatype next_stage = NoNext | NextStage string | NextStages "string list"

datatype gpu = GpuId int | GpuIds "int list"

record stage_config =
  sc_name :: string
  sc_next :: next_stage
  sc_stream_to :: "string list"
  sc_wait_for :: "string list option"
  sc_gpu :: "gpu option"
  sc_tp_size :: nat
  sc_process :: "string option"
  sc_runtime_gpu_ids :: "int list option"
  sc_http_routes :: "string list"

record process_config =
  pc_num_replicas :: nat
  pc_replica_devices :: "int list option"

record logical_process =
  lp_name :: string
  lp_stage_names :: "string list"
  lp_tp_size :: nat
  lp_num_replicas :: nat
  lp_replica_devices :: "int list list option"

definition is_replicated :: "logical_process \<Rightarrow> bool" where
  "is_replicated p \<longleftrightarrow> lp_num_replicas p > 1"

record logical_process_plan =
  plan_processes :: "logical_process list"
  plan_stage_to_process :: "(string, string) dict"

definition has_replicas :: "logical_process_plan \<Rightarrow> bool" where
  "has_replicas plan = list_ex is_replicated (plan_processes plan)"

definition stage_process_name :: "stage_config \<Rightarrow> string result" where
  "stage_process_name st =
     (let process = (case sc_process st of None \<Rightarrow> [] | Some p \<Rightarrow> p)
      in if sc_tp_size st > 1 then Inr (if process \<noteq> [] then process else sc_name st)
         else if process = [] then Inl (ValueError ''must declare process'')
         else Inr process)"

definition group_stages_by_process :: "stage_config list \<Rightarrow> (string, stage_config list) dict result" where
  "group_stages_by_process stages =
     fold_r (\<lambda>st members. bind_r (stage_process_name st) (\<lambda>name.
         Inr (dict_set name ((case dict_get members name of None \<Rightarrow> [] | Some ms \<Rightarrow> ms) @ [st]) members)))
       stages []"

definition resolve_replica_devices ::
  "stage_config list \<Rightarrow> process_config \<Rightarrow> nat \<Rightarrow> int list list option result" where
  "resolve_replica_devices stages policy tp_size =
     (let has_gpu_stage = list_ex (\<lambda>st. sc_gpu st \<noteq> None) stages
      in case pc_replica_devices policy of
           None \<Rightarrow>
             if pc_num_replicas policy > 1 \<and> has_gpu_stage
             then Inl (ValueError ''requires replica_devices'')
             else Inr None
         | Some device_ids \<Rightarrow>
             if \<not> has_gpu_stage then Inl (ValueError ''has no GPU stage'')
             else if length device_ids \<noteq> pc_num_replicas policy * tp_size
             then Inl (ValueError ''replica_devices length'')
             else
               let replica_devices =
                     map (\<lambda>i. take tp_size (drop (i * tp_size) device_ids)) [0..<pc_num_replicas policy]
               in if list_all distinct replica_devices then Inr (Some replica_devices)
                  else Inl (ValueError ''must contain unique GPU ids''))"

definition build_logical_process ::
  "string \<Rightarrow> stage_config list \<Rightarrow> process_config option \<Rightarrow> logical_process result" where
  "build_logical_process name stages process_cfg =
     (let policy = (case process_cfg of
                      Some p \<Rightarrow> p | None \<Rightarrow> \<lparr>pc_num_replicas = 1, pc_replica_devices = None\<rparr>)
      in if pc_num_replicas policy > 1 \<and> list_ex (\<lambda>st. sc_runtime_gpu_ids st \<noteq> None) stages
         then Inl (ValueError ''Configure each native runtime GPU group as a separate stage'')
         else
           let tp_size = fold max (map sc_tp_size stages) 0
           in bind_r (resolve_replica_devices stages policy tp_size) (\<lambda>devices.
                Inr \<lparr>lp_name = name, lp_stage_names = map sc_name stages, lp_tp_size = tp_size,
                     lp_num_replicas = pc_num_replicas policy, lp_replica_devices = devices\<rparr>))"

definition pipeline_edges :: "stage_config list \<Rightarrow> (string \<times> string) list" where
  "pipeline_edges stages =
     concat (map (\<lambda>st.
       map (Pair (sc_name st))
         ((case sc_next st of NoNext \<Rightarrow> [] | NextStage t \<Rightarrow> [t] | NextStages ts \<Rightarrow> ts) @ sc_stream_to st) @
       map (\<lambda>source. (source, sc_name st)) (case sc_wait_for st of None \<Rightarrow> [] | Some ss \<Rightarrow> ss)) stages)"

definition cross_process_edges ::
  "stage_config list \<Rightarrow> logical_process_plan \<Rightarrow> (string \<times> string) set result" where
  "cross_process_edges stages plan =
     fold_r (\<lambda>(source, destination) edges.
         bind_r (dict_lookup (plan_stage_to_process plan) source) (\<lambda>p.
         bind_r (dict_lookup (plan_stage_to_process plan) destination) (\<lambda>q.
         Inr (if p \<noteq> q then insert (source, destination) edges else edges))))
       (pipeline_edges stages) {}"

definition validate_process_local_edges ::
  "(string \<times> string) set \<Rightarrow> (string \<times> string) set \<Rightarrow> unit result" where
  "validate_process_local_edges process_local_edges edges =
     (if edges \<inter> process_local_edges \<noteq> {} then Inl (ValueError ''Cross-process edge(s)'') else Inr ())"

definition compile_logical_processes ::
  "(string \<times> string) set \<Rightarrow> (string, process_config) dict \<Rightarrow> stage_config list \<Rightarrow>
   (logical_process_plan \<times> stage_config list) result" where
  "compile_logical_processes process_local_edges processes_cfg stages =
     bind_r (group_stages_by_process stages) (\<lambda>members.
     bind_r (map_r (\<lambda>(name, ms). build_logical_process name ms (dict_get processes_cfg name)) members) (\<lambda>processes.
     let plan = \<lparr>plan_processes = processes,
                 plan_stage_to_process =
                   dict_of (concat (map (\<lambda>p. map (\<lambda>s. (s, lp_name p)) (lp_stage_names p)) processes))\<rparr>
     in bind_r (cross_process_edges stages plan) (\<lambda>edges.
        bind_r (validate_process_local_edges process_local_edges edges) (\<lambda>_.
        Inr (plan, stages)))))"

section \<open>Replica topology\<close>

type_synonym replica_topology = "(string, string list) dict"

definition rt_is_replicated :: "replica_topology \<Rightarrow> string \<Rightarrow> bool" where
  "rt_is_replicated t logical_name = dict_has t logical_name"

definition rt_num_replicas :: "replica_topology \<Rightarrow> string \<Rightarrow> nat" where
  "rt_num_replicas t logical_name =
     (case dict_get t logical_name of None \<Rightarrow> 1 | Some instances \<Rightarrow> length instances)"

definition rt_instances :: "replica_topology \<Rightarrow> string \<Rightarrow> string list" where
  "rt_instances t logical_name =
     (case dict_get t logical_name of None \<Rightarrow> [logical_name] | Some instances \<Rightarrow> instances)"

definition rt_resolve :: "replica_topology \<Rightarrow> string \<Rightarrow> int \<Rightarrow> string result" where
  "rt_resolve t logical_name replica_id =
     (case dict_get t logical_name of
        None \<Rightarrow> if replica_id \<noteq> 0 then Inl (ValueError ''is not replicated'') else Inr logical_name
      | Some instances \<Rightarrow>
          if \<not> (0 \<le> replica_id \<and> replica_id < int (length instances))
          then Inl (ValueError ''replica_id out of range'')
          else Inr (instances ! nat replica_id))"

definition rt_logical_name :: "replica_topology \<Rightarrow> string \<Rightarrow> string" where
  "rt_logical_name t name =
     (let (logical, replica_id) = parse_replica_instance_name name
      in if replica_id = None then name
         else case dict_get t logical of
                None \<Rightarrow> name
              | Some instances \<Rightarrow> if name \<notin> set instances then name else logical)"

definition replica_stage_gpu :: "stage_config \<Rightarrow> int list option \<Rightarrow> gpu option result" where
  "replica_stage_gpu st devices =
     (case devices of
        None \<Rightarrow> Inr (sc_gpu st)
      | Some ds \<Rightarrow>
          if sc_gpu st = None then Inr (sc_gpu st)
          else if sc_tp_size st = 1 then bind_r (nth_r ds 0) (\<lambda>d. Inr (Some (GpuId d)))
          else Inr (Some (GpuIds ds)))"

definition replica_names :: "logical_process list \<Rightarrow> replica_topology" where
  "replica_names processes =
     dict_of (concat (map (\<lambda>p.
       if is_replicated p
       then map (\<lambda>s. (s, map (replica_instance_name s) [0..<lp_num_replicas p])) (lp_stage_names p)
       else []) processes))"

text \<open>The copy of one member stage in one replica of its process.\<close>

definition replica_copy ::
  "(string, stage_config) dict \<Rightarrow> replica_topology \<Rightarrow> logical_process \<Rightarrow> nat \<Rightarrow> string \<Rightarrow> stage_config result" where
  "replica_copy stage_by_name replicas p i stage_name =
     bind_r (case lp_replica_devices p of
               None \<Rightarrow> Inr None | Some dss \<Rightarrow> bind_r (nth_r dss i) (\<lambda>ds. Inr (Some ds))) (\<lambda>devices.
     bind_r (dict_lookup stage_by_name stage_name) (\<lambda>st.
     bind_r (dict_lookup replicas stage_name) (\<lambda>instances.
     bind_r (nth_r instances i) (\<lambda>instance_name.
     bind_r (replica_stage_gpu st devices) (\<lambda>g.
     Inr (st\<lparr>sc_name := instance_name, sc_gpu := g,
             sc_process := Some (replica_instance_name (lp_name p) i)\<rparr>))))))"

definition expand_process ::
  "(string, stage_config) dict \<Rightarrow> replica_topology \<Rightarrow> logical_process \<Rightarrow>
   (string, stage_config list) dict \<Rightarrow> (string, stage_config list) dict result" where
  "expand_process stage_by_name replicas p expanded =
     (if \<not> is_replicated p then
        (case lp_replica_devices p of
           None \<Rightarrow> Inr expanded
         | Some dss \<Rightarrow>
             fold_r (\<lambda>stage_name expanded.
                 bind_r (dict_lookup stage_by_name stage_name) (\<lambda>st.
                 bind_r (nth_r dss 0) (\<lambda>ds.
                 bind_r (replica_stage_gpu st (Some ds)) (\<lambda>g.
                 Inr (dict_set stage_name [st\<lparr>sc_gpu := g\<rparr>] expanded)))))
               (lp_stage_names p) expanded)
      else
        fold_r (\<lambda>(i, stage_name) expanded.
            bind_r (replica_copy stage_by_name replicas p i stage_name) (\<lambda>copy.
            Inr (dict_set stage_name
                   ((case dict_get expanded stage_name of None \<Rightarrow> [] | Some cs \<Rightarrow> cs) @ [copy]) expanded)))
          (concat (map (\<lambda>i. map (Pair i) (lp_stage_names p)) [0..<lp_num_replicas p])) expanded)"

definition expand_replica_stages ::
  "stage_config list \<Rightarrow> logical_process_plan \<Rightarrow> (stage_config list \<times> replica_topology) result" where
  "expand_replica_stages stages plan =
     (let replicas = replica_names (plan_processes plan);
          stage_by_name = dict_of (map (\<lambda>st. (sc_name st, st)) stages)
      in bind_r (fold_r (\<lambda>(stage_name, instances) _.
             bind_r (dict_lookup stage_by_name stage_name) (\<lambda>st.
               if sc_http_routes st \<noteq> [] then Inl (ValueError ''serves http_routes'') else Inr ()))
           replicas ()) (\<lambda>_.
         bind_r (fold_r (expand_process stage_by_name replicas) (plan_processes plan) []) (\<lambda>expanded_by_stage.
         Inr (concat (map (\<lambda>st. case dict_get expanded_by_stage (sc_name st) of
                                   None \<Rightarrow> [st] | Some cs \<Rightarrow> cs) stages),
              replicas))))"

definition validate_device_assignment :: "stage_config list \<Rightarrow> int option \<Rightarrow> unit result" where
  "validate_device_assignment stages device_count =
     (case device_count of
        None \<Rightarrow> Inr ()
      | Some n \<Rightarrow>
          fold_r (\<lambda>st _.
              case sc_gpu st of
                None \<Rightarrow> Inr ()
              | Some g \<Rightarrow>
                  let own = (case g of GpuId i \<Rightarrow> [i] | GpuIds is \<Rightarrow> is);
                      ids = (case sc_runtime_gpu_ids st of None \<Rightarrow> own | Some rs \<Rightarrow> if rs = [] then own else rs)
                  in if list_ex (\<lambda>i. i \<ge> n) ids then Inl (ValueError ''out of range'') else Inr ())
            stages ())"

section \<open>Request bindings\<close>

definition assign_replica_bindings ::
  "(string \<Rightarrow> nat \<Rightarrow> string \<Rightarrow> 's \<Rightarrow> int \<times> 's) \<Rightarrow> logical_process_plan \<Rightarrow> string \<Rightarrow> 's \<Rightarrow>
   (string, int) dict option result \<times> 's" where
  "assign_replica_bindings bind plan request_id s =
     (if \<not> has_replicas plan then (Inr None, s)
      else
        fold (\<lambda>p (acc, s).
            case acc of
              Inl e \<Rightarrow> (Inl e, s)
            | Inr bindings \<Rightarrow>
                if \<not> is_replicated p then (acc, s)
                else
                  let (index, s) = bind (lp_name p) (lp_num_replicas p) request_id s
                  in if \<not> (0 \<le> index \<and> index < int (lp_num_replicas p))
                     then (Inl (ValueError ''Binding policy selected replica''), s)
                     else (Inr (Some (fold (\<lambda>st. dict_set st index) (lp_stage_names p) (the bindings))), s))
          (plan_processes plan) (Inr (Some []), s))"

record round_robin =
  rr_counters :: "(string, int) dict"

definition round_robin_bind :: "string \<Rightarrow> nat \<Rightarrow> string \<Rightarrow> round_robin \<Rightarrow> int \<times> round_robin" where
  "round_robin_bind process_name num_replicas request_id s =
     (let index = (case dict_get (rr_counters s) process_name of None \<Rightarrow> 0 | Some i \<Rightarrow> i)
      in (index mod int num_replicas,
          s\<lparr>rr_counters := dict_set process_name (index + 1) (rr_counters s)\<rparr>))"

section \<open>Names: lemmas\<close>

lemma isdigit_no_at: "isdigit d \<Longrightarrow> CHR ''@'' \<notin> set d"
  by (auto simp: isdigit_def is_digit_def list_all_iff)

lemma last_filter_upt:
  assumes "P k" and "k < n" and "\<And>j. k < j \<Longrightarrow> j < n \<Longrightarrow> \<not> P j"
  shows "filter P [0..<n] \<noteq> [] \<and> last (filter P [0..<n]) = k"
proof -
  have "[0..<n] = [0..<Suc k] @ [Suc k..<n]"
    using assms(2) upt_add_eq_append [of 0 "Suc k" "n - Suc k"] by simp
  moreover have "filter P [Suc k..<n] = []"
    using assms(3) by (auto simp: filter_empty_conv)
  ultimately show ?thesis using assms(1) by simp
qed

lemma rpartition_separator:
  assumes "CHR ''@'' \<notin> set d"
  shows "rpartition REPLICA_SEPARATOR (l @ REPLICA_SEPARATOR @ d) = (l, REPLICA_SEPARATOR, d)"
proof -
  let ?s = "l @ REPLICA_SEPARATOR @ d"
  let ?P = "\<lambda>i. take (length REPLICA_SEPARATOR) (drop i ?s) = REPLICA_SEPARATOR"
  have "\<not> ?P j" if "length l < j" for j
  proof
    assume "?P j"
    then have "CHR ''@'' \<in> set (drop j ?s)"
      by (metis REPLICA_SEPARATOR_def in_set_takeD list.set_intros(1))
    moreover have "drop j ?s = drop (j - Suc (length l)) (CHR ''r'' # d)"
    proof -
      from that obtain n where "j = Suc (length l + n)" using less_iff_Suc_add by auto
      then show ?thesis by (simp add: REPLICA_SEPARATOR_def)
    qed
    ultimately have "CHR ''@'' \<in> set (CHR ''r'' # d)" by (metis in_set_dropD)
    with assms show False by simp
  qed
  then have "filter ?P [0..<Suc (length ?s)] \<noteq> [] \<and> last (filter ?P [0..<Suc (length ?s)]) = length l"
    by (intro last_filter_upt) (auto simp: REPLICA_SEPARATOR_def)
  then show ?thesis
    unfolding rpartition_def by (cases "filter ?P [0..<Suc (length ?s)]") auto
qed

lemma parse_replica_instance:
  "parse_replica_instance_name (replica_instance_name l n) = (l, Some n)"
  by (simp add: parse_replica_instance_name_def replica_instance_name_def rpartition_separator
      isdigit_str_nat isdigit_no_at int_str_str_nat) (simp add: REPLICA_SEPARATOR_def)

lemma replica_instance_name_inject [simp]:
  "replica_instance_name l n = replica_instance_name l' n' \<longleftrightarrow> l = l' \<and> n = n'"
  by (metis parse_replica_instance option.inject prod.inject)

section \<open>Process compilation: lemmas\<close>

lemma resolve_replica_devices_Some:
  assumes "resolve_replica_devices stages policy tp = Inr (Some dss)"
  shows "\<exists>ids. pc_replica_devices policy = Some ids \<and> length ids = pc_num_replicas policy * tp \<and>
    dss = map (\<lambda>i. take tp (drop (i * tp) ids)) [0..<pc_num_replicas policy] \<and> list_all distinct dss"
  using assms by (auto simp: resolve_replica_devices_def Let_def split: option.splits if_splits)

lemma concat_chunks:
  "length ids = n * tp \<Longrightarrow> concat (map (\<lambda>i. take tp (drop (i * tp) ids)) [0..<n]) = ids"
proof (induction n arbitrary: ids)
  case (Suc n)
  let ?c = "\<lambda>ids i. take tp (drop (i * tp) ids)"
  have "[0..<Suc n] = 0 # map Suc [0..<n]" by (simp add: upt_conv_Cons map_Suc_upt del: upt_Suc)
  then have "concat (map (?c ids) [0..<Suc n]) = take tp ids @ concat (map (?c (drop tp ids)) [0..<n])"
    by (simp add: o_def add.commute)
  also have "\<dots> = ids" using Suc.IH [of "drop tp ids"] Suc.prems by simp
  finally show ?case .
qed simp

text \<open>The groups hold, per process name, its stages in config order.\<close>

definition grouped :: "stage_config list \<Rightarrow> (string, stage_config list) dict \<Rightarrow> bool" where
  "grouped stages members \<longleftrightarrow>
     dict_ok members \<and>
     (\<forall>name. dict_get members name =
        (let ms = filter (\<lambda>st. stage_process_name st = Inr name) stages in if ms = [] then None else Some ms))"

lemma grouped_snoc:
  assumes "grouped stages members" and "stage_process_name st = Inr name"
  shows "grouped (stages @ [st])
    (dict_set name ((case dict_get members name of None \<Rightarrow> [] | Some ms \<Rightarrow> ms) @ [st]) members)"
  using assms by (auto simp: grouped_def Let_def split: if_splits)

lemma group_stages_by_process_grouped:
  "group_stages_by_process stages = Inr members \<Longrightarrow>
   grouped stages members \<and> (\<forall>st \<in> set stages. \<exists>name. stage_process_name st = Inr name)"
proof (induction stages arbitrary: members rule: rev_induct)
  case Nil
  then show ?case by (simp add: group_stages_by_process_def grouped_def)
next
  case (snoc st stages)
  then obtain m name where m: "group_stages_by_process stages = Inr m" "stage_process_name st = Inr name"
    "members = dict_set name ((case dict_get m name of None \<Rightarrow> [] | Some ms \<Rightarrow> ms) @ [st]) m"
    by (auto simp: group_stages_by_process_def fold_r_append bind_r_Inr_iff)
  with snoc.IH [OF m(1)] show ?case by (auto intro: grouped_snoc)
qed

lemma build_logical_process_Inr:
  "build_logical_process name ms cfg = Inr p \<Longrightarrow> lp_name p = name \<and> lp_stage_names p = map sc_name ms"
  by (auto simp: build_logical_process_def Let_def bind_r_Inr_iff split: if_splits)

lemma compile_members:
  assumes "compile_logical_processes local cfg stages = Inr (plan, stages')"
  obtains members edges where "group_stages_by_process stages = Inr members" "stages' = stages"
    "list_all2 (\<lambda>(name, ms) p. lp_name p = name \<and> lp_stage_names p = map sc_name ms)
       members (plan_processes plan)"
    "plan_stage_to_process plan = dict_of (concat (map (\<lambda>p. map (\<lambda>s. (s, lp_name p)) (lp_stage_names p))
       (plan_processes plan)))"
    "cross_process_edges stages plan = Inr edges" "edges \<inter> local = {}"
proof -
  let ?plan = "\<lambda>processes. \<lparr>plan_processes = processes, plan_stage_to_process =
       dict_of (concat (map (\<lambda>p. map (\<lambda>s. (s, lp_name p)) (lp_stage_names p)) processes))\<rparr>"
  obtain members where members: "group_stages_by_process stages = Inr members"
    using assms unfolding compile_logical_processes_def by (rule bind_r_InrE)
  obtain processes where processes:
    "map_r (\<lambda>(name, ms). build_logical_process name ms (dict_get cfg name)) members = Inr processes"
    using assms unfolding compile_logical_processes_def members bind_r_simps by (rule bind_r_InrE)
  obtain edges where edges: "cross_process_edges stages (?plan processes) = Inr edges"
    using assms unfolding compile_logical_processes_def members processes bind_r_simps Let_def
    by (rule bind_r_InrE)
  have m: "plan = ?plan processes" "edges \<inter> local = {}" "stages' = stages"
    using assms unfolding compile_logical_processes_def members processes bind_r_simps Let_def edges
      validate_process_local_edges_def by (auto split: if_splits)
  have "list_all2 (\<lambda>(name, ms) p. lp_name p = name \<and> lp_stage_names p = map sc_name ms) members processes"
    using processes unfolding map_r_Inr_iff
    by (rule list_all2_mono) (auto dest: build_logical_process_Inr)
  with m members edges that [of members edges] show ?thesis by simp
qed

lemma members_processes:
  assumes "list_all2 (\<lambda>(name, ms) p. lp_name p = name \<and> lp_stage_names p = map sc_name ms) members ps"
  shows "map lp_name ps = dict_keys members"
    and "concat (map lp_stage_names ps) = map sc_name (concat (dict_values members))"
    and "p \<in> set ps \<Longrightarrow> \<exists>ms. (lp_name p, ms) \<in> set members \<and> lp_stage_names p = map sc_name ms"
    and "(name, ms) \<in> set members \<Longrightarrow> \<exists>p \<in> set ps. lp_name p = name \<and> lp_stage_names p = map sc_name ms"
  using assms by (induction rule: list_all2_induct) (auto simp: map_concat)

lemma mset_concat_set:
  "dict_ok d \<Longrightarrow>
   mset (concat (dict_values (dict_set k ((case dict_get d k of None \<Rightarrow> [] | Some xs \<Rightarrow> xs) @ [x]) d))) =
   add_mset x (mset (concat (dict_values d)))"
  by (induction d) auto

lemma group_stages_by_process_mset:
  "group_stages_by_process stages = Inr members \<Longrightarrow> mset (concat (dict_values members)) = mset stages"
proof (induction stages arbitrary: members rule: rev_induct)
  case Nil
  then show ?case by (simp add: group_stages_by_process_def)
next
  case (snoc st stages)
  then obtain m name where m: "group_stages_by_process stages = Inr m"
    "members = dict_set name ((case dict_get m name of None \<Rightarrow> [] | Some ms \<Rightarrow> ms) @ [st]) m"
    by (auto simp: group_stages_by_process_def fold_r_append bind_r_Inr_iff)
  moreover have "dict_ok m" using group_stages_by_process_grouped [OF m(1)] by (simp add: grouped_def)
  ultimately show ?case using snoc.IH [OF m(1)] by (simp add: mset_concat_set)
qed

lemma stage_to_process_get:
  assumes "distinct (concat (map lp_stage_names ps))" and "p \<in> set ps" and "s \<in> set (lp_stage_names p)"
  shows "dict_get (dict_of (concat (map (\<lambda>p. map (\<lambda>s. (s, lp_name p)) (lp_stage_names p)) ps))) s = Some (lp_name p)"
proof -
  let ?es = "concat (map (\<lambda>p. map (\<lambda>s. (s, lp_name p)) (lp_stage_names p)) ps)"
  have "map fst ?es = concat (map lp_stage_names ps)" by (simp add: map_concat o_def)
  with assms(1) have "distinct (map fst ?es)" by simp
  moreover have "(s, lp_name p) \<in> set ?es" using assms(2,3) by auto
  ultimately show ?thesis by (simp add: dict_of_distinct map_of_is_SomeI)
qed

lemma cross_process_edges_Inr:
  assumes "cross_process_edges stages plan = Inr edges" and "(a, b) \<in> set (pipeline_edges stages)"
    and "dict_get (plan_stage_to_process plan) a \<noteq> dict_get (plan_stage_to_process plan) b"
  shows "(a, b) \<in> edges"
proof -
  let ?f = "\<lambda>(source, destination) edges.
         bind_r (dict_lookup (plan_stage_to_process plan) source) (\<lambda>p.
         bind_r (dict_lookup (plan_stage_to_process plan) destination) (\<lambda>q.
         Inr (if p \<noteq> q then insert (source, destination) edges else edges)))"
  have "fold_r ?f es E = Inr E' \<Longrightarrow> (a, b) \<in> set es \<or> (a, b) \<in> E \<Longrightarrow> (a, b) \<in> E'" for es E E'
  proof (induction es arbitrary: E)
    case (Cons e es)
    obtain x y where e: "e = (x, y)" by (cases e)
    from Cons.prems(1) e obtain p q where pq: "dict_get (plan_stage_to_process plan) x = Some p"
      "dict_get (plan_stage_to_process plan) y = Some q"
      "fold_r ?f es (if p \<noteq> q then insert (x, y) E else E) = Inr E'"
      by (auto simp: bind_r_Inr_iff)
    have "(a, b) \<in> set es \<or> (a, b) \<in> (if p \<noteq> q then insert (x, y) E else E)"
      using Cons.prems(2) e pq(1,2) assms(3) by auto
    with pq(3) show ?case by (rule Cons.IH)
  qed simp
  with assms(1,2) show ?thesis unfolding cross_process_edges_def by blast
qed

section \<open>Replica expansion: lemmas\<close>

definition held_copies :: "(string, stage_config list) dict \<Rightarrow> string \<Rightarrow> stage_config list" where
  "held_copies e s = (case dict_get e s of None \<Rightarrow> [] | Some cs \<Rightarrow> cs)"

definition copy_id :: "stage_config \<Rightarrow> string \<times> string option" where
  "copy_id c = (sc_name c, sc_process c)"

definition copy_ids :: "logical_process \<Rightarrow> nat \<Rightarrow> string \<Rightarrow> (string \<times> string option) list" where
  "copy_ids p n s = map (\<lambda>i. (replica_instance_name s i, Some (replica_instance_name (lp_name p) i))) [0..<n]"

lemma replica_names_get:
  assumes "dict_get (replica_names ps) l = Some instances"
  shows "\<exists>p \<in> set ps. is_replicated p \<and> l \<in> set (lp_stage_names p) \<and>
    instances = map (replica_instance_name l) [0..<lp_num_replicas p]"
  using assms unfolding replica_names_def dict_of_get
  by (auto dest!: map_of_SomeD split: if_splits)

lemma replica_names_distinct:
  assumes "distinct (concat (map lp_stage_names ps))" and "p \<in> set ps" and "l \<in> set (lp_stage_names p)"
  shows "dict_get (replica_names ps) l =
    (if is_replicated p then Some (map (replica_instance_name l) [0..<lp_num_replicas p]) else None)"
proof -
  let ?es = "concat (map (\<lambda>p. if is_replicated p
       then map (\<lambda>s. (s, map (replica_instance_name s) [0..<lp_num_replicas p])) (lp_stage_names p)
       else []) ps)"
  have keys: "map fst ?es = concat (map (\<lambda>p. if is_replicated p then lp_stage_names p else []) ps)"
    by (induction ps) (auto simp: o_def)
  have uniq: "p' = p" if "p' \<in> set ps" "l \<in> set (lp_stage_names p')" for p'
    using that assms by (induction ps) fastforce+
  have "distinct (concat (map (\<lambda>p. if is_replicated p then lp_stage_names p else []) ps))"
    using assms(1) by (induction ps) fastforce+
  with keys have d: "distinct (map fst ?es)" by simp
  show ?thesis
  proof (cases "is_replicated p")
    case True
    then have "(l, map (replica_instance_name l) [0..<lp_num_replicas p]) \<in> set ?es"
      using assms(2,3) by auto
    with d True show ?thesis unfolding replica_names_def by (simp add: dict_of_distinct map_of_is_SomeI)
  next
    case False
    then have "l \<notin> set (map fst ?es)" unfolding keys using uniq by auto
    with d False show ?thesis unfolding replica_names_def by (simp add: dict_of_distinct map_of_eq_None_iff)
  qed
qed

lemma replica_copy_id:
  assumes "replica_copy sbn replicas p i s = Inr c"
    and "dict_get replicas s = Some (map (replica_instance_name s) [0..<n])"
  shows "i < n \<and> copy_id c = (replica_instance_name s i, Some (replica_instance_name (lp_name p) i))"
  using assms unfolding replica_copy_def
  by (auto simp: copy_id_def bind_r_Inr_iff split: option.splits)

abbreviation append_copy where
  "append_copy sbn replicas p \<equiv> (\<lambda>(i, stage_name) expanded.
      bind_r (replica_copy sbn replicas p i stage_name) (\<lambda>copy.
      Inr (dict_set stage_name
             ((case dict_get expanded stage_name of None \<Rightarrow> [] | Some cs \<Rightarrow> cs) @ [copy]) expanded)))"

lemma append_copies_one:
  assumes "fold_r (append_copy sbn replicas p) (map (Pair i) names) e = Inr e'" and "distinct names"
    and "\<And>s. s \<in> set names \<Longrightarrow> dict_get replicas s = Some (map (replica_instance_name s) [0..<n])"
  shows "map copy_id (held_copies e' s) = map copy_id (held_copies e s) @
    (if s \<in> set names then [(replica_instance_name s i, Some (replica_instance_name (lp_name p) i))] else [])"
    and "s \<notin> set names \<Longrightarrow> dict_get e' s = dict_get e s"
  using assms
proof (induction names arbitrary: e)
  case (Cons x names)
  { case 1
    then obtain c where c: "replica_copy sbn replicas p i x = Inr c"
      "fold_r (append_copy sbn replicas p) (map (Pair i) names) (dict_set x (held_copies e x @ [c]) e) = Inr e'"
      by (auto simp: bind_r_Inr_iff held_copies_def)
    from Cons.IH(1) [OF c(2)] replica_copy_id [OF c(1)] 1 show ?case
      by (auto simp: held_copies_def)
  next
    case 2
    then obtain c where c: "replica_copy sbn replicas p i x = Inr c"
      "fold_r (append_copy sbn replicas p) (map (Pair i) names) (dict_set x (held_copies e x @ [c]) e) = Inr e'"
      by (auto simp: bind_r_Inr_iff held_copies_def)
    from Cons.IH(2) [OF _ c(2)] 2 show ?case by auto }
qed (auto simp: held_copies_def)

lemma append_copies_all:
  assumes "fold_r (append_copy sbn replicas p) (concat (map (\<lambda>i. map (Pair i) names) [0..<k])) e = Inr e'"
    and "distinct names"
    and "\<And>s. s \<in> set names \<Longrightarrow> dict_get replicas s = Some (map (replica_instance_name s) [0..<n])"
  shows "map copy_id (held_copies e' s) =
      map copy_id (held_copies e s) @ (if s \<in> set names then copy_ids p k s else []) \<and>
    (s \<notin> set names \<longrightarrow> dict_get e' s = dict_get e s)"
  using assms(1)
proof (induction k arbitrary: e')
  case (Suc k)
  from Suc.prems obtain e1 where e1:
    "fold_r (append_copy sbn replicas p) (concat (map (\<lambda>i. map (Pair i) names) [0..<k])) e = Inr e1"
    "fold_r (append_copy sbn replicas p) (map (Pair k) names) e1 = Inr e'"
    by (auto simp: fold_r_append bind_r_Inr_iff)
  from Suc.IH [OF e1(1)] append_copies_one [OF e1(2) assms(2,3), of s]
  show ?case by (simp add: copy_ids_def)
qed (simp add: copy_ids_def)

text \<open>What the expansion of one process leaves in the table for each of its stages.\<close>

definition expanded_for ::
  "(string, stage_config) dict \<Rightarrow> logical_process \<Rightarrow> (string, stage_config list) dict \<Rightarrow> string \<Rightarrow> bool" where
  "expanded_for sbn p e s \<longleftrightarrow>
     (if is_replicated p then dict_get e s \<noteq> None \<and> map copy_id (held_copies e s) = copy_ids p (lp_num_replicas p) s
      else dict_get e s = None \<or>
        (\<exists>st g. dict_get sbn s = Some st \<and> dict_get e s = Some [st\<lparr>sc_gpu := g\<rparr>]))"

lemma expand_process_effect:
  assumes "expand_process sbn replicas p e = Inr e'" and "distinct (lp_stage_names p)"
    and "\<And>s. s \<in> set (lp_stage_names p) \<Longrightarrow> dict_get e s = None"
    and "\<And>s. is_replicated p \<Longrightarrow> s \<in> set (lp_stage_names p) \<Longrightarrow>
      dict_get replicas s = Some (map (replica_instance_name s) [0..<lp_num_replicas p])"
  shows "(s \<in> set (lp_stage_names p) \<longrightarrow> expanded_for sbn p e' s) \<and>
    (s \<notin> set (lp_stage_names p) \<longrightarrow> dict_get e' s = dict_get e s)"
proof (cases "is_replicated p")
  case True
  with assms(1) have "fold_r (append_copy sbn replicas p)
      (concat (map (\<lambda>i. map (Pair i) (lp_stage_names p)) [0..<lp_num_replicas p])) e = Inr e'"
    by (simp add: expand_process_def)
  note all = append_copies_all [OF this assms(2) assms(4) [OF True], of s]
  have "copy_ids p (lp_num_replicas p) s \<noteq> []"
    using True by (simp add: copy_ids_def is_replicated_def)
  with all True assms(3) [of s] show ?thesis
    by (auto simp: expanded_for_def held_copies_def split: option.splits)
next
  case False
  show ?thesis
  proof (cases "lp_replica_devices p")
    case None
    with False assms(1,3) show ?thesis by (auto simp: expand_process_def expanded_for_def)
  next
    case (Some dss)
    let ?body = "\<lambda>stage_name expanded.
       bind_r (dict_lookup sbn stage_name) (\<lambda>st. bind_r (nth_r dss 0) (\<lambda>ds.
       bind_r (replica_stage_gpu st (Some ds)) (\<lambda>g.
       Inr (dict_set stage_name [st\<lparr>sc_gpu := g\<rparr>] expanded))))"
    have "fold_r ?body names e = Inr e' \<Longrightarrow> (\<And>s. s \<in> set names \<Longrightarrow> expanded_for sbn p e s) \<Longrightarrow>
       (s \<in> set names \<longrightarrow> expanded_for sbn p e' s) \<and> (s \<notin> set names \<longrightarrow> dict_get e' s = dict_get e s)"
      for names e
    proof (induction names arbitrary: e)
      case (Cons x names)
      from Cons.prems(1) obtain st g where st: "dict_get sbn x = Some st"
        "fold_r ?body names (dict_set x [st\<lparr>sc_gpu := g\<rparr>] e) = Inr e'"
        by (auto simp: bind_r_Inr_iff)
      let ?e = "dict_set x [st\<lparr>sc_gpu := g\<rparr>] e"
      have x: "expanded_for sbn p ?e x" using False st(1) by (auto simp: expanded_for_def)
      have old: "expanded_for sbn p ?e s'" if "s' \<in> set names" for s'
        using that Cons.prems(2) [of s'] x False by (cases "s' = x") (auto simp: expanded_for_def)
      from Cons.IH [OF st(2) old] x show ?case
        by (cases "s \<in> set names") (auto simp: expanded_for_def False)
    qed simp
    with False Some assms(1,3) show ?thesis
      by (auto simp: expand_process_def expanded_for_def)
  qed
qed

lemma expand_processes_effect:
  assumes "fold_r (expand_process sbn replicas) ps e = Inr e'"
    and "distinct (concat (map lp_stage_names ps))"
    and "\<And>s. s \<in> set (concat (map lp_stage_names ps)) \<Longrightarrow> dict_get e s = None"
    and "\<And>p s. p \<in> set ps \<Longrightarrow> is_replicated p \<Longrightarrow> s \<in> set (lp_stage_names p) \<Longrightarrow>
      dict_get replicas s = Some (map (replica_instance_name s) [0..<lp_num_replicas p])"
  shows "(\<forall>p \<in> set ps. s \<in> set (lp_stage_names p) \<longrightarrow> expanded_for sbn p e' s) \<and>
    (s \<notin> set (concat (map lp_stage_names ps)) \<longrightarrow> dict_get e' s = dict_get e s)"
  using assms
proof (induction ps arbitrary: e)
  case (Cons p ps)
  from Cons.prems(1) obtain e1 where e1: "expand_process sbn replicas p e = Inr e1"
    "fold_r (expand_process sbn replicas) ps e1 = Inr e'" by (auto simp: bind_r_Inr_iff)
  have here: "(s \<in> set (lp_stage_names p) \<longrightarrow> expanded_for sbn p e1 s) \<and>
      (s \<notin> set (lp_stage_names p) \<longrightarrow> dict_get e1 s = dict_get e s)" for s
    using Cons.prems by (intro expand_process_effect [OF e1(1)]) auto
  have "dict_get e1 s' = None" if "s' \<in> set (concat (map lp_stage_names ps))" for s'
    using that here [of s'] Cons.prems(2,3) by auto
  then have rest: "(\<forall>p \<in> set ps. s \<in> set (lp_stage_names p) \<longrightarrow> expanded_for sbn p e' s) \<and>
      (s \<notin> set (concat (map lp_stage_names ps)) \<longrightarrow> dict_get e' s = dict_get e1 s)"
    using Cons.prems(2,4) by (intro Cons.IH [OF e1(2)]) auto
  have "expanded_for sbn p e' s" if "s \<in> set (lp_stage_names p)"
  proof -
    have "s \<notin> set (concat (map lp_stage_names ps))" using that Cons.prems(2) by auto
    with rest here [of s] that show ?thesis by (auto simp: expanded_for_def held_copies_def)
  qed
  with rest here [of s] show ?case by auto
qed simp

definition expected_copies :: "logical_process list \<Rightarrow> stage_config \<Rightarrow> (string \<times> string option) list" where
  "expected_copies ps st =
     (case find (\<lambda>p. is_replicated p \<and> sc_name st \<in> set (lp_stage_names p)) ps of
        None \<Rightarrow> [copy_id st] | Some p \<Rightarrow> copy_ids p (lp_num_replicas p) (sc_name st))"

lemma expand_one_stage:
  assumes "fold_r (expand_process sbn (replica_names ps)) ps [] = Inr e"
    and "distinct (concat (map lp_stage_names ps))" and "dict_get sbn (sc_name st) = Some st"
  shows "map copy_id (case dict_get e (sc_name st) of None \<Rightarrow> [st] | Some cs \<Rightarrow> cs) = expected_copies ps st"
proof -
  have eff: "(\<forall>p \<in> set ps. sc_name st \<in> set (lp_stage_names p) \<longrightarrow> expanded_for sbn p e (sc_name st)) \<and>
    (sc_name st \<notin> set (concat (map lp_stage_names ps)) \<longrightarrow> dict_get e (sc_name st) = None)"
    using expand_processes_effect [OF assms(1,2)] replica_names_distinct [OF assms(2)] by auto
  show ?thesis
  proof (cases "find (\<lambda>p. is_replicated p \<and> sc_name st \<in> set (lp_stage_names p)) ps")
    case (Some p)
    then have "p \<in> set ps" "is_replicated p" "sc_name st \<in> set (lp_stage_names p)"
      by (auto simp: find_Some_iff)
    with eff Some show ?thesis
      by (auto simp: expected_copies_def expanded_for_def held_copies_def split: option.splits)
  next
    case None
    then have "\<forall>p \<in> set ps. sc_name st \<in> set (lp_stage_names p) \<longrightarrow> \<not> is_replicated p"
      by (auto simp: find_None_iff)
    with eff assms(3) have "dict_get e (sc_name st) = None \<or>
        (\<exists>g. dict_get e (sc_name st) = Some [st\<lparr>sc_gpu := g\<rparr>])"
      by (auto simp: expanded_for_def)
    with None show ?thesis by (auto simp: expected_copies_def copy_id_def)
  qed
qed

section \<open>Bindings: lemmas\<close>

text \<open>What the coordinator relies on of a binding policy: it picks an existing replica.\<close>

locale binding_policy =
  fixes bind :: "string \<Rightarrow> nat \<Rightarrow> string \<Rightarrow> 's \<Rightarrow> int \<times> 's"
  assumes bind_in_range: "0 < n \<Longrightarrow> 0 \<le> fst (bind p n r s) \<and> fst (bind p n r s) < int n"
begin

abbreviation bind_step where
  "bind_step r \<equiv> (\<lambda>p (acc, s).
      case acc of
        Inl e \<Rightarrow> (Inl e, s)
      | Inr bindings \<Rightarrow>
          if \<not> is_replicated p then (acc, s)
          else
            let (index, s) = bind (lp_name p) (lp_num_replicas p) r s
            in if \<not> (0 \<le> index \<and> index < int (lp_num_replicas p))
               then (Inl (ValueError ''Binding policy selected replica''), s)
               else (Inr (Some (fold (\<lambda>st. dict_set st index) (lp_stage_names p) (the bindings))), s))"

lemma fold_dict_set_get:
  "dict_get (fold (\<lambda>st. dict_set st i) names b) st = (if st \<in> set names then Some i else dict_get b st)"
  by (induction names arbitrary: b) auto

lemma bind_step_eq:
  "is_replicated p \<Longrightarrow> bind_step r p (Inr (Some b), s) =
     (let i = fst (bind (lp_name p) (lp_num_replicas p) r s)
      in (Inr (Some (fold (\<lambda>st. dict_set st i) (lp_stage_names p) b)), snd (bind (lp_name p) (lp_num_replicas p) r s)))"
  using bind_in_range [of "lp_num_replicas p" "lp_name p" r s]
  by (auto simp: is_replicated_def Let_def split_beta)

lemma bind_fold:
  assumes "distinct (concat (map lp_stage_names ps))"
  shows "\<exists>b'. fst (fold (bind_step r) ps (Inr (Some b), s)) = Inr (Some b') \<and>
    (\<forall>p \<in> set ps. if is_replicated p
       then \<exists>i. 0 \<le> i \<and> i < int (lp_num_replicas p) \<and> (\<forall>st \<in> set (lp_stage_names p). dict_get b' st = Some i)
       else \<forall>st \<in> set (lp_stage_names p). dict_get b' st = dict_get b st) \<and>
    (\<forall>st. st \<notin> set (concat (map lp_stage_names ps)) \<longrightarrow> dict_get b' st = dict_get b st)"
  using assms
proof (induction ps arbitrary: b s)
  case (Cons p ps)
  show ?case
  proof (cases "is_replicated p")
    case True
    let ?i = "fst (bind (lp_name p) (lp_num_replicas p) r s)"
    let ?s = "snd (bind (lp_name p) (lp_num_replicas p) r s)"
    let ?b = "fold (\<lambda>st. dict_set st ?i) (lp_stage_names p) b"
    from Cons.IH [of ?b ?s] Cons.prems obtain b' where b':
      "fst (fold (bind_step r) ps (Inr (Some ?b), ?s)) = Inr (Some b')"
      "\<forall>p \<in> set ps. if is_replicated p
         then \<exists>i. 0 \<le> i \<and> i < int (lp_num_replicas p) \<and> (\<forall>st \<in> set (lp_stage_names p). dict_get b' st = Some i)
         else \<forall>st \<in> set (lp_stage_names p). dict_get b' st = dict_get ?b st"
      "\<forall>st. st \<notin> set (concat (map lp_stage_names ps)) \<longrightarrow> dict_get b' st = dict_get ?b st"
      by auto
    have in_range: "0 \<le> ?i" "?i < int (lp_num_replicas p)"
      using True bind_in_range [of "lp_num_replicas p" "lp_name p" r s] by (auto simp: is_replicated_def)
    have disj: "st \<notin> set (lp_stage_names p)" if "p' \<in> set ps" "st \<in> set (lp_stage_names p')" for p' st
      using that Cons.prems by auto
    have "fst (fold (bind_step r) (p # ps) (Inr (Some b), s)) = Inr (Some b')"
      using b'(1) bind_step_eq [OF True, of r b s] by (simp add: Let_def)
    moreover have "\<forall>st \<in> set (lp_stage_names p). dict_get b' st = Some ?i"
    proof
      fix st assume st: "st \<in> set (lp_stage_names p)"
      then have "st \<notin> set (concat (map lp_stage_names ps))" using disj by auto
      with b'(3) st show "dict_get b' st = Some ?i" by (simp add: fold_dict_set_get)
    qed
    moreover have "\<forall>p' \<in> set ps. if is_replicated p'
         then \<exists>i. 0 \<le> i \<and> i < int (lp_num_replicas p') \<and> (\<forall>st \<in> set (lp_stage_names p'). dict_get b' st = Some i)
         else \<forall>st \<in> set (lp_stage_names p'). dict_get b' st = dict_get b st"
      using b'(2) disj by (simp add: fold_dict_set_get)
    ultimately show ?thesis
      using in_range True b'(3) by (intro exI [of _ b']) (auto simp: fold_dict_set_get)
  next
    case False
    with Cons.IH [of b s] Cons.prems obtain b' where b':
      "fst (fold (bind_step r) ps (Inr (Some b), s)) = Inr (Some b')"
      "\<forall>p \<in> set ps. if is_replicated p
         then \<exists>i. 0 \<le> i \<and> i < int (lp_num_replicas p) \<and> (\<forall>st \<in> set (lp_stage_names p). dict_get b' st = Some i)
         else \<forall>st \<in> set (lp_stage_names p). dict_get b' st = dict_get b st"
      "\<forall>st. st \<notin> set (concat (map lp_stage_names ps)) \<longrightarrow> dict_get b' st = dict_get b st"
      by auto
    have "\<forall>st \<in> set (lp_stage_names p). dict_get b' st = dict_get b st"
      using b'(3) Cons.prems by auto
    with False b' show ?thesis by (intro exI [of _ b']) auto
  qed
qed simp

lemma assign_spec:
  assumes "distinct (concat (map lp_stage_names (plan_processes plan)))" and "has_replicas plan"
  shows "\<exists>b. fst (assign_replica_bindings bind plan r s) = Inr (Some b) \<and>
    (\<forall>p \<in> set (plan_processes plan). if is_replicated p
       then \<exists>i. 0 \<le> i \<and> i < int (lp_num_replicas p) \<and> (\<forall>st \<in> set (lp_stage_names p). dict_get b st = Some i)
       else \<forall>st \<in> set (lp_stage_names p). dict_get b st = None)"
  using bind_fold [OF assms(1), of r "[]" s] assms(2) by (auto simp: assign_replica_bindings_def)

end

interpretation round_robin: binding_policy round_robin_bind
  by unfold_locales (simp add: round_robin_bind_def Let_def)

text \<open>The replicas a sequence of bind calls (process, replica count, request) picks.\<close>

fun round_robin_run :: "(string \<times> nat \<times> string) list \<Rightarrow> round_robin \<Rightarrow> int list" where
  "round_robin_run [] s = []"
| "round_robin_run ((p, n, r) # calls) s =
     (let (i, s') = round_robin_bind p n r s in i # round_robin_run calls s')"

definition picks :: "string \<Rightarrow> (string \<times> nat \<times> string) list \<Rightarrow> round_robin \<Rightarrow> int list" where
  "picks p calls s = map snd (filter (\<lambda>((p', _), _). p' = p) (zip calls (round_robin_run calls s)))"

definition rr_next :: "round_robin \<Rightarrow> string \<Rightarrow> int" where
  "rr_next s p = (case dict_get (rr_counters s) p of None \<Rightarrow> 0 | Some i \<Rightarrow> i)"

lemma rr_next_bind:
  "rr_next (snd (round_robin_bind p' n r s)) p = (if p' = p then rr_next s p + 1 else rr_next s p)"
  "fst (round_robin_bind p' n r s) = rr_next s p' mod int n"
  by (simp_all add: round_robin_bind_def rr_next_def Let_def)

lemma picks_Cons:
  "picks p ((p', n, r) # calls) s =
     (if p' = p then [rr_next s p mod int n] else []) @ picks p calls (snd (round_robin_bind p' n r s))"
  using rr_next_bind(2) [of p' n r s] by (simp add: picks_def split_beta)

lemma picks_round_robin:
  assumes "\<forall>(p', n', r) \<in> set calls. p' = p \<longrightarrow> n' = n"
  shows "picks p calls s =
    map (\<lambda>k. (rr_next s p + int k) mod int n) [0..<length (filter (\<lambda>(p', _). p' = p) calls)]"
  using assms
proof (induction calls arbitrary: s)
  case Nil
  then show ?case by (simp add: picks_def)
next
  case (Cons c calls)
  obtain p' n' r where c: "c = (p', n', r)" by (cases c)
  show ?case
  proof (cases "p' = p")
    case True
    let ?m = "length (filter (\<lambda>(p', _). p' = p) calls)"
    have "map (\<lambda>k. (rr_next s p + int k) mod int n) [0..<Suc ?m] =
        rr_next s p mod int n # map (\<lambda>k. (rr_next s p + 1 + int k) mod int n) [0..<?m]"
      by (simp add: upt_conv_Cons map_Suc_upt [symmetric] o_def algebra_simps del: upt_Suc)
    with Cons c True show ?thesis by (simp add: picks_Cons rr_next_bind)
  next
    case False
    with Cons c show ?thesis by (simp add: picks_Cons rr_next_bind)
  qed
qed

section \<open>Properties\<close>

text \<open>
  Replica addressing is a bijection. For every topology the expansion builds, a replicated stage
  resolves with replica index i to its i-th instance name, that name parses back to the stage and the
  index and maps back to the logical stage, whatever characters the stage name has; an index outside
  the replicas is a ValueError.
\<close>

theorem replica_addressing:
  assumes "rt_is_replicated (replica_names ps) l"
  shows "let t = replica_names ps in
    rt_num_replicas t l > 1 \<and>
    (\<forall>i. if 0 \<le> i \<and> i < int (rt_num_replicas t l)
         then rt_resolve t l i = Inr (replica_instance_name l (nat i)) \<and>
              parse_replica_instance_name (replica_instance_name l (nat i)) = (l, Some (nat i)) \<and>
              rt_logical_name t (replica_instance_name l (nat i)) = l
         else \<exists>e. rt_resolve t l i = Inl e)"
proof -
  from assms obtain instances where i: "dict_get (replica_names ps) l = Some instances"
    by (auto simp: rt_is_replicated_def dict_has_iff)
  from replica_names_get [OF i] obtain p where p: "is_replicated p"
    "instances = map (replica_instance_name l) [0..<lp_num_replicas p]" by blast
  show ?thesis
    using i p by (auto simp: Let_def rt_num_replicas_def rt_resolve_def rt_logical_name_def
        parse_replica_instance is_replicated_def)
qed

theorem replica_addressing_witness:
  "let t = replica_names [\<lparr>lp_name = ''p'', lp_stage_names = [''a@r7''], lp_tp_size = 1,
                          lp_num_replicas = 12, lp_replica_devices = None\<rparr>]
   in rt_resolve t ''a@r7'' 11 = Inr ''a@r7@r11'' \<and> rt_logical_name t ''a@r7@r11'' = ''a@r7''"
proof -
  let ?ps = "[\<lparr>lp_name = ''p'', lp_stage_names = [''a@r7''], lp_tp_size = 1,
               lp_num_replicas = 12, lp_replica_devices = None\<rparr>]"
  have g: "dict_get (replica_names ?ps) ''a@r7'' = Some (map (replica_instance_name ''a@r7'') [0..<12])"
    by (simp add: replica_names_def is_replicated_def dict_of_def)
  then have "rt_is_replicated (replica_names ?ps) ''a@r7''" by (auto simp: rt_is_replicated_def)
  moreover have "rt_num_replicas (replica_names ?ps) ''a@r7'' = 12" using g by (simp add: rt_num_replicas_def)
  moreover have "replica_instance_name ''a@r7'' 11 = ''a@r7@r11''"
    by code_simp
  ultimately show ?thesis
    using replica_addressing [of ?ps "''a@r7''"] by (auto simp: Let_def dest: spec [of _ "11::int"])
qed

text \<open>
  C16. Compiling the logical processes partitions the pipeline: process names are unique, every
  process owns exactly the stages that declare its name, in config order and at least one, together
  they hold every stage once, and the stage table sends each stage to the process it declares.
\<close>

theorem compile_partitions_stages:
  assumes "compile_logical_processes local cfg stages = Inr (plan, stages')"
    and "distinct (map sc_name stages)"
  shows "distinct (map lp_name (plan_processes plan)) \<and>
    mset (concat (map lp_stage_names (plan_processes plan))) = mset (map sc_name stages) \<and>
    (\<forall>p \<in> set (plan_processes plan). lp_stage_names p \<noteq> [] \<and>
       lp_stage_names p = map sc_name (filter (\<lambda>st. stage_process_name st = Inr (lp_name p)) stages)) \<and>
    (\<forall>st \<in> set stages. \<exists>name. stage_process_name st = Inr name \<and>
       dict_get (plan_stage_to_process plan) (sc_name st) = Some name)"
proof -
  obtain members edges where m: "group_stages_by_process stages = Inr members"
    "list_all2 (\<lambda>(name, ms) p. lp_name p = name \<and> lp_stage_names p = map sc_name ms)
       members (plan_processes plan)"
    "plan_stage_to_process plan = dict_of (concat (map (\<lambda>p. map (\<lambda>s. (s, lp_name p)) (lp_stage_names p))
       (plan_processes plan)))"
    using assms(1) by (rule compile_members)
  note g = group_stages_by_process_grouped [OF m(1)] and mp = members_processes [OF m(2)]
  have ok: "dict_ok members" using g by (simp add: grouped_def)
  have mem: "ms = filter (\<lambda>st. stage_process_name st = Inr name) stages \<and> ms \<noteq> []"
    if "(name, ms) \<in> set members" for name ms
    using dict_mem_get [OF ok that] g by (auto simp: grouped_def Let_def split: if_splits)
  have ms: "mset (concat (map lp_stage_names (plan_processes plan))) = mset (map sc_name stages)"
    using group_stages_by_process_mset [OF m(1)] mp(2) by (metis mset_map)
  then have dist: "distinct (concat (map lp_stage_names (plan_processes plan)))"
    using assms(2) by (metis mset_eq_imp_distinct_iff)
  have "\<exists>name. stage_process_name st = Inr name \<and>
      dict_get (plan_stage_to_process plan) (sc_name st) = Some name" if st: "st \<in> set stages" for st
  proof -
    obtain name where name: "stage_process_name st = Inr name" using g st by blast
    let ?ms = "filter (\<lambda>st. stage_process_name st = Inr name) stages"
    have "st \<in> set ?ms" using st name by simp
    then have "?ms \<noteq> []" by (metis empty_iff list.set(1))
    with g have "dict_get members name = Some ?ms" by (simp add: grouped_def Let_def)
    then obtain p where "p \<in> set (plan_processes plan)" "lp_name p = name" "lp_stage_names p = map sc_name ?ms"
      using mp(4) dict_get_mem by metis
    with stage_to_process_get [OF dist, of p "sc_name st"] \<open>st \<in> set ?ms\<close> name m(3) show ?thesis by auto
  qed
  moreover have "lp_stage_names p \<noteq> [] \<and>
      lp_stage_names p = map sc_name (filter (\<lambda>st. stage_process_name st = Inr (lp_name p)) stages)"
    if "p \<in> set (plan_processes plan)" for p
  proof -
    from mp(3) [OF that] obtain ms where ms': "(lp_name p, ms) \<in> set members" "lp_stage_names p = map sc_name ms"
      by blast
    from mem [OF ms'(1)] show ?thesis unfolding ms'(2) by (metis list.map_disc_iff)
  qed
  moreover have "distinct (map lp_name (plan_processes plan))" using mp(1) ok by simp
  ultimately show ?thesis using ms by blast
qed

text \<open>A three-stage pipeline for the closed instances below: the talker process is replicated twice.\<close>

definition demo_stage :: "string \<Rightarrow> string \<Rightarrow> next_stage \<Rightarrow> gpu option \<Rightarrow> stage_config" where
  "demo_stage name process nxt g =
     \<lparr>sc_name = name, sc_next = nxt, sc_stream_to = [], sc_wait_for = None, sc_gpu = g, sc_tp_size = 1,
      sc_process = Some process, sc_runtime_gpu_ids = None, sc_http_routes = []\<rparr>"

definition demo_stages :: "stage_config list" where
  "demo_stages = [demo_stage ''pre'' ''host'' (NextStage ''talk'') None,
     demo_stage ''talk'' ''gpu'' (NextStages [''wav'']) (Some (GpuId 0)),
     demo_stage ''wav'' ''gpu'' NoNext None]"

definition demo_processes :: "(string, process_config) dict" where
  "demo_processes = [(''gpu'', \<lparr>pc_num_replicas = 2, pc_replica_devices = Some [3, 5]\<rparr>)]"

definition demo_plan :: logical_process_plan where
  "demo_plan = \<lparr>plan_processes =
     [\<lparr>lp_name = ''host'', lp_stage_names = [''pre''], lp_tp_size = 1, lp_num_replicas = 1,
       lp_replica_devices = None\<rparr>,
      \<lparr>lp_name = ''gpu'', lp_stage_names = [''talk'', ''wav''], lp_tp_size = 1, lp_num_replicas = 2,
       lp_replica_devices = Some [[3], [5]]\<rparr>],
     plan_stage_to_process = [(''pre'', ''host''), (''talk'', ''gpu''), (''wav'', ''gpu'')]\<rparr>"

lemma demo_compile:
  "compile_logical_processes {(''talk'', ''wav'')} demo_processes demo_stages = Inr (demo_plan, demo_stages)"
  by code_simp

lemma demo_distinct: "distinct (map sc_name demo_stages)"
  "distinct (concat (map lp_stage_names (plan_processes demo_plan)))" "has_replicas demo_plan"
  by code_simp+

theorem compile_partitions_stages_witness:
  "distinct (map lp_name (plan_processes demo_plan)) \<and>
   mset (concat (map lp_stage_names (plan_processes demo_plan))) = mset (map sc_name demo_stages) \<and>
   list_all (\<lambda>st. \<exists>name. stage_process_name st = Inr name \<and>
      dict_get (plan_stage_to_process demo_plan) (sc_name st) = Some name) demo_stages"
  unfolding list_all_iff using compile_partitions_stages [OF demo_compile demo_distinct(1)] by blast

text \<open>
  A compiled topology never separates a handoff that must stay inside one process: both ends of
  every declared edge that the pipeline marks as process-local map to the same process.
\<close>

theorem compile_keeps_local_edges:
  assumes "compile_logical_processes local cfg stages = Inr (plan, stages')"
    and "(a, b) \<in> set (pipeline_edges stages)" and "(a, b) \<in> local"
  shows "dict_get (plan_stage_to_process plan) a = dict_get (plan_stage_to_process plan) b"
proof -
  obtain edges where "cross_process_edges stages plan = Inr edges" "edges \<inter> local = {}"
    using assms(1) by (rule compile_members)
  with cross_process_edges_Inr assms(2,3) show ?thesis by blast
qed

theorem compile_keeps_local_edges_witness:
  "dict_get (plan_stage_to_process demo_plan) ''talk'' = dict_get (plan_stage_to_process demo_plan) ''wav''"
  by (rule compile_keeps_local_edges [OF demo_compile])
     (simp_all add: pipeline_edges_def demo_stages_def demo_stage_def)

text \<open>
  The device list of a replicated process is split without loss: the per-replica groups, in
  order, concatenate to the declared ids, there is one group per replica, each has one id per tensor
  parallel rank and no id twice.
\<close>

theorem replica_devices_partition:
  assumes "resolve_replica_devices stages policy tp = Inr (Some dss)"
  shows "pc_replica_devices policy = Some (concat dss) \<and> length dss = pc_num_replicas policy \<and>
    (\<forall>ds \<in> set dss. length ds = tp \<and> distinct ds)"
proof -
  from resolve_replica_devices_Some [OF assms] obtain ids where ids:
    "pc_replica_devices policy = Some ids" "length ids = pc_num_replicas policy * tp"
    "dss = map (\<lambda>i. take tp (drop (i * tp) ids)) [0..<pc_num_replicas policy]" "list_all distinct dss"
    by blast
  have "tp \<le> length ids - i * tp" if "i < pc_num_replicas policy" for i
  proof -
    from that have "Suc i * tp \<le> length ids" unfolding ids(2) by (intro mult_le_mono1) simp
    then show ?thesis by simp
  qed
  then have "length (take tp (drop (i * tp) ids)) = tp" if "i < pc_num_replicas policy" for i
    using that by simp
  then have "\<forall>ds \<in> set dss. length ds = tp" unfolding ids(3) by simp
  moreover have "concat dss = ids" unfolding ids(3) by (rule concat_chunks [OF ids(2)])
  moreover have "length dss = pc_num_replicas policy" unfolding ids(3) by simp
  ultimately show ?thesis using ids(1,4) by (simp only: list_all_iff simp_thms) blast
qed

definition demo_policy :: process_config where
  "demo_policy = \<lparr>pc_num_replicas = 2, pc_replica_devices = Some [3, 5, 6, 7]\<rparr>"

theorem replica_devices_partition_witness:
  "resolve_replica_devices [demo_stage ''t'' ''p'' NoNext (Some (GpuIds [0, 1]))] demo_policy 2
     = Inr (Some [[3, 5], [6, 7]]) \<and>
   concat [[3, 5], [6, 7 :: int]] = [3, 5, 6, 7] \<and>
   list_all (\<lambda>ds. length ds = 2 \<and> distinct ds) [[3, 5], [6, 7 :: int]]"
proof -
  have run: "resolve_replica_devices [demo_stage ''t'' ''p'' NoNext (Some (GpuIds [0, 1]))] demo_policy 2
      = Inr (Some [[3, 5], [6, 7]])"
    by code_simp
  from replica_devices_partition [OF run] run show ?thesis by (simp add: demo_policy_def)
qed

text \<open>
  Replica expansion copies whole processes and keeps config order. The expanded stages are, stage
  by stage in config order, the stage itself when its process is not replicated and otherwise its N
  instances in index order; instance i is named after the stage and i and belongs to the i-th copy
  of the stage's process, so instances with one index form one complete process replica.
\<close>

theorem expansion_copies_processes:
  assumes "expand_replica_stages stages plan = Inr (expanded, topology)"
    and "distinct (map sc_name stages)"
    and "distinct (concat (map lp_stage_names (plan_processes plan)))"
  shows "map copy_id expanded = concat (map (expected_copies (plan_processes plan)) stages) \<and>
    topology = replica_names (plan_processes plan)"
proof -
  let ?sbn = "dict_of (map (\<lambda>st. (sc_name st, st)) stages)"
  from assms(1) obtain e where e:
    "fold_r (expand_process ?sbn (replica_names (plan_processes plan))) (plan_processes plan) [] = Inr e"
    "expanded = concat (map (\<lambda>st. case dict_get e (sc_name st) of None \<Rightarrow> [st] | Some cs \<Rightarrow> cs) stages)"
    "topology = replica_names (plan_processes plan)"
    unfolding expand_replica_stages_def Let_def bind_r_Inr_iff by auto
  have "dict_get ?sbn (sc_name st) = Some st" if "st \<in> set stages" for st
  proof -
    have "distinct (map fst (map (\<lambda>st. (sc_name st, st)) stages))" using assms(2) by (simp add: o_def)
    with that show ?thesis by (simp add: dict_of_distinct map_of_is_SomeI)
  qed
  then have "map copy_id (case dict_get e (sc_name st) of None \<Rightarrow> [st] | Some cs \<Rightarrow> cs) =
      expected_copies (plan_processes plan) st" if "st \<in> set stages" for st
    using expand_one_stage [OF e(1) assms(3)] that by blast
  then have "map (\<lambda>st. map copy_id (case dict_get e (sc_name st) of None \<Rightarrow> [st] | Some cs \<Rightarrow> cs)) stages =
      map (expected_copies (plan_processes plan)) stages" by (rule map_cong [OF refl])
  then show ?thesis unfolding e(2,3) map_concat map_map o_def
    by (intro conjI refl arg_cong [where f = concat])
qed

theorem expansion_copies_processes_witness:
  "\<exists>expanded topology. expand_replica_stages demo_stages demo_plan = Inr (expanded, topology) \<and>
     map copy_id expanded = [(''pre'', Some ''host''), (''talk@r0'', Some ''gpu@r0''),
       (''talk@r1'', Some ''gpu@r1''), (''wav@r0'', Some ''gpu@r0''), (''wav@r1'', Some ''gpu@r1'')]"
proof -
  obtain expanded topology where e: "expand_replica_stages demo_stages demo_plan = Inr (expanded, topology)"
  proof -
    have "(case expand_replica_stages demo_stages demo_plan of Inl _ \<Rightarrow> False | Inr _ \<Rightarrow> True)" by code_simp
    then show ?thesis using that by (auto split: sum.splits)
  qed
  have "concat (map (expected_copies (plan_processes demo_plan)) demo_stages) =
      [(''pre'', Some ''host''), (''talk@r0'', Some ''gpu@r0''),
       (''talk@r1'', Some ''gpu@r1''), (''wav@r0'', Some ''gpu@r0''), (''wav@r1'', Some ''gpu@r1'')]"
    by code_simp
  with expansion_copies_processes [OF e demo_distinct(1,2)] e show ?thesis
    by (intro exI [of _ expanded] exI [of _ topology]) simp
qed

text \<open>
  A request is bound once per replicated process and the bindings always resolve. With the
  round-robin policy, every stage of a replicated process gets the same replica index, which exists,
  so resolving any of those stages succeeds with the instance of that index; stages of unreplicated
  processes get no binding, and the assignment never fails.
\<close>

theorem bindings_resolve:
  assumes "distinct (concat (map lp_stage_names (plan_processes plan)))" and "has_replicas plan"
  shows "\<exists>b. fst (assign_replica_bindings round_robin_bind plan r s) = Inr (Some b) \<and>
    (\<forall>p \<in> set (plan_processes plan). if is_replicated p
       then \<exists>i. \<forall>st \<in> set (lp_stage_names p). dict_get b st = Some (int i) \<and>
              rt_resolve (replica_names (plan_processes plan)) st (int i) = Inr (replica_instance_name st i)
       else \<forall>st \<in> set (lp_stage_names p). dict_get b st = None)"
proof -
  from round_robin.assign_spec [OF assms, of r s] obtain b where b:
    "fst (assign_replica_bindings round_robin_bind plan r s) = Inr (Some b)"
    "\<forall>p \<in> set (plan_processes plan). if is_replicated p
       then \<exists>i. 0 \<le> i \<and> i < int (lp_num_replicas p) \<and> (\<forall>st \<in> set (lp_stage_names p). dict_get b st = Some i)
       else \<forall>st \<in> set (lp_stage_names p). dict_get b st = None" by blast
  have "\<exists>i. \<forall>st \<in> set (lp_stage_names p). dict_get b st = Some (int i) \<and>
      rt_resolve (replica_names (plan_processes plan)) st (int i) = Inr (replica_instance_name st i)"
    if p: "p \<in> set (plan_processes plan)" "is_replicated p" for p
  proof -
    from b(2) p obtain i where i: "0 \<le> i" "i < int (lp_num_replicas p)"
      "\<forall>st \<in> set (lp_stage_names p). dict_get b st = Some i" by metis
    then have "rt_resolve (replica_names (plan_processes plan)) st i = Inr (replica_instance_name st (nat i))"
      if "st \<in> set (lp_stage_names p)" for st
      using replica_names_distinct [OF assms(1) p(1) that] p(2) by (simp add: rt_resolve_def)
    with i show ?thesis by (intro exI [of _ "nat i"]) simp
  qed
  with b show ?thesis by (intro exI [of _ b]) auto
qed

theorem bindings_resolve_witness:
  "\<exists>b. fst (assign_replica_bindings round_robin_bind demo_plan ''req'' \<lparr>rr_counters = [(''gpu'', 7)]\<rparr>) = Inr (Some b)"
  using bindings_resolve [OF demo_distinct(2,3), of "''req''" "\<lparr>rr_counters = [(''gpu'', 7)]\<rparr>"] by blast

text \<open>
  Round robin is fair: whatever calls for other processes interleave, the k-th bind call for a
  process picks replica (start + k) modulo its replica count, so consecutive requests go to
  consecutive replicas and each replica is picked again after exactly as many calls as it has peers.
\<close>

theorem round_robin_fair:
  assumes "\<forall>(p', n', r) \<in> set calls. p' = p \<longrightarrow> n' = n"
  shows "picks p calls \<lparr>rr_counters = []\<rparr> =
    map (\<lambda>k. int k mod int n) [0..<length (filter (\<lambda>(p', _). p' = p) calls)]"
  using picks_round_robin [OF assms, of "\<lparr>rr_counters = []\<rparr>"] by (simp add: rr_next_def)

theorem round_robin_fair_witness:
  "picks ''p'' [(''p'', 2, ''a''), (''q'', 3, ''a''), (''p'', 2, ''b''), (''p'', 2, ''c'')] \<lparr>rr_counters = []\<rparr> = [0, 1, 0]"
  using round_robin_fair [of "[(''p'', 2, ''a''), (''q'', 3, ''a''), (''p'', 2, ''b''), (''p'', 2, ''c'')]" "''p''" 2]
  by (simp add: upt_conv_Cons)

end
