(* ===== verification/Session_Proto.thy ===== *)
theory Session_Proto
  imports Omni_Prelude "HOL-Library.Word"
begin

text \<open>
  The session contracts of \<^verbatim>\<open>sglang_omni/proto/session.py\<close> and
  \<^verbatim>\<open>sglang_omni/proto/streams.py\<close>: timed chunks and output chunks, control types,
  session nodes and graphs with their validation and order, wire sizes, and the fragments of a
  chunk over the size limit. Floating point times are exact rationals; the one place that looks at
  non-finite floats (\<open>check_timing\<close>) takes the raw value type below. The msgpack encoder and
  decoder are third-party and are arguments \<open>packb\<close> and \<open>unpackb\<close>.
\<close>

section \<open>Chunks\<close>

type_synonym byte = "8 word"

datatype json = JStr string | JNum rat | JBool bool | JNull | JList "json list" | JDict "(string \<times> json) list"

datatype payload = PBytes "byte list" | PDict "(string, json) dict" | PNone

datatype pyfloat = Fin rat | NonFinite

record session_identity =
  sid_id :: string
  sid_open_index :: int

record timed_chunk =
  tc_modality :: string
  tc_t_start_ms :: rat
  tc_duration_ms :: rat
  tc_seq :: int
  tc_payload :: payload
  tc_format :: "string option"
  tc_eos :: bool
  tc_turn :: "int option"

datatype output_kind = KData | KInputDone

record output_chunk =
  oc_identity :: session_identity
  oc_seq :: int
  oc_input_seq :: int
  oc_modality :: string
  oc_t_start_ms :: rat
  oc_duration_ms :: rat
  oc_payload :: payload
  oc_format :: "string option"
  oc_eos :: bool
  oc_turn :: "int option"
  oc_kind :: output_kind

record session_limits =
  max_modalities :: nat
  max_pending_chunks :: int
  max_pending_bytes :: int
  max_output_chunks :: int
  max_output_bytes :: int
  max_chunk_bytes :: int

section \<open>Stream vocabulary and controls\<close>

definition AUDIO :: string where "AUDIO = ''audio''"
definition IMAGE :: string where "IMAGE = ''image''"
definition CONTROL :: string where "CONTROL = ''control''"
definition PCM16 :: string where "PCM16 = ''pcm16''"
definition PCM_F32 :: string where "PCM_F32 = ''pcm_f32le''"
definition AUDIO_FORMATS :: "string list" where "AUDIO_FORMATS = [PCM16, PCM_F32]"
definition SESSION_CONTROL :: string where "SESSION_CONTROL = ''session''"
definition INTERRUPT :: string where "INTERRUPT = ''interrupt''"
definition SPEECH_STARTED :: string where "SPEECH_STARTED = ''speech.started''"
definition SPEECH_STOPPED :: string where "SPEECH_STOPPED = ''speech.stopped''"
definition TURN_QUEUED :: string where "TURN_QUEUED = ''turn.queued''"
definition TURN_STARTED :: string where "TURN_STARTED = ''turn.started''"
definition TURN_DONE :: string where "TURN_DONE = ''turn.done''"
definition TURN_EMPTY :: string where "TURN_EMPTY = ''turn.empty''"
definition TURN_INTERRUPTED :: string where "TURN_INTERRUPTED = ''turn.interrupted''"
definition REPLY_PROGRESS :: string where "REPLY_PROGRESS = ''reply.progress''"
definition REPLY_DELIVERED :: string where "REPLY_DELIVERED = ''reply.delivered''"
definition REPLY_SENTENCE :: string where "REPLY_SENTENCE = ''reply.sentence''"
definition NODE_CONTROLS :: "string list" where "NODE_CONTROLS = [REPLY_DELIVERED, REPLY_SENTENCE]"
definition REPORT_CONTROLS :: "string list" where "REPORT_CONTROLS = [REPLY_PROGRESS]"
definition GRAPH_INPUT :: string where "GRAPH_INPUT = ''input''"

lemmas vocabulary = AUDIO_def IMAGE_def CONTROL_def PCM16_def PCM_F32_def AUDIO_FORMATS_def
  SESSION_CONTROL_def INTERRUPT_def SPEECH_STARTED_def SPEECH_STOPPED_def TURN_QUEUED_def
  TURN_STARTED_def TURN_DONE_def TURN_EMPTY_def TURN_INTERRUPTED_def REPLY_PROGRESS_def
  REPLY_DELIVERED_def REPLY_SENTENCE_def NODE_CONTROLS_def REPORT_CONTROLS_def GRAPH_INPUT_def

text \<open>\<open>control_type\<close> of a chunk with this format and payload; it raises on a malformed control.\<close>

definition control_type :: "string option \<Rightarrow> payload \<Rightarrow> string option result" where
  "control_type fmt p =
     (if fmt \<noteq> Some SESSION_CONTROL \<or> p = PNone then Inr None
      else case p of
             PDict d \<Rightarrow> (case dict_get d ''type'' of
                            Some (JStr t) \<Rightarrow> Inr (Some t)
                          | _ \<Rightarrow> Inl (ValueError ''carries a string type''))
           | _ \<Rightarrow> Inl (ValueError ''carries a string type''))"

abbreviation tc_control_type :: "timed_chunk \<Rightarrow> string option result" where
  "tc_control_type c \<equiv> control_type (tc_format c) (tc_payload c)"

abbreviation oc_control_type :: "output_chunk \<Rightarrow> string option result" where
  "oc_control_type c \<equiv> control_type (oc_format c) (oc_payload c)"

text \<open>The control type where it is known not to raise; the raising function decides that.\<close>

definition control_of :: "string option \<Rightarrow> payload \<Rightarrow> string option" where
  "control_of fmt p = (case control_type fmt p of Inl _ \<Rightarrow> None | Inr t \<Rightarrow> t)"

abbreviation tc_control :: "timed_chunk \<Rightarrow> string option" where
  "tc_control c \<equiv> control_of (tc_format c) (tc_payload c)"

abbreviation oc_control :: "output_chunk \<Rightarrow> string option" where
  "oc_control c \<equiv> control_of (oc_format c) (oc_payload c)"

definition edge_event :: "timed_chunk \<Rightarrow> string option result" where
  "edge_event c = (if tc_format c = Some SESSION_CONTROL then tc_control_type c else Inr (tc_format c))"

text \<open>
  \<open>is_interrupted_reply\<close> over the turn and the control type of a chunk: a chunk of the turn other
  than the controls about the interruption.
\<close>

definition is_interrupted_reply :: "int option \<Rightarrow> string option \<Rightarrow> int option \<Rightarrow> bool" where
  "is_interrupted_reply chunk_turn ctl turn \<longleftrightarrow>
     chunk_turn = turn \<and> ctl \<notin> {Some INTERRUPT, Some TURN_INTERRUPTED, Some REPLY_DELIVERED}"

abbreviation tc_interrupted :: "timed_chunk \<Rightarrow> int option \<Rightarrow> bool" where
  "tc_interrupted c turn \<equiv> is_interrupted_reply (tc_turn c) (tc_control c) turn"

abbreviation oc_interrupted :: "output_chunk \<Rightarrow> int option \<Rightarrow> bool" where
  "oc_interrupted c turn \<equiv> is_interrupted_reply (oc_turn c) (oc_control c) turn"

definition holds_turn_end :: "timed_chunk \<Rightarrow> bool \<Rightarrow> bool \<Rightarrow> bool" where
  "holds_turn_end c publishes_audio is_published \<longleftrightarrow>
     publishes_audio \<and> is_published \<and> tc_control c = Some TURN_DONE"

section \<open>Ports\<close>

record audio_port =
  ap_format :: string
  ap_sample_rate_hz :: int

datatype port = APort audio_port | IPort string

definition published_audio_port :: "audio_port list \<Rightarrow> audio_port option result" where
  "published_audio_port ports =
     (case remdups ports of
        [] \<Rightarrow> Inr None
      | [p] \<Rightarrow> Inr (Some p)
      | _ \<Rightarrow> Inl (ValueError ''published audio must share one format and rate''))"

record session_ports =
  sp_input :: "port list"
  sp_output :: "audio_port option"
  sp_unit_ms :: int
  sp_controls :: "string set"
  sp_hot_settings :: "string set"
  sp_sampling_parameters :: "string list"
  sp_turn_detection_types :: "string list"

fun audio_ports :: "port list \<Rightarrow> audio_port list" where
  "audio_ports [] = []"
| "audio_ports (APort a # ps) = a # audio_ports ps"
| "audio_ports (IPort _ # ps) = audio_ports ps"

definition check_session_ports :: "session_ports \<Rightarrow> session_ports result" where
  "check_session_ports p =
     (if length (audio_ports (sp_input p)) \<noteq> 1 then Inl (ValueError ''a Session takes one audio input port'')
      else Inr p)"

definition audio_input :: "session_ports \<Rightarrow> audio_port" where
  "audio_input p = hd (audio_ports (sp_input p))"

text \<open>\<open>dict.fromkeys\<close>: the distinct elements at their first positions.\<close>

fun fromkeys :: "'a list \<Rightarrow> 'a list" where
  "fromkeys [] = []"
| "fromkeys (x # xs) = x # filter (\<lambda>y. y \<noteq> x) (fromkeys xs)"

definition with_node :: "session_ports \<Rightarrow> session_ports \<Rightarrow> session_ports result" where
  "with_node self node =
     (if audio_input node \<noteq> audio_input self
      then Inl (ValueError ''the nodes of one Session share its audio input port'')
      else
        bind_r (published_audio_port
                  ((case sp_output self of None \<Rightarrow> [] | Some p \<Rightarrow> [p]) @
                   (case sp_output node of None \<Rightarrow> [] | Some p \<Rightarrow> [p]))) (\<lambda>out.
        check_session_ports
          (self\<lparr>sp_input := fromkeys (sp_input self @ sp_input node),
                sp_output := out,
                sp_controls := sp_controls self \<union> sp_controls node,
                sp_hot_settings := sp_hot_settings self \<union> sp_hot_settings node,
                sp_sampling_parameters := sp_sampling_parameters self @
                  filter (\<lambda>x. x \<notin> set (sp_sampling_parameters self)) (sp_sampling_parameters node),
                sp_turn_detection_types := sp_turn_detection_types self @
                  filter (\<lambda>x. x \<notin> set (sp_turn_detection_types self)) (sp_turn_detection_types node)\<rparr>)))"

section \<open>Session graphs\<close>

definition parse_input :: "string \<Rightarrow> string \<times> string option" where
  "parse_input entry =
     (let source = takeWhile (\<lambda>c. c \<noteq> CHR '':'') entry;
          fmt = drop (Suc (length source)) entry
      in (source, if fmt = [] then None else Some fmt))"

record control_edge =
  ce_source :: string
  ce_event :: string
  ce_should_preempt :: bool

datatype overflow = Block | DropOldest

record data_edge =
  de_source :: string
  de_capacity :: "int option"
  de_overflow :: overflow
  de_feedback :: bool

datatype input_entry = Plain string | Edge data_edge

record session_node =
  sn_stages :: "string list"
  sn_inputs :: "input_entry list"
  sn_controls :: "control_edge list"

fun entry_source :: "input_entry \<Rightarrow> string" where
  "entry_source (Plain e) = e"
| "entry_source (Edge d) = de_source d"

definition node_edges :: "session_node \<Rightarrow> (string, string set option) dict" where
  "node_edges node =
     fold (\<lambda>entry edges.
         let (source, fmt) = parse_input (entry_source entry);
             formats = (case dict_get edges source of None \<Rightarrow> Some {} | Some f \<Rightarrow> f)
         in dict_set source
              (case (fmt, formats) of (Some f, Some fs) \<Rightarrow> Some (insert f fs) | _ \<Rightarrow> None) edges)
       (sn_inputs node) []"

definition default_edge :: "string \<Rightarrow> data_edge" where
  "default_edge source = \<lparr>de_source = source, de_capacity = None, de_overflow = Block, de_feedback = False\<rparr>"

fun is_edge_from :: "string \<Rightarrow> input_entry \<Rightarrow> bool" where
  "is_edge_from source (Edge d) \<longleftrightarrow> fst (parse_input (de_source d)) = source"
| "is_edge_from source (Plain _) \<longleftrightarrow> False"

text \<open>The bound a \<open>DataEdge\<close> entry declares; a plain entry declares none and is filtered out first.\<close>

fun edge_bound :: "input_entry \<Rightarrow> int option \<times> overflow \<times> bool" where
  "edge_bound (Edge d) = (de_capacity d, de_overflow d, de_feedback d)"
| "edge_bound (Plain _) = (None, Block, False)"

definition bound :: "session_node \<Rightarrow> string \<Rightarrow> data_edge" where
  "bound node source =
     (case find (is_edge_from source) (sn_inputs node) of Some (Edge d) \<Rightarrow> d | _ \<Rightarrow> default_edge source)"

record session_graph =
  sg_nodes :: "(string, session_node) dict"
  sg_publish :: "(string, string list) dict"
  sg_shared_timeline :: bool

definition data_sources :: "session_node \<Rightarrow> string set" where
  "data_sources node =
     set (filter (\<lambda>source. source \<noteq> GRAPH_INPUT \<and> \<not> de_feedback (bound node source)) (dict_keys (node_edges node)))"

definition all_sources :: "session_node \<Rightarrow> string set" where
  "all_sources node =
     data_sources node \<union> set (filter (\<lambda>s. s \<noteq> GRAPH_INPUT) (map ce_source (sn_controls node)))"

text \<open>The loop of \<open>SessionGraph.order\<close>: a node whose sources are all placed, else one whose data sources are.\<close>

function order_loop :: "(string, session_node) dict \<Rightarrow> string list \<Rightarrow> string list result" where
  "order_loop nodes order =
     (if length order < length nodes then
        let remaining = filter (\<lambda>(name, _). name \<notin> set order) nodes;
            ready = filter (\<lambda>(_, node). all_sources node \<subseteq> set order) remaining;
            ready = (if ready \<noteq> [] then ready
                     else filter (\<lambda>(_, node). data_sources node \<subseteq> set order) remaining)
        in case ready of
             [] \<Rightarrow> Inl (ValueError ''form a cycle of data edges'')
           | (name, _) # _ \<Rightarrow> order_loop nodes (order @ [name])
      else Inr order)"
  by pat_completeness auto
termination
  by (relation "measure (\<lambda>(nodes, order). length nodes - length order)") auto

declare order_loop.simps [simp del]

definition graph_order :: "session_graph \<Rightarrow> string list result" where
  "graph_order g = order_loop (sg_nodes g) []"

definition input_nodes :: "session_graph \<Rightarrow> string list" where
  "input_nodes g = map fst (filter (\<lambda>(_, node). dict_has (node_edges node) GRAPH_INPUT) (sg_nodes g))"

definition reads_format :: "session_node \<Rightarrow> string \<Rightarrow> string option \<Rightarrow> bool" where
  "reads_format node source fmt =
     (case dict_get (node_edges node) source of
        None \<Rightarrow> False
      | Some None \<Rightarrow> True
      | Some (Some fs) \<Rightarrow> (case fmt of None \<Rightarrow> False | Some f \<Rightarrow> f \<in> fs))"

definition reading_nodes :: "session_graph \<Rightarrow> string \<Rightarrow> string option \<Rightarrow> string list" where
  "reading_nodes g source fmt = map fst (filter (\<lambda>(_, node). reads_format node source fmt) (sg_nodes g))"

definition control_targets ::
  "(string \<times> control_edge list) list \<Rightarrow> string \<Rightarrow> string option \<Rightarrow> (string \<times> control_edge) list" where
  "control_targets controls source event =
     concat (map (\<lambda>(name, edges).
       map (Pair name) (filter (\<lambda>e. ce_source e = source \<and> Some (ce_event e) = event) edges)) controls)"

definition graph_control_targets ::
  "session_graph \<Rightarrow> string \<Rightarrow> string option \<Rightarrow> (string \<times> control_edge) list result" where
  "graph_control_targets g source event =
     bind_r (graph_order g) (\<lambda>order.
     bind_r (map_r (\<lambda>name. bind_r (dict_lookup (sg_nodes g) name) (\<lambda>n. Inr (name, sn_controls n))) order)
       (\<lambda>controls. Inr (control_targets controls source event)))"

definition is_published :: "session_graph \<Rightarrow> string \<Rightarrow> string option \<Rightarrow> bool" where
  "is_published g source fmt =
     (case fmt of None \<Rightarrow> False
      | Some f \<Rightarrow> f \<in> set (case dict_get (sg_publish g) source of None \<Rightarrow> [] | Some fs \<Rightarrow> fs))"

definition check_node :: "(string, session_node) dict \<Rightarrow> string \<Rightarrow> session_node \<Rightarrow> unit result" where
  "check_node nodes name node =
     (let sources = set (dict_keys (node_edges node)) \<union> set (map ce_source (sn_controls node))
      in if sn_stages node = [] \<or> (sn_inputs node = [] \<and> sn_controls node = [])
         then Inl (ValueError ''needs a stage route and inputs'')
         else if (\<exists>s \<in> sources. s \<noteq> GRAPH_INPUT \<and> \<not> dict_has nodes s) \<or> name \<in> sources
         then Inl (ValueError ''reads unknown inputs'')
         else
           fold_r (\<lambda>source _.
             let bounds = set (map edge_bound (filter (is_edge_from source) (sn_inputs node)));
                 b = bound node source
             in if card bounds > 1 then Inl (ValueError ''bounds its edge twice'')
                else if (case de_capacity b of None \<Rightarrow> False | Some c \<Rightarrow> c < 1)
                then Inl (ValueError ''needs a capacity of at least 1'')
                else if de_feedback b \<and> de_overflow b = Block
                then Inl (ValueError ''feedback edge must not block'')
                else Inr ()) (dict_keys (node_edges node)) ())"

definition check_session_graph :: "session_graph \<Rightarrow> session_graph result" where
  "check_session_graph g =
     (if sg_nodes g = [] \<or> dict_has (sg_nodes g) GRAPH_INPUT
      then Inl (ValueError ''a graph names at least one node'')
      else
        bind_r (fold_r (\<lambda>(name, node) _. check_node (sg_nodes g) name node) (sg_nodes g) ()) (\<lambda>_.
          if input_nodes g = [] then Inl (ValueError ''no node reads input'')
          else if \<not> set (dict_keys (sg_publish g)) \<subseteq> set (dict_keys (sg_nodes g))
          then Inl (ValueError ''publish names unknown nodes'')
          else bind_r (graph_order g) (\<lambda>_. Inr g)))"

section \<open>Wire sizes and fragments\<close>

definition MSGPACK_BIN8_LIMIT :: nat where "MSGPACK_BIN8_LIMIT = 256"
definition MSGPACK_BIN16_LIMIT :: nat where "MSGPACK_BIN16_LIMIT = 65536"

definition MSGPACK_BIN16_HEADER_GROWTH :: nat where "MSGPACK_BIN16_HEADER_GROWTH = 1"
definition MSGPACK_BIN32_HEADER_GROWTH :: nat where "MSGPACK_BIN32_HEADER_GROWTH = 3"

lemmas msgpack_sizes = MSGPACK_BIN8_LIMIT_def MSGPACK_BIN16_LIMIT_def MSGPACK_BIN16_HEADER_GROWTH_def
  MSGPACK_BIN32_HEADER_GROWTH_def

definition header_growth :: "nat \<Rightarrow> nat" where
  "header_growth n = (if n < MSGPACK_BIN8_LIMIT then 0
      else if n < MSGPACK_BIN16_LIMIT then MSGPACK_BIN16_HEADER_GROWTH
      else MSGPACK_BIN32_HEADER_GROWTH)"

definition wire_size :: "(timed_chunk \<Rightarrow> byte list) \<Rightarrow> timed_chunk \<Rightarrow> int" where
  "wire_size packb c =
     (case tc_payload c of
        PBytes p \<Rightarrow> int (length (packb (c\<lparr>tc_payload := PBytes []\<rparr>)) + length p + header_growth (length p))
      | _ \<Rightarrow> int (length (packb c)))"

definition wire_size_out :: "(output_chunk \<Rightarrow> byte list) \<Rightarrow> output_chunk \<Rightarrow> int" where
  "wire_size_out packb c =
     (case oc_payload c of
        PBytes p \<Rightarrow> int (length (packb (c\<lparr>oc_payload := PBytes []\<rparr>)) + length p + header_growth (length p))
      | _ \<Rightarrow> int (length (packb c)))"

text \<open>
  The generator \<open>fragment_chunk\<close>: the fragments it yields, each with whether another follows, and
  the error it ends with when a fragment's envelope leaves no room.
\<close>

function fragment_loop ::
  "(timed_chunk \<Rightarrow> byte list) \<Rightarrow> timed_chunk \<Rightarrow> int \<Rightarrow> int \<Rightarrow> byte list \<Rightarrow>
   (timed_chunk \<times> bool) list \<times> error option" where
  "fragment_loop packb chunk mx seq rest =
     (if rest = [] then ([], None)
      else
        let fragment = chunk\<lparr>tc_seq := seq, tc_payload := PBytes []\<rparr>;
            envelope_bytes = wire_size packb fragment + int MSGPACK_BIN32_HEADER_GROWTH
        in if mx \<le> envelope_bytes then ([], Some (ValueError ''leaves no room''))
           else
             let n = nat (mx - envelope_bytes);
                 (fs, e) = fragment_loop packb chunk mx (seq + 1) (drop n rest)
             in ((fragment\<lparr>tc_payload := PBytes (take n rest)\<rparr>, n < length rest) # fs, e))"
  by pat_completeness auto
termination
  by (relation "measure (\<lambda>(packb, chunk, mx, seq, rest). length rest)") auto

declare fragment_loop.simps [simp del]

definition fragment_chunk ::
  "(timed_chunk \<Rightarrow> byte list) \<Rightarrow> timed_chunk \<Rightarrow> int \<Rightarrow> int \<Rightarrow> (timed_chunk \<times> bool) list \<times> error option" where
  "fragment_chunk packb chunk seq mx = fragment_loop packb chunk mx seq (packb chunk)"

fun payload_bytes :: "payload \<Rightarrow> byte list" where
  "payload_bytes (PBytes b) = b"
| "payload_bytes _ = []"

definition join_fragments ::
  "(byte list \<Rightarrow> timed_chunk result) \<Rightarrow> timed_chunk list \<Rightarrow> timed_chunk result" where
  "join_fragments unpackb fragments =
     bind_r (unpackb (concat (map (payload_bytes \<circ> tc_payload) fragments))) (\<lambda>chunk.
       if fragments = [] then Inl IndexError
       else Inr (chunk\<lparr>tc_seq := tc_seq (last fragments)\<rparr>))"

section \<open>The order of a session graph\<close>

text \<open>
  Two notions about a source relation \<open>src\<close> (the data sources, or all sources): an order that lists
  the sources of a node before it, and a set of nodes each reading from another node of the set.
\<close>

definition upstream_first ::
  "(session_node \<Rightarrow> string set) \<Rightarrow> (string, session_node) dict \<Rightarrow> string list \<Rightarrow> bool" where
  "upstream_first src nodes order \<longleftrightarrow>
     (\<forall>i < length order. \<forall>(name, node) \<in> set nodes. name = order ! i \<longrightarrow> src node \<subseteq> set (take i order))"

definition source_cycle ::
  "(session_node \<Rightarrow> string set) \<Rightarrow> (string, session_node) dict \<Rightarrow> string set \<Rightarrow> bool" where
  "source_cycle src nodes S \<longleftrightarrow>
     S \<noteq> {} \<and> S \<subseteq> set (dict_keys nodes) \<and> (\<forall>(name, node) \<in> set nodes. name \<in> S \<longrightarrow> src node \<inter> S \<noteq> {})"

definition known_sources :: "(session_node \<Rightarrow> string set) \<Rightarrow> (string, session_node) dict \<Rightarrow> bool" where
  "known_sources src nodes \<longleftrightarrow> (\<forall>(name, node) \<in> set nodes. src node \<subseteq> set (dict_keys nodes))"

lemma upstream_first_snoc:
  assumes "upstream_first src nodes order" and "dict_ok nodes"
    and "(name, node) \<in> set nodes" and "src node \<subseteq> set order"
  shows "upstream_first src nodes (order @ [name])"
  unfolding upstream_first_def
proof (intro allI impI ballI, clarify)
  fix i n nd x
  assume i: "i < length (order @ [name])" and mem: "((order @ [name]) ! i, nd) \<in> set nodes" and x: "x \<in> src nd"
  show "x \<in> set (take i (order @ [name]))"
  proof (cases "i < length order")
    case True
    with assms(1) mem x show ?thesis by (fastforce simp: upstream_first_def nth_append)
  next
    case False
    with i have "i = length order" by simp
    moreover from this mem assms(2,3) have "nd = node"
      by (metis nth_append_length dict_mem_get option.inject)
    ultimately show ?thesis using assms(4) x by auto
  qed
qed

lemma upstream_first_no_cycle:
  assumes "upstream_first src nodes order" and "set order = set (dict_keys nodes)"
  shows "\<not> source_cycle src nodes S"
proof
  assume cyc: "source_cycle src nodes S"
  define i where "i = (LEAST i. i < length order \<and> order ! i \<in> S)"
  from cyc obtain x where "x \<in> S" "x \<in> set order" using assms(2) unfolding source_cycle_def by blast
  then have ex: "\<exists>i. i < length order \<and> order ! i \<in> S" by (metis in_set_conv_nth)
  then have i: "i < length order" "order ! i \<in> S" unfolding i_def by (metis (mono_tags, lifting) LeastI_ex)+
  have least: "j \<notin> {j. j < length order \<and> order ! j \<in> S}" if "j < i" for j
    using that not_less_Least unfolding i_def by blast
  from i(1) assms(2) obtain node where node: "(order ! i, node) \<in> set nodes" by (force dest: nth_mem)
  with cyc i(2) obtain s where s: "s \<in> src node" "s \<in> S" by (fastforce simp: source_cycle_def)
  from assms(1) node i(1) s(1) have "s \<in> set (take i order)" by (fastforce simp: upstream_first_def)
  then obtain j where "j < i" "j < length order" "order ! j = s" by (auto simp: in_set_conv_nth)
  with least [of j] s(2) show False by simp
qed

lemma order_complete:
  assumes "distinct order" and "set order \<subseteq> set (dict_keys nodes)" and "length nodes \<le> length order"
  shows "set order = set (dict_keys nodes)"
proof (rule card_subset_eq [OF _ assms(2)])
  have "card (set (dict_keys nodes)) \<le> length nodes" by (metis card_length length_map)
  with assms show "card (set order) = card (set (dict_keys nodes))"
    by (metis card_mono distinct_card finite_set le_antisym le_trans)
qed simp

text \<open>The node the loop appends, and when there is none.\<close>

definition order_ready :: "(string, session_node) dict \<Rightarrow> string list \<Rightarrow> (string, session_node) dict" where
  "order_ready nodes order =
     (let remaining = filter (\<lambda>(name, _). name \<notin> set order) nodes;
          ready = filter (\<lambda>(_, node). all_sources node \<subseteq> set order) remaining
      in if ready \<noteq> [] then ready else filter (\<lambda>(_, node). data_sources node \<subseteq> set order) remaining)"

lemma order_loop_unfold:
  "order_loop nodes order =
     (if length order < length nodes then
        case order_ready nodes order of
          [] \<Rightarrow> Inl (ValueError ''form a cycle of data edges'')
        | (name, _) # _ \<Rightarrow> order_loop nodes (order @ [name])
      else Inr order)"
  by (subst order_loop.simps) (simp add: order_ready_def Let_def)

lemma order_ready_mem:
  assumes "(name, node) \<in> set (order_ready nodes order)"
  shows "(name, node) \<in> set nodes" and "name \<notin> set order" and "data_sources node \<subseteq> set order"
  using assms by (auto simp: order_ready_def Let_def all_sources_def split: if_splits)

lemma order_remaining:
  assumes "length order < length nodes" and "distinct order" and "dict_ok nodes"
  shows "set (dict_keys nodes) - set order \<noteq> {}"
proof
  assume "set (dict_keys nodes) - set order = {}"
  then have "card (set (dict_keys nodes)) \<le> card (set order)" by (intro card_mono) auto
  moreover have "card (set (dict_keys nodes)) = length nodes" using assms(3) by (metis distinct_card length_map)
  ultimately show False using assms(1,2) by (simp add: distinct_card)
qed

lemma order_ready_all:
  assumes "length order < length nodes" and "distinct order" and "dict_ok nodes"
    and "known_sources all_sources nodes" and "\<And>S. \<not> source_cycle all_sources nodes S"
    and "(name, node) \<in> set (order_ready nodes order)"
  shows "all_sources node \<subseteq> set order"
proof -
  let ?S = "set (dict_keys nodes) - set order"
  have "?S \<noteq> {}" using order_remaining [OF assms(1-3)] .
  with assms(5) [of ?S] obtain n nd where n: "(n, nd) \<in> set nodes" "n \<in> ?S" "all_sources nd \<inter> ?S = {}"
    by (auto simp: source_cycle_def)
  with assms(4) have "all_sources nd \<subseteq> set order" by (fastforce simp: known_sources_def)
  with n have "filter (\<lambda>(_, node). all_sources node \<subseteq> set order) (filter (\<lambda>(name, _). name \<notin> set order) nodes) \<noteq> []"
    by (auto simp: filter_empty_conv)
  with assms(6) show ?thesis by (auto simp: order_ready_def Let_def split: if_splits)
qed

lemma order_ready_empty:
  assumes "length order < length nodes" and "distinct order" and "dict_ok nodes"
    and "known_sources data_sources nodes" and "order_ready nodes order = []"
  shows "source_cycle data_sources nodes (set (dict_keys nodes) - set order)"
  unfolding source_cycle_def
proof (intro conjI ballI)
  show "set (dict_keys nodes) - set order \<noteq> {}" using order_remaining [OF assms(1-3)] .
next
  fix p assume p: "p \<in> set nodes"
  obtain n nd where pn: "p = (n, nd)" by (cases p)
  show "case p of (name, node) \<Rightarrow> name \<in> set (dict_keys nodes) - set order \<longrightarrow>
      data_sources node \<inter> (set (dict_keys nodes) - set order) \<noteq> {}"
    using assms(5) p assms(4) unfolding pn
    by (fastforce simp: order_ready_def Let_def filter_empty_conv known_sources_def split: if_splits)
qed auto

lemma order_loop_cases:
  assumes "dict_ok nodes" and "distinct order" and "set order \<subseteq> set (dict_keys nodes)"
    and "upstream_first data_sources nodes order"
  shows "case order_loop nodes order of
           Inr res \<Rightarrow> distinct res \<and> set res = set (dict_keys nodes) \<and> upstream_first data_sources nodes res
         | Inl e \<Rightarrow> known_sources data_sources nodes \<longrightarrow> (\<exists>S. source_cycle data_sources nodes S)"
  using assms
proof (induction "length nodes - length order" arbitrary: order rule: less_induct)
  case (less order)
  show ?case
  proof (cases "length order < length nodes")
    case False
    then show ?thesis using less.prems order_complete [of order nodes] by (subst order_loop_unfold) simp
  next
    case True
    show ?thesis
    proof (cases "order_ready nodes order")
      case Nil
      with True show ?thesis
        using order_ready_empty [OF True less.prems(2,1) _ Nil] by (subst order_loop_unfold) auto
    next
      case (Cons p ps)
      obtain name node where p: "p = (name, node)" by (cases p)
      with Cons have mem: "(name, node) \<in> set (order_ready nodes order)" by simp
      note rd = order_ready_mem [OF mem]
      have "upstream_first data_sources nodes (order @ [name])"
        using upstream_first_snoc [OF less.prems(4,1) rd(1,3)] .
      moreover have "distinct (order @ [name])" "set (order @ [name]) \<subseteq> set (dict_keys nodes)"
        using rd less.prems by force+
      moreover have "order_loop nodes order = order_loop nodes (order @ [name])"
        using True Cons p by (subst order_loop_unfold) simp
      ultimately show ?thesis using True less.prems(1) less.hyps [of "order @ [name]"] by simp
    qed
  qed
qed

lemma order_loop_all:
  assumes "dict_ok nodes" and "known_sources all_sources nodes" and "\<And>S. \<not> source_cycle all_sources nodes S"
    and "distinct order" and "upstream_first all_sources nodes order" and "order_loop nodes order = Inr res"
  shows "upstream_first all_sources nodes res"
  using assms
proof (induction "length nodes - length order" arbitrary: order rule: less_induct)
  case (less order)
  show ?case
  proof (cases "length order < length nodes")
    case False
    then show ?thesis using less.prems(5,6) by (subst (asm) order_loop_unfold) simp
  next
    case True
    show ?thesis
    proof (cases "order_ready nodes order")
      case Nil
      with True less.prems(6) show ?thesis by (subst (asm) order_loop_unfold) simp
    next
      case (Cons p ps)
      obtain name node where p: "p = (name, node)" by (cases p)
      with Cons have mem: "(name, node) \<in> set (order_ready nodes order)" by simp
      note rd = order_ready_mem [OF mem]
      have "all_sources node \<subseteq> set order"
        by (rule order_ready_all [OF True less.prems(4,1,2,3) mem])
      from upstream_first_snoc [OF less.prems(5,1) rd(1) this]
      have "upstream_first all_sources nodes (order @ [name])" .
      moreover have "distinct (order @ [name])" using rd(2) less.prems(4) by simp
      moreover have "order_loop nodes (order @ [name]) = Inr res"
        using less.prems(6) True Cons p by (subst (asm) order_loop_unfold) simp
      ultimately show ?thesis using True less.prems(1,2,3) less.hyps [of "order @ [name]"] by simp
    qed
  qed
qed

lemma check_session_graph_Inr:
  assumes "check_session_graph g = Inr h"
  shows "h = g" and "\<exists>order. graph_order g = Inr order" and "input_nodes g \<noteq> []"
    and "(name, node) \<in> set (sg_nodes g) \<Longrightarrow> check_node (sg_nodes g) name node = Inr ()"
proof -
  have each: "fold_r (\<lambda>(name, node) _. check_node nodes name node) ps () = Inr u \<Longrightarrow> (n, nd) \<in> set ps \<Longrightarrow>
      check_node nodes n nd = Inr ()" for nodes ps u n nd
    by (induction ps) (auto simp: bind_r_Inr_iff)
  from assms have run: "\<exists>u. fold_r (\<lambda>(name, node) _. check_node (sg_nodes g) name node) (sg_nodes g) () = Inr u"
    by (auto simp: check_session_graph_def bind_r_Inr_iff split: if_splits)
  from assms show "h = g" and "\<exists>order. graph_order g = Inr order" and "input_nodes g \<noteq> []"
    by (auto simp: check_session_graph_def bind_r_Inr_iff split: if_splits)
  from run each show "(name, node) \<in> set (sg_nodes g) \<Longrightarrow> check_node (sg_nodes g) name node = Inr ()" by blast
qed

lemma check_node_known:
  assumes "check_node nodes name node = Inr ()"
  shows "all_sources node \<subseteq> set (dict_keys nodes)" and "name \<notin> all_sources node"
  using assms by (auto simp: check_node_def all_sources_def data_sources_def Let_def dict_has_def
      split: if_splits)

lemma checked_graph_known:
  assumes "check_session_graph g = Inr h"
  shows "known_sources all_sources (sg_nodes g)" and "known_sources data_sources (sg_nodes g)"
proof -
  have "all_sources node \<subseteq> set (dict_keys (sg_nodes g))" if "(name, node) \<in> set (sg_nodes g)" for name node
    using check_node_known(1) [OF check_session_graph_Inr(4) [OF assms that]] .
  then show all: "known_sources all_sources (sg_nodes g)" unfolding known_sources_def by blast
  then show "known_sources data_sources (sg_nodes g)" unfolding known_sources_def all_sources_def by blast
qed

lemma upstream_first_Nil [simp]: "upstream_first src nodes []"
  by (simp add: upstream_first_def)

text \<open>
  C17. A graph that passes validation has an order that lists every node once and every non-feedback
  data source of a node before the node; where the control edges close no cycle either, every control
  source is before its node too.\<close>

theorem session_order_upstream_first:
  assumes "check_session_graph g = Inr h" and "dict_ok (sg_nodes g)"
  shows "\<exists>order. graph_order g = Inr order \<and> distinct order \<and> set order = set (dict_keys (sg_nodes g)) \<and>
           upstream_first data_sources (sg_nodes g) order \<and>
           ((\<forall>S. \<not> source_cycle all_sources (sg_nodes g) S) \<longrightarrow> upstream_first all_sources (sg_nodes g) order)"
proof -
  obtain order where o: "graph_order g = Inr order" using check_session_graph_Inr(2) [OF assms(1)] ..
  then have run: "order_loop (sg_nodes g) [] = Inr order" by (simp add: graph_order_def)
  have "distinct order \<and> set order = set (dict_keys (sg_nodes g)) \<and> upstream_first data_sources (sg_nodes g) order"
    using order_loop_cases [OF assms(2), of "[]"] run by simp
  moreover have "upstream_first all_sources (sg_nodes g) order" if "\<forall>S. \<not> source_cycle all_sources (sg_nodes g) S"
    using order_loop_all [OF assms(2) checked_graph_known(1) [OF assms(1)] _ _ _ run] that by simp
  ultimately show ?thesis using o by blast
qed

definition demo_graph :: session_graph where
  "demo_graph =
     \<lparr>sg_nodes =
        [(''tts'', \<lparr>sn_stages = [''vocoder''], sn_inputs = [Plain ''llm:text''],
                    sn_controls = [\<lparr>ce_source = ''vad'', ce_event = ''speech.started'', ce_should_preempt = True\<rparr>]\<rparr>),
         (''llm'', \<lparr>sn_stages = [''thinker''],
                    sn_inputs = [Plain ''vad'',
                      Edge \<lparr>de_source = ''tts'', de_capacity = Some 4, de_overflow = DropOldest, de_feedback = True\<rparr>],
                    sn_controls = []\<rparr>),
         (''vad'', \<lparr>sn_stages = [''vad''], sn_inputs = [Plain ''input''], sn_controls = []\<rparr>)],
      sg_publish = [(''tts'', [''pcm16''])], sg_shared_timeline = False\<rparr>"

lemma demo_graph_checks: "check_session_graph demo_graph = Inr demo_graph"
  by code_simp

theorem session_order_upstream_first_witness:
  "\<exists>order. graph_order demo_graph = Inr order \<and> distinct order \<and>
     set order = {''tts'', ''llm'', ''vad''} \<and> upstream_first data_sources (sg_nodes demo_graph) order"
proof -
  have "dict_ok (sg_nodes demo_graph)" by code_simp
  moreover have "set (dict_keys (sg_nodes demo_graph)) = {''tts'', ''llm'', ''vad''}" by (simp add: demo_graph_def)
  ultimately show ?thesis
    using session_order_upstream_first [OF demo_graph_checks] by metis
qed

text \<open>
  For a graph whose sources are all nodes of it, \<open>order\<close> raises exactly when some nodes form a
  cycle of data edges without a feedback edge: a set of nodes each reading from a node of the set.\<close>

theorem session_order_fails_iff_cycle:
  assumes "dict_ok (sg_nodes g)" and "known_sources data_sources (sg_nodes g)"
  shows "(\<exists>e. graph_order g = Inl e) \<longleftrightarrow> (\<exists>S. source_cycle data_sources (sg_nodes g) S)"
proof (cases "order_loop (sg_nodes g) []")
  case (Inl e)
  with order_loop_cases [OF assms(1), of "[]"] assms(2) show ?thesis by (auto simp: graph_order_def)
next
  case (Inr res)
  with order_loop_cases [OF assms(1), of "[]"] show ?thesis
    using upstream_first_no_cycle by (auto simp: graph_order_def)
qed

definition demo_cyclic_graph :: session_graph where
  "demo_cyclic_graph =
     \<lparr>sg_nodes =
        [(''a'', \<lparr>sn_stages = [''x''], sn_inputs = [Plain ''input'', Plain ''b''], sn_controls = []\<rparr>),
         (''b'', \<lparr>sn_stages = [''y''], sn_inputs = [Plain ''a''], sn_controls = []\<rparr>)],
      sg_publish = [], sg_shared_timeline = False\<rparr>"

theorem session_order_fails_iff_cycle_witness:
  "(\<exists>e. graph_order demo_cyclic_graph = Inl e) \<and>
   (\<exists>S. source_cycle data_sources (sg_nodes demo_cyclic_graph) S)"
proof -
  have "dict_ok (sg_nodes demo_cyclic_graph)" by code_simp
  moreover have "known_sources data_sources (sg_nodes demo_cyclic_graph)" by code_simp
  moreover have "graph_order demo_cyclic_graph = Inl (ValueError ''form a cycle of data edges'')" by code_simp
  ultimately show ?thesis using session_order_fails_iff_cycle [of demo_cyclic_graph] by blast
qed

section \<open>Wire sizes and fragments: properties\<close>

text \<open>
  The documented layout of the msgpack encoding of a binary value (bin 8, bin 16 and bin 32), and the
  encoder of a chunk dict: the other fields encode alone, so the payload's encoding stands between a
  prefix and a suffix that do not depend on it.
\<close>

definition msgpack_bin_header :: "nat \<Rightarrow> byte list" where
  "msgpack_bin_header n =
     (if n < 2 ^ 8 then [0xc4, word_of_nat n]
      else if n < 2 ^ 16 then [0xc5, word_of_nat (n div 2 ^ 8), word_of_nat n]
      else [0xc6, word_of_nat (n div 2 ^ 24), word_of_nat (n div 2 ^ 16), word_of_nat (n div 2 ^ 8), word_of_nat n])"

definition bin_layout :: "(timed_chunk \<Rightarrow> byte list) \<Rightarrow> bool" where
  "bin_layout packb \<longleftrightarrow>
     (\<forall>c. \<exists>pre post. \<forall>p. length p < 2 ^ 32 \<longrightarrow>
        packb (c\<lparr>tc_payload := PBytes p\<rparr>) = pre @ msgpack_bin_header (length p) @ p @ post)"

lemma msgpack_bin_header_length: "length (msgpack_bin_header n) = 2 + header_growth n"
  by (simp add: msgpack_bin_header_def header_growth_def msgpack_sizes)

lemma header_growth_le: "header_growth n \<le> MSGPACK_BIN32_HEADER_GROWTH"
  by (simp add: header_growth_def msgpack_sizes)

lemma bin_layout_size:
  assumes "bin_layout packb" and "length p < 2 ^ 32"
  shows "length (packb (c\<lparr>tc_payload := PBytes p\<rparr>)) =
         length (packb (c\<lparr>tc_payload := PBytes []\<rparr>)) + length p + header_growth (length p)"
proof -
  obtain pre post where l: "\<And>p. length p < 2 ^ 32 \<Longrightarrow>
      packb (c\<lparr>tc_payload := PBytes p\<rparr>) = pre @ msgpack_bin_header (length p) @ p @ post"
    using assms(1) unfolding bin_layout_def by blast
  have "length (packb (c\<lparr>tc_payload := PBytes []\<rparr>)) = length pre + 2 + length post"
    using l [of "[]"] by (simp add: msgpack_bin_header_length header_growth_def msgpack_sizes)
  then show ?thesis using l [OF assms(2)] by (simp add: msgpack_bin_header_length)
qed

text \<open>
  C35. \<open>wire_size\<close>, which never copies a binary payload, is the exact length of the chunk's msgpack
  encoding, in each of the three sizes of a msgpack binary header.\<close>

theorem wire_size_exact:
  assumes "bin_layout packb" and "\<And>p. tc_payload c = PBytes p \<Longrightarrow> length p < 2 ^ 32"
  shows "wire_size packb c = int (length (packb c))"
proof (cases "tc_payload c")
  case (PBytes p)
  then have "c\<lparr>tc_payload := PBytes p\<rparr> = c" by simp
  with bin_layout_size [OF assms(1) assms(2) [OF PBytes], of c] PBytes show ?thesis by (simp add: wire_size_def)
qed (simp_all add: wire_size_def)

text \<open>A small encoder with the documented layout, for the witnesses.\<close>

definition demo_packb :: "timed_chunk \<Rightarrow> byte list" where
  "demo_packb c = [0x88, word_of_int (tc_seq c)] @
     (case tc_payload c of PBytes p \<Rightarrow> msgpack_bin_header (length p) @ p | _ \<Rightarrow> [0xc0]) @ [0xc2]"

definition demo_chunk :: timed_chunk where
  "demo_chunk = \<lparr>tc_modality = ''audio'', tc_t_start_ms = 0, tc_duration_ms = 20, tc_seq = 4,
     tc_payload = PBytes (replicate 20 7), tc_format = Some ''pcm16'', tc_eos = False, tc_turn = Some 2\<rparr>"

lemma demo_packb_layout: "bin_layout demo_packb"
  unfolding bin_layout_def
proof
  fix c
  show "\<exists>pre post. \<forall>p. length p < 2 ^ 32 \<longrightarrow>
      demo_packb (c\<lparr>tc_payload := PBytes p\<rparr>) = pre @ msgpack_bin_header (length p) @ p @ post"
    by (intro exI [of _ "[0x88, word_of_int (tc_seq c)]"] exI [of _ "[0xc2]"]) (simp add: demo_packb_def)
qed

theorem wire_size_exact_witness: "wire_size demo_packb demo_chunk = 25 \<and> length (demo_packb demo_chunk) = 25"
proof -
  have "wire_size demo_packb demo_chunk = int (length (demo_packb demo_chunk))"
    by (rule wire_size_exact [OF demo_packb_layout]) (auto simp: demo_chunk_def)
  moreover have "length (demo_packb demo_chunk) = 25" by code_simp
  ultimately show ?thesis by simp
qed

text \<open>The fragments yielded when every fragment's envelope leaves room.\<close>

definition envelope_fits :: "(timed_chunk \<Rightarrow> byte list) \<Rightarrow> timed_chunk \<Rightarrow> int \<Rightarrow> int \<Rightarrow> bool" where
  "envelope_fits packb chunk mx s \<longleftrightarrow>
     wire_size packb (chunk\<lparr>tc_seq := s, tc_payload := PBytes []\<rparr>) + int MSGPACK_BIN32_HEADER_GROWTH < mx"

lemma fragment_loop_run:
  assumes "\<And>s. seq \<le> s \<Longrightarrow> s < seq + int (length rest) \<Longrightarrow> envelope_fits packb chunk mx s"
    and "fragment_loop packb chunk mx seq rest = (fs, e)"
  shows "e = None \<and> concat (map (payload_bytes \<circ> tc_payload \<circ> fst) fs) = rest \<and> (fs = [] \<longleftrightarrow> rest = []) \<and>
         map (tc_seq \<circ> fst) fs = map (\<lambda>i. seq + int i) [0..<length fs] \<and>
         map snd fs = map (\<lambda>i. Suc i < length fs) [0..<length fs] \<and>
         (\<forall>(f, _) \<in> set fs. \<exists>s p. f = chunk\<lparr>tc_seq := s, tc_payload := PBytes p\<rparr> \<and> p \<noteq> [] \<and>
            int (length p) \<le> mx - (wire_size packb (chunk\<lparr>tc_seq := s, tc_payload := PBytes []\<rparr>) + int MSGPACK_BIN32_HEADER_GROWTH))"
  using assms
proof (induction "length rest" arbitrary: seq rest fs e rule: less_induct)
  case less
  show ?case
  proof (cases "rest = []")
    case True
    with less.prems(2) show ?thesis by (subst (asm) fragment_loop.simps) simp
  next
    case False
    define env where "env = wire_size packb (chunk\<lparr>tc_seq := seq, tc_payload := PBytes []\<rparr>) + int MSGPACK_BIN32_HEADER_GROWTH"
    define n where "n = nat (mx - env)"
    have "envelope_fits packb chunk mx seq" using less.prems(1) [of seq] False by simp
    then have room: "env < mx" by (simp add: envelope_fits_def env_def)
    then have n: "0 < n" "int n = mx - env" by (simp_all add: n_def)
    obtain gs e' where rec: "fragment_loop packb chunk mx (seq + 1) (drop n rest) = (gs, e')" by fastforce
    have fs: "fs = (chunk\<lparr>tc_seq := seq, tc_payload := PBytes (take n rest)\<rparr>, n < length rest) # gs" "e = e'"
      using less.prems(2) False room rec by (subst (asm) fragment_loop.simps, simp add: Let_def env_def n_def)+
    have ih: "e' = None" "concat (map (payload_bytes \<circ> tc_payload \<circ> fst) gs) = drop n rest"
      "(gs = []) = (drop n rest = [])"
      "map (tc_seq \<circ> fst) gs = map (\<lambda>i. seq + 1 + int i) [0..<length gs]"
      "map snd gs = map (\<lambda>i. Suc i < length gs) [0..<length gs]"
      "\<forall>(f, _) \<in> set gs. \<exists>s p. f = chunk\<lparr>tc_seq := s, tc_payload := PBytes p\<rparr> \<and> p \<noteq> [] \<and>
            int (length p) \<le> mx - (wire_size packb (chunk\<lparr>tc_seq := s, tc_payload := PBytes []\<rparr>) + int MSGPACK_BIN32_HEADER_GROWTH)"
      using less.hyps [OF _ _ rec] less.prems(1) False n(1) by auto
    have up: "[0..<length fs] = 0 # map Suc [0..<length gs]" using fs(1) by (simp add: map_Suc_upt upt_conv_Cons del: upt_Suc)
    have "map (tc_seq \<circ> fst) fs = map (\<lambda>i. seq + int i) [0..<length fs]"
      unfolding up using fs(1) ih(4) by (simp add: comp_def algebra_simps)
    moreover have "map snd fs = map (\<lambda>i. Suc i < length fs) [0..<length fs]"
      unfolding up using fs(1) ih(5,3) by (simp add: comp_def not_le)
    moreover have "concat (map (payload_bytes \<circ> tc_payload \<circ> fst) fs) = rest" using fs(1) ih(2) by simp
    moreover have "\<exists>s p. f = chunk\<lparr>tc_seq := s, tc_payload := PBytes p\<rparr> \<and> p \<noteq> [] \<and>
            int (length p) \<le> mx - (wire_size packb (chunk\<lparr>tc_seq := s, tc_payload := PBytes []\<rparr>) + int MSGPACK_BIN32_HEADER_GROWTH)"
      if "(f, b) \<in> set fs" for f b
    proof (cases "(f, b) \<in> set gs")
      case True
      with ih(6) show ?thesis by blast
    next
      case new: False
      with that fs(1) have "f = chunk\<lparr>tc_seq := seq, tc_payload := PBytes (take n rest)\<rparr>" by simp
      moreover have "take n rest \<noteq> []" using False n(1) by simp
      moreover have "int (length (take n rest)) \<le> mx - env" using n by simp
      ultimately show ?thesis unfolding env_def by blast
    qed
    ultimately show ?thesis using fs ih(1) False by auto
  qed
qed

text \<open>What the fragments of a chunk are, and that joining them restores it.\<close>

lemma fragments_all:
  assumes "bin_layout packb" and "mx < 2 ^ 32" and "packb c \<noteq> []" and "unpackb (packb c) = Inr c"
    and "\<And>s. seq \<le> s \<Longrightarrow> s < seq + int (length (packb c)) \<Longrightarrow> envelope_fits packb c mx s"
  shows "\<exists>fs. fragment_chunk packb c seq mx = (fs, None) \<and> fs \<noteq> [] \<and>
           map (tc_seq \<circ> fst) fs = map (\<lambda>i. seq + int i) [0..<length fs] \<and>
           map snd fs = map (\<lambda>i. Suc i < length fs) [0..<length fs] \<and>
           (\<forall>(f, _) \<in> set fs. int (length (packb f)) \<le> mx \<and> tc_turn f = tc_turn c) \<and>
           join_fragments unpackb (map fst fs) = Inr (c\<lparr>tc_seq := seq + int (length fs) - 1\<rparr>)"
proof -
  obtain fs e where run: "fragment_loop packb c mx seq (packb c) = (fs, e)" by fastforce
  note r = fragment_loop_run [OF assms(5) run]
  from r assms(3) have ne: "fs \<noteq> []" by simp
  have each: "int (length (packb f)) \<le> mx \<and> tc_turn f = tc_turn c" if "(f, b) \<in> set fs" for f b
  proof -
    from r that obtain s p where f: "f = c\<lparr>tc_seq := s, tc_payload := PBytes p\<rparr>"
      and p: "int (length p) \<le> mx - (wire_size packb (c\<lparr>tc_seq := s, tc_payload := PBytes []\<rparr>) + int MSGPACK_BIN32_HEADER_GROWTH)"
      by fastforce
    have len: "length p < 2 ^ 32" using p assms(2) by (auto simp: wire_size_def)
    have "length (packb f) = length (packb (c\<lparr>tc_seq := s, tc_payload := PBytes []\<rparr>)) + length p + header_growth (length p)"
      using bin_layout_size [OF assms(1) len, of "c\<lparr>tc_seq := s\<rparr>"] f by simp
    moreover have "header_growth 0 = 0" by (simp add: header_growth_def msgpack_sizes)
    ultimately show ?thesis using p f header_growth_le [of "length p"] by (simp add: wire_size_def)
  qed
  have lastf: "tc_seq (last (map fst fs)) = seq + int (length fs) - 1"
  proof -
    have "tc_seq (last (map fst fs)) = last (map (tc_seq \<circ> fst) fs)" using ne by (simp add: last_map)
    also have "\<dots> = last (map (\<lambda>i. seq + int i) [0..<length fs])" using r by simp
    also have "\<dots> = seq + int (length fs) - 1" using ne by (cases fs) (simp_all add: last_map)
    finally show ?thesis .
  qed
  have "join_fragments unpackb (map fst fs) = Inr (c\<lparr>tc_seq := seq + int (length fs) - 1\<rparr>)"
    using r ne assms(4) lastf by (simp add: join_fragments_def comp_assoc)
  with r ne each run show ?thesis unfolding fragment_chunk_def by (intro exI [of _ fs]) auto
qed

lemma fragments_many:
  assumes "fragment_chunk packb c seq mx = (fs, None)" and "0 \<le> mx" and "mx < int (length (packb c))"
    and "\<And>s. seq \<le> s \<Longrightarrow> s < seq + int (length (packb c)) \<Longrightarrow> envelope_fits packb c mx s"
  shows "2 \<le> length fs"
proof (rule ccontr)
  assume short: "\<not> 2 \<le> length fs"
  note r = fragment_loop_run [OF assms(4) assms(1) [unfolded fragment_chunk_def]]
  have "packb c \<noteq> []" using assms(2,3) by auto
  with r short obtain f b where fs: "fs = [(f, b)]" by (cases fs; cases "tl fs") auto
  with r obtain s p where "f = c\<lparr>tc_seq := s, tc_payload := PBytes p\<rparr>"
    "int (length p) \<le> mx - (wire_size packb (c\<lparr>tc_seq := s, tc_payload := PBytes []\<rparr>) + int MSGPACK_BIN32_HEADER_GROWTH)"
    by auto
  moreover from r fs this(1) have "p = packb c" by simp
  ultimately show False using assms(3) by (simp add: wire_size_def)
qed

text \<open>
  Where the limit leaves room past every envelope, \<open>fragment_chunk\<close> raises nothing and yields
  fragments numbered contiguously from \<open>seq\<close>, each of the chunk's turn and at most \<open>max_chunk_bytes\<close>
  long on the wire, all but the last announcing another, and \<open>join_fragments\<close> restores the chunk from
  them at the sequence number of the last.\<close>

theorem fragments_roundtrip:
  assumes "bin_layout packb" and "mx < 2 ^ 32" and "packb c \<noteq> []" and "unpackb (packb c) = Inr c"
    and "\<And>s. seq \<le> s \<Longrightarrow> s < seq + int (length (packb c)) \<Longrightarrow> envelope_fits packb c mx s"
  shows "\<exists>fs. fragment_chunk packb c seq mx = (fs, None) \<and> fs \<noteq> [] \<and>
           map (tc_seq \<circ> fst) fs = map (\<lambda>i. seq + int i) [0..<length fs] \<and>
           map snd fs = map (\<lambda>i. Suc i < length fs) [0..<length fs] \<and>
           (\<forall>(f, _) \<in> set fs. int (length (packb f)) \<le> mx \<and> tc_turn f = tc_turn c) \<and>
           join_fragments unpackb (map fst fs) = Inr (c\<lparr>tc_seq := seq + int (length fs) - 1\<rparr>)"
  using assms by (intro fragments_all) auto

lemma demo_envelope_fits: "envelope_fits demo_packb demo_chunk 20 s"
  by (simp add: envelope_fits_def wire_size_def demo_packb_def msgpack_bin_header_def demo_chunk_def
      header_growth_def msgpack_sizes)

theorem fragments_roundtrip_witness:
  "\<exists>fs. fragment_chunk demo_packb demo_chunk 4 20 = (fs, None) \<and> fs \<noteq> [] \<and>
     join_fragments (\<lambda>_. Inr demo_chunk) (map fst fs) = Inr (demo_chunk\<lparr>tc_seq := 4 + int (length fs) - 1\<rparr>)"
proof -
  have "demo_packb demo_chunk \<noteq> []" by (simp add: demo_packb_def)
  with fragments_roundtrip [OF demo_packb_layout, of 20 demo_chunk "\<lambda>_. Inr demo_chunk" 4] demo_envelope_fits
  show ?thesis by auto
qed

end
