(* ===== verification/Delivery.thy ===== *)
theory Delivery
  imports Session_Proto
begin

text \<open>
  Real-time delivery of reply audio, \<^verbatim>\<open>sglang_omni/pipeline/session_delivery.py\<close>:
  \<open>split_audio\<close> and the \<open>DeliveryPacer\<close>, which queues the outputs of one node with the bytes each
  holds of the output budget and releases audio no further ahead of the client's playback than the
  lead. Times are exact rationals; the initial \<open>reply_started_at = -inf\<close> is \<^const>\<open>None\<close>, and so is
  the infinite horizon it gives. The encoder behind \<open>wire_size\<close> is the argument \<open>packb\<close>.
\<close>

section \<open>Splitting audio\<close>

definition MIN_SLICE_MS :: rat where "MIN_SLICE_MS = 40"

type_synonym budgeted = "output_chunk \<times> int"

text \<open>\<open>int(x)\<close> on a float truncates toward zero; a slice bound below zero counts from the end.\<close>

definition trunc :: "rat \<Rightarrow> int" where
  "trunc x = (if 0 \<le> x then \<lfloor>x\<rfloor> else \<lceil>x\<rceil>)"

definition slice_index :: "'a list \<Rightarrow> int \<Rightarrow> nat" where
  "slice_index xs k = nat (if k < 0 then int (length xs) + k else k)"

definition split_audio ::
  "(output_chunk \<Rightarrow> byte list) \<Rightarrow> output_chunk \<Rightarrow> int \<Rightarrow> rat \<Rightarrow> (budgeted \<times> budgeted) option result" where
  "split_audio packb out sz head_ms =
     (case oc_payload out of
        PBytes payload \<Rightarrow>
          if oc_duration_ms out = 0 then Inl ZeroDivisionError
          else
            let sample_bytes = (if oc_format out = Some PCM_F32 then 4 else 2);
                cut = trunc (of_nat (length payload) * head_ms / oc_duration_ms out) div sample_bytes * sample_bytes
            in if cut = 0 then Inr None
               else if payload = [] then Inl ZeroDivisionError
               else
                 let head_duration_ms = oc_duration_ms out * of_int cut / of_nat (length payload);
                     k = slice_index payload cut;
                     head = out\<lparr>oc_duration_ms := head_duration_ms, oc_payload := PBytes (take k payload),
                                oc_eos := False\<rparr>;
                     tail = out\<lparr>oc_t_start_ms := oc_t_start_ms out + head_duration_ms,
                                oc_duration_ms := oc_duration_ms out - head_duration_ms,
                                oc_payload := PBytes (drop k payload)\<rparr>;
                     head_size = min (wire_size_out packb head) sz
                 in Inr (Some ((head, head_size), (tail, sz - head_size)))
      | _ \<Rightarrow> Inl AssertionError)"

section \<open>The pacer\<close>

record pacer =
  dp_lead_ms :: rat
  dp_wake :: bool
  dp_items :: "budgeted list"
  dp_unsent :: "budgeted list"
  dp_reply_start_ms :: rat
  dp_reply_started_at :: "rat option"
  dp_clock_turn :: "int option"
  dp_is_input_ended :: bool
  dp_sent_turn :: "int option"
  dp_sent_ms :: rat
  dp_released_turn :: "int option"
  dp_released_end_ms :: rat

definition pacer_init :: "rat \<Rightarrow> bool \<Rightarrow> pacer" where
  "pacer_init lead_ms wake =
     \<lparr>dp_lead_ms = lead_ms, dp_wake = wake, dp_items = [], dp_unsent = [], dp_reply_start_ms = 0,
      dp_reply_started_at = None, dp_clock_turn = None, dp_is_input_ended = False, dp_sent_turn = None,
      dp_sent_ms = 0, dp_released_turn = None, dp_released_end_ms = 0\<rparr>"

text \<open>
  \<open>purge\<close> and \<open>release\<close> look at the control type of queued outputs only, and \<open>offer\<close> raises on a
  malformed control before it queues it.
\<close>

definition purge :: "int option \<Rightarrow> pacer \<Rightarrow> int \<times> pacer" where
  "purge turn p =
     (if turn = None then (0, p)
      else
        let keep = filter (\<lambda>(out, _). \<not> oc_interrupted out turn);
            dropped = (queue_bytes (dp_items p) - queue_bytes (keep (dp_items p))) +
                      (queue_bytes (dp_unsent p) - queue_bytes (keep (dp_unsent p)))
        in (dropped, p\<lparr>dp_items := keep (dp_items p), dp_unsent := keep (dp_unsent p), dp_wake := True\<rparr>))"

definition offer :: "output_chunk \<Rightarrow> int \<Rightarrow> pacer \<Rightarrow> (int \<times> pacer) result" where
  "offer out sz p =
     bind_r (oc_control_type out) (\<lambda>ctl.
       let (dropped, p) = (if ctl = Some TURN_INTERRUPTED then purge (oc_turn out) p else (0, p))
       in Inr (dropped, p\<lparr>dp_items := dp_items p @ [(out, sz)], dp_wake := True\<rparr>))"

definition is_reply_audio :: "output_chunk \<Rightarrow> bool" where
  "is_reply_audio out \<longleftrightarrow> oc_kind out = KData \<and> oc_format out \<in> Some ` set AUDIO_FORMATS"

definition sent :: "output_chunk \<Rightarrow> pacer \<Rightarrow> pacer" where
  "sent out p =
     (if is_reply_audio out then
        let p = (if oc_turn out \<noteq> dp_sent_turn p then p\<lparr>dp_sent_turn := oc_turn out, dp_sent_ms := 0\<rparr> else p)
        in p\<lparr>dp_sent_ms := dp_sent_ms p + oc_duration_ms out\<rparr>
      else p)"

definition delivered_ms :: "int \<Rightarrow> pacer \<Rightarrow> rat" where
  "delivered_ms turn p = (if Some turn = dp_sent_turn p then dp_sent_ms p else 0)"

definition end_input :: "pacer \<Rightarrow> pacer" where
  "end_input p = p\<lparr>dp_is_input_ended := True, dp_wake := True\<rparr>"

text \<open>The horizon; \<^const>\<open>None\<close> is infinity.\<close>

definition horizon_ms :: "rat \<Rightarrow> pacer \<Rightarrow> rat option" where
  "horizon_ms now p =
     (case dp_reply_started_at p of
        None \<Rightarrow> None
      | Some started \<Rightarrow> Some (dp_reply_start_ms p + (now - started) * 1000 + dp_lead_ms p))"

definition start_clock :: "output_chunk \<Rightarrow> rat \<Rightarrow> pacer \<Rightarrow> pacer" where
  "start_clock out now p =
     (if oc_turn out \<noteq> dp_clock_turn p
      then p\<lparr>dp_clock_turn := oc_turn out, dp_reply_start_ms := oc_t_start_ms out, dp_reply_started_at := Some now\<rparr>
      else p)"

fun truthy :: "payload \<Rightarrow> bool" where
  "truthy (PBytes b) \<longleftrightarrow> b \<noteq> []"
| "truthy (PDict d) \<longleftrightarrow> d \<noteq> []"
| "truthy PNone \<longleftrightarrow> False"

text \<open>The state of the loop of \<open>release\<close>: the pacer, \<open>released\<close> and \<open>held\<close>.\<close>

type_synonym release_state = "pacer \<times> budgeted list \<times> budgeted list"

definition take_audio :: "budgeted \<Rightarrow> release_state \<Rightarrow> release_state" where
  "take_audio audio rs =
     (case rs of (p, released, held) \<Rightarrow>
        (p\<lparr>dp_released_turn := oc_turn (fst audio),
           dp_released_end_ms := oc_t_start_ms (fst audio) + oc_duration_ms (fst audio)\<rparr>,
         released @ [audio], held))"

text \<open>
  One round of the loop of \<open>release\<close>. The source asks for the control type in every round but those
  of reply audio, where it cannot raise.
\<close>

definition hold :: "budgeted \<Rightarrow> release_state \<Rightarrow> release_state" where
  "hold item rs = (case rs of (p, released, held) \<Rightarrow> (p, released, held @ [item]))"

definition release_audio ::
  "(output_chunk \<Rightarrow> byte list) \<Rightarrow> rat \<Rightarrow> budgeted \<Rightarrow> release_state \<Rightarrow> release_state result" where
  "release_audio packb now item rs =
     (case (item, rs) of ((out, sz), (p, released, held)) \<Rightarrow>
        let p = start_clock out now p
        in case horizon_ms now p of
             None \<Rightarrow> Inr (take_audio item (p, released, held))
           | Some h \<Rightarrow>
               if h \<le> oc_t_start_ms out then Inr (hold item (p, released, held))
               else if h < oc_t_start_ms out + oc_duration_ms out \<and> truthy (oc_payload out) then
                 bind_r (split_audio packb out sz (h - oc_t_start_ms out)) (\<lambda>split.
                   case split of
                     None \<Rightarrow> Inr (hold item (p, released, held))
                   | Some (head, tail) \<Rightarrow> Inr (hold tail (take_audio head (p, released, held))))
               else Inr (take_audio item (p, released, held)))"

definition plays_past :: "rat \<Rightarrow> pacer \<Rightarrow> bool" where
  "plays_past now p \<longleftrightarrow>
     (case horizon_ms now p of None \<Rightarrow> False | Some h \<Rightarrow> h - dp_lead_ms p < dp_released_end_ms p)"

definition release_item ::
  "(output_chunk \<Rightarrow> byte list) \<Rightarrow> rat \<Rightarrow> budgeted \<Rightarrow> release_state \<Rightarrow> release_state result" where
  "release_item packb now item rs =
     (case (item, rs) of ((out, sz), (p, released, held)) \<Rightarrow>
        bind_r (oc_control_type out) (\<lambda>ctl.
          if held \<noteq> [] \<and> (is_reply_audio out \<or> ctl = Some TURN_DONE) then Inr (hold item rs)
          else if is_reply_audio out \<and> \<not> dp_is_input_ended p then release_audio packb now item rs
          else if ctl = Some TURN_DONE \<and> \<not> dp_is_input_ended p \<and> oc_turn out = dp_released_turn p \<and> plays_past now p
          then Inr (hold item rs)
          else Inr (p, released @ [item], held)))"

definition release_loop ::
  "(output_chunk \<Rightarrow> byte list) \<Rightarrow> rat \<Rightarrow> pacer \<Rightarrow> (pacer \<times> budgeted list) result" where
  "release_loop packb now p =
     bind_r (fold_r (release_item packb now) (dp_items p) (p\<lparr>dp_wake := False\<rparr>, [], []))
       (\<lambda>(p, released, held). Inr (p\<lparr>dp_items := held\<rparr>, released))"

text \<open>\<open>math.isclose\<close> with its default relative tolerance \<open>1e-9\<close>.\<close>

definition isclose :: "rat \<Rightarrow> rat \<Rightarrow> bool" where
  "isclose a b \<longleftrightarrow> \<bar>a - b\<bar> \<le> max \<bar>a\<bar> \<bar>b\<bar> / 10 ^ 9"

fun payload_add :: "payload \<Rightarrow> payload \<Rightarrow> payload result" where
  "payload_add (PBytes a) (PBytes b) = Inr (PBytes (a @ b))"
| "payload_add _ _ = Inl (TypeError [])"

definition joins :: "rat \<Rightarrow> output_chunk \<Rightarrow> output_chunk \<Rightarrow> bool" where
  "joins lead_ms previous out \<longleftrightarrow>
     is_reply_audio out \<and> oc_kind previous = KData \<and> oc_format previous = oc_format out \<and>
     oc_turn previous = oc_turn out \<and> \<not> oc_eos previous \<and>
     isclose (oc_t_start_ms previous + oc_duration_ms previous) (oc_t_start_ms out) \<and>
     oc_duration_ms previous + oc_duration_ms out \<le> lead_ms"

definition coalesce_item :: "rat \<Rightarrow> budgeted \<Rightarrow> budgeted list \<Rightarrow> budgeted list result" where
  "coalesce_item lead_ms item coalesced =
     (case item of (out, sz) \<Rightarrow>
        if coalesced \<noteq> [] \<and> joins lead_ms (fst (last coalesced)) out then
          let (previous, previous_size) = last coalesced
          in bind_r (payload_add (oc_payload previous) (oc_payload out)) (\<lambda>payload.
               Inr (butlast coalesced @
                    [(previous\<lparr>oc_duration_ms := oc_duration_ms previous + oc_duration_ms out,
                               oc_payload := payload, oc_eos := oc_eos out\<rparr>, previous_size + sz)]))
        else Inr (coalesced @ [item]))"

definition release :: "(output_chunk \<Rightarrow> byte list) \<Rightarrow> rat \<Rightarrow> pacer \<Rightarrow> (pacer \<times> budgeted list) result" where
  "release packb now p =
     bind_r (release_loop packb now p) (\<lambda>(p, released).
     bind_r (fold_r (coalesce_item (dp_lead_ms p)) released []) (\<lambda>coalesced. Inr (p, coalesced)))"

text \<open>
  The timer of \<open>wait\<close>: \<^const>\<open>None\<close> waits for \<open>wake\<close> alone; \<open>Some d\<close> sets \<open>wake\<close> after \<open>d\<close> seconds
  (at once for the start of minus infinity).
\<close>

definition wait_delay :: "rat \<Rightarrow> pacer \<Rightarrow> rat option" where
  "wait_delay now p =
     (case dp_items p of
        [] \<Rightarrow> None
      | (out, _) # _ \<Rightarrow>
          if dp_wake p then None
          else
            let due_ms = (if oc_control out = Some TURN_DONE then dp_released_end_ms p + dp_lead_ms p
                          else oc_t_start_ms out + min (oc_duration_ms out) MIN_SLICE_MS)
            in case dp_reply_started_at p of
                 None \<Rightarrow> Some 0
               | Some started \<Rightarrow>
                   Some (max (started + (due_ms - dp_reply_start_ms p - dp_lead_ms p) / 1000 - now) 0))"

section \<open>Splitting keeps the audio\<close>

text \<open>Outputs the pacer holds: their control type does not raise, and audio carries bytes.\<close>

definition wf_output :: "output_chunk \<Rightarrow> bool" where
  "wf_output out \<longleftrightarrow>
     (case oc_control_type out of Inl _ \<Rightarrow> False | Inr _ \<Rightarrow> True) \<and>
     (is_reply_audio out \<longrightarrow> (case oc_payload out of PBytes _ \<Rightarrow> True | _ \<Rightarrow> False))"

lemma audio_control [simp]: "is_reply_audio out \<Longrightarrow> oc_control_type out = Inr None"
  by (auto simp: is_reply_audio_def control_type_def vocabulary)

lemma audio_control_of [simp]: "is_reply_audio out \<Longrightarrow> oc_control out = None"
  by (simp add: control_of_def)

lemma wf_output_control: "wf_output out \<Longrightarrow> oc_control_type out = Inr (oc_control out)"
  by (auto simp: wf_output_def control_of_def split: sum.splits)

lemma wf_output_audio: "wf_output out \<Longrightarrow> is_reply_audio out \<Longrightarrow> \<exists>b. oc_payload out = PBytes b"
  by (auto simp: wf_output_def split: payload.splits)

lemma audio_wf: "is_reply_audio out \<Longrightarrow> oc_payload out = PBytes b \<Longrightarrow> wf_output out"
  using audio_control [of out] unfolding wf_output_def by simp

lemma trunc_bounds: "0 \<le> x \<Longrightarrow> 0 \<le> trunc x \<and> of_int (trunc x) \<le> x"
  by (simp add: trunc_def)

lemma cut_bounds:
  fixes x :: rat and s :: int
  assumes "0 \<le> x" and "0 < s"
  shows "0 \<le> trunc x div s * s" and "of_int (trunc x div s * s) \<le> x"
proof -
  note t = trunc_bounds [OF assms(1)]
  show "0 \<le> trunc x div s * s" using t assms(2) by (simp add: pos_imp_zdiv_nonneg_iff)
  have "trunc x div s * s \<le> trunc x" using assms(2) by (simp add: minus_mod_eq_div_mult [symmetric])
  then have "(of_int (trunc x div s * s) :: rat) \<le> of_int (trunc x)" by (rule of_int_le_iff [THEN iffD2])
  also have "\<dots> \<le> x" using t ..
  finally show "of_int (trunc x div s * s) \<le> x" .
qed

text \<open>What a split returns for a head shorter than the chunk.\<close>

lemma split_audio_cases:
  assumes "oc_payload out = PBytes b" and "b \<noteq> []" and "0 < head_ms" and "head_ms < oc_duration_ms out"
  shows "split_audio packb out sz head_ms = Inr None \<or>
    (\<exists>k d n. split_audio packb out sz head_ms =
       Inr (Some ((out\<lparr>oc_duration_ms := d, oc_payload := PBytes (take k b), oc_eos := False\<rparr>, n),
                  (out\<lparr>oc_t_start_ms := oc_t_start_ms out + d, oc_duration_ms := oc_duration_ms out - d,
                       oc_payload := PBytes (drop k b)\<rparr>, sz - n))) \<and>
       0 < k \<and> k < length b \<and> 0 < d \<and> d \<le> head_ms \<and> n \<le> sz)"
proof -
  define s :: int where "s = (if oc_format out = Some PCM_F32 then 4 else 2)"
  define x where "x = of_nat (length b) * head_ms / oc_duration_ms out"
  define cut where "cut = trunc x div s * s"
  have dur: "0 < oc_duration_ms out" using assms by simp
  have len: "(0 :: rat) < of_nat (length b)" using assms(2) by simp
  have x: "0 \<le> x" "x < of_nat (length b)"
    using assms dur len by (simp_all add: x_def divide_simps)
  have cut: "0 \<le> cut" "of_int cut \<le> x" using cut_bounds [OF x(1), of s] by (simp_all add: cut_def s_def)
  show ?thesis
  proof (cases "cut = 0")
    case True
    with assms dur show ?thesis by (simp add: split_audio_def Let_def cut_def x_def s_def)
  next
    case False
    define d where "d = oc_duration_ms out * of_int cut / of_nat (length b)"
    define n where "n = min (wire_size_out packb (out\<lparr>oc_duration_ms := d,
        oc_payload := PBytes (take (nat cut) b), oc_eos := False\<rparr>)) sz"
    have "of_int cut < (of_int (int (length b)) :: rat)" using cut(2) x(2) by simp
    then have "cut < int (length b)" by (simp only: of_int_less_iff)
    then have k: "0 < nat cut" "nat cut < length b" using cut(1) False by simp_all
    have "0 < d" using dur len cut(1) False by (simp add: d_def)
    moreover have "d \<le> head_ms"
    proof -
      have "d \<le> oc_duration_ms out * x / of_nat (length b)"
        unfolding d_def using dur len cut(2) by (intro divide_right_mono mult_left_mono) auto
      also have "\<dots> = head_ms" using dur len by (simp add: x_def)
      finally show ?thesis .
    qed
    moreover have "slice_index b cut = nat cut" using cut(1) by (simp add: slice_index_def)
    moreover have "split_audio packb out sz head_ms =
       Inr (Some ((out\<lparr>oc_duration_ms := d, oc_payload := PBytes (take (nat cut) b), oc_eos := False\<rparr>, n),
                  (out\<lparr>oc_t_start_ms := oc_t_start_ms out + d, oc_duration_ms := oc_duration_ms out - d,
                       oc_payload := PBytes (drop (nat cut) b)\<rparr>, sz - n)))"
      using assms(1,2) dur False \<open>slice_index b cut = nat cut\<close>
      unfolding split_audio_def Let_def by (simp del: mult_eq_0_iff add: d_def n_def flip: s_def x_def cut_def)
    ultimately show ?thesis using k by (intro disjI2 exI [of _ "nat cut"] exI [of _ d] exI [of _ n]) (simp add: n_def)
  qed
qed

section \<open>Release keeps order, audio and bytes\<close>

text \<open>
  The client's view of a queue: the samples of the reply audio in order, with the turn ends between
  them. Other outputs (text, other controls, input confirmations) are not held back.
\<close>

datatype mark = Sample "int option" "string option" byte | TurnEnd "int option"

definition marks :: "output_chunk \<Rightarrow> mark list" where
  "marks out =
     (if is_reply_audio out then map (Sample (oc_turn out) (oc_format out)) (payload_bytes (oc_payload out))
      else if oc_control out = Some TURN_DONE then [TurnEnd (oc_turn out)] else [])"

definition timeline :: "budgeted list \<Rightarrow> mark list" where
  "timeline q = concat (map (marks \<circ> fst) q)"

definition unpaced :: "output_chunk \<Rightarrow> bool" where
  "unpaced out \<longleftrightarrow> \<not> is_reply_audio out \<and> oc_control out \<noteq> Some TURN_DONE"

definition others :: "budgeted list \<Rightarrow> budgeted list" where
  "others q = filter (unpaced \<circ> fst) q"

lemma timeline_simps [simp]: "timeline [] = []" "timeline (x # q) = marks (fst x) @ timeline q"
  "timeline (q @ r) = timeline q @ timeline r"
  by (simp_all add: timeline_def)

lemma others_simps [simp]: "others [] = []" "others (x # q) = (if unpaced (fst x) then x # others q else others q)"
  "others (q @ r) = others q @ others r"
  by (simp_all add: others_def)

lemma marks_unpaced [simp]: "unpaced out \<Longrightarrow> marks out = []"
  by (simp add: unpaced_def marks_def)

text \<open>What the loops keep about the items processed so far.\<close>

definition accounts :: "budgeted list \<Rightarrow> budgeted list \<Rightarrow> budgeted list \<Rightarrow> bool" where
  "accounts done released held \<longleftrightarrow>
     timeline released @ timeline held = timeline done \<and> others released = others done \<and> others held = [] \<and>
     queue_bytes released + queue_bytes held = queue_bytes done \<and> (\<forall>(out, _) \<in> set (released @ held). wf_output out)"

lemma accounts_hold:
  assumes "accounts done R H" and "wf_output (fst item)" and "\<not> unpaced (fst item)"
  shows "accounts (done @ [item]) R (H @ [item])"
  using assms by (cases item) (auto simp: accounts_def)

lemma accounts_take:
  assumes "accounts done R H" and "wf_output (fst item)" and "H = [] \<or> unpaced (fst item)"
  shows "accounts (done @ [item]) (R @ [item]) H"
  using assms by (cases item) (auto simp: accounts_def)

text \<open>A split item accounts like the whole one.\<close>

lemma accounts_split:
  assumes "accounts done R []" and "wf_output out" and "is_reply_audio out" and "oc_payload out = PBytes b"
    and "head = out\<lparr>oc_duration_ms := d, oc_payload := PBytes (take k b), oc_eos := False\<rparr>"
    and "tail = out\<lparr>oc_t_start_ms := t, oc_duration_ms := d', oc_payload := PBytes (drop k b)\<rparr>"
  shows "accounts (done @ [(out, sz)]) (R @ [(head, n)]) [(tail, sz - n)]"
proof -
  have a: "is_reply_audio head" "is_reply_audio tail" using assms(3,5,6) by (simp_all add: is_reply_audio_def)
  then have wf: "wf_output head" "wf_output tail"
    using assms(5,6) by (auto intro: audio_wf)
  have "marks head @ marks tail = marks out"
    using a assms(3-6) by (simp add: marks_def flip: map_append)
  then show ?thesis using assms(1,3) a wf by (auto simp: accounts_def unpaced_def)
qed

lemma start_clock_keeps [simp]:
  "dp_lead_ms (start_clock out now p) = dp_lead_ms p"
  "dp_is_input_ended (start_clock out now p) = dp_is_input_ended p"
  "dp_unsent (start_clock out now p) = dp_unsent p"
  "dp_released_turn (start_clock out now p) = dp_released_turn p"
  "dp_released_end_ms (start_clock out now p) = dp_released_end_ms p"
  "dp_clock_turn (start_clock out now p) = oc_turn out"
  by (auto simp: start_clock_def)

text \<open>The ways a round of reply audio ends.\<close>

lemma release_audio_cases:
  assumes "wf_output out" and "is_reply_audio out"
  obtains
    (hold) "release_audio packb now (out, sz) (p, R, []) = Inr (start_clock out now p, R, [(out, sz)])"
      and "\<exists>h. horizon_ms now (start_clock out now p) = Some h \<and> (h \<le> oc_t_start_ms out \<or>
             h < oc_t_start_ms out + oc_duration_ms out \<and> split_audio packb out sz (h - oc_t_start_ms out) = Inr None)"
  | (take) "release_audio packb now (out, sz) (p, R, []) = Inr (take_audio (out, sz) (start_clock out now p, R, []))"
      and "horizon_ms now (start_clock out now p) = None \<or> \<not> truthy (oc_payload out) \<or>
           (\<exists>h. horizon_ms now (start_clock out now p) = Some h \<and> oc_t_start_ms out + oc_duration_ms out \<le> h)"
  | (split) h b k d n where "horizon_ms now (start_clock out now p) = Some h" and "oc_payload out = PBytes b"
      and "0 < k" and "k < length b" and "oc_t_start_ms out + d \<le> h"
      and "release_audio packb now (out, sz) (p, R, []) =
        Inr (hold (out\<lparr>oc_t_start_ms := oc_t_start_ms out + d, oc_duration_ms := oc_duration_ms out - d,
                      oc_payload := PBytes (drop k b)\<rparr>, sz - n)
              (take_audio (out\<lparr>oc_duration_ms := d, oc_payload := PBytes (take k b), oc_eos := False\<rparr>, n)
                (start_clock out now p, R, [])))"
proof -
  obtain b where b: "oc_payload out = PBytes b" using wf_output_audio [OF assms] by blast
  show ?thesis
  proof (cases "horizon_ms now (start_clock out now p)")
    case None
    then show ?thesis by (intro take) (simp_all add: release_audio_def Let_def)
  next
    case (Some h)
    consider (late) "h \<le> oc_t_start_ms out"
      | (cut) "oc_t_start_ms out < h" "h < oc_t_start_ms out + oc_duration_ms out" "b \<noteq> []"
      | (whole) "oc_t_start_ms out < h" "oc_t_start_ms out + oc_duration_ms out \<le> h \<or> b = []"
      by linarith
    then show ?thesis
    proof cases
      case late
      with Some show ?thesis by (intro hold) (simp_all add: release_audio_def Let_def hold_def)
    next
      case cut
      then have "0 < h - oc_t_start_ms out" "h - oc_t_start_ms out < oc_duration_ms out" by simp_all
      from split_audio_cases [OF b cut(3) this, of packb sz] show ?thesis
      proof (elim disjE exE conjE)
        assume "split_audio packb out sz (h - oc_t_start_ms out) = Inr None"
        with Some cut b show ?thesis by (intro hold) (simp_all add: release_audio_def Let_def hold_def)
      next
        fix k d n
        assume *: "split_audio packb out sz (h - oc_t_start_ms out) =
           Inr (Some ((out\<lparr>oc_duration_ms := d, oc_payload := PBytes (take k b), oc_eos := False\<rparr>, n),
                  (out\<lparr>oc_t_start_ms := oc_t_start_ms out + d, oc_duration_ms := oc_duration_ms out - d,
                       oc_payload := PBytes (drop k b)\<rparr>, sz - n)))"
          "0 < k" "k < length b" "d \<le> h - oc_t_start_ms out"
        show ?thesis
          by (rule split [OF Some b *(2,3), of d n]) (use Some cut b * in \<open>simp_all add: release_audio_def Let_def\<close>)
      qed
    next
      case whole
      with Some b show ?thesis by (intro take) (auto simp: release_audio_def Let_def)
    qed
  qed
qed

text \<open>The clock after some rounds: the one before, or one started now by an audio item of the batch.\<close>

definition clock_from :: "pacer \<Rightarrow> budgeted list \<Rightarrow> rat \<Rightarrow> pacer \<Rightarrow> bool" where
  "clock_from p0 done now p \<longleftrightarrow>
     dp_clock_turn p = dp_clock_turn p0 \<and> dp_reply_start_ms p = dp_reply_start_ms p0 \<and>
     dp_reply_started_at p = dp_reply_started_at p0 \<or>
     (\<exists>(f, _) \<in> set done. is_reply_audio f \<and> dp_clock_turn p = oc_turn f \<and>
        dp_reply_start_ms p = oc_t_start_ms f \<and> dp_reply_started_at p = Some now)"

lemma clock_from_items [simp]: "clock_from p0 d now (p\<lparr>dp_items := q\<rparr>) \<longleftrightarrow> clock_from p0 d now p"
  by (simp add: clock_from_def)

text \<open>An audio output ends within the lead of its turn's clock.\<close>

definition within_lead :: "pacer \<Rightarrow> budgeted list \<Rightarrow> rat \<Rightarrow> output_chunk \<Rightarrow> bool" where
  "within_lead p0 done now out \<longleftrightarrow>
     dp_clock_turn p0 = oc_turn out \<and>
       (case horizon_ms now p0 of None \<Rightarrow> True | Some h \<Rightarrow> oc_t_start_ms out + oc_duration_ms out \<le> h) \<or>
     (\<exists>(f, _) \<in> set done. is_reply_audio f \<and> oc_turn f = oc_turn out \<and>
        oc_t_start_ms out + oc_duration_ms out \<le> oc_t_start_ms f + dp_lead_ms p0)"

definition ahead_ok :: "pacer \<Rightarrow> budgeted list \<Rightarrow> rat \<Rightarrow> budgeted list \<Rightarrow> bool" where
  "ahead_ok p0 done now R \<longleftrightarrow>
     (\<forall>(out, _) \<in> set R. is_reply_audio out \<longrightarrow> truthy (oc_payload out) \<longrightarrow> within_lead p0 done now out)"

definition paced :: "pacer \<Rightarrow> budgeted list \<Rightarrow> rat \<Rightarrow> pacer \<Rightarrow> budgeted list \<Rightarrow> bool" where
  "paced p0 done now p R \<longleftrightarrow>
     dp_lead_ms p = dp_lead_ms p0 \<and> dp_is_input_ended p = dp_is_input_ended p0 \<and>
     dp_unsent p = dp_unsent p0 \<and> clock_from p0 done now p \<and>
     (\<not> dp_is_input_ended p0 \<longrightarrow> ahead_ok p0 done now R)"

definition held_clock :: "pacer \<Rightarrow> budgeted list \<Rightarrow> bool" where
  "held_clock p H \<longleftrightarrow>
     (case H of [] \<Rightarrow> True
      | (out, _) # _ \<Rightarrow> is_reply_audio out \<longrightarrow> \<not> dp_is_input_ended p \<longrightarrow> dp_clock_turn p = oc_turn out)"

lemma paced_items [simp]: "paced p0 d now (p\<lparr>dp_items := q\<rparr>) R \<longleftrightarrow> paced p0 d now p R"
  by (simp add: paced_def)

lemma held_clock_items [simp]: "held_clock (p\<lparr>dp_items := q\<rparr>) H \<longleftrightarrow> held_clock p H"
  by (simp add: held_clock_def split: list.split)

lemma clock_from_mono: "clock_from p0 done now p \<Longrightarrow> clock_from p0 (done @ next) now p"
  by (auto simp: clock_from_def)

lemma within_lead_mono: "within_lead p0 done now out \<Longrightarrow> within_lead p0 (done @ next) now out"
  by (auto simp: within_lead_def)

lemma clock_from_start:
  assumes "clock_from p0 done now p" and "is_reply_audio out"
  shows "clock_from p0 (done @ [(out, sz)]) now (start_clock out now p)"
  using assms by (auto simp: clock_from_def start_clock_def)

lemma within_lead_clock:
  assumes "clock_from p0 done now p" and "dp_lead_ms p = dp_lead_ms p0" and "dp_clock_turn p = oc_turn out"
    and "case horizon_ms now p of None \<Rightarrow> True | Some h \<Rightarrow> oc_t_start_ms out + oc_duration_ms out \<le> h"
  shows "within_lead p0 done now out"
proof -
  from assms(1) show ?thesis unfolding clock_from_def
  proof (elim disjE conjE bexE)
    assume "dp_clock_turn p = dp_clock_turn p0" "dp_reply_start_ms p = dp_reply_start_ms p0"
      "dp_reply_started_at p = dp_reply_started_at p0"
    moreover from this have "horizon_ms now p = horizon_ms now p0" using assms(2) by (simp add: horizon_ms_def split: option.split)
    ultimately show ?thesis using assms(3,4) by (auto simp: within_lead_def)
  next
    fix x assume "x \<in> set done" and x: "case x of (f, _) \<Rightarrow> is_reply_audio f \<and> dp_clock_turn p = oc_turn f \<and>
        dp_reply_start_ms p = oc_t_start_ms f \<and> dp_reply_started_at p = Some now"
    moreover from x have "horizon_ms now p = Some (oc_t_start_ms (fst x) + dp_lead_ms p0)"
      using assms(2) by (simp add: horizon_ms_def split: prod.splits)
    ultimately show ?thesis using assms(3,4) by (auto simp: within_lead_def)
  qed
qed

text \<open>The invariant of the loop, and that a round never raises and keeps it.\<close>

definition loop_inv :: "pacer \<Rightarrow> rat \<Rightarrow> budgeted list \<Rightarrow> release_state \<Rightarrow> bool" where
  "loop_inv p0 now done rs \<longleftrightarrow>
     (case rs of (p, R, H) \<Rightarrow> accounts done R H \<and> paced p0 done now p R \<and> held_clock p H)"

lemma ahead_ok_snoc [simp]:
  "ahead_ok p0 done now (R @ [item]) \<longleftrightarrow> ahead_ok p0 done now R \<and>
     (is_reply_audio (fst item) \<longrightarrow> truthy (oc_payload (fst item)) \<longrightarrow> within_lead p0 done now (fst item))"
  by (cases item) (auto simp: ahead_ok_def)

lemma ahead_ok_mono:
  assumes "ahead_ok p0 done now R"
  shows "ahead_ok p0 (done @ next) now R"
  using assms within_lead_mono unfolding ahead_ok_def by blast

lemma paced_more: "paced p0 done now p R \<Longrightarrow> paced p0 (done @ next) now p R"
  unfolding paced_def using clock_from_mono ahead_ok_mono by blast

lemma paced_other:
  "paced p0 done now p R \<Longrightarrow> \<not> is_reply_audio (fst item) \<or> dp_is_input_ended p0 \<Longrightarrow>
   paced p0 (done @ next) now p (R @ [item])"
  using paced_more [of p0 "done" now p R "next"] unfolding paced_def ahead_ok_snoc by blast

lemma paced_start:
  assumes "paced p0 done now p R" and "is_reply_audio out"
  shows "paced p0 (done @ [(out, sz)]) now (start_clock out now p) R"
  using paced_more [OF assms(1), of "[(out, sz)]"] clock_from_start [OF _ assms(2), of p0 "done" now p] assms(1)
  unfolding paced_def by simp

lemma paced_take:
  assumes "paced p0 done now p R" and "dp_clock_turn p = oc_turn out"
    and "case horizon_ms now p of None \<Rightarrow> True
         | Some h \<Rightarrow> truthy (oc_payload out) \<longrightarrow> oc_t_start_ms out + oc_duration_ms out \<le> h"
    and "take_audio (out, n) (p, R, H) = (p', R', H')"
  shows "paced p0 done now p' R'"
proof -
  have p': "p' = p\<lparr>dp_released_turn := oc_turn out, dp_released_end_ms := oc_t_start_ms out + oc_duration_ms out\<rparr>"
    "R' = R @ [(out, n)]" using assms(4) by (simp_all add: take_audio_def)
  have clk: "clock_from p0 done now p" "dp_lead_ms p = dp_lead_ms p0" using assms(1) by (simp_all add: paced_def)
  have "truthy (oc_payload out) \<Longrightarrow> within_lead p0 done now out"
    using within_lead_clock [OF clk assms(2)] assms(3) by (auto split: option.splits)
  then show ?thesis using assms(1) p' clk by (simp add: paced_def clock_from_def)
qed

lemma release_audio_inv:
  assumes "loop_inv p0 now done (p, R, [])" and "wf_output out" and "is_reply_audio out" and "\<not> dp_is_input_ended p"
  shows "\<exists>rs. release_audio packb now (out, sz) (p, R, []) = Inr rs \<and> loop_inv p0 now (done @ [(out, sz)]) rs"
proof -
  have acc: "accounts done R []" and pc: "paced p0 done now p R" using assms(1) by (simp_all add: loop_inv_def)
  note ps = paced_start [OF pc assms(3), of sz]
  have np: "\<not> unpaced out" using assms(3) by (simp add: unpaced_def)
  show ?thesis
    using assms(2,3)
  proof (cases rule: release_audio_cases [where packb = packb and now = now and sz = sz and p = p and R = R])
    case hold
    with accounts_hold [OF acc, of "(out, sz)"] ps assms(2) np show ?thesis by (simp add: loop_inv_def held_clock_def)
  next
    case take
    have "case horizon_ms now (start_clock out now p) of None \<Rightarrow> True
        | Some h \<Rightarrow> truthy (oc_payload out) \<longrightarrow> oc_t_start_ms out + oc_duration_ms out \<le> h"
      using take(2) by (auto split: option.splits)
    from paced_take [OF ps _ this] accounts_take [OF acc, of "(out, sz)"] take(1) assms(2) show ?thesis
      by (simp add: loop_inv_def held_clock_def take_audio_def)
  next
    case (split h b k d n)
    let ?head = "out\<lparr>oc_duration_ms := d, oc_payload := PBytes (take k b), oc_eos := False\<rparr>"
    have "case horizon_ms now (start_clock out now p) of None \<Rightarrow> True
        | Some h \<Rightarrow> truthy (oc_payload ?head) \<longrightarrow> oc_t_start_ms ?head + oc_duration_ms ?head \<le> h"
      using split by simp
    note pt = paced_take [OF ps _ this]
    from pt accounts_split [OF acc assms(2,3) split(2) refl refl] split(6) show ?thesis
      by (simp add: loop_inv_def held_clock_def take_audio_def hold_def)
  qed
qed

lemma release_item_inv:
  assumes "loop_inv p0 now done (p, R, H)" and "wf_output out"
  shows "\<exists>rs. release_item packb now (out, sz) (p, R, H) = Inr rs \<and> loop_inv p0 now (done @ [(out, sz)]) rs"
proof -
  have acc: "accounts done R H" and pc: "paced p0 done now p R" and hc: "held_clock p H"
    using assms(1) by (simp_all add: loop_inv_def)
  note ctl = wf_output_control [OF assms(2)]
  have hold: "loop_inv p0 now (done @ [(out, sz)]) (p, R, H @ [(out, sz)])"
    if "\<not> unpaced out" "H = [] \<longrightarrow> \<not> is_reply_audio out"
    using accounts_hold [OF acc, of "(out, sz)"] paced_more [OF pc, of "[(out, sz)]"] hc that assms(2)
    by (cases H) (auto simp: loop_inv_def held_clock_def)
  consider (held) "H \<noteq> []" "is_reply_audio out \<or> oc_control out = Some TURN_DONE"
    | (audio) "H = []" "is_reply_audio out" "\<not> dp_is_input_ended p"
    | (turn_end) "H = []" "\<not> is_reply_audio out" "oc_control out = Some TURN_DONE" "\<not> dp_is_input_ended p"
        "oc_turn out = dp_released_turn p" "plays_past now p"
    | (free) "release_item packb now (out, sz) (p, R, H) = Inr (p, R @ [(out, sz)], H)"
        "H = [] \<or> unpaced out" "\<not> is_reply_audio out \<or> dp_is_input_ended p"
  proof -
    have "release_item packb now (out, sz) (p, R, H) = Inr (p, R @ [(out, sz)], H)"
      if "\<not> (H \<noteq> [] \<and> (is_reply_audio out \<or> oc_control out = Some TURN_DONE))"
        "\<not> (is_reply_audio out \<and> \<not> dp_is_input_ended p)"
        "\<not> (oc_control out = Some TURN_DONE \<and> \<not> dp_is_input_ended p \<and> oc_turn out = dp_released_turn p \<and> plays_past now p)"
      using that unfolding release_item_def by (simp only: prod.case ctl bind_r_simps if_False)
    then show thesis using held audio turn_end free audio_control_of [of out] unfolding unpaced_def by fastforce
  qed
  then show ?thesis
  proof cases
    case held
    with hold ctl show ?thesis by (simp add: release_item_def hold_def unpaced_def)
  next
    case audio
    with release_audio_inv [of p0 now "done" p R out packb sz] assms show ?thesis by (simp add: release_item_def)
  next
    case turn_end
    with hold ctl show ?thesis by (simp add: release_item_def hold_def unpaced_def)
  next
    case free
    moreover have "paced p0 (done @ [(out, sz)]) now p (R @ [(out, sz)])"
      using paced_other [OF pc, of "(out, sz)"] free(3) pc by (auto simp: paced_def)
    ultimately show ?thesis using accounts_take [OF acc, of "(out, sz)"] assms(2) hc by (simp add: loop_inv_def)
  qed
qed

lemma release_fold_inv:
  assumes "loop_inv p0 now done rs" and "\<forall>(out, _) \<in> set items. wf_output out"
  shows "\<exists>rs'. fold_r (release_item packb now) items rs = Inr rs' \<and> loop_inv p0 now (done @ items) rs'"
  using assms
proof (induction items arbitrary: rs "done")
  case (Cons item items)
  obtain out sz p R H where [simp]: "item = (out, sz)" "rs = (p, R, H)" by (metis prod.exhaust)
  obtain rs1 where "release_item packb now item rs = Inr rs1" "loop_inv p0 now (done @ [item]) rs1"
    using release_item_inv [of p0 now "done" p R H out packb sz] Cons.prems by auto
  with Cons.IH [of "done @ [item]" rs1] Cons.prems(2) show ?case by auto
qed simp

definition pacer_ok :: "pacer \<Rightarrow> bool" where
  "pacer_ok p \<longleftrightarrow> (\<forall>(out, _) \<in> set (dp_items p @ dp_unsent p). wf_output out)"

lemma release_loop_inv:
  assumes "pacer_ok p"
  shows "\<exists>p' R. release_loop packb now p = Inr (p', R) \<and> loop_inv p now (dp_items p) (p', R, dp_items p')"
proof -
  have "loop_inv p now [] (p\<lparr>dp_wake := False\<rparr>, [], [])"
    by (simp add: loop_inv_def accounts_def paced_def clock_from_def held_clock_def ahead_ok_def)
  from release_fold_inv [OF this, of "dp_items p" packb] assms
  obtain rs where "fold_r (release_item packb now) (dp_items p) (p\<lparr>dp_wake := False\<rparr>, [], []) = Inr rs"
    "loop_inv p now (dp_items p) rs" by (auto simp: pacer_ok_def)
  then show ?thesis
    by (cases rs) (simp add: release_loop_def loop_inv_def)
qed

section \<open>Coalescing\<close>

definition coalesced_ok :: "rat \<Rightarrow> budgeted list \<Rightarrow> budgeted list \<Rightarrow> bool" where
  "coalesced_ok lead_ms done acc \<longleftrightarrow> accounts done acc [] \<and>
     (\<forall>(out, _) \<in> set acc. oc_duration_ms out \<le> lead_ms \<or> (\<exists>n. (out, n) \<in> set done))"

lemma coalesce_item_ok:
  assumes "coalesced_ok lead done acc" and "wf_output (fst item)"
  shows "\<exists>acc'. coalesce_item lead item acc = Inr acc' \<and> coalesced_ok lead (done @ [item]) acc' \<and>
           (\<not> is_reply_audio (fst item) \<longrightarrow> acc' = acc @ [item])"
proof (cases "acc \<noteq> [] \<and> joins lead (fst (last acc)) (fst item)")
  case False
  then have "coalesce_item lead item acc = Inr (acc @ [item])" by (auto simp: coalesce_item_def split: prod.splits)
  moreover have "coalesced_ok lead (done @ [item]) (acc @ [item])"
    using assms accounts_take [of "done" acc "[]" item] unfolding coalesced_ok_def by (cases item) auto
  ultimately show ?thesis by blast
next
  case True
  obtain front prev n where acc: "acc = front @ [(prev, n)]" using True by (cases acc rule: rev_cases) auto
  obtain out sz where it: "item = (out, sz)" by (cases item)
  from True acc it have j: "joins lead prev out" by simp
  then have au: "is_reply_audio out" "is_reply_audio prev" by (simp_all add: joins_def is_reply_audio_def)
  have wf: "wf_output prev" "wf_output out" using assms acc it by (auto simp: coalesced_ok_def accounts_def)
  obtain a b where pay: "oc_payload prev = PBytes a" "oc_payload out = PBytes b"
    using wf_output_audio wf au by blast
  define new where "new = prev\<lparr>oc_duration_ms := oc_duration_ms prev + oc_duration_ms out,
      oc_payload := PBytes (a @ b), oc_eos := oc_eos out\<rparr>"
  have run: "coalesce_item lead item acc = Inr (front @ [(new, n + sz)])"
    using acc it j pay by (simp add: coalesce_item_def new_def)
  have na: "is_reply_audio new" "wf_output new"
    using au(2) by (simp_all add: new_def is_reply_audio_def) (auto intro!: audio_wf simp: is_reply_audio_def)
  have "marks new = marks prev @ marks out"
    using na(1) au pay j by (simp add: marks_def new_def joins_def)
  then have "accounts (done @ [item]) (front @ [(new, n + sz)]) []"
    using assms(1) na au it acc by (auto simp: coalesced_ok_def accounts_def unpaced_def)
  moreover have "oc_duration_ms new \<le> lead" using j by (simp add: new_def joins_def)
  ultimately show ?thesis using run assms(1) acc au it by (auto simp: coalesced_ok_def)
qed

lemma coalesce_fold_ok:
  assumes "coalesced_ok lead done acc" and "\<forall>(out, _) \<in> set items. wf_output out"
  shows "\<exists>acc'. fold_r (coalesce_item lead) items acc = Inr acc' \<and> coalesced_ok lead (done @ items) acc' \<and>
           (items \<noteq> [] \<longrightarrow> \<not> is_reply_audio (fst (last items)) \<longrightarrow> acc' \<noteq> [] \<and> last acc' = last items)"
  using assms
proof (induction items arbitrary: acc "done")
  case (Cons item items)
  from Cons.prems(2) have "wf_output (fst item)" by (cases item) simp
  from coalesce_item_ok [OF Cons.prems(1) this] obtain acc1 where a:
    "coalesce_item lead item acc = Inr acc1" "coalesced_ok lead (done @ [item]) acc1"
    "\<not> is_reply_audio (fst item) \<longrightarrow> acc1 = acc @ [item]" by blast
  from Cons.IH [OF a(2)] Cons.prems(2) a show ?case by (cases items) auto
qed simp

section \<open>Properties of release\<close>

text \<open>The two halves of a release put together.\<close>

lemma release_run:
  assumes "pacer_ok p"
  obtains p' R out where "release packb now p = Inr (p', out)" and "release_loop packb now p = Inr (p', R)"
    and "loop_inv p now (dp_items p) (p', R, dp_items p')" and "coalesced_ok (dp_lead_ms p') R out"
    and "R \<noteq> [] \<longrightarrow> \<not> is_reply_audio (fst (last R)) \<longrightarrow> out \<noteq> [] \<and> last out = last R"
proof -
  obtain p' R where r: "release_loop packb now p = Inr (p', R)" "loop_inv p now (dp_items p) (p', R, dp_items p')"
    using release_loop_inv [OF assms] by blast
  have wf: "\<forall>(out, _) \<in> set R. wf_output out" using r(2) by (auto simp: loop_inv_def accounts_def)
  have "coalesced_ok (dp_lead_ms p') [] []" by (simp add: coalesced_ok_def accounts_def)
  from coalesce_fold_ok [OF this wf] obtain out where "fold_r (coalesce_item (dp_lead_ms p')) R [] = Inr out"
    "coalesced_ok (dp_lead_ms p') R out"
    "R \<noteq> [] \<longrightarrow> \<not> is_reply_audio (fst (last R)) \<longrightarrow> out \<noteq> [] \<and> last out = last R"
    unfolding append_Nil by blast
  with r show thesis by (intro that [of p' out R]) (simp_all add: release_def)
qed


definition demo_output :: "int \<Rightarrow> rat \<Rightarrow> output_chunk" where
  "demo_output seq t = \<lparr>oc_identity = \<lparr>sid_id = ''s'', sid_open_index = 1\<rparr>, oc_seq = seq, oc_input_seq = 0,
     oc_modality = ''audio'', oc_t_start_ms = t, oc_duration_ms = 100, oc_payload = PBytes (replicate 20 1),
     oc_format = Some ''pcm16'', oc_eos = False, oc_turn = Some 1, oc_kind = KData\<rparr>"

definition demo_done :: output_chunk where
  "demo_done = (demo_output 9 0)\<lparr>oc_payload := PDict [(''type'', JStr ''turn.done'')], oc_format := Some ''session''\<rparr>"

definition demo_pacer :: pacer where
  "demo_pacer = (pacer_init 150 True)\<lparr>dp_items := [(demo_output 1 0, 30), (demo_output 2 100, 30), (demo_done, 20)]\<rparr>"

lemma demo_pacer_ok: "pacer_ok demo_pacer"
  by code_simp




text \<open>
  A \<open>turn.done\<close> offered last leaves only with everything before it, and only once the client has
  played the released audio of its turn to the end; otherwise it stays the last held output.\<close>

theorem turn_done_waits_for_playback:
  assumes "pacer_ok p" and "\<not> dp_is_input_ended p"
    and "dp_items p = items @ [(turn_end, n)]" and "oc_control turn_end = Some TURN_DONE"
  shows "\<exists>p' out. release packb now p = Inr (p', out) \<and>
           (if dp_items p' = []
            then out \<noteq> [] \<and> last out = (turn_end, n) \<and>
                 \<not> (oc_turn turn_end = dp_released_turn p' \<and> plays_past now p')
            else last (dp_items p') = (turn_end, n))"
proof -
  have na: "\<not> is_reply_audio turn_end" using assms(4) by force
  have wf: "\<forall>(out, _) \<in> set items. wf_output out" "wf_output turn_end" using assms(1,3) by (auto simp: pacer_ok_def)
  have "loop_inv p now [] (p\<lparr>dp_wake := False\<rparr>, [], [])"
    by (simp add: loop_inv_def accounts_def paced_def clock_from_def held_clock_def ahead_ok_def)
  from release_fold_inv [OF this wf(1), of packb] obtain q R H where
    f: "fold_r (release_item packb now) items (p\<lparr>dp_wake := False\<rparr>, [], []) = Inr (q, R, H)"
    and inv: "loop_inv p now items (q, R, H)" by (metis append_Nil prod.exhaust)
  have ended: "\<not> dp_is_input_ended q" using inv assms(2) by (simp add: loop_inv_def paced_def)
  let ?held = "H \<noteq> [] \<or> oc_turn turn_end = dp_released_turn q \<and> plays_past now q"
  have "release_item packb now (turn_end, n) (q, R, H) =
      Inr (if ?held then (q, R, H @ [(turn_end, n)]) else (q, R @ [(turn_end, n)], H))"
    using wf_output_control [OF wf(2)] assms(4) na ended by (simp add: release_item_def hold_def)
  with f have loop: "release_loop packb now p =
      (if ?held then Inr (q\<lparr>dp_items := H @ [(turn_end, n)]\<rparr>, R) else Inr (q\<lparr>dp_items := H\<rparr>, R @ [(turn_end, n)]))"
    using assms(3) by (simp add: release_loop_def fold_r_append)
  obtain p' R' out where run: "release packb now p = Inr (p', out)" "release_loop packb now p = Inr (p', R')"
    "R' \<noteq> [] \<longrightarrow> \<not> is_reply_audio (fst (last R')) \<longrightarrow> out \<noteq> [] \<and> last out = last R'"
    using release_run [OF assms(1)] by metis
  have pp: "plays_past now (q\<lparr>dp_items := H\<rparr>) = plays_past now q" by (simp add: plays_past_def horizon_ms_def split: option.split)
  show ?thesis
  proof (cases ?held)
    case True
    from trans [OF loop if_P [OF True]] run(2) have "p' = q\<lparr>dp_items := H @ [(turn_end, n)]\<rparr>" by simp
    with run(1) show ?thesis by simp
  next
    case False
    from trans [OF loop if_not_P [OF False]] run(2)
    have p': "p' = q\<lparr>dp_items := H\<rparr>" "R' = R @ [(turn_end, n)]" by simp_all
    with run(3) na have "out \<noteq> [] \<and> last out = (turn_end, n)" by simp
    with run(1) p'(1) False pp show ?thesis by simp
  qed
qed

theorem turn_done_waits_for_playback_witness:
  "\<exists>p' out. release (\<lambda>_. [0, 0]) 5 demo_pacer = Inr (p', out) \<and>
     (if dp_items p' = [] then out \<noteq> [] \<and> last out = (demo_done, 20) \<and>
        \<not> (oc_turn demo_done = dp_released_turn p' \<and> plays_past 5 p')
      else last (dp_items p') = (demo_done, 20))"
proof -
  have "\<not> dp_is_input_ended demo_pacer" by code_simp
  moreover have "dp_items demo_pacer = [(demo_output 1 0, 30), (demo_output 2 100, 30)] @ [(demo_done, 20)]"
    by (simp add: demo_pacer_def)
  moreover have "oc_control demo_done = Some TURN_DONE" by code_simp
  ultimately show ?thesis by (rule turn_done_waits_for_playback [OF demo_pacer_ok])
qed

section \<open>The timer of wait makes progress\<close>

lemma release_item_keeps_timeline:
  assumes "release_item packb now item (p, R, H) = Inr (p', R', H')"
  shows "\<exists>S. R' = R @ S"
proof -
  obtain out sz where "item = (out, sz)" by (cases item)
  with assms show ?thesis
    by (auto simp: release_item_def release_audio_def bind_r_Inr_iff hold_def take_audio_def Let_def
        split: if_splits option.splits prod.splits)
qed

lemma release_fold_keeps:
  "fold_r (release_item packb now) items (p, R, H) = Inr (p', R', H') \<Longrightarrow> \<exists>S. R' = R @ S"
proof (induction items arbitrary: p R H)
  case (Cons item items)
  then obtain q Q G where "release_item packb now item (p, R, H) = Inr (q, Q, G)"
    "fold_r (release_item packb now) items (q, Q, G) = Inr (p', R', H')"
    by (auto simp: bind_r_Inr_iff)
  with Cons.IH release_item_keeps_timeline show ?case by (metis append_assoc)
qed simp

text \<open>A chunk whose first \<open>MIN_SLICE_MS\<close> hold a whole sample.\<close>

definition has_slice :: "output_chunk \<Rightarrow> bool" where
  "has_slice out \<longleftrightarrow>
     (case oc_payload out of PBytes b \<Rightarrow>
        b \<noteq> [] \<and> 0 < oc_duration_ms out \<and>
        (if oc_format out = Some PCM_F32 then 4 else 2) \<le>
          of_nat (length b) * min (oc_duration_ms out) MIN_SLICE_MS / oc_duration_ms out
      | _ \<Rightarrow> False)"

lemma split_audio_slice:
  assumes "has_slice out" and "MIN_SLICE_MS \<le> head_ms" and "head_ms < oc_duration_ms out"
  shows "split_audio packb out sz head_ms \<noteq> Inr None"
proof -
  obtain b where b: "oc_payload out = PBytes b" "b \<noteq> []" "0 < oc_duration_ms out"
    using assms(1) by (auto simp: has_slice_def split: payload.splits)
  define s :: int where "s = (if oc_format out = Some PCM_F32 then 4 else 2)"
  define x where "x = of_nat (length b) * head_ms / oc_duration_ms out"
  have "of_int s \<le> of_nat (length b) * MIN_SLICE_MS / oc_duration_ms out"
    using assms b by (auto simp: has_slice_def s_def split: if_splits)
  also have "\<dots> \<le> x" using b assms(2) unfolding x_def by (intro divide_right_mono mult_left_mono) auto
  finally have x: "of_int s \<le> x" .
  have "0 < s" by (simp add: s_def)
  then have "0 \<le> x" using x by (simp add: order_trans [of 0 "of_int s"])
  then have "s \<le> trunc x" using x by (simp add: trunc_def le_floor_iff)
  then have "trunc x div s \<noteq> 0" using \<open>0 < s\<close> pos_imp_zdiv_pos_iff [of s "trunc x"] by simp
  then have "trunc x div s * s \<noteq> 0" using \<open>0 < s\<close> by simp
  then show ?thesis using b unfolding split_audio_def Let_def
    by (simp del: mult_eq_0_iff flip: s_def x_def)
qed

lemma release_first:
  assumes "pacer_ok p" and "dp_items p = item # items"
    and "release_item packb now item (p\<lparr>dp_wake := False\<rparr>, [], []) = Inr (q, R, H)" and "timeline R \<noteq> []"
  shows "\<exists>p' out. release packb now p = Inr (p', out) \<and> timeline out \<noteq> []"
proof -
  obtain p' R' out where run: "release packb now p = Inr (p', out)" "release_loop packb now p = Inr (p', R')"
    and co: "coalesced_ok (dp_lead_ms p') R' out" using release_run [OF assms(1)] by metis
  from run(2) assms(2,3) obtain q' H' where "fold_r (release_item packb now) items (q, R, H) = Inr (q', R', H')"
    by (auto simp: release_loop_def bind_r_Inr_iff)
  from release_fold_keeps [OF this] obtain S where "R' = R @ S" by blast
  with assms(4) co run(1) show ?thesis by (auto simp: coalesced_ok_def accounts_def)
qed

lemma due_audio_leaves:
  assumes "has_slice out" and "is_reply_audio out" and "\<not> dp_is_input_ended p" and "dp_clock_turn p = oc_turn out"
    and "case horizon_ms now p of None \<Rightarrow> True
         | Some h \<Rightarrow> oc_t_start_ms out + min (oc_duration_ms out) MIN_SLICE_MS \<le> h"
  shows "\<exists>q R H. release_item packb now (out, sz) (p, [], []) = Inr (q, R, H) \<and> timeline R \<noteq> []"
proof -
  obtain b where b: "oc_payload out = PBytes b" "b \<noteq> []" "0 < oc_duration_ms out"
    using assms(1) by (auto simp: has_slice_def split: payload.splits)
  have wf: "wf_output out" by (rule audio_wf [OF assms(2) b(1)])
  have clk: "start_clock out now p = p" using assms(4) by (simp add: start_clock_def)
  have step: "release_item packb now (out, sz) (p, [], []) = release_audio packb now (out, sz) (p, [], [])"
    using assms(2,3) by (simp add: release_item_def)
  have mk: "marks out \<noteq> []" using assms(2) b by (simp add: marks_def)
  show ?thesis
    using wf assms(2)
  proof (cases rule: release_audio_cases [where packb = packb and now = now and sz = sz and p = p and R = "[]"])
    case hold
    from hold(2) clk obtain h where h: "horizon_ms now p = Some h"
      and c: "h \<le> oc_t_start_ms out \<or> h < oc_t_start_ms out + oc_duration_ms out \<and>
        split_audio packb out sz (h - oc_t_start_ms out) = Inr None" by auto
    from assms(5) h have due: "oc_t_start_ms out + min (oc_duration_ms out) MIN_SLICE_MS \<le> h" by simp
    have "0 < min (oc_duration_ms out) MIN_SLICE_MS" using b(3) by (simp add: MIN_SLICE_MS_def)
    with due c have "h < oc_t_start_ms out + oc_duration_ms out"
      and none: "split_audio packb out sz (h - oc_t_start_ms out) = Inr None" by auto
    with due have "MIN_SLICE_MS \<le> h - oc_t_start_ms out" "h - oc_t_start_ms out < oc_duration_ms out"
      by (auto simp: min_def split: if_splits)
    from split_audio_slice [OF assms(1) this, of packb sz] none show ?thesis by contradiction
  next
    case take
    with step mk clk show ?thesis by (simp add: take_audio_def)
  next
    case (split h b' k d n)
    then have "b' \<noteq> []" by auto
    with split show ?thesis using step clk assms(2) by (simp add: take_audio_def hold_def marks_def is_reply_audio_def)
  qed
qed

lemma horizon_items [simp]:
  "horizon_ms now (p\<lparr>dp_items := q\<rparr>) = horizon_ms now p" "horizon_ms now (p\<lparr>dp_wake := w\<rparr>) = horizon_ms now p"
  by (simp_all add: horizon_ms_def split: option.split)

lemma due_done_leaves:
  assumes "wf_output out" and "oc_control out = Some TURN_DONE"
    and "case horizon_ms now p of None \<Rightarrow> True | Some h \<Rightarrow> dp_released_end_ms p + dp_lead_ms p \<le> h"
  shows "\<exists>q R H. release_item packb now (out, sz) (p, [], []) = Inr (q, R, H) \<and> timeline R \<noteq> []"
proof -
  have na: "\<not> is_reply_audio out" using assms(2) by force
  have "\<not> plays_past now p" using assms(3) by (auto simp: plays_past_def split: option.splits)
  then have "release_item packb now (out, sz) (p, [], []) = Inr (p, [(out, sz)], [])"
    using wf_output_control [OF assms(1)] na by (simp add: release_item_def)
  then show ?thesis using na assms(2) by (simp add: marks_def)
qed

lemma delay_reaches:
  fixes started due start lead now :: rat
  shows "due \<le> start + (now + max (started + (due - start - lead) / 1000 - now) 0 - started) * 1000 + lead"
  by (simp add: max_def field_simps)



section \<open>Offers and interruptions\<close>

text \<open>
  Offering an output keeps the byte budget exact: what the queues hold afterwards, with the bytes
  reported dropped, is what they held before plus the output's own. A \<open>turn.interrupted\<close> leaves, of
  its turn, only the controls about the interruption, drops nothing of other turns, and is queued last;
  an output with a malformed control is refused.\<close>

theorem offer_accounts:
  assumes "pacer_ok p" and "is_reply_audio out \<longrightarrow> (\<exists>b. oc_payload out = PBytes b)"
  shows "case offer out n p of
           Inl e \<Rightarrow> oc_control_type out = Inl e
         | Inr (dropped, p') \<Rightarrow>
             pacer_ok p' \<and> dp_wake p' \<and>
             queue_bytes (dp_items p') + queue_bytes (dp_unsent p') + dropped =
               queue_bytes (dp_items p) + queue_bytes (dp_unsent p) + n \<and>
             (let cut = oc_control out = Some TURN_INTERRUPTED \<and> oc_turn out \<noteq> None;
                  keep = filter (\<lambda>(o', _). cut \<longrightarrow> \<not> oc_interrupted o' (oc_turn out))
              in dp_items p' = keep (dp_items p) @ [(out, n)] \<and> dp_unsent p' = keep (dp_unsent p))"
proof (cases "oc_control_type out")
  case (Inr ctl)
  then have ctl: "oc_control out = ctl" by (simp add: control_of_def)
  have wf: "wf_output out" using Inr assms(2) by (auto simp: wf_output_def split: payload.splits)
  show ?thesis
  proof (cases "ctl = Some TURN_INTERRUPTED \<and> oc_turn out \<noteq> None")
    case True
    with Inr ctl wf assms(1) show ?thesis
      by (auto simp: offer_def purge_def Let_def pacer_ok_def)
  next
    case False
    have id: "filter (\<lambda>(o', _). True) q = q" for q :: "budgeted list" by (simp add: case_prod_unfold)
    from False Inr have "offer out n p = Inr (0, p\<lparr>dp_items := dp_items p @ [(out, n)], dp_wake := True\<rparr>)"
      by (auto simp: offer_def purge_def)
    with False ctl wf assms(1) show ?thesis by (auto simp: Let_def id pacer_ok_def)
  qed
qed (simp add: offer_def)

theorem offer_accounts_witness:
  "case offer demo_done 20 demo_pacer of
     Inl e \<Rightarrow> False
   | Inr (dropped, p') \<Rightarrow> queue_bytes (dp_items p') + queue_bytes (dp_unsent p') + dropped = 100"
proof -
  have "\<not> is_reply_audio demo_done" by code_simp
  moreover have "oc_control_type demo_done = Inr (Some ''turn.done'')" by code_simp
  moreover have "queue_bytes (dp_items demo_pacer) + queue_bytes (dp_unsent demo_pacer) + 20 = 100" by code_simp
  ultimately show ?thesis using offer_accounts [OF demo_pacer_ok, of demo_done 20]
    by (auto split: sum.splits)
qed

end
