(* ===== verification/Stage_Cache.thy ===== *)
theory Stage_Cache
  imports Omni_Prelude "HOL-Library.Sublist"
begin

text \<open>
  The LRU cache of non-autoregressive stage outputs, \<^verbatim>\<open>sglang_omni/scheduling/stage_cache.py\<close>,
  and the speaker artifact cache built on it, \<^verbatim>\<open>sglang_omni/scheduling/speaker_cache.py\<close>.
  The \<open>OrderedDict\<close> is an association list, least recently used first. The size function and the
  copy that \<open>detach_value\<close> makes of a tensor are arguments; every method body runs under the cache's
  lock, so each is one step. The speaker cache relies on the interface \<open>artifact_store\<close>.
\<close>

section \<open>Stage output cache\<close>

record 'v cache_entry =
  ce_data :: 'v
  ce_size_bytes :: int

record 'v stage_cache =
  ca_cache :: "(string, 'v cache_entry) dict"
  ca_max_size :: "nat option"
  ca_max_bytes :: "int option"
  ca_current_bytes :: int
  ca_eviction_count :: nat

text \<open>The containers \<open>value_size_bytes\<close> and \<open>detach_value\<close> walk over; a tensor is its element count and width.\<close>

datatype 't cache_value =
    Tensor 't
  | Bytes nat
  | Dict "(string \<times> 't cache_value) list"
  | Seq "'t cache_value list"
  | Opaque

fun value_size_bytes :: "('t \<Rightarrow> int) \<Rightarrow> 't cache_value \<Rightarrow> int" where
  "value_size_bytes nbytes (Tensor t) = nbytes t"
| "value_size_bytes nbytes (Bytes n) = int n"
| "value_size_bytes nbytes (Dict items) = sum_list (map (\<lambda>(k, v). value_size_bytes nbytes v) items)"
| "value_size_bytes nbytes (Seq items) = sum_list (map (value_size_bytes nbytes) items)"
| "value_size_bytes nbytes Opaque = 0"

fun detach_value :: "('t \<Rightarrow> 't) \<Rightarrow> 't cache_value \<Rightarrow> 't cache_value" where
  "detach_value detach (Tensor t) = Tensor (detach t)"
| "detach_value detach (Dict items) = Dict (map (\<lambda>(k, v). (k, detach_value detach v)) items)"
| "detach_value detach (Seq items) = Seq (map (detach_value detach) items)"
| "detach_value detach (Bytes n) = Bytes n"
| "detach_value detach Opaque = Opaque"

definition stage_cache_init :: "int option \<Rightarrow> int option \<Rightarrow> 'v stage_cache result" where
  "stage_cache_init max_size max_bytes =
     (if (case max_size of None \<Rightarrow> False | Some n \<Rightarrow> n < 0) then Inl (ValueError ''max_size must be non-negative'')
      else if (case max_bytes of None \<Rightarrow> False | Some n \<Rightarrow> n < 0) then Inl (ValueError ''max_bytes must be non-negative'')
      else Inr \<lparr>ca_cache = [], ca_max_size = map_option nat max_size, ca_max_bytes = max_bytes,
                ca_current_bytes = 0, ca_eviction_count = 0\<rparr>)"

definition move_to_end :: "string \<Rightarrow> (string, 'v) dict \<Rightarrow> (string, 'v) dict" where
  "move_to_end k d = (case dict_get d k of None \<Rightarrow> d | Some v \<Rightarrow> dict_del k d @ [(k, v)])"

definition cache_get :: "string option \<Rightarrow> 'v stage_cache \<Rightarrow> 'v option \<times> 'v stage_cache" where
  "cache_get key c =
     (case key of
        None \<Rightarrow> (None, c)
      | Some k \<Rightarrow>
          (case dict_get (ca_cache c) k of
             None \<Rightarrow> (None, c)
           | Some e \<Rightarrow> (Some (ce_data e), c\<lparr>ca_cache := move_to_end k (ca_cache c)\<rparr>)))"

definition popitem :: "'v stage_cache \<Rightarrow> 'v stage_cache" where
  "popitem c = c\<lparr>ca_cache := tl (ca_cache c),
                 ca_current_bytes := ca_current_bytes c - ce_size_bytes (snd (hd (ca_cache c))),
                 ca_eviction_count := ca_eviction_count c + 1\<rparr>"

text \<open>The two loops of \<open>evict_over_budget\<close>; the first cannot meet an empty cache, as its bound is not negative.\<close>

function evict_over_size :: "'v stage_cache \<Rightarrow> 'v stage_cache" where
  "evict_over_size c =
     (case ca_max_size c of
        None \<Rightarrow> c
      | Some n \<Rightarrow> if length (ca_cache c) > n then evict_over_size (popitem c) else c)"
  by pat_completeness auto
termination
  by (relation "measure (\<lambda>c. length (ca_cache c))") (auto simp: popitem_def)

function evict_over_bytes :: "'v stage_cache \<Rightarrow> 'v stage_cache" where
  "evict_over_bytes c =
     (case ca_max_bytes c of
        None \<Rightarrow> c
      | Some n \<Rightarrow>
          if ca_current_bytes c > n then
            if ca_cache c = [] then c\<lparr>ca_current_bytes := 0\<rparr> else evict_over_bytes (popitem c)
          else c)"
  by pat_completeness auto
termination
  by (relation "measure (\<lambda>c. length (ca_cache c))") (auto simp: popitem_def)

declare evict_over_size.simps [simp del] evict_over_bytes.simps [simp del]

definition evict_over_budget :: "'v stage_cache \<Rightarrow> 'v stage_cache" where
  "evict_over_budget c = evict_over_bytes (evict_over_size c)"

definition cache_pop :: "string \<Rightarrow> 'v stage_cache \<Rightarrow> 'v stage_cache" where
  "cache_pop k c =
     (case dict_get (ca_cache c) k of
        None \<Rightarrow> c
      | Some e \<Rightarrow> c\<lparr>ca_cache := dict_del k (ca_cache c), ca_current_bytes := ca_current_bytes c - ce_size_bytes e\<rparr>)"

definition cache_put ::
  "('v \<Rightarrow> int) \<Rightarrow> ('v \<Rightarrow> 'v) \<Rightarrow> string option \<Rightarrow> 'v \<Rightarrow> 'v stage_cache \<Rightarrow> 'v stage_cache" where
  "cache_put size_fn detach key data c =
     (case key of
        None \<Rightarrow> c
      | Some k \<Rightarrow>
          let size_bytes = size_fn data;
              c = cache_pop k c
          in if (case ca_max_bytes c of None \<Rightarrow> False | Some n \<Rightarrow> size_bytes > n) then c
             else
               let cache = dict_set k \<lparr>ce_data = detach data, ce_size_bytes = size_bytes\<rparr> (ca_cache c)
               in evict_over_budget
                    (c\<lparr>ca_cache := move_to_end k cache, ca_current_bytes := ca_current_bytes c + size_bytes\<rparr>))"

definition cache_clear :: "'v stage_cache \<Rightarrow> 'v stage_cache" where
  "cache_clear c = c\<lparr>ca_cache := [], ca_current_bytes := 0\<rparr>"

text \<open>\<open>remove_if_same\<close> compares object identities; the values of the model stand for the objects.\<close>

definition remove_if_same :: "string option \<Rightarrow> 'v \<Rightarrow> 'v stage_cache \<Rightarrow> bool \<times> 'v stage_cache" where
  "remove_if_same key expected_data c =
     (case key of
        None \<Rightarrow> (False, c)
      | Some k \<Rightarrow>
          (case dict_get (ca_cache c) k of
             None \<Rightarrow> (False, c)
           | Some e \<Rightarrow> if ce_data e \<noteq> expected_data then (False, c) else (True, cache_pop k c)))"

text \<open>\<open>remove_if\<close>: the keys are read under the lock, tested without it, and removed under it again.\<close>

fun remove_keys :: "string list \<Rightarrow> 'v stage_cache \<Rightarrow> nat \<times> 'v stage_cache" where
  "remove_keys [] c = (0, c)"
| "remove_keys (k # ks) c =
     (if dict_has (ca_cache c) k then
        let (n, c) = remove_keys ks (cache_pop k c) in (Suc n, c)
      else remove_keys ks c)"

definition remove_if :: "(string \<Rightarrow> bool) \<Rightarrow> 'v stage_cache \<Rightarrow> nat \<times> 'v stage_cache" where
  "remove_if predicate c = remove_keys (filter predicate (dict_keys (ca_cache c))) c"

definition cache_len :: "'v stage_cache \<Rightarrow> nat" where
  "cache_len c = length (ca_cache c)"

section \<open>Speaker artifact cache\<close>

record speaker_cache_key =
  sk_model_type :: string
  sk_voice_name :: string
  sk_voice_version :: int
  sk_artifact_kind :: string

record 'v speaker_cache =
  sp_max_bytes :: int
  sp_cache :: "'v stage_cache"
  sp_hit_count :: nat
  sp_miss_count :: nat
  sp_delete_invalidation_counter :: nat

definition KEY_SEPARATOR :: char where "KEY_SEPARATOR = char_of (31 :: nat)"

definition str_int :: "int \<Rightarrow> string" where
  "str_int n = (if n < 0 then CHR ''-'' # str_nat (nat (- n)) else str_nat (nat n))"

definition encode_key :: "speaker_cache_key \<Rightarrow> string" where
  "encode_key key =
     sk_model_type key @ [KEY_SEPARATOR] @ sk_voice_name key @ [KEY_SEPARATOR] @
     str_int (sk_voice_version key) @ [KEY_SEPARATOR] @ sk_artifact_kind key"

text \<open>\<open>s.split(sep, maxsplit)\<close> for a one-character separator.\<close>

fun split_max :: "char \<Rightarrow> nat \<Rightarrow> string \<Rightarrow> string list" where
  "split_max sep 0 s = [s]"
| "split_max sep (Suc n) s =
     (if sep \<in> set s then
        takeWhile (\<lambda>c. c \<noteq> sep) s # split_max sep n (tl (dropWhile (\<lambda>c. c \<noteq> sep) s))
      else [s])"

definition encoded_key_voice_name :: "string \<Rightarrow> string" where
  "encoded_key_voice_name key =
     (let parts = split_max KEY_SEPARATOR 3 key in if length parts = 4 then parts ! 1 else [])"

text \<open>\<open>str.lower\<close> on ASCII strings.\<close>

definition lower :: "string \<Rightarrow> string" where
  "lower s = map (\<lambda>c. let n = of_char c :: nat in if 65 \<le> n \<and> n \<le> 90 then char_of (n + 32) else c) s"

definition speaker_cache_init :: "int \<Rightarrow> 'v speaker_cache result" where
  "speaker_cache_init max_bytes =
     (if max_bytes \<le> 0 then Inl (ValueError ''speaker cache max_bytes must be positive'')
      else bind_r (stage_cache_init None (Some max_bytes)) (\<lambda>cache.
             Inr \<lparr>sp_max_bytes = max_bytes, sp_cache = cache, sp_hit_count = 0, sp_miss_count = 0,
                  sp_delete_invalidation_counter = 0\<rparr>))"

definition speaker_get :: "speaker_cache_key \<Rightarrow> 'v speaker_cache \<Rightarrow> 'v option \<times> 'v speaker_cache" where
  "speaker_get key s =
     (let (v, cache) = cache_get (Some (encode_key key)) (sp_cache s);
          s = s\<lparr>sp_cache := cache\<rparr>
      in case v of
           None \<Rightarrow> (None, s\<lparr>sp_miss_count := sp_miss_count s + 1\<rparr>)
         | Some v \<Rightarrow> (Some v, s\<lparr>sp_hit_count := sp_hit_count s + 1\<rparr>))"

definition speaker_put ::
  "('v \<Rightarrow> int) \<Rightarrow> ('v \<Rightarrow> 'v) \<Rightarrow> speaker_cache_key \<Rightarrow> 'v \<Rightarrow> 'v speaker_cache \<Rightarrow> 'v speaker_cache" where
  "speaker_put estimate detach key v s =
     s\<lparr>sp_cache := cache_put estimate detach (Some (encode_key key)) v (sp_cache s)\<rparr>"

definition clear_voice :: "string \<Rightarrow> 'v speaker_cache \<Rightarrow> 'v speaker_cache" where
  "clear_voice voice_name s =
     (let (removed_count, cache) =
            remove_if (\<lambda>key. lower (encoded_key_voice_name key) = lower voice_name) (sp_cache s)
      in s\<lparr>sp_cache := cache,
           sp_delete_invalidation_counter := sp_delete_invalidation_counter s + removed_count\<rparr>)"

definition speaker_clear :: "'v speaker_cache \<Rightarrow> 'v speaker_cache" where
  "speaker_clear s = s\<lparr>sp_cache := cache_clear (sp_cache s)\<rparr>"

definition speaker_stats :: "'v speaker_cache \<Rightarrow> (string, int) dict" where
  "speaker_stats s =
     [(''entries'', int (cache_len (sp_cache s))), (''memory_bytes'', ca_current_bytes (sp_cache s)),
      (''max_bytes'', sp_max_bytes s), (''hit_count'', int (sp_hit_count s)),
      (''miss_count'', int (sp_miss_count s)), (''eviction_count'', int (ca_eviction_count (sp_cache s))),
      (''delete_invalidation_counter'', int (sp_delete_invalidation_counter s))]"

section \<open>The cache keeps its budgets\<close>

abbreviation entry_bytes :: "(string, 'v cache_entry) dict \<Rightarrow> int" where
  "entry_bytes d \<equiv> dict_sum ce_size_bytes d"

definition fits_size :: "'v stage_cache \<Rightarrow> (string, 'v cache_entry) dict \<Rightarrow> bool" where
  "fits_size c d \<longleftrightarrow> (case ca_max_size c of None \<Rightarrow> True | Some n \<Rightarrow> length d \<le> n)"

definition fits_bytes :: "'v stage_cache \<Rightarrow> (string, 'v cache_entry) dict \<Rightarrow> bool" where
  "fits_bytes c d \<longleftrightarrow> (case ca_max_bytes c of None \<Rightarrow> True | Some n \<Rightarrow> entry_bytes d \<le> n)"

definition fits :: "'v stage_cache \<Rightarrow> (string, 'v cache_entry) dict \<Rightarrow> bool" where
  "fits c d \<longleftrightarrow> fits_size c d \<and> fits_bytes c d"

definition bounds_ok :: "'v stage_cache \<Rightarrow> bool" where
  "bounds_ok c \<longleftrightarrow> (case ca_max_bytes c of None \<Rightarrow> True | Some n \<Rightarrow> 0 \<le> n)"

definition cache_ok :: "'v stage_cache \<Rightarrow> bool" where
  "cache_ok c \<longleftrightarrow>
     dict_ok (ca_cache c) \<and> ca_current_bytes c = entry_bytes (ca_cache c) \<and> fits c (ca_cache c) \<and> bounds_ok c \<and>
     (\<forall>(k, e) \<in> set (ca_cache c). 0 \<le> ce_size_bytes e)"

text \<open>Dropping the \<open>n\<close> least recently used entries.\<close>

definition dropped :: "nat \<Rightarrow> 'v stage_cache \<Rightarrow> 'v stage_cache" where
  "dropped n c = c\<lparr>ca_cache := drop n (ca_cache c),
                   ca_current_bytes := ca_current_bytes c - entry_bytes (take n (ca_cache c)),
                   ca_eviction_count := ca_eviction_count c + n\<rparr>"

lemma dropped_fields [simp]:
  "ca_cache (dropped n c) = drop n (ca_cache c)" "ca_max_size (dropped n c) = ca_max_size c"
  "ca_max_bytes (dropped n c) = ca_max_bytes c"
  "ca_current_bytes (dropped n c) = ca_current_bytes c - entry_bytes (take n (ca_cache c))"
  "ca_eviction_count (dropped n c) = ca_eviction_count c + n"
  by (simp_all add: dropped_def)

lemma dropped_0 [simp]: "dropped 0 c = c"
  by (simp add: dropped_def)

lemma popitem_dropped: "ca_cache c \<noteq> [] \<Longrightarrow> popitem c = dropped 1 c"
  by (cases "ca_cache c") (auto simp: popitem_def dropped_def)

lemma dropped_dropped: "dropped n (dropped m c) = dropped (m + n) c"
  by (simp add: dropped_def take_add add.commute)

lemma entry_bytes_take_drop: "entry_bytes (take n d) + entry_bytes (drop n d) = entry_bytes d"
  by (metis append_take_drop_id dict_sum_append)

lemma evict_over_size_spec:
  "\<exists>n. evict_over_size c = dropped n c \<and> n \<le> length (ca_cache c) \<and> fits_size c (drop n (ca_cache c)) \<and>
       (\<forall>m < n. \<not> fits_size c (drop m (ca_cache c)))"
proof (cases "ca_max_size c")
  case None
  then show ?thesis by (intro exI [of _ 0]) (simp add: evict_over_size.simps [of c] fits_size_def)
next
  case (Some mx)
  have "evict_over_size d = dropped (length (ca_cache d) - mx) d" if "ca_max_size d = Some mx" for d :: "'a stage_cache"
    using that
  proof (induction d rule: evict_over_size.induct)
    case (1 d)
    show ?case
    proof (cases "length (ca_cache d) > mx")
      case True
      then have "ca_cache d \<noteq> []" by auto
      with 1 True show ?thesis
        by (simp add: evict_over_size.simps [of d] popitem_dropped dropped_dropped Suc_diff_Suc)
    qed (use 1 in \<open>simp add: evict_over_size.simps [of d]\<close>)
  qed
  from this [OF Some] show ?thesis
    using Some by (intro exI [of _ "length (ca_cache c) - mx"]) (auto simp: fits_size_def)
qed

lemma evict_over_bytes_spec:
  assumes "bounds_ok c" and "ca_current_bytes c = entry_bytes (ca_cache c)"
  shows "\<exists>n. evict_over_bytes c = dropped n c \<and> n \<le> length (ca_cache c) \<and> fits_bytes c (drop n (ca_cache c)) \<and>
       (\<forall>m < n. \<not> fits_bytes c (drop m (ca_cache c)))"
  using assms
proof (induction c rule: evict_over_bytes.induct)
  case (1 c)
  show ?case
  proof (cases "fits_bytes c (ca_cache c)")
    case True
    then have "evict_over_bytes c = c"
      using "1.prems" by (auto simp: evict_over_bytes.simps [of c] fits_bytes_def split: option.splits)
    with True show ?thesis by (intro exI [of _ 0]) simp
  next
    case False
    then obtain b where b: "ca_max_bytes c = Some b" "ca_current_bytes c > b"
      using "1.prems" by (auto simp: fits_bytes_def split: option.splits)
    with "1.prems" have ne: "ca_cache c \<noteq> []" by (auto simp: bounds_ok_def)
    have step: "evict_over_bytes c = evict_over_bytes (dropped 1 c)"
      using b ne by (simp add: evict_over_bytes.simps [of c] popitem_dropped)
    have "bounds_ok (dropped 1 c)" "ca_current_bytes (dropped 1 c) = entry_bytes (ca_cache (dropped 1 c))"
      using "1.prems" entry_bytes_take_drop [of 1 "ca_cache c"] by (simp_all add: bounds_ok_def)
    then obtain n where n: "evict_over_bytes (dropped 1 c) = dropped n (dropped 1 c)"
      "n \<le> length (drop 1 (ca_cache c))" "fits_bytes c (drop n (drop 1 (ca_cache c)))"
      "\<forall>m < n. \<not> fits_bytes c (drop m (drop 1 (ca_cache c)))"
      using "1.IH" [OF b(1) b(2) ne] ne by (auto simp: popitem_dropped fits_bytes_def)
    have "\<not> fits_bytes c (drop m (ca_cache c))" if "m < Suc n" for m
      using n(4) False that by (cases m) auto
    with n ne show ?thesis unfolding step
      by (intro exI [of _ "Suc n"]) (auto simp: dropped_dropped Suc_le_eq length_greater_0_conv [symmetric] simp del: length_greater_0_conv)
  qed
qed

lemma evict_over_budget_spec:
  assumes "bounds_ok c" and "ca_current_bytes c = entry_bytes (ca_cache c)"
  obtains n where "evict_over_budget c = dropped n c" and "n \<le> length (ca_cache c)"
    and "fits c (drop n (ca_cache c))" and "\<And>m. m < n \<Longrightarrow> \<not> fits c (drop m (ca_cache c))"
proof -
  obtain i where i: "evict_over_size c = dropped i c" "i \<le> length (ca_cache c)" "fits_size c (drop i (ca_cache c))"
    "\<forall>m < i. \<not> fits_size c (drop m (ca_cache c))" using evict_over_size_spec by blast
  have "bounds_ok (dropped i c)" "ca_current_bytes (dropped i c) = entry_bytes (ca_cache (dropped i c))"
    using assms entry_bytes_take_drop [of i "ca_cache c"] by (simp_all add: bounds_ok_def)
  from evict_over_bytes_spec [OF this] obtain j where j: "evict_over_bytes (dropped i c) = dropped j (dropped i c)"
    "j \<le> length (ca_cache c) - i" "fits_bytes c (drop (j + i) (ca_cache c))"
    "\<forall>m < j. \<not> fits_bytes c (drop (m + i) (ca_cache c))" by (auto simp: fits_bytes_def)
  have "fits_size c (drop (i + j) (ca_cache c))" using i(3) by (auto simp: fits_size_def split: option.splits)
  moreover have "\<not> fits c (drop m (ca_cache c))" if "m < i + j" for m
  proof (cases "m < i")
    case False
    then have "m - i < j" "m - i + i = m" using that by simp_all
    with j(4) show ?thesis unfolding fits_def by metis
  qed (use i(4) in \<open>simp add: fits_def\<close>)
  ultimately show thesis using i j
    by (intro that [of "i + j"]) (simp_all add: evict_over_budget_def dropped_dropped fits_def add.commute)
qed

lemma dict_del_append: "dict_del k (d @ e) = dict_del k d @ dict_del k e"
  by (simp add: delete_filter)

lemma move_to_end_get: "dict_get (move_to_end k d) k' = dict_get d k'"
  by (auto simp: move_to_end_def map_add_def split: option.splits)

lemma move_to_end_new:
  assumes "\<not> dict_has d k"
  shows "move_to_end k (dict_set k e d) = d @ [(k, e)]"
proof -
  have "dict_get (dict_set k e d) k = Some e" by simp
  moreover have "dict_del k (dict_set k e d) = d"
    using assms by (simp add: dict_set_new dict_del_append delete_id dict_has_def)
  ultimately show ?thesis unfolding move_to_end_def by simp
qed

lemma key_set_del: "fst ` set (dict_del k d) = fst ` set d - {k}"
  by (auto simp: delete_filter image_iff)

lemma dict_ok_reappend: "dict_ok d \<Longrightarrow> dict_ok (dict_del k d @ [(k, e)])"
  using dict_ok_del [of d k] by (simp add: delete_notin_dom)

lemma dict_del_other: "\<not> dict_has (dict_del k d) k"
  by simp

lemma cache_pop_fields [simp]:
  "ca_cache (cache_pop k c) = dict_del k (ca_cache c)" "ca_max_size (cache_pop k c) = ca_max_size c"
  "ca_max_bytes (cache_pop k c) = ca_max_bytes c"
  by (auto simp: cache_pop_def dict_has_iff [symmetric] dict_has_def map_of_eq_None_iff delete_id split: option.splits)

lemma cache_pop_ok:
  assumes "cache_ok c"
  shows "cache_ok (cache_pop k c)"
proof (cases "dict_get (ca_cache c) k")
  case None
  then show ?thesis using assms by (simp add: cache_pop_def)
next
  case (Some e)
  have d: "dict_ok (ca_cache c)" using assms by (simp add: cache_ok_def)
  have bytes: "entry_bytes (dict_del k (ca_cache c)) = ca_current_bytes c - ce_size_bytes e"
    using assms Some by (simp add: cache_ok_def dict_sum_del)
  have sub: "set (dict_del k (ca_cache c)) \<subseteq> set (ca_cache c)" by (auto simp: delete_filter)
  have "0 \<le> ce_size_bytes e" using assms Some by (auto simp: cache_ok_def dest: map_of_SomeD)
  moreover have "length (dict_del k (ca_cache c)) \<le> length (ca_cache c)" by (simp add: delete_filter)
  ultimately have "fits c (dict_del k (ca_cache c))"
    using assms bytes by (auto simp: cache_ok_def fits_def fits_size_def fits_bytes_def split: option.splits)
  moreover have "cache_pop k c = c\<lparr>ca_cache := dict_del k (ca_cache c), ca_current_bytes := ca_current_bytes c - ce_size_bytes e\<rparr>"
    using Some by (simp add: cache_pop_def)
  ultimately show ?thesis using assms d bytes sub
    by (auto simp: cache_ok_def fits_def fits_size_def fits_bytes_def bounds_ok_def)
qed

text \<open>What a put leaves: nothing new when the value is over the byte bound, else the longest recent suffix that fits.\<close>

definition put_order :: "('v \<Rightarrow> int) \<Rightarrow> ('v \<Rightarrow> 'v) \<Rightarrow> string \<Rightarrow> 'v \<Rightarrow> 'v stage_cache \<Rightarrow> (string, 'v cache_entry) dict" where
  "put_order size_fn detach k v c =
     dict_del k (ca_cache c) @ [(k, \<lparr>ce_data = detach v, ce_size_bytes = size_fn v\<rparr>)]"

definition too_big :: "('v \<Rightarrow> int) \<Rightarrow> 'v \<Rightarrow> 'v stage_cache \<Rightarrow> bool" where
  "too_big size_fn v c \<longleftrightarrow> (case ca_max_bytes c of None \<Rightarrow> False | Some n \<Rightarrow> size_fn v > n)"

lemma cache_put_cases:
  assumes "cache_ok c" and "0 \<le> size_fn v"
  obtains (big) "too_big size_fn v c" and "cache_put size_fn detach (Some k) v c = cache_pop k c"
  | (kept) n c' where "\<not> too_big size_fn v c" and "cache_put size_fn detach (Some k) v c = dropped n c'"
    and "ca_cache c' = put_order size_fn detach k v c" and "n \<le> length (ca_cache c')"
    and "ca_current_bytes c' = entry_bytes (ca_cache c')"
    and "ca_max_size c' = ca_max_size c" and "ca_max_bytes c' = ca_max_bytes c"
    and "fits c' (drop n (ca_cache c'))" and "\<And>m. m < n \<Longrightarrow> \<not> fits c' (drop m (ca_cache c'))"
proof (cases "too_big size_fn v c")
  case True
  then have "cache_put size_fn detach (Some k) v c = cache_pop k c"
    by (simp add: cache_put_def too_big_def Let_def)
  with True show thesis by (rule big)
next
  case False
  define c' where "c' = (cache_pop k c)\<lparr>ca_cache := put_order size_fn detach k v c,
      ca_current_bytes := ca_current_bytes (cache_pop k c) + size_fn v\<rparr>"
  have pop: "cache_ok (cache_pop k c)" by (rule cache_pop_ok [OF assms(1)])
  have put: "cache_put size_fn detach (Some k) v c = evict_over_budget c'"
    using False by (simp add: cache_put_def too_big_def Let_def c'_def put_order_def move_to_end_new)
  have "bounds_ok c'" "ca_current_bytes c' = entry_bytes (ca_cache c')"
    using pop by (simp_all add: cache_ok_def bounds_ok_def c'_def put_order_def)
  from evict_over_budget_spec [OF this] obtain n where "evict_over_budget c' = dropped n c'"
    "n \<le> length (ca_cache c')" "fits c' (drop n (ca_cache c'))"
    "\<And>m. m < n \<Longrightarrow> \<not> fits c' (drop m (ca_cache c'))" by blast
  with put False \<open>ca_current_bytes c' = _\<close> show thesis
    by (intro kept [of n c']) (simp_all add: c'_def)
qed

lemma cache_put_ok:
  assumes "cache_ok c" and "0 \<le> size_fn v"
  shows "cache_ok (cache_put size_fn detach key v c)"
proof (cases key)
  case (Some k)
  show ?thesis using assms
  proof (cases rule: cache_put_cases [where detach = detach and k = k])
    case big
    with Some cache_pop_ok [OF assms(1)] show ?thesis by simp
  next
    case (kept n c')
    have d: "dict_ok (ca_cache c')" using assms(1)
      unfolding kept(3) put_order_def by (intro dict_ok_reappend) (simp add: cache_ok_def)
    have "(k', e) \<in> set (drop n (ca_cache c')) \<Longrightarrow> 0 \<le> ce_size_bytes e" for k' e
      using assms kept(3) set_drop_subset [of n "ca_cache c'"]
      by (auto simp: put_order_def cache_ok_def delete_filter)
    moreover have "bounds_ok (dropped n c')" using assms(1) kept(7) by (simp add: cache_ok_def bounds_ok_def)
    moreover have "dict_ok (drop n (ca_cache c'))" using d by (simp add: drop_map [symmetric] distinct_drop)
    moreover have "fits (dropped n c') (drop n (ca_cache c'))"
      using kept(8) by (simp add: fits_def fits_size_def fits_bytes_def)
    ultimately show ?thesis
      using Some kept(2,5) entry_bytes_take_drop [of n "ca_cache c'"] by (auto simp: cache_ok_def)
  qed
qed (simp add: cache_put_def assms)

lemma cache_get_ok: "cache_ok c \<Longrightarrow> cache_ok (snd (cache_get key c))"
proof -
  assume ok: "cache_ok c"
  have "cache_ok (c\<lparr>ca_cache := move_to_end k (ca_cache c)\<rparr>)" if g: "dict_get (ca_cache c) k = Some e" for k e
  proof -
    have d: "dict_ok (ca_cache c)" using ok by (simp add: cache_ok_def)
    have m: "move_to_end k (ca_cache c) = dict_del k (ca_cache c) @ [(k, e)]" using g by (simp add: move_to_end_def)
    have "entry_bytes (move_to_end k (ca_cache c)) = entry_bytes (ca_cache c)"
      using g d unfolding m by (simp add: dict_sum_del)
    moreover have set: "set (move_to_end k (ca_cache c)) = set (ca_cache c)"
      using g d unfolding m by (auto simp: delete_filter dest: map_of_SomeD) (metis map_of_is_SomeI option.inject)
    moreover have dm: "dict_ok (move_to_end k (ca_cache c))"
      unfolding m by (rule dict_ok_reappend [OF d])
    moreover have "length (move_to_end k (ca_cache c)) = length (ca_cache c)"
      using set d dm by (metis distinct_card distinct_map)
    ultimately show ?thesis using ok
      by (simp add: cache_ok_def fits_def fits_size_def fits_bytes_def bounds_ok_def split: option.splits)
  qed
  with ok show ?thesis by (auto simp: cache_get_def split: option.splits)
qed

lemma cache_clear_ok: "cache_ok c \<Longrightarrow> cache_ok (cache_clear c)"
  by (auto simp: cache_ok_def cache_clear_def fits_def fits_size_def fits_bytes_def bounds_ok_def split: option.splits)

lemma remove_if_same_ok: "cache_ok c \<Longrightarrow> cache_ok (snd (remove_if_same key v c))"
  by (auto simp: remove_if_same_def cache_pop_ok split: option.splits)

lemma remove_keys_ok: "cache_ok c \<Longrightarrow> cache_ok (snd (remove_keys ks c))"
  by (induction ks arbitrary: c) (auto simp: cache_pop_ok split: prod.splits, (metis cache_pop_ok snd_conv)+)

text \<open>The operations as steps of the shared cache; a size function never returns a negative size.\<close>

inductive cache_step :: "('v \<Rightarrow> int) \<Rightarrow> ('v \<Rightarrow> 'v) \<Rightarrow> 'v stage_cache \<Rightarrow> 'v stage_cache \<Rightarrow> bool"
  for size_fn detach where
  get: "cache_step size_fn detach c (snd (cache_get key c))"
| put: "0 \<le> size_fn v \<Longrightarrow> cache_step size_fn detach c (cache_put size_fn detach key v c)"
| clear: "cache_step size_fn detach c (cache_clear c)"
| remove_same: "cache_step size_fn detach c (snd (remove_if_same key v c))"
| remove_keys: "cache_step size_fn detach c (snd (remove_keys ks c))"

definition cache_initial :: "'v stage_cache \<Rightarrow> bool" where
  "cache_initial c \<longleftrightarrow> (\<exists>max_size max_bytes. stage_cache_init max_size max_bytes = Inr c)"

interpretation cache_sys: step_system cache_initial "cache_step size_fn detach" cache_ok for size_fn detach
proof
  show "cache_initial c \<Longrightarrow> cache_ok c" for c :: "'a stage_cache"
    by (auto simp: cache_initial_def stage_cache_init_def cache_ok_def fits_def fits_size_def fits_bytes_def
        bounds_ok_def split: if_splits option.splits)
  show "cache_step size_fn detach c d \<Longrightarrow> cache_ok c \<Longrightarrow> cache_ok d" for c d :: "'a stage_cache"
    by (induction rule: cache_step.induct)
      (auto intro: cache_get_ok cache_put_ok cache_clear_ok remove_if_same_ok remove_keys_ok)
qed

text \<open>
  C26. Whatever gets, puts, clears and removals a stage output cache goes through, in any order, it holds
  each key once, its byte count is the sum of the sizes of its entries, and it stays within both of its
  bounds.\<close>

theorem cache_stays_within_bounds:
  assumes "stage_cache_init max_size max_bytes = Inr c0" and "(cache_step size_fn detach)\<^sup>*\<^sup>* c0 c"
  shows "dict_ok (ca_cache c) \<and> ca_current_bytes c = entry_bytes (ca_cache c) \<and>
         (case ca_max_size c of None \<Rightarrow> True | Some n \<Rightarrow> cache_len c \<le> n) \<and>
         (case ca_max_bytes c of None \<Rightarrow> True | Some n \<Rightarrow> ca_current_bytes c \<le> n)"
proof -
  have "cache_ok c" using cache_sys.inv_reachable [OF _ assms(2)] assms(1) by (auto simp: cache_initial_def)
  then show ?thesis
    by (auto simp: cache_ok_def fits_def fits_size_def fits_bytes_def cache_len_def split: option.splits)
qed

definition demo_cache :: "nat stage_cache" where
  "demo_cache = \<lparr>ca_cache = [], ca_max_size = Some 2, ca_max_bytes = Some 100, ca_current_bytes = 0, ca_eviction_count = 0\<rparr>"

theorem cache_stays_within_bounds_witness:
  "let c = cache_put int id (Some ''b'') 60 (cache_put int id (Some ''a'') 50 demo_cache)
   in cache_len c \<le> 2 \<and> ca_current_bytes c \<le> 100"
proof -
  let ?a = "cache_put int id (Some ''a'') 50 demo_cache"
  have i: "stage_cache_init (Some 2) (Some 100) = Inr demo_cache" by (simp add: stage_cache_init_def demo_cache_def)
  have steps: "cache_step int id demo_cache ?a" "cache_step int id ?a (cache_put int id (Some ''b'') 60 ?a)"
    by (rule cache_step.put, simp)+
  note run = rtranclp_trans [of "cache_step int id", OF r_into_rtranclp [of "cache_step int id", OF steps(1)]
      r_into_rtranclp [of "cache_step int id", OF steps(2)]]
  note ok = cache_stays_within_bounds [OF i run]
  have "ca_max_size (cache_put int id (Some ''b'') 60 ?a) = Some 2 \<and>
      ca_max_bytes (cache_put int id (Some ''b'') 60 ?a) = Some 100" by code_simp
  with ok show ?thesis by (simp add: Let_def)
qed

text \<open>
  A put replaces the key's entry, makes it the most recently used, and evicts exactly as many of
  the least recently used entries as the bounds require; a value over the byte bound is not stored and
  its old entry goes. A value that fits alone is what the next get returns.\<close>

theorem cache_put_lru:
  assumes "cache_ok c" and "0 \<le> size_fn v"
  shows "if too_big size_fn v c
         then ca_cache (cache_put size_fn detach (Some k) v c) = dict_del k (ca_cache c)
         else \<exists>n. ca_cache (cache_put size_fn detach (Some k) v c) = drop n (put_order size_fn detach k v c) \<and>
                  fits c (drop n (put_order size_fn detach k v c)) \<and>
                  (\<forall>m < n. \<not> fits c (drop m (put_order size_fn detach k v c))) \<and>
                  (ca_max_size c \<noteq> Some 0 \<longrightarrow>
                   fst (cache_get (Some k) (cache_put size_fn detach (Some k) v c)) = Some (detach v))"
  using assms
proof (cases rule: cache_put_cases [where detach = detach and k = k])
  case big
  then show ?thesis by simp
next
  case (kept n c')
  have same: "fits c' d = fits c d" for d using kept(6,7) by (simp add: fits_def fits_size_def fits_bytes_def)
  let ?q = "put_order size_fn detach k v c"
  have get: "fst (cache_get (Some k) (dropped n c')) = Some (detach v)" if "ca_max_size c \<noteq> Some 0"
  proof -
    have "fits c (drop (length ?q - 1) ?q)"
      using kept(1) that assms by (auto simp: put_order_def fits_def fits_size_def fits_bytes_def too_big_def
          cache_ok_def bounds_ok_def split: option.splits)
    with kept(9) [of "length ?q - 1"] same kept(3) have "n \<le> length ?q - 1" by fastforce
    then have "drop n ?q = drop n (dict_del k (ca_cache c)) @ [(k, \<lparr>ce_data = detach v, ce_size_bytes = size_fn v\<rparr>)]"
      by (simp add: put_order_def)
    moreover have "dict_get (drop n (dict_del k (ca_cache c))) k = None"
      using delete_notin_dom [of k "ca_cache c"] set_drop_subset [of n "dict_del k (ca_cache c)"]
      by (auto simp: map_of_eq_None_iff)
    ultimately have "dict_get (drop n ?q) k = Some \<lparr>ce_data = detach v, ce_size_bytes = size_fn v\<rparr>"
      by (simp add: map_add_def)
    then show ?thesis using kept(3) by (simp add: cache_get_def)
  qed
  then show ?thesis using kept same by auto
qed

theorem cache_put_lru_witness:
  "\<exists>n. ca_cache (cache_put int id (Some ''b'') 60 demo_cache) = drop n (put_order int id ''b'' 60 demo_cache) \<and>
     fst (cache_get (Some ''b'') (cache_put int id (Some ''b'') 60 demo_cache)) = Some 60"
proof -
  have "cache_ok demo_cache" "\<not> too_big int 60 demo_cache" "ca_max_size demo_cache \<noteq> Some 0" by code_simp+
  with cache_put_lru [of demo_cache int 60 id "''b''"] show ?thesis by auto
qed

section \<open>The speaker cache on the cache's interface\<close>

text \<open>
  What the speaker cache relies on: a store whose lookups a get returns and does not change, and whose
  conditional removal drops exactly the keys that satisfy the condition.
\<close>

locale artifact_store =
  fixes inv :: "'s \<Rightarrow> bool"
    and find :: "string \<Rightarrow> 's \<Rightarrow> 'v option"
    and get_op :: "string \<Rightarrow> 's \<Rightarrow> 'v option \<times> 's"
    and remove_op :: "(string \<Rightarrow> bool) \<Rightarrow> 's \<Rightarrow> nat \<times> 's"
  assumes get_inv: "inv s \<Longrightarrow> inv (snd (get_op k s))"
    and get_value: "inv s \<Longrightarrow> fst (get_op k s) = find k s"
    and get_find: "inv s \<Longrightarrow> find k' (snd (get_op k s)) = find k' s"
    and remove_inv: "inv s \<Longrightarrow> inv (snd (remove_op P s))"
    and remove_find: "inv s \<Longrightarrow> find k (snd (remove_op P s)) = (if P k then None else find k s)"
begin

lemma get_after_remove: "inv s \<Longrightarrow> fst (get_op k (snd (remove_op P s))) = (if P k then None else find k s)"
  by (simp add: get_value remove_inv remove_find)

lemma get_after_gets:
  "inv s \<Longrightarrow> fst (get_op k (fold (\<lambda>k s. snd (get_op k s)) ks s)) = find k s"
  by (induction ks arbitrary: s) (simp_all add: get_value get_inv get_find)

end

definition cache_find :: "string \<Rightarrow> 'v stage_cache \<Rightarrow> 'v option" where
  "cache_find k c = map_option ce_data (dict_get (ca_cache c) k)"

lemma cache_get_find: "fst (cache_get (Some k) c) = cache_find k c"
  by (simp add: cache_get_def cache_find_def split: option.splits)

lemma cache_find_get: "cache_find k' (snd (cache_get (Some k) c)) = cache_find k' c"
  by (simp add: cache_get_def cache_find_def move_to_end_get split: option.splits)

lemma remove_keys_find: "cache_find k (snd (remove_keys ks c)) = (if k \<in> set ks then None else cache_find k c)"
proof (induction ks arbitrary: c)
  case (Cons k' ks)
  show ?case
  proof (cases "dict_has (ca_cache c) k'")
    case True
    then have "snd (remove_keys (k' # ks) c) = snd (remove_keys ks (cache_pop k' c))" by (simp split: prod.splits)
    then show ?thesis using Cons [of "cache_pop k' c"] by (auto simp: cache_find_def)
  next
    case False
    then have "cache_find k' c = None" by (simp add: cache_find_def dict_has_iff)
    then show ?thesis using Cons [of c] False by auto
  qed
qed simp

lemma remove_keys_count:
  "distinct ks \<Longrightarrow> set ks \<subseteq> set (dict_keys (ca_cache c)) \<Longrightarrow> fst (remove_keys ks c) = length ks"
proof (induction ks arbitrary: c)
  case (Cons k ks)
  then have "dict_has (ca_cache c) k" "set ks \<subseteq> set (dict_keys (ca_cache (cache_pop k c)))"
    by (auto simp: dict_has_def key_set_del)
  with Cons.IH [of "cache_pop k c"] Cons.prems(1) show ?case by (simp add: case_prod_unfold)
qed simp

interpretation stage_store: artifact_store cache_ok cache_find "\<lambda>k. cache_get (Some k)" remove_if
proof
  fix c :: "'a stage_cache" and k k' P
  assume ok: "cache_ok c"
  show "cache_ok (snd (cache_get (Some k) c))" by (rule cache_get_ok [OF ok])
  show "cache_ok (snd (remove_if P c))" unfolding remove_if_def by (rule remove_keys_ok [OF ok])
  show "fst (cache_get (Some k) c) = cache_find k c" by (rule cache_get_find)
  show "cache_find k' (snd (cache_get (Some k) c)) = cache_find k' c" by (rule cache_find_get)
  show "cache_find k (snd (remove_if P c)) = (if P k then None else cache_find k c)"
  proof (cases "dict_has (ca_cache c) k")
    case True
    then show ?thesis by (simp add: remove_if_def remove_keys_find dict_has_def)
  next
    case False
    then have "cache_find k c = None" by (simp add: cache_find_def dict_has_iff)
    then show ?thesis by (simp add: remove_if_def remove_keys_find)
  qed
qed

lemma split_max_hit:
  "sep \<notin> set a \<Longrightarrow> split_max sep (Suc n) (a @ sep # s) = a # split_max sep n s"
  by (simp add: takeWhile_append dropWhile_append)

lemma str_int_no_separator: "KEY_SEPARATOR \<notin> set (str_int n)"
proof -
  have nat: "KEY_SEPARATOR \<notin> set (str_nat m)" for m
  proof
    assume "KEY_SEPARATOR \<in> set (str_nat m)"
    moreover have "\<not> is_digit KEY_SEPARATOR" by (simp add: is_digit_def KEY_SEPARATOR_def)
    ultimately show False using isdigit_str_nat [of m] by (auto simp: isdigit_def list_all_iff)
  qed
  have "CHR ''-'' \<noteq> KEY_SEPARATOR" by code_simp
  with nat show ?thesis by (auto simp: str_int_def)
qed

lemma encode_key_voice:
  assumes "KEY_SEPARATOR \<notin> set (sk_model_type key)" and "KEY_SEPARATOR \<notin> set (sk_voice_name key)"
  shows "encoded_key_voice_name (encode_key key) = sk_voice_name key"
proof -
  have "split_max KEY_SEPARATOR 3 (encode_key key) =
      [sk_model_type key, sk_voice_name key, str_int (sk_voice_version key), sk_artifact_kind key]"
    unfolding encode_key_def numeral_3_eq_3
    using assms str_int_no_separator by (simp add: split_max_hit del: split_max.simps(2))
  then show ?thesis by (simp add: encoded_key_voice_name_def)
qed

text \<open>
  Deleting an uploaded voice drops every artifact of it, whatever the case of the name, model,
  version and kind: a later get of such a key misses and is counted as a miss. Artifacts of other
  voices stay, and the invalidation counter grows by the number of entries dropped.\<close>

theorem clear_voice_drops_artifacts:
  assumes "cache_ok (sp_cache s)" and "KEY_SEPARATOR \<notin> set (sk_model_type key)"
    and "KEY_SEPARATOR \<notin> set (sk_voice_name key)"
  shows "(let s' = clear_voice voice s; (v, s'') = speaker_get key s'
          in if lower (sk_voice_name key) = lower voice
             then v = None \<and> sp_miss_count s'' = sp_miss_count s + 1
             else v = fst (speaker_get key s)) \<and>
         sp_delete_invalidation_counter (clear_voice voice s) =
           sp_delete_invalidation_counter s +
           length (filter (\<lambda>k. lower (encoded_key_voice_name k) = lower voice) (dict_keys (ca_cache (sp_cache s))))"
proof
  let ?P = "\<lambda>k. lower (encoded_key_voice_name k) = lower voice"
  have cache: "sp_cache (clear_voice voice s) = snd (remove_if ?P (sp_cache s))"
    "sp_miss_count (clear_voice voice s) = sp_miss_count s"
    "sp_delete_invalidation_counter (clear_voice voice s) =
       sp_delete_invalidation_counter s + fst (remove_if ?P (sp_cache s))"
    by (simp_all add: clear_voice_def split: prod.splits)
  have got: "fst (speaker_get k t) = fst (cache_get (Some (encode_key k)) (sp_cache t))" for k and t :: "'a speaker_cache"
    by (simp add: speaker_get_def Let_def split: prod.splits option.splits)
  have miss: "sp_miss_count (snd (speaker_get k t)) = sp_miss_count t + 1"
    if "fst (speaker_get k t) = None" for k and t :: "'a speaker_cache"
    using that by (auto simp: speaker_get_def Let_def split: prod.splits option.splits)
  have "fst (speaker_get key (clear_voice voice s)) =
      (if lower (sk_voice_name key) = lower voice then None else fst (speaker_get key s))"
    using stage_store.get_after_remove [OF assms(1), of "encode_key key" ?P] encode_key_voice [OF assms(2,3)]
    by (simp add: got cache stage_store.get_value [OF assms(1)])
  then show "let s' = clear_voice voice s; (v, s'') = speaker_get key s'
      in if lower (sk_voice_name key) = lower voice
         then v = None \<and> sp_miss_count s'' = sp_miss_count s + 1
         else v = fst (speaker_get key s)"
    using miss [of key "clear_voice voice s"] cache(2) by (simp add: Let_def split: prod.splits) (metis fst_conv snd_conv)
  have "fst (remove_if ?P (sp_cache s)) = length (filter ?P (dict_keys (ca_cache (sp_cache s))))"
    unfolding remove_if_def using assms(1)
    by (intro remove_keys_count) (auto simp: cache_ok_def)
  with cache(3) show "sp_delete_invalidation_counter (clear_voice voice s) =
      sp_delete_invalidation_counter s +
      length (filter ?P (dict_keys (ca_cache (sp_cache s))))" by simp
qed

definition demo_speaker :: "nat speaker_cache" where
  "demo_speaker = \<lparr>sp_max_bytes = 100, sp_cache = demo_cache, sp_hit_count = 0, sp_miss_count = 3,
     sp_delete_invalidation_counter = 0\<rparr>"

definition demo_key :: speaker_cache_key where
  "demo_key = \<lparr>sk_model_type = ''tts'', sk_voice_name = ''Ann'', sk_voice_version = 2, sk_artifact_kind = ''emb''\<rparr>"

theorem clear_voice_drops_artifacts_witness:
  "let s = speaker_put int id demo_key 40 demo_speaker
   in fst (speaker_get demo_key s) = Some 40 \<and> fst (speaker_get demo_key (clear_voice ''ANN'' s)) = None"
proof -
  let ?s = "speaker_put int id demo_key 40 demo_speaker"
  have "cache_ok (sp_cache ?s)" by code_simp
  moreover have "KEY_SEPARATOR \<notin> set (sk_model_type demo_key)" "KEY_SEPARATOR \<notin> set (sk_voice_name demo_key)"
    by code_simp+
  moreover have "lower (sk_voice_name demo_key) = lower ''ANN''" by code_simp
  moreover have "fst (speaker_get demo_key ?s) = Some 40" by code_simp
  ultimately show ?thesis
    using clear_voice_drops_artifacts [of ?s demo_key "''ANN''"] by (auto simp: Let_def split: prod.splits)
qed

end
