(* ===== verification/Prepared_Queue.thy ===== *)
theory Prepared_Queue
  imports Omni_Prelude
begin

text \<open>
  The handoff registry between preprocessing and the autoregressive engine,
  \<^verbatim>\<open>sglang_omni/scheduling/prepared_request_queue.py\<close>. Every method runs under the
  queue's lock, so each is one step and concurrent callers interleave whole methods: the step relation
  below.
\<close>

section \<open>State and transitions\<close>

record ('c, 'p) prepared_queue =
  pq_context :: "'c option"
  pq_prepared :: "(string, 'p) dict"
  pq_inflight :: "string set"
  pq_aborted :: "string set"

record 'c queue_snapshot =
  qs_context :: "'c option"
  qs_prepared :: "string set"
  qs_inflight :: "string set"
  qs_aborted :: "string set"

definition prepared_queue_init :: "('c, 'p) prepared_queue" where
  "prepared_queue_init = \<lparr>pq_context = None, pq_prepared = [], pq_inflight = {}, pq_aborted = {}\<rparr>"

definition snapshot :: "('c, 'p) prepared_queue \<Rightarrow> 'c queue_snapshot" where
  "snapshot q = \<lparr>qs_context = pq_context q, qs_prepared = set (dict_keys (pq_prepared q)),
                 qs_inflight = pq_inflight q, qs_aborted = pq_aborted q\<rparr>"

definition set_context :: "'c \<Rightarrow> ('c, 'p) prepared_queue \<Rightarrow> ('c, 'p) prepared_queue" where
  "set_context context q = q\<lparr>pq_context := Some context, pq_prepared := [], pq_inflight := {}, pq_aborted := {}\<rparr>"

definition clear_context :: "('c, 'p) prepared_queue \<Rightarrow> ('c, 'p) prepared_queue" where
  "clear_context q = q\<lparr>pq_context := None, pq_prepared := [], pq_inflight := {}, pq_aborted := {}\<rparr>"

definition begin_request :: "string \<Rightarrow> ('c, 'p) prepared_queue \<Rightarrow> 'c option \<times> ('c, 'p) prepared_queue" where
  "begin_request r q =
     (pq_context q, if pq_context q \<noteq> None then q\<lparr>pq_inflight := insert r (pq_inflight q)\<rparr> else q)"

definition fail_inflight :: "string \<Rightarrow> ('c, 'p) prepared_queue \<Rightarrow> ('c, 'p) prepared_queue" where
  "fail_inflight r q = q\<lparr>pq_inflight := pq_inflight q - {r}, pq_aborted := pq_aborted q - {r}\<rparr>"

definition publish :: "string \<Rightarrow> 'p \<Rightarrow> ('c, 'p) prepared_queue \<Rightarrow> bool \<times> ('c, 'p) prepared_queue" where
  "publish r prepared q =
     (let inflight = r \<in> pq_inflight q;
          aborted = r \<in> pq_aborted q;
          q = q\<lparr>pq_inflight := pq_inflight q - {r}, pq_aborted := pq_aborted q - {r}\<rparr>
      in if inflight \<and> \<not> aborted then (True, q\<lparr>pq_prepared := dict_set r prepared (pq_prepared q)\<rparr>)
         else (False, q))"

definition abort :: "string \<Rightarrow> ('c, 'p) prepared_queue \<Rightarrow> ('c, 'p) prepared_queue" where
  "abort r q =
     (if dict_has (pq_prepared q) r then q\<lparr>pq_prepared := dict_del r (pq_prepared q)\<rparr>
      else if r \<in> pq_inflight q then q\<lparr>pq_aborted := insert r (pq_aborted q)\<rparr>
      else q)"

definition pop :: "string \<Rightarrow> ('c, 'p) prepared_queue \<Rightarrow> 'p option \<times> ('c, 'p) prepared_queue" where
  "pop r q = (dict_get (pq_prepared q) r, q\<lparr>pq_prepared := dict_del r (pq_prepared q)\<rparr>)"

section \<open>Interleavings\<close>

text \<open>The transitions callers make, each of the request it names or of the whole queue.\<close>

datatype ('c, 'p) queue_op =
    SetContext 'c | ClearContext | Begin string | FailInflight string | Publish string 'p | Abort string | Pop string

fun apply_op :: "('c, 'p) queue_op \<Rightarrow> ('c, 'p) prepared_queue \<Rightarrow> ('c, 'p) prepared_queue" where
  "apply_op (SetContext c) q = set_context c q"
| "apply_op ClearContext q = clear_context q"
| "apply_op (Begin r) q = snd (begin_request r q)"
| "apply_op (FailInflight r) q = fail_inflight r q"
| "apply_op (Publish r p) q = snd (publish r p q)"
| "apply_op (Abort r) q = abort r q"
| "apply_op (Pop r) q = snd (pop r q)"

inductive queue_step :: "('c, 'p) prepared_queue \<Rightarrow> ('c, 'p) prepared_queue \<Rightarrow> bool" where
  op: "queue_step q (apply_op a q)"

inductive_cases queue_stepE [elim!]: "queue_step q q'"

definition queue_ok :: "('c, 'p) prepared_queue \<Rightarrow> bool" where
  "queue_ok q \<longleftrightarrow>
     dict_ok (pq_prepared q) \<and> pq_aborted q \<subseteq> pq_inflight q \<and>
     (pq_context q = None \<longrightarrow> pq_prepared q = [] \<and> pq_inflight q = {})"

lemmas queue_defs = set_context_def clear_context_def begin_request_def fail_inflight_def publish_def
  abort_def pop_def

lemma apply_op_ok: "queue_ok q \<Longrightarrow> queue_ok (apply_op a q)"
  by (cases a) (auto simp: queue_ok_def queue_defs Let_def)

interpretation handoff: step_system "\<lambda>q. q = prepared_queue_init" queue_step queue_ok
  by unfold_locales (auto simp: prepared_queue_init_def queue_ok_def[of "prepared_queue_init"] apply_op_ok,
      simp add: queue_ok_def)

text \<open>
  Whatever the interleaving of preprocessing, scheduler and aborts, the registry never keeps a
  tombstone for a request that is not being preprocessed, holds no request twice, and without a context
  holds nothing at all.\<close>

theorem prepared_queue_invariant:
  assumes "queue_step\<^sup>*\<^sup>* (prepared_queue_init :: ('c, 'p) prepared_queue) q"
  shows "pq_aborted q \<subseteq> pq_inflight q \<and> dict_ok (pq_prepared q) \<and>
         (pq_context q = None \<longrightarrow> pq_prepared q = [] \<and> pq_inflight q = {} \<and> pq_aborted q = {})"
  using handoff.inv_reachable [OF refl assms] by (auto simp: queue_ok_def)

theorem prepared_queue_invariant_witness:
  "let q = apply_op (Abort ''r'') (apply_op (Begin ''r'') (apply_op (SetContext (1 :: nat)) prepared_queue_init))
       :: (nat, nat) prepared_queue
   in pq_aborted q = {''r''} \<and> pq_aborted q \<subseteq> pq_inflight q"
proof -
  let ?a = "apply_op (SetContext 1) prepared_queue_init :: (nat, nat) prepared_queue"
  let ?b = "apply_op (Begin ''r'') ?a"
  have "queue_step\<^sup>*\<^sup>* prepared_queue_init (apply_op (Abort ''r'') ?b)"
    by (rule rtranclp.rtrancl_into_rtrancl [OF rtranclp.rtrancl_into_rtrancl
          [OF rtranclp.rtrancl_into_rtrancl [OF rtranclp.rtrancl_refl]]]) (rule queue_step.op)+
  from prepared_queue_invariant [OF this] show ?thesis
    by (simp add: Let_def queue_defs prepared_queue_init_def)
qed

text \<open>Operations of other requests leave a request's entries alone.\<close>

fun concerns :: "string \<Rightarrow> ('c, 'p) queue_op \<Rightarrow> bool" where
  "concerns r (Begin r') \<longleftrightarrow> r = r'"
| "concerns r (FailInflight r') \<longleftrightarrow> r = r'"
| "concerns r (Publish r' _) \<longleftrightarrow> r = r'"
| "concerns r (Abort r') \<longleftrightarrow> r = r'"
| "concerns r (Pop r') \<longleftrightarrow> r = r'"
| "concerns r _ \<longleftrightarrow> False"

definition view :: "string \<Rightarrow> ('c, 'p) prepared_queue \<Rightarrow> 'p option \<times> bool \<times> bool" where
  "view r q = (dict_get (pq_prepared q) r, r \<in> pq_inflight q, r \<in> pq_aborted q)"

fun resets :: "('c, 'p) queue_op \<Rightarrow> bool" where
  "resets (SetContext _) \<longleftrightarrow> True"
| "resets ClearContext \<longleftrightarrow> True"
| "resets _ \<longleftrightarrow> False"

lemma view_other:
  "\<not> concerns r a \<Longrightarrow> view r (apply_op a q) = (if resets a then (None, False, False) else view r q)"
  by (cases a) (auto simp: view_def queue_defs Let_def)

lemma view_others:
  assumes "\<forall>a \<in> set ops. \<not> concerns r a"
  shows "view r (fold apply_op ops q) = (if list_ex resets ops then (None, False, False) else view r q)"
  using assms
proof (induction ops arbitrary: q)
  case (Cons a ops)
  have "view r (fold apply_op ops (apply_op a q)) =
      (if list_ex resets ops then (None, False, False) else view r (apply_op a q))"
    by (rule Cons.IH) (use Cons.prems in simp)
  moreover have "view r (apply_op a q) = (if resets a then (None, False, False) else view r q)"
    by (rule view_other) (use Cons.prems in simp)
  ultimately show ?case by simp
qed simp



text \<open>
  A request that is begun under a context and published with nothing of its own in between is handed
  over exactly once: the pop after it returns the published value, and the next pop returns nothing.\<close>

theorem publish_pop_once:
  assumes "pq_context q \<noteq> None" and "r \<notin> pq_aborted q" and "\<forall>a \<in> set ops. \<not> concerns r a \<and> \<not> resets a"
  shows "let q' = fold apply_op ops (snd (begin_request r q));
             (ok, q'') = publish r p q'; (v, q3) = pop r q''
         in ok \<and> v = Some p \<and> fst (pop r q3) = None"
proof -
  have "view r (snd (begin_request r q)) = (dict_get (pq_prepared q) r, True, False)"
    using assms(1,2) by (auto simp: view_def begin_request_def)
  moreover have "\<not> list_ex resets ops" using assms(3) by (auto simp: list_ex_iff)
  ultimately have "view r (fold apply_op ops (snd (begin_request r q))) = (dict_get (pq_prepared q) r, True, False)"
    using view_others [of ops r "snd (begin_request r q)"] assms(3) by simp
  then show ?thesis by (simp add: view_def publish_def pop_def Let_def)
qed

theorem publish_pop_once_witness:
  "let q = set_context (1 :: nat) (prepared_queue_init :: (nat, nat) prepared_queue)
   in fst (publish ''r'' 5 (fold apply_op [Begin ''s''] (snd (begin_request ''r'' q))))"
proof -
  let ?q = "set_context (1 :: nat) (prepared_queue_init :: (nat, nat) prepared_queue)"
  have "pq_context ?q \<noteq> None" "''r'' \<notin> pq_aborted ?q" by (simp_all add: set_context_def)
  from publish_pop_once [OF this, of "[Begin ''s'']" 5] show ?thesis by (simp add: Let_def case_prod_unfold)
qed

end
