(* ===== verification/Pending_Text.thy ===== *)
theory Pending_Text
  imports Omni_Prelude
begin

text \<open>
  Text on its way through the schedulers: the chunked first-in first-out queue of future talker rows,
  \<^verbatim>\<open>sglang_omni/scheduling/pending_text_queue.py\<close>, and the incremental text of
  \<^verbatim>\<open>sglang_omni/scheduling/exact_text_streaming.py\<close>. A tensor is its shape with its
  rows; devices and element types play no part. The token decoder is an argument.
\<close>

section \<open>Rows\<close>

text \<open>A tensor of one dimension, of two (its width with its rows), or of another dimension; or no tensor.\<close>

type_synonym 'a matrix = "nat \<times> 'a list list"

datatype 'a tensor = Dim1 "'a list" | Dim2 "'a matrix" | DimOther | NotTensor

definition as_rows :: "'a tensor \<Rightarrow> 'a matrix option result" where
  "as_rows t =
     (case t of
        NotTensor \<Rightarrow> Inl (TypeError ''pending text rows must be tensors'')
      | Dim1 row \<Rightarrow> if row = [] then Inr None else Inr (Some (length row, [row]))
      | Dim2 (width, rows) \<Rightarrow>
          if rows = [] then Inr None
          else if width = 0 then Inl (ValueError ''pending text rows must have a non-empty hidden dimension'')
          else Inr (Some (width, rows))
      | DimOther \<Rightarrow> Inl (ValueError ''pending text rows must be a 1D row tensor or a 2D row batch''))"

section \<open>The queue\<close>

record 'a pending_queue =
  pt_rows :: "'a matrix option"
  pt_cursor :: nat
  pt_chunks :: "'a matrix list"
  pt_pending_rows :: int

definition make_queue :: "'a matrix option \<Rightarrow> nat \<Rightarrow> 'a matrix list \<Rightarrow> 'a pending_queue" where
  "make_queue rows cursor chunks =
     \<lparr>pt_rows = rows, pt_cursor = cursor, pt_chunks = chunks,
      pt_pending_rows =
        (case rows of None \<Rightarrow> 0 | Some (_, rs) \<Rightarrow> max 0 (int (length rs) - int cursor)) +
        sum_list (map (\<lambda>(_, rs). int (length rs)) chunks)\<rparr>"

definition empty_queue :: "'a pending_queue" where
  "empty_queue = make_queue None 0 []"

definition queue_len :: "'a pending_queue \<Rightarrow> int" where
  "queue_len q = pt_pending_rows q"

definition queue_bool :: "'a pending_queue \<Rightarrow> bool" where
  "queue_bool q \<longleftrightarrow> queue_len q > 0"

definition queue_copy :: "'a pending_queue \<Rightarrow> 'a pending_queue" where
  "queue_copy q = make_queue (pt_rows q) (pt_cursor q) (pt_chunks q)"

definition queue_iter :: "'a pending_queue \<Rightarrow> 'a list list" where
  "queue_iter q =
     (case pt_rows q of
        None \<Rightarrow> []
      | Some (_, rs) \<Rightarrow> drop (pt_cursor q) rs @ concat (map snd (pt_chunks q)))"

text \<open>Indexing a tensor of \<open>n\<close> rows: a negative index counts from the end, and one out of range raises.\<close>

definition row_at :: "'a list list \<Rightarrow> int \<Rightarrow> 'a list result" where
  "row_at rs idx =
     (let i = (if idx < 0 then idx + int (length rs) else idx)
      in if i < 0 \<or> i \<ge> int (length rs) then Inl IndexError else Inr (rs ! nat i))"

definition queue_getitem :: "'a pending_queue \<Rightarrow> int \<Rightarrow> 'a list result" where
  "queue_getitem q idx =
     (case pt_rows q of
        None \<Rightarrow> Inl IndexError
      | Some (_, rs) \<Rightarrow>
          if idx = 0 then row_at rs (int (pt_cursor q))
          else
            let remaining = drop (pt_cursor q) rs
            in if pt_chunks q = [] then row_at remaining idx
               else row_at (remaining @ concat (map snd (pt_chunks q))) idx)"

definition popleft :: "'a pending_queue \<Rightarrow> ('a list \<times> 'a pending_queue) result" where
  "popleft q =
     bind_r (queue_getitem q 0) (\<lambda>row.
       let q = q\<lparr>pt_cursor := pt_cursor q + 1, pt_pending_rows := pt_pending_rows q - 1\<rparr>
       in Inr (row,
            case pt_rows q of
              Some (_, rs) \<Rightarrow>
                if pt_cursor q \<ge> length rs then
                  (case pt_chunks q of
                     [] \<Rightarrow> q\<lparr>pt_rows := None, pt_cursor := 0\<rparr>
                   | c # cs \<Rightarrow> q\<lparr>pt_rows := Some c, pt_chunks := cs, pt_cursor := 0\<rparr>)
                else q
            | None \<Rightarrow> q))"

definition append_rows :: "'a tensor \<Rightarrow> 'a pending_queue \<Rightarrow> 'a pending_queue result" where
  "append_rows t q =
     bind_r (as_rows t) (\<lambda>rows.
       case rows of
         None \<Rightarrow> Inr q
       | Some (width, rs) \<Rightarrow>
           (case pt_rows q of
              None \<Rightarrow> Inr \<lparr>pt_rows = Some (width, rs), pt_cursor = 0, pt_chunks = [], pt_pending_rows = int (length rs)\<rparr>
            | Some (w, _) \<Rightarrow>
                if queue_len q = 0
                then Inr \<lparr>pt_rows = Some (width, rs), pt_cursor = 0, pt_chunks = [], pt_pending_rows = int (length rs)\<rparr>
                else if width \<noteq> w
                then Inl (ValueError ''pending text row hidden dimension must match the existing queue'')
                else Inr (q\<lparr>pt_chunks := pt_chunks q @ [(width, rs)],
                            pt_pending_rows := pt_pending_rows q + int (length rs)\<rparr>)))"

definition from_tensor :: "'a tensor \<Rightarrow> 'a pending_queue result" where
  "from_tensor t = append_rows t empty_queue"

datatype 'a queue_source = SrcNone | SrcQueue "'a pending_queue" | SrcTensor "'a tensor" | SrcIterable "'a tensor list" | SrcOther

fun coerce_pending_text_queue :: "'a queue_source \<Rightarrow> 'a pending_queue result" where
  "coerce_pending_text_queue SrcNone = Inr empty_queue"
| "coerce_pending_text_queue (SrcQueue q) = Inr (queue_copy q)"
| "coerce_pending_text_queue (SrcTensor t) = from_tensor t"
| "coerce_pending_text_queue (SrcIterable ts) = fold_r append_rows ts empty_queue"
| "coerce_pending_text_queue SrcOther = Inl (TypeError ''pending text queue must be None'')"

section \<open>A first-in first-out interface\<close>

text \<open>\<open>n\<close> takes in a row.\<close>

fun repeat_r :: "nat \<Rightarrow> ('q \<Rightarrow> ('e \<times> 'q) result) \<Rightarrow> 'q \<Rightarrow> ('e list \<times> 'q) result" where
  "repeat_r 0 deq q = Inr ([], q)"
| "repeat_r (Suc n) deq q = bind_r (deq q) (\<lambda>(x, q). bind_r (repeat_r n deq q) (\<lambda>(xs, q). Inr (x # xs, q)))"

text \<open>
  What a client of the queue may use: contents that an append extends at the back and a pop takes
  from the front, an error exactly when a pop finds nothing, and a length that is that of the contents.
\<close>

locale fifo =
  fixes inv :: "'q \<Rightarrow> bool"
    and contents :: "'q \<Rightarrow> 'e list"
    and adds :: "'t \<Rightarrow> 'e list"
    and enq :: "'t \<Rightarrow> 'q \<Rightarrow> 'q result"
    and deq :: "'q \<Rightarrow> ('e \<times> 'q) result"
  assumes enq_ok: "inv q \<Longrightarrow> enq t q = Inr q' \<Longrightarrow> inv q' \<and> contents q' = contents q @ adds t"
    and deq_some: "inv q \<Longrightarrow> contents q = x # xs \<Longrightarrow> \<exists>q'. deq q = Inr (x, q') \<and> inv q' \<and> contents q' = xs"
    and deq_none: "inv q \<Longrightarrow> contents q = [] \<Longrightarrow> \<exists>e. deq q = Inl e"
begin

lemma enqs_ok:
  "inv q \<Longrightarrow> fold_r enq ts q = Inr q' \<Longrightarrow> inv q' \<and> contents q' = contents q @ concat (map adds ts)"
proof (induction ts arbitrary: q)
  case (Cons t ts)
  from Cons.prems(2) obtain q1 where q1: "enq t q = Inr q1" "fold_r enq ts q1 = Inr q'"
    by (auto simp: bind_r_Inr_iff)
  with enq_ok [OF Cons.prems(1)] Cons.IH [of q1] show ?case by simp
qed simp

lemma deqs_ok:
  "inv q \<Longrightarrow> n \<le> length (contents q) \<Longrightarrow>
   \<exists>q'. repeat_r n deq q = Inr (take n (contents q), q') \<and> inv q' \<and> contents q' = drop n (contents q)"
proof (induction n arbitrary: q)
  case (Suc n)
  then obtain x xs where c: "contents q = x # xs" by (cases "contents q") auto
  from deq_some [OF Suc.prems(1) this] obtain q1 where q1: "deq q = Inr (x, q1)" "inv q1" "contents q1 = xs" by blast
  with Suc.IH [of q1] Suc.prems(2) c show ?case by auto
qed simp

lemma deq_iff: "inv q \<Longrightarrow> (\<exists>e. deq q = Inl e) \<longleftrightarrow> contents q = []"
  using deq_some [of q] deq_none [of q] by (cases "contents q") auto

end

definition pending_ok :: "'a pending_queue \<Rightarrow> bool" where
  "pending_ok q \<longleftrightarrow>
     pt_pending_rows q = int (length (queue_iter q)) \<and>
     (case pt_rows q of
        None \<Rightarrow> pt_chunks q = []
      | Some (w, rs) \<Rightarrow> pt_cursor q < length rs \<and> (\<forall>(w', rs') \<in> set (pt_chunks q). rs' \<noteq> [] \<and> w' = w))"

fun tensor_rows :: "'a tensor \<Rightarrow> 'a list list" where
  "tensor_rows (Dim1 row) = (if row = [] then [] else [row])"
| "tensor_rows (Dim2 (_, rows)) = rows"
| "tensor_rows _ = []"

lemma as_rows_Inr:
  assumes "as_rows t = Inr r"
  shows "case r of None \<Rightarrow> tensor_rows t = [] | Some (w, rs) \<Rightarrow> rs = tensor_rows t \<and> rs \<noteq> [] \<and> w \<noteq> 0"
  using assms by (auto simp: as_rows_def split: tensor.splits prod.splits if_splits)

lemma append_rows_ok:
  assumes "pending_ok q" and "append_rows t q = Inr q'"
  shows "pending_ok q' \<and> queue_iter q' = queue_iter q @ tensor_rows t"
proof -
  obtain r where r: "as_rows t = Inr r" using assms(2) by (auto simp: append_rows_def bind_r_Inr_iff)
  show ?thesis
  proof (cases r)
    case None
    with r assms as_rows_Inr [OF r] show ?thesis by (simp add: append_rows_def)
  next
    case (Some m)
    obtain w rs where m: "m = (w, rs)" by (cases m)
    from as_rows_Inr [OF r] Some m have rs: "rs = tensor_rows t" "rs \<noteq> []" by auto
    show ?thesis
    proof (cases "pt_rows q")
      case None
      with assms r Some m rs show ?thesis
        by (auto simp: append_rows_def pending_ok_def queue_iter_def)
    next
      case (Some h)
      obtain w' hs where h: "h = (w', hs)" by (cases h)
      have ne: "queue_len q \<noteq> 0" using assms(1) Some h by (auto simp: pending_ok_def queue_len_def queue_iter_def)
      with assms(2) r Some h m \<open>r = Some m\<close>
      have "q' = q\<lparr>pt_chunks := pt_chunks q @ [(w, rs)], pt_pending_rows := pt_pending_rows q + int (length rs)\<rparr>" "w = w'"
        by (auto simp: append_rows_def split: if_splits)
      with assms(1) Some h rs show ?thesis by (auto simp: pending_ok_def queue_iter_def)
    qed
  qed
qed

lemma popleft_cons:
  assumes "pending_ok q" and "queue_iter q = x # xs"
  shows "\<exists>q'. popleft q = Inr (x, q') \<and> pending_ok q' \<and> queue_iter q' = xs"
proof -
  obtain w rs where rows: "pt_rows q = Some (w, rs)" using assms(2) by (auto simp: queue_iter_def split: option.splits)
  have cur: "pt_cursor q < length rs" using assms(1) rows by (simp add: pending_ok_def)
  then have it: "queue_iter q = rs ! pt_cursor q # drop (Suc (pt_cursor q)) rs @ concat (map snd (pt_chunks q))"
    using rows by (simp add: queue_iter_def Cons_nth_drop_Suc flip: append_Cons)
  have get: "queue_getitem q 0 = Inr x" using rows cur it assms(2) by (simp add: queue_getitem_def row_at_def Let_def)
  have xs: "xs = drop (Suc (pt_cursor q)) rs @ concat (map snd (pt_chunks q))" using it assms(2) by simp
  have pend: "pt_pending_rows q = 1 + int (length xs)" using assms by (simp add: pending_ok_def)
  show ?thesis
  proof (cases "Suc (pt_cursor q) \<ge> length rs")
    case False
    then show ?thesis using get rows assms(1) pend xs by (simp add: popleft_def pending_ok_def queue_iter_def Let_def)
  next
    case last: True
    show ?thesis
    proof (cases "pt_chunks q")
      case Nil
      then show ?thesis using last get rows assms(1) pend xs by (simp add: popleft_def pending_ok_def queue_iter_def Let_def)
    next
      case (Cons c cs)
      then have "snd c \<noteq> []" "\<forall>(w', rs') \<in> set cs. rs' \<noteq> [] \<and> w' = fst c"
        using assms(1) rows by (auto simp: pending_ok_def)
      then show ?thesis using Cons last get rows pend xs
        by (cases c) (simp add: popleft_def pending_ok_def queue_iter_def Let_def)
    qed
  qed
qed

lemma popleft_empty:
  assumes "pending_ok q" and "queue_iter q = []"
  shows "popleft q = Inl IndexError"
  using assms by (auto simp: popleft_def pending_ok_def queue_iter_def queue_getitem_def split: option.splits)

interpretation pending: fifo pending_ok queue_iter tensor_rows append_rows popleft
proof
  show "pending_ok q' \<and> queue_iter q' = queue_iter q @ tensor_rows t"
    if "pending_ok q" "append_rows t q = Inr q'" for q q' :: "'a pending_queue" and t
    using that by (rule append_rows_ok)
  show "\<exists>q'. popleft q = Inr (x, q') \<and> pending_ok q' \<and> queue_iter q' = xs"
    if "pending_ok q" "queue_iter q = x # xs" for q :: "'a pending_queue" and x xs
    using that by (rule popleft_cons)
  show "\<exists>e. popleft q = Inl e" if "pending_ok q" "queue_iter q = []" for q :: "'a pending_queue"
    using popleft_empty [OF that] by blast
qed

lemma empty_queue_ok [simp]: "pending_ok empty_queue" "queue_iter empty_queue = []"
  by (simp_all add: empty_queue_def make_queue_def pending_ok_def queue_iter_def)



section \<open>Exact incremental text\<close>

text \<open>
  Text is a list of Unicode code points. \<open>str.strip\<close> removes the code points Python counts as white
  space, and 65533 is the replacement character.
\<close>

type_synonym ustr = "int list"

definition isspace :: "int \<Rightarrow> bool" where
  "isspace c \<longleftrightarrow> 9 \<le> c \<and> c \<le> 13 \<or> 28 \<le> c \<and> c \<le> 32 \<or> 8192 \<le> c \<and> c \<le> 8202 \<or>
     c \<in> set [133, 160, 5760, 8232, 8233, 8239, 8287, 12288]"

definition rstrip_by :: "(int \<Rightarrow> bool) \<Rightarrow> ustr \<Rightarrow> ustr" where
  "rstrip_by P s = rev (dropWhile P (rev s))"

definition strip :: "ustr \<Rightarrow> ustr" where
  "strip s = rstrip_by isspace (dropWhile isspace s)"

record text_state =
  et_interval_seconds :: rat
  et_token_ids :: "int list"
  et_emitted_text :: ustr
  et_last_emit_seconds :: rat

definition text_step ::
  "(int list \<Rightarrow> ustr) \<Rightarrow> int option \<Rightarrow> bool \<Rightarrow> rat \<Rightarrow> text_state \<Rightarrow> (ustr \<times> text_state) result" where
  "text_step decoder token_id terminal now_seconds st =
     (let st = (case token_id of None \<Rightarrow> st | Some t \<Rightarrow> st\<lparr>et_token_ids := et_token_ids st @ [t]\<rparr>)
      in if \<not> terminal \<and> et_emitted_text st \<noteq> [] \<and> now_seconds - et_last_emit_seconds st < et_interval_seconds st
         then Inr ([], st)
         else
           let text = strip (decoder (et_token_ids st));
               text = (if \<not> terminal then rstrip_by isspace (rstrip_by (\<lambda>c. c = 65533) text) else text)
           in if take (length (et_emitted_text st)) text \<noteq> et_emitted_text st
              then Inl (RuntimeError ''Incremental ASR decoding changed an emitted prefix'')
              else
                let delta = drop (length (et_emitted_text st)) text
                in if delta \<noteq> [] then Inr (delta, st\<lparr>et_emitted_text := text, et_last_emit_seconds := now_seconds\<rparr>)
                   else Inr ([], st))"

text \<open>A stream: non-terminal steps over tokens with their times, then a terminal one.\<close>

fun text_run ::
  "(int list \<Rightarrow> ustr) \<Rightarrow> (int option \<times> rat) list \<Rightarrow> text_state \<Rightarrow> (ustr list \<times> text_state) result" where
  "text_run decoder [] st = Inr ([], st)"
| "text_run decoder ((t, now) # ts) st =
     bind_r (text_step decoder t False now st) (\<lambda>(d, st). bind_r (text_run decoder ts st) (\<lambda>(ds, st). Inr (d # ds, st)))"

lemma text_step_emits:
  assumes "text_step decoder t terminal now st = Inr (d, st')"
  shows "et_emitted_text st' = et_emitted_text st @ d"
    and "et_token_ids st' = et_token_ids st @ (case t of None \<Rightarrow> [] | Some x \<Rightarrow> [x])"
    and "terminal \<longrightarrow> et_emitted_text st' = strip (decoder (et_token_ids st'))"
proof -
  have len: "u = e @ drop (length e) u" if "take (length e) u = e" for u e :: ustr
    using that by (metis append_take_drop_id)
  show "et_emitted_text st' = et_emitted_text st @ d"
    "et_token_ids st' = et_token_ids st @ (case t of None \<Rightarrow> [] | Some x \<Rightarrow> [x])"
    "terminal \<longrightarrow> et_emitted_text st' = strip (decoder (et_token_ids st'))"
    using assms len by (auto simp: text_step_def Let_def split: if_splits option.splits)
qed

lemma text_run_emits:
  "text_run decoder ts st = Inr (ds, st') \<Longrightarrow>
   et_emitted_text st' = et_emitted_text st @ concat ds \<and>
   et_token_ids st' = et_token_ids st @ List.map_filter fst ts"
proof (induction ts arbitrary: st ds)
  case (Cons p ts)
  obtain t now where p: "p = (t, now)" by (cases p)
  from Cons.prems p obtain d st1 ds' where s: "text_step decoder t False now st = Inr (d, st1)"
    "text_run decoder ts st1 = Inr (ds', st')" "ds = d # ds'"
    by (auto simp: bind_r_Inr_iff split: prod.splits)
  with Cons.IH [OF s(2)] text_step_emits(1,2) [OF s(1)] p show ?case
    by (auto simp: map_filter_def split: option.splits)
qed (simp add: map_filter_def)

text \<open>
  The deltas of an incrementally decoded transcript join to exactly the stripped decoding of all its
  tokens: whatever the emission times, if neither a step nor the terminal step finds an emitted prefix
  changed, nothing is lost, repeated or altered.\<close>

theorem deltas_join_to_final_text:
  assumes "text_run decoder ts \<lparr>et_interval_seconds = i, et_token_ids = [], et_emitted_text = [], et_last_emit_seconds = t0\<rparr>
             = Inr (ds, st)"
    and "text_step decoder t True now st = Inr (d, st')"
  shows "concat ds @ d = strip (decoder (List.map_filter fst (ts @ [(t, now)]))) \<and> et_emitted_text st' = concat ds @ d"
proof -
  from text_run_emits [OF assms(1)] have st: "et_emitted_text st = concat ds" "et_token_ids st = List.map_filter fst ts"
    by simp_all
  have toks: "et_token_ids st' = List.map_filter fst (ts @ [(t, now)])"
    using text_step_emits(2) [OF assms(2)] st(2) by (simp add: map_filter_def split: option.splits)
  from text_step_emits(1,3) [OF assms(2)] st(1) toks show ?thesis by simp
qed

lemma both_run:
  "(case r of Inr (ds, st) \<Rightarrow> (case f st of Inr _ \<Rightarrow> True | Inl _ \<Rightarrow> False) | Inl _ \<Rightarrow> False) \<Longrightarrow>
   \<exists>ds st d st'. r = Inr (ds, st) \<and> f st = Inr (d, st')"
  by (cases r; cases "f (snd (projr r))") (auto split: prod.splits)

definition demo_decoder :: "int list \<Rightarrow> ustr" where
  "demo_decoder ts = ts"

theorem deltas_join_to_final_text_witness:
  "\<exists>ds st d st'. text_run demo_decoder [(Some 32, 0), (Some 65, 1), (Some 32, 2)]
      \<lparr>et_interval_seconds = 0, et_token_ids = [], et_emitted_text = [], et_last_emit_seconds = 0\<rparr> = Inr (ds, st) \<and>
    text_step demo_decoder (Some 66) True 3 st = Inr (d, st') \<and> concat ds @ d = [65, 32, 66]"
proof -
  let ?st0 = "\<lparr>et_interval_seconds = 0, et_token_ids = [], et_emitted_text = [], et_last_emit_seconds = 0\<rparr>"
  let ?ts = "[(Some 32, 0), (Some 65, 1), (Some 32, 2 :: rat)]"
  let ?r = "text_run demo_decoder ?ts ?st0"
  have "(case ?r of Inr (ds, st) \<Rightarrow> (case text_step demo_decoder (Some 66) True 3 st of Inr _ \<Rightarrow> True | Inl _ \<Rightarrow> False)
      | Inl _ \<Rightarrow> False)" by code_simp
  from both_run [OF this] obtain ds st d st'
    where r: "?r = Inr (ds, st)" "text_step demo_decoder (Some 66) True 3 st = Inr (d, st')" by blast
  have "strip (demo_decoder (List.map_filter fst (?ts @ [(Some 66, 3)]))) = [65, 32, 66]" by code_simp
  with deltas_join_to_final_text [OF r] have "concat ds @ d = [65, 32, 66]" by argo
  with r show ?thesis by blast
qed

end
