(* ===== verification/Session_Scheduler.thy ===== *)
theory Session_Scheduler
  imports Session_Proto
begin

text \<open>
  The session scheduler of one stage, \<^verbatim>\<open>sglang_omni/scheduling/session.py\<close>: arrival
  cursors, registration with preemption, the session table with its bounds, the operations on a session
  (open, append, fragment, control, read, close) and the batched execution. A stage's hooks belong to the
  models and are an argument: functions on a hook state that return or raise. Code under the table lock,
  and one operation under its session's lock, is one step; the wait of \<open>compute\<close> is the predicate
  \<open>can_start\<close>.
\<close>

section \<open>Data\<close>

datatype op_kind = OpOpen | OpAppend | OpFragment | OpClose | OpControl | OpRead

record session_operation =
  so_operation :: op_kind
  so_identity :: session_identity
  so_stages :: "string list"
  so_chunk :: "timed_chunk option"
  so_should_preempt :: bool
  so_preempted_request_ids :: "string list"

text \<open>The results a stage puts in a payload, or the payload's own data.\<close>

datatype 'd stage_data = Opened | Closed | Held | Controlled | Data 'd

record 'd stage_payload =
  pl_request_id :: string
  pl_operation :: "session_operation option result"
  pl_data :: "'d stage_data"

record 'd stage_session =
  st_is_open :: bool
  st_output_read :: "'d stage_payload option"
  st_fragments :: "timed_chunk list"

record operation_arrival =
  oa_identity :: session_identity
  oa_operation :: op_kind
  oa_sequence :: nat

record operation_cursor =
  cu_next_sequence :: nat
  cu_runnable_sequence :: nat
  cu_completed_sequences :: "nat set"

datatype 'd out_message = OutResult string "'d stage_payload" | OutError string error | OutStream string timed_chunk

record 'd append_call =
  ac_chunk :: timed_chunk
  ac_payload :: "'d stage_payload"
  ac_identity :: session_identity
  ac_cancelled :: bool

text \<open>
  A stage's hooks on a hook state \<open>'h\<close>. \<open>hk_open\<close> stands for \<open>open\<close> and the two attach calls after it
  are \<open>hk_attach\<close>; an append also returns the chunks it emitted.
\<close>

record ('h, 'd) hooks =
  hk_open :: "session_identity \<Rightarrow> ('h, unit) io"
  hk_attach :: "session_identity \<Rightarrow> ('h, unit) io"
  hk_append :: "'d append_call \<Rightarrow> 'h \<Rightarrow> timed_chunk list \<times> 'd stage_payload result \<times> 'h"
  hk_append_batch :: "'d append_call list \<Rightarrow> 'h \<Rightarrow> timed_chunk list list \<times> 'd stage_payload list result \<times> 'h"
  hk_control :: "session_identity \<Rightarrow> timed_chunk \<Rightarrow> ('h, unit) io"
  hk_close :: "session_identity \<Rightarrow> ('h, unit) io"
  hk_usage :: "session_identity \<Rightarrow> 'h \<Rightarrow> int"

record ('h, 'd) sched =
  ss_hook_state :: 'h
  ss_max_open_sessions :: nat
  ss_max_state_bytes :: int
  ss_open_sessions :: "(session_identity, 'd stage_session) dict"
  ss_append_cancel_events :: "(string, bool) dict"
  ss_is_shutting_down :: bool
  ss_arrivals :: "(string, operation_arrival) dict"
  ss_cursors :: "(session_identity, operation_cursor) dict"
  ss_aborted :: "string set"
  ss_outbox :: "'d out_message list"

type_synonym ('h, 'd, 'a) sio = "(('h, 'd) sched, 'a) io"

section \<open>Arrival order\<close>

definition cursor_init :: operation_cursor where
  "cursor_init = \<lparr>cu_next_sequence = 0, cu_runnable_sequence = 0, cu_completed_sequences = {}\<rparr>"

text \<open>The events of the session's appends in flight, set.\<close>

definition cancel_session_appends :: "session_identity \<Rightarrow> ('h, 'd) sched \<Rightarrow> ('h, 'd) sched" where
  "cancel_session_appends identity st =
     st\<lparr>ss_append_cancel_events :=
          fold (\<lambda>(r, a) events.
              if oa_identity a = identity \<and> dict_has events r then dict_set r True events else events)
            (ss_arrivals st) (ss_append_cancel_events st)\<rparr>"

definition enter_operation ::
  "string \<Rightarrow> session_operation \<Rightarrow> ('h, 'd) sched \<Rightarrow> ('h, 'd) sched" where
  "enter_operation request_id op st =
     (let identity = so_identity op;
          cursor = (case dict_get (ss_cursors st) identity of None \<Rightarrow> cursor_init | Some c \<Rightarrow> c);
          arrival = \<lparr>oa_identity = identity, oa_operation = so_operation op, oa_sequence = cu_next_sequence cursor\<rparr>;
          st = st\<lparr>ss_arrivals := dict_set request_id arrival (ss_arrivals st),
                  ss_cursors := dict_set identity
                    (cursor\<lparr>cu_next_sequence := cu_next_sequence cursor + 1\<rparr>) (ss_cursors st)\<rparr>
      in if so_should_preempt op then cancel_session_appends identity st else st)"

definition register_operation :: "'d stage_payload \<Rightarrow> ('h, 'd) sched \<Rightarrow> bool \<times> ('h, 'd) sched" where
  "register_operation payload st =
     (case pl_operation payload of
        Inl _ \<Rightarrow> (True, st)
      | Inr None \<Rightarrow> (True, st)
      | Inr (Some op) \<Rightarrow>
          (case dict_get (ss_open_sessions st) (so_identity op) of
             Some s \<Rightarrow>
               if so_operation op = OpRead \<and> st_output_read s = None
               then (False, st\<lparr>ss_open_sessions :=
                                 dict_set (so_identity op) (s\<lparr>st_output_read := Some payload\<rparr>) (ss_open_sessions st)\<rparr>)
               else (True, enter_operation (pl_request_id payload) op st)
           | None \<Rightarrow> (True, enter_operation (pl_request_id payload) op st)))"

text \<open>The loop of \<open>finish_operation\<close> over the completed sequences.\<close>

definition advance_step :: "operation_cursor \<Rightarrow> operation_cursor" where
  "advance_step c = c\<lparr>cu_completed_sequences := cu_completed_sequences c - {cu_runnable_sequence c},
                      cu_runnable_sequence := cu_runnable_sequence c + 1\<rparr>"

function advance :: "operation_cursor \<Rightarrow> operation_cursor" where
  "advance c =
     (if finite (cu_completed_sequences c) \<and> cu_runnable_sequence c \<in> cu_completed_sequences c
      then advance (advance_step c) else c)"
  by pat_completeness auto
termination
  by (relation "measure (\<lambda>c. card (cu_completed_sequences c))") (auto simp: advance_step_def intro!: diff_less card_gt_0_iff [THEN iffD2])

declare advance.simps [simp del]

definition finish_operation :: "string \<Rightarrow> ('h, 'd) sched \<Rightarrow> ('h, 'd) sched" where
  "finish_operation request_id st =
     (case dict_get (ss_arrivals st) request_id of
        None \<Rightarrow> st
      | Some arrival \<Rightarrow>
          let st = st\<lparr>ss_arrivals := dict_del request_id (ss_arrivals st)\<rparr>
          in (case dict_get (ss_cursors st) (oa_identity arrival) of
                None \<Rightarrow> st
              | Some cursor \<Rightarrow>
                  let cursor = advance (cursor\<lparr>cu_completed_sequences :=
                                 insert (oa_sequence arrival) (cu_completed_sequences cursor)\<rparr>)
                  in if cu_runnable_sequence cursor = cu_next_sequence cursor
                     then st\<lparr>ss_cursors := dict_del (oa_identity arrival) (ss_cursors st)\<rparr>
                     else st\<lparr>ss_cursors := dict_set (oa_identity arrival) cursor (ss_cursors st)\<rparr>))"

text \<open>The condition \<open>compute\<close> waits for before it runs an operation.\<close>

definition can_start :: "string \<Rightarrow> ('h, 'd) sched \<Rightarrow> bool" where
  "can_start request_id st =
     (case dict_get (ss_arrivals st) request_id of
        None \<Rightarrow> True
      | Some arrival \<Rightarrow>
          (case dict_get (ss_cursors st) (oa_identity arrival) of
             None \<Rightarrow> True
           | Some cursor \<Rightarrow> cu_runnable_sequence cursor \<ge> oa_sequence arrival))"

definition cancel_operation :: "string \<Rightarrow> ('h, 'd) sched \<Rightarrow> ('h, 'd) sched" where
  "cancel_operation request_id st =
     (if dict_has (ss_append_cancel_events st) request_id
      then st\<lparr>ss_append_cancel_events := dict_set request_id True (ss_append_cancel_events st)\<rparr>
      else st)"

definition is_aborted :: "string \<Rightarrow> ('h, 'd) sched \<Rightarrow> bool" where
  "is_aborted request_id st \<longleftrightarrow> request_id \<in> ss_aborted st"

definition consume_if_aborted :: "string \<Rightarrow> ('h, 'd) sched \<Rightarrow> bool \<times> ('h, 'd) sched" where
  "consume_if_aborted request_id st =
     (let aborted = is_aborted request_id st;
          st = (if aborted then cancel_operation request_id (st\<lparr>ss_aborted := ss_aborted st - {request_id}\<rparr>) else st);
          is_close_operation =
            (case dict_get (ss_arrivals st) request_id of None \<Rightarrow> False | Some a \<Rightarrow> oa_operation a = OpClose)
      in if aborted \<and> is_close_operation then (False, st)
         else if aborted then (True, finish_operation request_id st)
         else (False, st))"

section \<open>Sessions\<close>

definition take_fragments :: "timed_chunk \<Rightarrow> 'd stage_session \<Rightarrow> timed_chunk list \<times> 'd stage_session" where
  "take_fragments chunk s =
     (filter (\<lambda>f. tc_turn f = tc_turn chunk) (st_fragments s), s\<lparr>st_fragments := []\<rparr>)"

definition run_hook :: "('h, 'a) io \<Rightarrow> ('h, 'd, 'a) sio" where
  "run_hook m st = (case m (ss_hook_state st) of (r, h) \<Rightarrow> (r, st\<lparr>ss_hook_state := h\<rparr>))"

definition put_out :: "'d out_message \<Rightarrow> ('h, 'd) sched \<Rightarrow> ('h, 'd) sched" where
  "put_out m st = st\<lparr>ss_outbox := ss_outbox st @ [m]\<rparr>"

definition set_session :: "session_identity \<Rightarrow> 'd stage_session \<Rightarrow> ('h, 'd) sched \<Rightarrow> ('h, 'd) sched" where
  "set_session identity s st = st\<lparr>ss_open_sessions := dict_set identity s (ss_open_sessions st)\<rparr>"

text \<open>
  \<open>close_session\<close> on a session of the table: the hook first, then the table entry and the reader.
  A session no longer in the table has nothing left to release.
\<close>

definition drop_session :: "session_identity \<Rightarrow> ('h, 'd) sched \<Rightarrow> ('h, 'd) sched" where
  "drop_session identity st =
     (let reader = (case dict_get (ss_open_sessions st) identity of None \<Rightarrow> None | Some s \<Rightarrow> st_output_read s);
          st = st\<lparr>ss_open_sessions := dict_del identity (ss_open_sessions st)\<rparr>
      in case reader of
           None \<Rightarrow> st
         | Some p \<Rightarrow> put_out (OutResult (pl_request_id p) (p\<lparr>pl_data := Closed\<rparr>)) st)"

definition close_session :: "('h, 'd) hooks \<Rightarrow> session_identity \<Rightarrow> ('h, 'd, unit) sio" where
  "close_session hk identity =
     with_state (\<lambda>st.
       if (case dict_get (ss_open_sessions st) identity of None \<Rightarrow> False | Some s \<Rightarrow> st_is_open s)
       then then_do (run_hook (hk_close hk identity)) (\<lambda>_. modify (drop_session identity))
       else modify (drop_session identity))"

definition emit_output :: "session_identity \<Rightarrow> timed_chunk \<Rightarrow> ('h, 'd, unit) sio" where
  "emit_output identity chunk =
     with_state (\<lambda>st.
       case (case dict_get (ss_open_sessions st) identity of None \<Rightarrow> None | Some s \<Rightarrow> st_output_read s) of
         None \<Rightarrow> raise (RuntimeError ''session has no output reader'')
       | Some reader \<Rightarrow> modify (put_out (OutStream (pl_request_id reader) chunk)))"

definition fail_output :: "session_identity \<Rightarrow> error \<Rightarrow> ('h, 'd) sched \<Rightarrow> ('h, 'd) sched" where
  "fail_output identity e st =
     (case (case dict_get (ss_open_sessions st) identity of None \<Rightarrow> None | Some s \<Rightarrow> st_output_read s) of
        None \<Rightarrow> st
      | Some reader \<Rightarrow> put_out (OutError (pl_request_id reader) e) st)"

definition check_usage :: "('h, 'd) hooks \<Rightarrow> session_identity \<Rightarrow> ('h, 'd, unit) sio" where
  "check_usage hk identity =
     with_state (\<lambda>st. if hk_usage hk identity (ss_hook_state st) > ss_max_state_bytes st
                      then raise QueueFullError else ret ())"

definition stopping :: "('h, 'd, unit) sio" where
  "stopping = with_state (\<lambda>st. if ss_is_shutting_down st then raise (RuntimeError ''session scheduler is stopping'') else ret ())"

definition new_session :: "'d stage_session" where
  "new_session = \<lparr>st_is_open = False, st_output_read = None, st_fragments = []\<rparr>"

definition mark_open :: "session_identity \<Rightarrow> ('h, 'd) sched \<Rightarrow> ('h, 'd) sched" where
  "mark_open identity st =
     (case dict_get (ss_open_sessions st) identity of
        None \<Rightarrow> st
      | Some s \<Rightarrow> set_session identity (s\<lparr>st_is_open := True\<rparr>) st)"

definition open_session :: "('h, 'd) hooks \<Rightarrow> session_identity \<Rightarrow> ('h, 'd, unit) sio" where
  "open_session hk identity =
     with_state (\<lambda>st.
       if ss_is_shutting_down st then raise (RuntimeError ''session scheduler is stopping'')
       else if dict_has (ss_open_sessions st) identity then raise (ValueError ''session already opened'')
       else if length (ss_open_sessions st) \<ge> ss_max_open_sessions st then raise QueueFullError
       else then_do (modify (set_session identity new_session)) (\<lambda>_.
         except
           (then_do (run_hook (hk_open hk identity)) (\<lambda>_.
            then_do (modify (mark_open identity)) (\<lambda>_.
            then_do (run_hook (hk_attach hk identity)) (\<lambda>_.
            then_do (check_usage hk identity) (\<lambda>_. stopping)))))
           (\<lambda>e. then_do (close_session hk identity) (\<lambda>_. raise e))))"

text \<open>
  \<open>start_append\<close>: the held fragments of the chunk's turn are joined with it, the operation carries the
  restored chunk on, and the append gets its cancel event.
\<close>

definition start_append ::
  "(byte list \<Rightarrow> timed_chunk result) \<Rightarrow> 'd stage_payload \<Rightarrow> session_operation \<Rightarrow> ('h, 'd, 'd append_call) sio" where
  "start_append unpackb payload op =
     with_state (\<lambda>st.
       case (so_chunk op, dict_get (ss_open_sessions st) (so_identity op)) of
         (Some chunk, Some s) \<Rightarrow>
           let (fragments, s) = take_fragments chunk s;
               joined = (if fragments \<noteq> [] then join_fragments unpackb (fragments @ [chunk]) else Inr chunk)
           in then_do (modify (set_session (so_identity op) s)) (\<lambda>_.
                case joined of
                  Inl e \<Rightarrow> raise e
                | Inr input_chunk \<Rightarrow>
                    let payload = (if fragments \<noteq> []
                                   then payload\<lparr>pl_operation := Inr (Some (op\<lparr>so_chunk := Some input_chunk\<rparr>))\<rparr>
                                   else payload);
                        cancelled = is_aborted (pl_request_id payload) st
                    in then_do (modify (\<lambda>st. st\<lparr>ss_append_cancel_events :=
                                  dict_set (pl_request_id payload) cancelled (ss_append_cancel_events st)\<rparr>))
                         (\<lambda>_. ret \<lparr>ac_chunk = input_chunk, ac_payload = payload, ac_identity = so_identity op,
                                  ac_cancelled = cancelled\<rparr>))
       | _ \<Rightarrow> raise AssertionError)"

definition emit_chunks :: "string \<Rightarrow> timed_chunk list \<Rightarrow> ('h, 'd) sched \<Rightarrow> ('h, 'd) sched" where
  "emit_chunks request_id chunks st =
     (if dict_get (ss_append_cancel_events st) request_id = Some True then st
      else st\<lparr>ss_outbox := ss_outbox st @ map (OutStream request_id) chunks\<rparr>)"

definition run_append :: "('h, 'd) hooks \<Rightarrow> 'd append_call \<Rightarrow> ('h, 'd, 'd stage_payload) sio" where
  "run_append hk call st =
     (case hk_append hk call (ss_hook_state st) of (chunks, r, h) \<Rightarrow>
        (r, emit_chunks (pl_request_id (ac_payload call)) chunks (st\<lparr>ss_hook_state := h\<rparr>)))"

definition pop_cancel :: "string \<Rightarrow> ('h, 'd) sched \<Rightarrow> ('h, 'd) sched" where
  "pop_cancel request_id st =
     st\<lparr>ss_append_cancel_events := dict_del request_id (ss_append_cancel_events st)\<rparr>"

definition hold_fragment :: "session_identity \<Rightarrow> timed_chunk \<Rightarrow> ('h, 'd) sched \<Rightarrow> ('h, 'd) sched" where
  "hold_fragment identity fragment st =
     (case dict_get (ss_open_sessions st) identity of
        None \<Rightarrow> st
      | Some s \<Rightarrow>
          let (fragments, s) = take_fragments fragment s
          in set_session identity (s\<lparr>st_fragments := fragments @ [fragment]\<rparr>) st)"

definition compute_session ::
  "('h, 'd) hooks \<Rightarrow> (byte list \<Rightarrow> timed_chunk result) \<Rightarrow> 'd stage_payload \<Rightarrow> session_operation \<Rightarrow>
   ('h, 'd, 'd stage_payload) sio" where
  "compute_session hk unpackb payload op =
     (if so_operation op = OpOpen
      then then_do (open_session hk (so_identity op)) (\<lambda>_. ret (payload\<lparr>pl_data := Opened\<rparr>))
      else with_state (\<lambda>st.
        if \<not> dict_has (ss_open_sessions st) (so_identity op) then
          if so_operation op = OpClose then ret (payload\<lparr>pl_data := Closed\<rparr>)
          else raise (ValueError ''unknown session open index'')
        else if so_operation op = OpClose
        then then_do (close_session hk (so_identity op)) (\<lambda>_. ret (payload\<lparr>pl_data := Closed\<rparr>))
        else then_do stopping (\<lambda>_.
          case (so_operation op, so_chunk op) of
            (OpRead, _) \<Rightarrow> raise (ValueError ''session already has an output reader'')
          | (OpFragment, None) \<Rightarrow> raise AssertionError
          | (OpFragment, Some fragment) \<Rightarrow>
              then_do (modify (hold_fragment (so_identity op) fragment)) (\<lambda>_. ret (payload\<lparr>pl_data := Held\<rparr>))
          | (OpControl, None) \<Rightarrow> raise AssertionError
          | (OpControl, Some event) \<Rightarrow>
              then_do (run_hook (hk_control hk (so_identity op) event)) (\<lambda>_. ret (payload\<lparr>pl_data := Controlled\<rparr>))
          | _ \<Rightarrow>
              then_do (start_append unpackb payload op) (\<lambda>call.
                finally_do
                  (except
                    (then_do (run_append hk call) (\<lambda>updated.
                     then_do (check_usage hk (so_identity op)) (\<lambda>_. ret updated)))
                    (\<lambda>e. then_do (close_session hk (so_identity op)) (\<lambda>_. raise e)))
                  (modify (pop_cancel (pl_request_id payload)))))))"

definition settle_operation :: "('h, 'd) hooks \<Rightarrow> string \<Rightarrow> session_identity \<Rightarrow> ('h, 'd, unit) sio" where
  "settle_operation hk request_id identity =
     with_state (\<lambda>st.
       then_do (if ss_is_shutting_down st \<and> dict_has (ss_open_sessions st) identity
                then close_session hk identity else ret ())
         (\<lambda>_. modify (finish_operation request_id)))"

text \<open>\<open>compute\<close> once its wait is over; \<open>request_compute\<close> is the stage's function for ordinary requests, if any.\<close>

definition compute ::
  "('h, 'd) hooks \<Rightarrow> (byte list \<Rightarrow> timed_chunk result) \<Rightarrow> ('d stage_payload \<Rightarrow> ('h, 'd stage_payload) io) option \<Rightarrow>
   'd stage_payload \<Rightarrow> ('h, 'd, 'd stage_payload) sio" where
  "compute hk unpackb request_compute payload =
     (case pl_operation payload of
        Inl e \<Rightarrow> raise e
      | Inr None \<Rightarrow>
          (case request_compute of
             None \<Rightarrow> raise (ValueError ''this stage has no compute_fn for ordinary requests'')
           | Some f \<Rightarrow> run_hook (f payload))
      | Inr (Some op) \<Rightarrow>
          with_state (\<lambda>st.
            let identity = (case dict_get (ss_arrivals st) (pl_request_id payload) of
                              None \<Rightarrow> so_identity op | Some a \<Rightarrow> oa_identity a)
            in finally_do (compute_session hk unpackb payload op)
                 (settle_operation hk (pl_request_id payload) identity)))"

section \<open>Batches\<close>

type_synonym 'd results = "(string, 'd stage_payload result) dict"

text \<open>The loop that starts the appends of a round: what it collected survives an exception.\<close>

fun start_appends ::
  "(byte list \<Rightarrow> timed_chunk result) \<Rightarrow> ('d stage_payload \<times> session_operation) list \<Rightarrow> 'd results \<Rightarrow> 'd append_call list \<Rightarrow>
   ('h, 'd) sched \<Rightarrow> 'd results \<times> 'd append_call list \<times> error option \<times> ('h, 'd) sched" where
  "start_appends unpackb [] results started st = (results, started, None, st)"
| "start_appends unpackb ((payload, op) # rest) results started st =
     (if \<not> dict_has (ss_open_sessions st) (so_identity op) then
        start_appends unpackb rest
          (dict_set (pl_request_id payload) (Inl (ValueError ''unknown session open index'')) results) started st
      else if ss_is_shutting_down st then
        start_appends unpackb rest
          (dict_set (pl_request_id payload) (Inl (RuntimeError ''session scheduler is stopping'')) results) started st
      else
        case start_append unpackb payload op st of
          (Inl e, st) \<Rightarrow> (results, started, Some e, st)
        | (Inr call, st) \<Rightarrow> start_appends unpackb rest results (started @ [call]) st)"

text \<open>The results of the hook call: a usable payload under the budget, else the append fails and its session closes.\<close>

definition fail_append ::
  "('h, 'd) hooks \<Rightarrow> 'd append_call \<Rightarrow> error \<Rightarrow> 'd results \<Rightarrow> ('h, 'd) sched \<Rightarrow> 'd results \<times> error option \<times> ('h, 'd) sched" where
  "fail_append hk call exc results st =
     (case close_session hk (ac_identity call) st of
        (Inl e, st) \<Rightarrow> (results, Some e, st)
      | (Inr _, st) \<Rightarrow> (dict_set (pl_request_id (ac_payload call)) (Inl exc) results, None, st))"

definition finish_append ::
  "('h, 'd) hooks \<Rightarrow> 'd append_call \<Rightarrow> 'd stage_payload result \<Rightarrow> 'd results \<Rightarrow> ('h, 'd) sched \<Rightarrow>
   'd results \<times> error option \<times> ('h, 'd) sched" where
  "finish_append hk call outcome results st =
     (case outcome of
        Inl exc \<Rightarrow> fail_append hk call exc results st
      | Inr updated \<Rightarrow>
          (case check_usage hk (ac_identity call) st of
             (Inl exc, st) \<Rightarrow> fail_append hk call exc results st
           | (Inr _, st) \<Rightarrow> (dict_set (pl_request_id (ac_payload call)) (Inr updated) results, None, st)))"

fun finish_appends ::
  "('h, 'd) hooks \<Rightarrow> ('d append_call \<times> 'd stage_payload result) list \<Rightarrow> 'd results \<Rightarrow> ('h, 'd) sched \<Rightarrow>
   'd results \<times> error option \<times> ('h, 'd) sched" where
  "finish_appends hk [] results st = (results, None, st)"
| "finish_appends hk ((call, outcome) # rest) results st =
     (case finish_append hk call outcome results st of
        (results, Some e, st) \<Rightarrow> (results, Some e, st)
      | (results, None, st) \<Rightarrow> finish_appends hk rest results st)"

definition run_append_batch ::
  "('h, 'd) hooks \<Rightarrow> 'd append_call list \<Rightarrow> 'd results \<Rightarrow> ('h, 'd) sched \<Rightarrow> 'd results \<times> error option \<times> ('h, 'd) sched" where
  "run_append_batch hk started results st =
     (case hk_append_batch hk started (ss_hook_state st) of (chunks, r, h) \<Rightarrow>
        let st = fold (\<lambda>(call, cs). emit_chunks (pl_request_id (ac_payload call)) cs) (zip started chunks)
                   (st\<lparr>ss_hook_state := h\<rparr>)
        in case r of
             Inl exc \<Rightarrow> finish_appends hk (map (\<lambda>call. (call, Inl exc)) started) results st
           | Inr updated \<Rightarrow>
               (case finish_appends hk (zip started (map Inr updated)) results st of
                  (results, Some e, st) \<Rightarrow> (results, Some e, st)
                | (results, None, st) \<Rightarrow>
                    (results,
                     if length updated \<noteq> length started then Some (ValueError ''zip() argument lengths differ'') else None,
                     st)))"

fun settle_all :: "('h, 'd) hooks \<Rightarrow> (string \<times> session_identity) list \<Rightarrow> ('h, 'd, unit) sio" where
  "settle_all hk [] = ret ()"
| "settle_all hk ((r, identity) # rest) = then_do (settle_operation hk r identity) (\<lambda>_. settle_all hk rest)"

definition set_default :: "string \<Rightarrow> 'v \<Rightarrow> (string, 'v) dict \<Rightarrow> (string, 'v) dict" where
  "set_default k v d = (if dict_has d k then d else dict_set k v d)"

definition compute_appends ::
  "('h, 'd) hooks \<Rightarrow> (byte list \<Rightarrow> timed_chunk result) \<Rightarrow> ('d stage_payload \<times> session_operation) list \<Rightarrow>
   ('h, 'd, 'd results) sio" where
  "compute_appends hk unpackb appends st =
     (let (results, started, err, st) = start_appends unpackb appends [] [] st;
          (results, err, st) =
            (case err of
               Some e \<Rightarrow> (results, Some e, st)
             | None \<Rightarrow> if started \<noteq> [] then run_append_batch hk started results st else (results, None, st));
          results =
            (case err of
               None \<Rightarrow> results
             | Some e \<Rightarrow> fold (\<lambda>(payload, _). set_default (pl_request_id payload) (Inl e)) appends results);
          st = fold (\<lambda>call. pop_cancel (pl_request_id (ac_payload call))) started st
      in then_do (settle_all hk (map (\<lambda>(payload, op). (pl_request_id payload, so_identity op)) appends))
           (\<lambda>_. ret results) st)"

text \<open>
  One round of \<open>compute_batch\<close>: the first remaining operation of every session, appends apart from the
  rest, and what waits for a later round.
\<close>

record 'd batch_round =
  rd_sessions :: "session_identity set"
  rd_appends :: "('d stage_payload \<times> session_operation) list"
  rd_alone :: "'d stage_payload list"
  rd_later :: "'d stage_payload list"

definition classify ::
  "(string, operation_arrival) dict \<Rightarrow> 'd stage_payload \<Rightarrow> 'd batch_round \<Rightarrow> 'd batch_round result" where
  "classify arrivals payload rd =
     (case dict_get arrivals (pl_request_id payload) of
        None \<Rightarrow> Inr (rd\<lparr>rd_alone := rd_alone rd @ [payload]\<rparr>)
      | Some arrival \<Rightarrow>
          if oa_identity arrival \<in> rd_sessions rd then Inr (rd\<lparr>rd_later := rd_later rd @ [payload]\<rparr>)
          else
            let rd = rd\<lparr>rd_sessions := insert (oa_identity arrival) (rd_sessions rd)\<rparr>
            in case pl_operation payload of
                 Inl e \<Rightarrow> Inl e
               | Inr None \<Rightarrow> Inl (KeyError ''session_operation'')
               | Inr (Some op) \<Rightarrow>
                   if so_operation op = OpAppend then Inr (rd\<lparr>rd_appends := rd_appends rd @ [(payload, op)]\<rparr>)
                   else Inr (rd\<lparr>rd_alone := rd_alone rd @ [payload]\<rparr>))"

definition empty_round :: "'d batch_round" where
  "empty_round = \<lparr>rd_sessions = {}, rd_appends = [], rd_alone = [], rd_later = []\<rparr>"

definition split_round :: "(string, operation_arrival) dict \<Rightarrow> 'd stage_payload list \<Rightarrow> 'd batch_round result" where
  "split_round arrivals pending = fold_r (classify arrivals) pending empty_round"

lemma classify_later_length:
  "classify arrivals payload rd = Inr rd' \<Longrightarrow> length (rd_later rd') \<le> Suc (length (rd_later rd))"
  by (auto simp: classify_def Let_def split: option.splits if_splits sum.splits)

lemma split_round_later_length:
  assumes "split_round arrivals (p # ps) = Inr rd"
  shows "length (rd_later rd) \<le> length ps"
proof -
  obtain rd1 where rd1: "classify arrivals p empty_round = Inr rd1" "fold_r (classify arrivals) ps rd1 = Inr rd"
    using assms by (auto simp: split_round_def bind_r_Inr_iff)
  have "rd_later rd1 = []" using rd1(1)
    by (auto simp: classify_def empty_round_def Let_def split: option.splits if_splits sum.splits)
  moreover have "fold_r (classify arrivals) ps rd1 = Inr rd \<Longrightarrow> length (rd_later rd) \<le> length ps + length (rd_later rd1)"
    for rd1
  proof (induction ps arbitrary: rd1)
    case (Cons q qs)
    then obtain rd2 where "classify arrivals q rd1 = Inr rd2" "fold_r (classify arrivals) qs rd2 = Inr rd"
      by (auto simp: bind_r_Inr_iff)
    with Cons.IH [of rd2] classify_later_length [of arrivals q rd1 rd2] show ?case by simp
  qed simp
  ultimately show ?thesis using rd1(2) by fastforce
qed

fun compute_alone ::
  "('h, 'd) hooks \<Rightarrow> (byte list \<Rightarrow> timed_chunk result) \<Rightarrow> ('d stage_payload \<Rightarrow> ('h, 'd stage_payload) io) option \<Rightarrow>
   'd stage_payload list \<Rightarrow> 'd results \<Rightarrow> ('h, 'd) sched \<Rightarrow> 'd results \<times> ('h, 'd) sched" where
  "compute_alone hk unpackb rc [] results st = (results, st)"
| "compute_alone hk unpackb rc (p # ps) results st =
     (case compute hk unpackb rc p st of
        (r, st) \<Rightarrow> compute_alone hk unpackb rc ps (dict_set (pl_request_id p) r results) st)"

function batch_rounds ::
  "('h, 'd) hooks \<Rightarrow> (byte list \<Rightarrow> timed_chunk result) \<Rightarrow> ('d stage_payload \<Rightarrow> ('h, 'd stage_payload) io) option \<Rightarrow>
   'd stage_payload list \<Rightarrow> 'd results \<Rightarrow> ('h, 'd, 'd results) sio" where
  "batch_rounds hk unpackb rc [] results st = (Inr results, st)"
| "batch_rounds hk unpackb rc (p # ps) results st =
     (case split_round (ss_arrivals st) (p # ps) of
        Inl e \<Rightarrow> (Inl e, st)
      | Inr rd \<Rightarrow>
          (case compute_alone hk unpackb rc (rd_alone rd) results st of
             (results, st) \<Rightarrow>
               (case (if rd_appends rd \<noteq> [] then compute_appends hk unpackb (rd_appends rd) st else (Inr [], st)) of
                  (Inl e, st) \<Rightarrow> (Inl e, st)
                | (Inr new, st) \<Rightarrow>
                    batch_rounds hk unpackb rc (rd_later rd) (fold (\<lambda>(k, v). dict_set k v) new results) st)))"
  by pat_completeness auto
termination
  by (relation "measure (\<lambda>(hk, unpackb, rc, pending, results, st). length pending)")
    (auto dest: split_round_later_length)

definition compute_batch ::
  "('h, 'd) hooks \<Rightarrow> (byte list \<Rightarrow> timed_chunk result) \<Rightarrow> ('d stage_payload \<Rightarrow> ('h, 'd stage_payload) io) option \<Rightarrow>
   'd stage_payload list \<Rightarrow> ('h, 'd, 'd stage_payload result list) sio" where
  "compute_batch hk unpackb rc payloads =
     then_do (batch_rounds hk unpackb rc payloads []) (\<lambda>results st.
       (map_r (\<lambda>p. dict_lookup results (pl_request_id p)) payloads, st))"

section \<open>Shutdown\<close>

text \<open>
  \<open>release_sessions_on_scheduler_stop\<close>: a session whose lock is held (\<open>locked\<close>) is left to the operation
  that runs on it, and a failing close does not stop the others.
\<close>

fun close_unlocked ::
  "('h, 'd) hooks \<Rightarrow> (session_identity \<Rightarrow> bool) \<Rightarrow> session_identity list \<Rightarrow> error list \<Rightarrow> ('h, 'd) sched \<Rightarrow>
   error list \<times> ('h, 'd) sched" where
  "close_unlocked hk locked [] errors st = (errors, st)"
| "close_unlocked hk locked (i # is) errors st =
     (if locked i then close_unlocked hk locked is errors st
      else case close_session hk i st of
             (Inl e, st) \<Rightarrow> close_unlocked hk locked is (errors @ [e]) st
           | (Inr _, st) \<Rightarrow> close_unlocked hk locked is errors st)"

definition release_sessions_on_scheduler_stop ::
  "('h, 'd) hooks \<Rightarrow> (session_identity \<Rightarrow> bool) \<Rightarrow> ('h, 'd, unit) sio" where
  "release_sessions_on_scheduler_stop hk locked st =
     (let st = st\<lparr>ss_is_shutting_down := True,
                  ss_append_cancel_events := map (\<lambda>(r, _). (r, True)) (ss_append_cancel_events st)\<rparr>;
          (errors, st) = close_unlocked hk locked (dict_keys (ss_open_sessions st)) [] st
      in if errors \<noteq> [] then (Inl (RuntimeError ''session shutdown cleanup failed''), st) else (Inr (), st))"

section \<open>Arrival order: invariant\<close>

definition outstanding :: "session_identity \<Rightarrow> (string, operation_arrival) dict \<Rightarrow> nat set" where
  "outstanding i arrivals = {oa_sequence a |r a. dict_get arrivals r = Some a \<and> oa_identity a = i}"

definition cursor_ok :: "operation_cursor \<Rightarrow> nat set \<Rightarrow> bool" where
  "cursor_ok c out \<longleftrightarrow>
     finite (cu_completed_sequences c) \<and> cu_runnable_sequence c < cu_next_sequence c \<and>
     cu_runnable_sequence c \<notin> cu_completed_sequences c \<and> cu_completed_sequences c \<inter> out = {} \<and>
     cu_completed_sequences c \<union> out = {cu_runnable_sequence c..<cu_next_sequence c}"

fun slot_ok :: "operation_cursor option \<Rightarrow> nat set \<Rightarrow> bool" where
  "slot_ok None out \<longleftrightarrow> out = {}"
| "slot_ok (Some c) out \<longleftrightarrow> cursor_ok c out"

definition order_ok :: "(string, operation_arrival) dict \<Rightarrow> (session_identity, operation_cursor) dict \<Rightarrow> bool" where
  "order_ok arrivals cursors \<longleftrightarrow>
     (\<forall>i. slot_ok (dict_get cursors i) (outstanding i arrivals)) \<and>
     (\<forall>r r' a a'. dict_get arrivals r = Some a \<longrightarrow> dict_get arrivals r' = Some a' \<longrightarrow>
        oa_identity a = oa_identity a' \<longrightarrow> oa_sequence a = oa_sequence a' \<longrightarrow> r = r')"

lemma outstanding_iff:
  "n \<in> outstanding i arrivals \<longleftrightarrow> (\<exists>r a. dict_get arrivals r = Some a \<and> oa_identity a = i \<and> oa_sequence a = n)"
  by (auto simp: outstanding_def)

lemma outstanding_add:
  assumes "dict_get arrivals r = None"
  shows "outstanding i (dict_set r a arrivals) =
     (if oa_identity a = i then insert (oa_sequence a) (outstanding i arrivals) else outstanding i arrivals)"
proof (rule set_eqI)
  fix n
  have "(\<exists>r' b. dict_get (dict_set r a arrivals) r' = Some b \<and> oa_identity b = i \<and> oa_sequence b = n) \<longleftrightarrow>
      oa_identity a = i \<and> oa_sequence a = n \<or>
      (\<exists>r' b. dict_get arrivals r' = Some b \<and> oa_identity b = i \<and> oa_sequence b = n)" (is "?l \<longleftrightarrow> ?r")
  proof
    assume ?l
    then show ?r by (auto split: if_splits)
  next
    assume ?r
    then show ?l using assms by (metis dict_get_set option.distinct(1))
  qed
  then show "n \<in> outstanding i (dict_set r a arrivals) \<longleftrightarrow>
      n \<in> (if oa_identity a = i then insert (oa_sequence a) (outstanding i arrivals) else outstanding i arrivals)"
    by (auto simp: outstanding_iff)
qed

lemma outstanding_del:
  assumes "order_ok arrivals cursors" and "dict_get arrivals r = Some a"
  shows "outstanding i (dict_del r arrivals) =
     (if oa_identity a = i then outstanding i arrivals - {oa_sequence a} else outstanding i arrivals)"
proof (rule set_eqI)
  fix n
  have uniq: "r' = r" if "dict_get arrivals r' = Some b" "oa_identity b = oa_identity a" "oa_sequence b = oa_sequence a" for r' b
    using assms that unfolding order_ok_def by metis
  have "(\<exists>r' b. dict_get (dict_del r arrivals) r' = Some b \<and> oa_identity b = i \<and> oa_sequence b = n) \<longleftrightarrow>
      \<not> (oa_identity a = i \<and> oa_sequence a = n) \<and>
      (\<exists>r' b. dict_get arrivals r' = Some b \<and> oa_identity b = i \<and> oa_sequence b = n)" (is "?l \<longleftrightarrow> ?r")
  proof
    assume ?l
    then show ?r using uniq by (auto split: if_splits)
  next
    assume ?r
    then show ?l using assms(2) by (metis dict_get_del option.inject)
  qed
  then show "n \<in> outstanding i (dict_del r arrivals) \<longleftrightarrow>
      n \<in> (if oa_identity a = i then outstanding i arrivals - {oa_sequence a} else outstanding i arrivals)"
    by (auto simp: outstanding_iff)
qed

lemma advance_spec:
  assumes "finite (cu_completed_sequences c)"
  shows "\<exists>k. advance c = c\<lparr>cu_runnable_sequence := cu_runnable_sequence c + k,
                cu_completed_sequences := cu_completed_sequences c - {cu_runnable_sequence c..<cu_runnable_sequence c + k}\<rparr> \<and>
             {cu_runnable_sequence c..<cu_runnable_sequence c + k} \<subseteq> cu_completed_sequences c \<and>
             cu_runnable_sequence c + k \<notin> cu_completed_sequences c"
  using assms
proof (induction c rule: advance.induct)
  case (1 c)
  show ?case
  proof (cases "cu_runnable_sequence c \<in> cu_completed_sequences c")
    case False
    then show ?thesis by (intro exI [of _ 0]) (simp add: advance.simps [of c])
  next
    case True
    let ?r = "cu_runnable_sequence c"
    have fin: "finite (cu_completed_sequences (advance_step c))" using "1.prems" by (simp add: advance_step_def)
    from "1.IH" [OF conjI [OF "1.prems" True] fin] obtain k where
      k: "advance (advance_step c) = (advance_step c)\<lparr>cu_runnable_sequence := Suc ?r + k,
            cu_completed_sequences := cu_completed_sequences c - {?r} - {Suc ?r..<Suc ?r + k}\<rparr>"
        "{Suc ?r..<Suc ?r + k} \<subseteq> cu_completed_sequences c" "Suc ?r + k \<notin> cu_completed_sequences c"
      by (auto simp: advance_step_def)
    have split: "{?r..<Suc (?r + k)} = insert ?r {Suc ?r..<Suc (?r + k)}" by auto
    have "advance c = advance (advance_step c)" using "1.prems" True by (subst advance.simps) simp
    with k True show ?thesis
      by (intro exI [of _ "Suc k"]) (simp add: split advance_step_def Diff_insert2 [symmetric] del: atLeastLessThan_iff)
  qed
qed

lemma cursor_finish:
  assumes "cursor_ok c out" and "n \<in> out"
    and "c' = advance (c\<lparr>cu_completed_sequences := insert n (cu_completed_sequences c)\<rparr>)"
  shows "cu_runnable_sequence c' \<le> cu_next_sequence c'" and "cu_next_sequence c' = cu_next_sequence c"
    and "cu_runnable_sequence c' = cu_next_sequence c' \<Longrightarrow> out - {n} = {}"
    and "cu_runnable_sequence c' \<noteq> cu_next_sequence c' \<Longrightarrow> cursor_ok c' (out - {n})"
proof -
  let ?D = "insert n (cu_completed_sequences c)" and ?r = "cu_runnable_sequence c" and ?m = "cu_next_sequence c"
  have fin: "finite ?D" and all: "cu_completed_sequences c \<union> out = {?r..<?m}" and dis: "cu_completed_sequences c \<inter> out = {}"
    using assms(1) by (simp_all add: cursor_ok_def)
  obtain k where k: "c' = c\<lparr>cu_runnable_sequence := ?r + k, cu_completed_sequences := ?D - {?r..<?r + k}\<rparr>"
      "{?r..<?r + k} \<subseteq> ?D" "?r + k \<notin> ?D"
    using advance_spec [of "c\<lparr>cu_completed_sequences := ?D\<rparr>"] fin assms(3) by auto
  have sub: "?D \<subseteq> {?r..<?m}" using all assms(2) by blast
  have le: "?r + k \<le> ?m"
  proof (rule ccontr)
    assume "\<not> ?r + k \<le> ?m"
    moreover have "?r < ?m" using assms(1) by (simp add: cursor_ok_def)
    ultimately have "?m \<in> {?r..<?r + k}" by simp
    from subsetD [OF sub subsetD [OF k(2) this]] show False by simp
  qed
  then show "cu_runnable_sequence c' \<le> cu_next_sequence c'" "cu_next_sequence c' = ?m" using k(1) by simp_all
  have rest: "out - {n} \<subseteq> {?r + k..<?m}"
  proof
    fix x assume x: "x \<in> out - {n}"
    then have "x \<notin> ?D" using dis by auto
    with k(2) have "x \<notin> {?r..<?r + k}" by auto
    moreover have "x \<in> {?r..<?m}" using x all by auto
    ultimately show "x \<in> {?r + k..<?m}" by auto
  qed
  then show "cu_runnable_sequence c' = cu_next_sequence c' \<Longrightarrow> out - {n} = {}" using k(1) by auto
  have "?D - {?r..<?r + k} \<union> (out - {n}) = {?r + k..<?m}"
  proof
    show "?D - {?r..<?r + k} \<union> (out - {n}) \<subseteq> {?r + k..<?m}" using rest sub by force
    show "{?r + k..<?m} \<subseteq> ?D - {?r..<?r + k} \<union> (out - {n})" using all by force
  qed
  moreover have "(?D - {?r..<?r + k}) \<inter> (out - {n}) = {}" using dis by auto
  ultimately show "cu_runnable_sequence c' \<noteq> cu_next_sequence c' \<Longrightarrow> cursor_ok c' (out - {n})"
    using k fin le by (simp add: cursor_ok_def)
qed

lemma order_ok_enter:
  assumes "order_ok arrivals cursors" and "dict_get arrivals r = None"
    and "c = (case dict_get cursors i of None \<Rightarrow> cursor_init | Some c \<Rightarrow> c)"
    and "a = \<lparr>oa_identity = i, oa_operation = k, oa_sequence = cu_next_sequence c\<rparr>"
  shows "order_ok (dict_set r a arrivals) (dict_set i (c\<lparr>cu_next_sequence := cu_next_sequence c + 1\<rparr>) cursors)"
proof -
  let ?out = "outstanding i arrivals" and ?n = "cu_next_sequence c"
  have slot: "slot_ok (dict_get cursors j) (outstanding j arrivals)" for j
    using assms(1) unfolding order_ok_def by blast
  have inv: "cu_completed_sequences c \<inter> ?out = {}" "finite (cu_completed_sequences c)"
    "cu_completed_sequences c \<union> ?out = {cu_runnable_sequence c..<?n}"
    "cu_runnable_sequence c \<notin> cu_completed_sequences c" "cu_runnable_sequence c \<le> ?n"
    using slot [of i] assms(3) by (cases "dict_get cursors i"; simp add: cursor_ok_def cursor_init_def)+
  then have bound: "?out \<subseteq> {..<?n}" by auto
  have comp: "cu_completed_sequences c \<subseteq> {..<?n}" using inv(3) by auto
  then have new: "cursor_ok (c\<lparr>cu_next_sequence := ?n + 1\<rparr>) (insert ?n ?out)"
    using inv bound by (auto simp: cursor_ok_def le_less_Suc_eq less_Suc_eq)
  have "slot_ok (dict_get (dict_set i (c\<lparr>cu_next_sequence := ?n + 1\<rparr>) cursors) j) (outstanding j (dict_set r a arrivals))" for j
    using new slot [of j] assms(4) by (auto simp: outstanding_add [OF assms(2)])
  moreover have "r1 = r2" if g: "dict_get (dict_set r a arrivals) r1 = Some a1"
      "dict_get (dict_set r a arrivals) r2 = Some a2" and e: "oa_identity a1 = oa_identity a2" "oa_sequence a1 = oa_sequence a2"
    for r1 r2 a1 a2
  proof -
    have old: "oa_sequence b \<noteq> ?n" if "dict_get arrivals q = Some b" "oa_identity b = i" for q b
      using bound that by (force simp: outstanding_def)
    show ?thesis
    proof (cases "r1 = r \<or> r2 = r")
      case True
      have ai: "oa_identity a = i" "oa_sequence a = ?n" using assms(4) by simp_all
      from True g e old [of r1 a1] old [of r2 a2] ai show ?thesis by (cases "r1 = r"; cases "r2 = r") simp_all
    next
      case False
      then show ?thesis using g e assms(1) unfolding order_ok_def by simp
    qed
  qed
  ultimately show ?thesis unfolding order_ok_def by blast
qed

lemma order_ok_del_pairs:
  assumes "order_ok arrivals cursors"
  shows "\<forall>r1 r2 a1 a2. dict_get (dict_del r arrivals) r1 = Some a1 \<longrightarrow> dict_get (dict_del r arrivals) r2 = Some a2 \<longrightarrow>
           oa_identity a1 = oa_identity a2 \<longrightarrow> oa_sequence a1 = oa_sequence a2 \<longrightarrow> r1 = r2"
  using assms unfolding order_ok_def by simp

lemma order_ok_finish:
  assumes "order_ok arrivals cursors" and "dict_get arrivals r = Some a"
    and "c' = advance (c\<lparr>cu_completed_sequences := insert (oa_sequence a) (cu_completed_sequences c)\<rparr>)"
    and "dict_get cursors (oa_identity a) = Some c"
  shows "order_ok (dict_del r arrivals)
           (if cu_runnable_sequence c' = cu_next_sequence c' then dict_del (oa_identity a) cursors
            else dict_set (oa_identity a) c' cursors)"
proof -
  let ?i = "oa_identity a" and ?cs = "if cu_runnable_sequence c' = cu_next_sequence c' then dict_del (oa_identity a) cursors
            else dict_set (oa_identity a) c' cursors"
  have each: "slot_ok (dict_get cursors j) (outstanding j arrivals)" for j
    using assms(1) unfolding order_ok_def by blast
  have ok: "cursor_ok c (outstanding ?i arrivals)" using each [of ?i] assms(4) by simp
  have mem: "oa_sequence a \<in> outstanding ?i arrivals" using assms(2) by (auto simp: outstanding_def)
  note fin = cursor_finish [OF ok mem assms(3)]
  note del = outstanding_del [OF assms(1,2)]
  have "slot_ok (dict_get ?cs j) (outstanding j (dict_del r arrivals))" for j
  proof (cases "j = ?i")
    case True
    then show ?thesis using fin(3,4) by (simp add: del)
  next
    case False
    then have "outstanding j (dict_del r arrivals) = outstanding j arrivals" by (simp add: del)
    with each [of j] False show ?thesis by simp
  qed
  then show ?thesis using order_ok_del_pairs [OF assms(1), of r] unfolding order_ok_def by blast
qed

section \<open>The session table and the whole invariant\<close>

definition sched_ok :: "('h, 'd) sched \<Rightarrow> bool" where
  "sched_ok st \<longleftrightarrow>
     order_ok (ss_arrivals st) (ss_cursors st) \<and> dict_ok (ss_open_sessions st) \<and>
     length (ss_open_sessions st) \<le> ss_max_open_sessions st"

lemma cancel_session_appends_frame [simp]:
  "ss_arrivals (cancel_session_appends i st) = ss_arrivals st" "ss_cursors (cancel_session_appends i st) = ss_cursors st"
  "ss_open_sessions (cancel_session_appends i st) = ss_open_sessions st"
  "ss_max_open_sessions (cancel_session_appends i st) = ss_max_open_sessions st"
  by (simp_all add: cancel_session_appends_def)

lemma sched_ok_cong:
  "ss_arrivals st = ss_arrivals st' \<Longrightarrow> ss_cursors st = ss_cursors st' \<Longrightarrow> ss_open_sessions st = ss_open_sessions st' \<Longrightarrow>
   ss_max_open_sessions st = ss_max_open_sessions st' \<Longrightarrow> sched_ok st = sched_ok st'"
  by (simp add: sched_ok_def)

lemma enter_operation_ok:
  assumes "sched_ok st" and "dict_get (ss_arrivals st) r = None"
  shows "sched_ok (enter_operation r op st)"
  using assms order_ok_enter [of "ss_arrivals st" "ss_cursors st" r _ "so_identity op" _ "so_operation op", OF _ _ refl refl]
  by (simp add: sched_ok_def enter_operation_def Let_def)

lemma dict_length_set: "length (dict_set k v d) = (if dict_has d k then length d else Suc (length d))"
  by (induction d) (auto simp: dict_has_def)

lemma register_ok:
  assumes "sched_ok st" and "dict_get (ss_arrivals st) (pl_request_id p) = None"
  shows "sched_ok (snd (register_operation p st))"
proof -
  have "sched_ok (st\<lparr>ss_open_sessions := dict_set i s (ss_open_sessions st)\<rparr>)"
    if "dict_get (ss_open_sessions st) i = Some s'" for i s s'
    using assms(1) that by (auto simp: sched_ok_def dict_length_set dict_has_iff)
  with assms enter_operation_ok [OF assms] show ?thesis
    by (auto simp: register_operation_def split: sum.splits option.splits if_splits)
qed

lemma finish_ok:
  assumes "sched_ok st"
  shows "sched_ok (finish_operation r st)"
proof (cases "dict_get (ss_arrivals st) r")
  case None
  then show ?thesis using assms by (simp add: finish_operation_def)
next
  case (Some a)
  have ord: "order_ok (ss_arrivals st) (ss_cursors st)" using assms by (simp add: sched_ok_def)
  have "oa_sequence a \<in> outstanding (oa_identity a) (ss_arrivals st)" using Some by (auto simp: outstanding_def)
  with ord obtain c where c: "dict_get (ss_cursors st) (oa_identity a) = Some c"
    unfolding order_ok_def by (metis empty_iff option.exhaust slot_ok.simps(1))
  from order_ok_finish [OF ord Some refl c] Some c assms show ?thesis
    by (auto simp: finish_operation_def sched_ok_def Let_def)
qed

lemma drop_session_frame [simp]:
  "ss_arrivals (drop_session i st) = ss_arrivals st" "ss_cursors (drop_session i st) = ss_cursors st"
  "ss_open_sessions (drop_session i st) = dict_del i (ss_open_sessions st)"
  "ss_max_open_sessions (drop_session i st) = ss_max_open_sessions st"
  "ss_is_shutting_down (drop_session i st) = ss_is_shutting_down st"
  "ss_hook_state (drop_session i st) = ss_hook_state st"
  by (auto simp: drop_session_def put_out_def Let_def split: option.splits)

lemma drop_session_ok: "sched_ok st \<Longrightarrow> sched_ok (drop_session i st)"
  using le_trans [OF length_delete_le] by (auto simp: sched_ok_def)

lemma set_session_ok:
  "sched_ok st \<Longrightarrow> dict_has (ss_open_sessions st) i \<or> length (ss_open_sessions st) < ss_max_open_sessions st \<Longrightarrow>
   sched_ok (set_session i s st)"
  by (auto simp: sched_ok_def set_session_def dict_length_set)

lemma spec_run_hook [spec_intros]: "spec sched_ok (run_hook m) sched_ok"
  by (auto simp: spec_def run_hook_def sched_ok_def split: prod.splits)

lemma spec_drop [spec_intros]: "spec sched_ok (modify (drop_session i)) sched_ok"
  by (rule spec_modify) (rule drop_session_ok)

lemma spec_close [spec_intros]: "spec sched_ok (close_session hk i) sched_ok"
  unfolding close_session_def by (intro spec_intros) (simp, intro conjI impI spec_intros)

lemma spec_usage [spec_intros]: "spec sched_ok (check_usage hk i) sched_ok"
  unfolding check_usage_def by (intro spec_intros) (simp, intro conjI impI spec_intros)

lemma spec_stopping [spec_intros]: "spec sched_ok stopping sched_ok"
  unfolding stopping_def by (intro spec_intros) (simp, intro conjI impI spec_intros)

lemma spec_mark_open [spec_intros]: "spec sched_ok (modify (mark_open i)) sched_ok"
proof (rule spec_modify)
  fix st :: "('a, 'b) sched"
  assume "sched_ok st"
  then show "sched_ok (mark_open i st)"
    by (cases "dict_get (ss_open_sessions st) i") (auto simp: mark_open_def intro!: set_session_ok)
qed

lemma spec_open [spec_intros]: "spec sched_ok (open_session hk i) sched_ok"
  unfolding open_session_def
proof (rule spec_with_state_at)
  fix st :: "('a, 'b) sched"
  let ?P = "\<lambda>t. sched_ok t \<and> t = st"
  let ?body = "then_do (modify (set_session i new_session)) (\<lambda>_.
         except
           (then_do (run_hook (hk_open hk i)) (\<lambda>_.
            then_do (modify (mark_open i)) (\<lambda>_.
            then_do (run_hook (hk_attach hk i)) (\<lambda>_.
            then_do (check_usage hk i) (\<lambda>_. stopping)))))
           (\<lambda>e. then_do (close_session hk i) (\<lambda>_. raise e)))"
  have "spec ?P ?body sched_ok" if "length (ss_open_sessions st) < ss_max_open_sessions st"
  proof (rule spec_then_do_from)
    show "spec ?P (modify (set_session i new_session)) sched_ok"
      by (rule spec_modify) (use that in \<open>auto intro: set_session_ok\<close>)
  qed (intro spec_intros)
  moreover have "spec ?P (raise e :: ('a, 'b, unit) sio) sched_ok" for e by (rule spec_weaken [OF spec_raise]) simp
  ultimately show "spec ?P
      (if ss_is_shutting_down st then raise (RuntimeError ''session scheduler is stopping'')
       else if dict_has (ss_open_sessions st) i then raise (ValueError ''session already opened'')
       else if length (ss_open_sessions st) \<ge> ss_max_open_sessions st then raise QueueFullError
       else ?body) sched_ok" by (simp add: not_le)
qed

lemma set_cancel_ok [simp]:
  "sched_ok (st\<lparr>ss_append_cancel_events := x\<rparr>) = sched_ok st" "sched_ok (st\<lparr>ss_outbox := y\<rparr>) = sched_ok st"
  "sched_ok (st\<lparr>ss_hook_state := h\<rparr>) = sched_ok st" "sched_ok (st\<lparr>ss_aborted := z\<rparr>) = sched_ok st"
  by (simp_all add: sched_ok_def)

lemma start_append_ok: "sched_ok st \<Longrightarrow> sched_ok (snd (start_append unpackb p op st))"
  by (auto simp: start_append_def io_simps take_fragments_def Let_def intro!: set_session_ok
      split: option.splits sum.splits)

lemma spec_start_append [spec_intros]: "spec sched_ok (start_append unpackb p op) sched_ok"
  by (simp add: spec_def start_append_ok)

lemma emit_chunks_ok [simp]: "sched_ok (emit_chunks r cs st) = sched_ok st"
  by (simp add: emit_chunks_def)

lemma spec_run_append [spec_intros]: "spec sched_ok (run_append hk call) sched_ok"
  by (auto simp: spec_def run_append_def split: prod.splits)

lemma pop_cancel_ok [simp]: "sched_ok (pop_cancel r st) = sched_ok st"
  by (simp add: pop_cancel_def)

lemma spec_pop_cancel [spec_intros]: "spec sched_ok (modify (pop_cancel r)) sched_ok"
  by (rule spec_modify) simp

lemma spec_hold_fragment [spec_intros]: "spec sched_ok (modify (hold_fragment i f)) sched_ok"
  by (rule spec_modify) (auto simp: hold_fragment_def take_fragments_def intro!: set_session_ok split: option.splits)

lemma spec_finish [spec_intros]: "spec sched_ok (modify (finish_operation r)) sched_ok"
  by (rule spec_modify) (rule finish_ok)

lemma spec_compute_session [spec_intros]: "spec sched_ok (compute_session hk unpackb p op) sched_ok"
  unfolding compute_session_def
  by (auto intro!: spec_intros split: op_kind.split option.split)

lemma spec_settle [spec_intros]: "spec sched_ok (settle_operation hk r i) sched_ok"
  unfolding settle_operation_def by (auto intro!: spec_intros)

lemma spec_compute [spec_intros]: "spec sched_ok (compute hk unpackb rc p) sched_ok"
  unfolding compute_def Let_def by (auto intro!: spec_intros split: sum.split option.split)

lemma start_appends_ok:
  "sched_ok st \<Longrightarrow> start_appends unpackb as rs ss st = (rs', ss', e, st') \<Longrightarrow> sched_ok st'"
proof (induction unpackb as rs ss st rule: start_appends.induct)
  case (2 unpackb payload op rest results started st)
  show ?case
  proof (cases "\<not> dict_has (ss_open_sessions st) (so_identity op) \<or> ss_is_shutting_down st")
    case True
    then show ?thesis using 2 by (auto split: if_splits)
  next
    case False
    obtain r st1 where r: "start_append unpackb payload op st = (r, st1)" by fastforce
    with start_append_ok [OF "2.prems"(1), of unpackb payload op] have "sched_ok st1" by simp
    then show ?thesis using 2 False r by (cases r) (auto split: if_splits)
  qed
qed simp

lemma fail_append_ok:
  assumes "sched_ok st" and "fail_append hk call e rs st = (rs', e', st')"
  shows "sched_ok st'"
proof -
  obtain r s1 where c: "close_session hk (ac_identity call) st = (r, s1)" by fastforce
  with specD [OF spec_close assms(1), of hk "ac_identity call"] have "sched_ok s1" by simp
  with assms(2) c show ?thesis by (cases r) (simp_all add: fail_append_def)
qed

lemma check_usage_state: "snd (check_usage hk i st) = st"
  by (simp add: check_usage_def io_simps)

lemma finish_append_ok:
  assumes "sched_ok st" and "finish_append hk call outcome rs st = (rs', e', st')"
  shows "sched_ok st'"
proof (cases outcome)
  case (Inl exc)
  then show ?thesis using assms fail_append_ok [OF assms(1)] by (simp add: finish_append_def)
next
  case (Inr updated)
  obtain r s1 where c: "check_usage hk (ac_identity call) st = (r, s1)" by fastforce
  with check_usage_state [of hk "ac_identity call" st] have "s1 = st" by simp
  then show ?thesis using assms Inr c fail_append_ok [OF assms(1)] by (cases r) (auto simp: finish_append_def)
qed

lemma finish_appends_ok: "sched_ok st \<Longrightarrow> finish_appends hk xs rs st = (rs', e', st') \<Longrightarrow> sched_ok st'"
proof (induction hk xs rs st rule: finish_appends.induct)
  case (2 hk call outcome rest results st)
  obtain r e s1 where f: "finish_append hk call outcome results st = (r, e, s1)" by (metis prod.exhaust)
  have "sched_ok s1" using finish_append_ok [OF "2.prems"(1) f] .
  then show ?case using 2 f by (cases e) auto
qed simp

lemma emit_fold_ok: "sched_ok (fold (\<lambda>(call, cs). emit_chunks (f call) cs) xs st) = sched_ok st"
proof (induction xs arbitrary: st)
  case (Cons x xs)
  show ?case by (cases x) (simp add: Cons.IH)
qed simp

lemma run_append_batch_ok:
  assumes "sched_ok st" and "run_append_batch hk started rs st = (rs', e, st')"
  shows "sched_ok st'"
proof -
  obtain chunks r h where b: "hk_append_batch hk started (ss_hook_state st) = (chunks, r, h)" by (metis prod.exhaust)
  define s1 where "s1 = fold (\<lambda>(call, cs). emit_chunks (pl_request_id (ac_payload call)) cs) (zip started chunks)
      (st\<lparr>ss_hook_state := h\<rparr>)"
  have s1: "sched_ok s1" using assms(1) by (simp add: s1_def emit_fold_ok)
  show ?thesis
  proof (cases r)
    case (Inl exc)
    then have "finish_appends hk (map (\<lambda>call. (call, Inl exc)) started) rs s1 = (rs', e, st')"
      using assms(2) b by (simp add: run_append_batch_def Let_def flip: s1_def)
    with s1 show ?thesis by (rule finish_appends_ok)
  next
    case (Inr updated)
    obtain rs2 e2 s2 where f: "finish_appends hk (zip started (map Inr updated)) rs s1 = (rs2, e2, s2)" by (metis prod.exhaust)
    then have "st' = s2" using assms(2) b Inr by (simp add: run_append_batch_def Let_def flip: s1_def split: option.splits)
    with finish_appends_ok [OF s1 f] show ?thesis by simp
  qed
qed

lemma spec_settle_all [spec_intros]: "spec sched_ok (settle_all hk xs) sched_ok"
  by (induction hk xs rule: settle_all.induct) (auto intro!: spec_intros)

lemma pop_fold_ok: "sched_ok (fold (\<lambda>call. pop_cancel (f call)) xs st) = sched_ok st"
  by (induction xs arbitrary: st) auto

lemma compute_appends_ok:
  assumes "sched_ok st"
  shows "sched_ok (snd (compute_appends hk unpackb as st))"
proof -
  obtain rs ss e s1 where a: "start_appends unpackb as [] [] st = (rs, ss, e, s1)" by (metis prod.exhaust)
  obtain rs2 e2 s2 where b: "(case e of Some e \<Rightarrow> (rs, Some e, s1)
      | None \<Rightarrow> if ss \<noteq> [] then run_append_batch hk ss rs s1 else (rs, None, s1)) = (rs2, e2, s2)" by (metis prod.exhaust)
  have "sched_ok s1" by (rule start_appends_ok [OF assms a])
  then have "sched_ok s2" using b run_append_batch_ok by (auto split: option.splits if_splits)
  then have s3: "sched_ok (fold (\<lambda>call. pop_cancel (pl_request_id (ac_payload call))) ss s2)" by (simp add: pop_fold_ok)
  have "spec sched_ok (then_do (settle_all hk xs) (\<lambda>_. ret rs3)) sched_ok" for xs and rs3 :: "'b results"
    by (intro spec_intros)
  from specD [OF this s3] show ?thesis using a b by (simp add: compute_appends_def)
qed

lemma compute_alone_ok: "sched_ok st \<Longrightarrow> sched_ok (snd (compute_alone hk unpackb rc ps rs st))"
proof (induction hk unpackb rc ps rs st rule: compute_alone.induct)
  case (2 hk unpackb rc p ps results st)
  obtain r s1 where c: "compute hk unpackb rc p st = (r, s1)" by fastforce
  with specD [OF spec_compute "2.prems", of hk unpackb rc p] have "sched_ok s1" by simp
  with 2 c show ?case by simp
qed simp

lemma batch_rounds_ok: "sched_ok st \<Longrightarrow> sched_ok (snd (batch_rounds hk unpackb rc ps rs st))"
proof (induction hk unpackb rc ps rs st rule: batch_rounds.induct)
  case (2 hk unpackb rc p ps results st)
  show ?case
  proof (cases "split_round (ss_arrivals st) (p # ps)")
    case (Inl e)
    then show ?thesis using "2.prems" by simp
  next
    case (Inr rd)
    obtain rs1 s1 where a: "compute_alone hk unpackb rc (rd_alone rd) results st = (rs1, s1)" by fastforce
    have s1: "sched_ok s1" using compute_alone_ok [OF "2.prems", of hk unpackb rc "rd_alone rd" results] a by simp
    obtain r s2 where b: "(if rd_appends rd \<noteq> [] then compute_appends hk unpackb (rd_appends rd) s1 else (Inr [], s1)) = (r, s2)"
      by fastforce
    have s2: "sched_ok s2" using compute_appends_ok [OF s1, of hk unpackb "rd_appends rd"] s1 b by (auto split: if_splits)
    show ?thesis
    proof (cases r)
      case (Inl e)
      then show ?thesis using Inr a b s2 by simp
    next
      case (Inr new)
      then show ?thesis using "2.IH" [OF \<open>split_round _ _ = Inr rd\<close> a [symmetric]] \<open>split_round _ _ = Inr rd\<close> a b s2 by simp
    qed
  qed
qed simp

lemma consume_ok: "sched_ok st \<Longrightarrow> sched_ok (snd (consume_if_aborted r st))"
  by (auto simp: consume_if_aborted_def cancel_operation_def Let_def intro!: finish_ok)

lemma close_unlocked_ok: "sched_ok st \<Longrightarrow> sched_ok (snd (close_unlocked hk locked is es st))"
proof (induction hk locked "is" es st rule: close_unlocked.induct)
  case (2 hk locked i "is" es st)
  obtain r s1 where c: "close_session hk i st = (r, s1)" by fastforce
  with specD [OF spec_close "2.prems", of hk i] have "sched_ok s1" by simp
  with 2 c show ?case by (cases r) auto
qed simp

lemma release_ok: "sched_ok st \<Longrightarrow> sched_ok (snd (release_sessions_on_scheduler_stop hk locked st))"
proof -
  assume ok: "sched_ok st"
  let ?s = "st\<lparr>ss_is_shutting_down := True,
      ss_append_cancel_events := map (\<lambda>(r, _). (r, True)) (ss_append_cancel_events st)\<rparr>"
  have "sched_ok ?s" using ok by (simp add: sched_ok_def)
  from close_unlocked_ok [OF this, of hk locked "dict_keys (ss_open_sessions ?s)" "[]"]
  show ?thesis by (simp add: release_sessions_on_scheduler_stop_def Let_def case_prod_unfold)
qed

section \<open>Interleavings\<close>

text \<open>
  The steps of a stage: messages arrive, operations whose turn has come run alone or in a batch, aborts
  arrive and are consumed, hooks emit outside appends, and the scheduler stops. Request ids are fresh
  when their message arrives.
\<close>

inductive sched_step ::
  "('h, 'd) hooks \<Rightarrow> (byte list \<Rightarrow> timed_chunk result) \<Rightarrow> ('d stage_payload \<Rightarrow> ('h, 'd stage_payload) io) option \<Rightarrow>
   ('h, 'd) sched \<Rightarrow> ('h, 'd) sched \<Rightarrow> bool" for hk unpackb rc where
  arrive: "dict_get (ss_arrivals st) (pl_request_id p) = None \<Longrightarrow>
           sched_step hk unpackb rc st (snd (register_operation p st))"
| run: "can_start (pl_request_id p) st \<Longrightarrow> sched_step hk unpackb rc st (snd (compute hk unpackb rc p st))"
| batch: "sched_step hk unpackb rc st (snd (compute_batch hk unpackb rc ps st))"
| abort: "sched_step hk unpackb rc st (cancel_operation r (st\<lparr>ss_aborted := insert r (ss_aborted st)\<rparr>))"
| consume: "sched_step hk unpackb rc st (snd (consume_if_aborted r st))"
| emit: "sched_step hk unpackb rc st (snd (emit_output i c st))"
| fail: "sched_step hk unpackb rc st (fail_output i e st)"
| stop: "sched_step hk unpackb rc st (snd (release_sessions_on_scheduler_stop hk locked st))"

definition sched_initial :: "('h, 'd) sched \<Rightarrow> bool" where
  "sched_initial st \<longleftrightarrow> ss_open_sessions st = [] \<and> ss_append_cancel_events st = [] \<and> \<not> ss_is_shutting_down st \<and>
     ss_arrivals st = [] \<and> ss_cursors st = [] \<and> ss_aborted st = {} \<and> ss_outbox st = []"

lemma sched_step_ok: "sched_step hk unpackb rc st st' \<Longrightarrow> sched_ok st \<Longrightarrow> sched_ok st'"
proof (induction rule: sched_step.induct)
  case (arrive st p)
  then show ?case by (simp add: register_ok)
next
  case (run p st)
  then show ?case using specD [OF spec_compute] by blast
next
  case (batch st ps)
  then show ?case using batch_rounds_ok [of st hk unpackb rc ps "[]"]
    by (auto simp: compute_batch_def then_do_def split: prod.splits sum.splits)
next
  case (abort st r)
  then show ?case by (simp add: cancel_operation_def)
next
  case (consume st r)
  then show ?case by (rule consume_ok)
next
  case (emit st i c)
  then show ?case by (auto simp: emit_output_def io_simps put_out_def split: option.splits)
next
  case (fail st i e)
  then show ?case by (auto simp: fail_output_def put_out_def split: option.splits)
next
  case (stop st locked)
  then show ?case by (rule release_ok)
qed

interpretation stage_sys: step_system sched_initial "sched_step hk unpackb rc" sched_ok for hk unpackb rc
proof
  show "sched_initial st \<Longrightarrow> sched_ok st" for st :: "('a, 'b) sched"
    by (simp add: sched_initial_def sched_ok_def order_ok_def outstanding_def)
qed (rule sched_step_ok)

lemma can_start_iff:
  assumes "sched_ok st" and "dict_get (ss_arrivals st) r = Some a"
  shows "can_start r st \<longleftrightarrow>
         (\<forall>r' a'. dict_get (ss_arrivals st) r' = Some a' \<longrightarrow> oa_identity a' = oa_identity a \<longrightarrow>
            oa_sequence a \<le> oa_sequence a')"
proof -
  let ?i = "oa_identity a" and ?out = "outstanding (oa_identity a) (ss_arrivals st)"
  have slot: "slot_ok (dict_get (ss_cursors st) ?i) ?out" using assms(1) by (simp add: sched_ok_def order_ok_def)
  have mem: "oa_sequence a \<in> ?out" using assms(2) by (auto simp: outstanding_iff)
  with slot obtain c where c: "dict_get (ss_cursors st) ?i = Some c" "cursor_ok c ?out"
    by (cases "dict_get (ss_cursors st) ?i") auto
  then have all: "cu_completed_sequences c \<union> ?out = {cu_runnable_sequence c..<cu_next_sequence c}"
    and run: "cu_runnable_sequence c \<in> ?out" by (auto simp: cursor_ok_def)
  have start: "can_start r st \<longleftrightarrow> oa_sequence a \<le> cu_runnable_sequence c" using assms(2) c(1) by (simp add: can_start_def)
  have "oa_sequence a \<le> cu_runnable_sequence c \<longleftrightarrow> (\<forall>n \<in> ?out. oa_sequence a \<le> n)"
  proof
    assume "oa_sequence a \<le> cu_runnable_sequence c"
    moreover have "cu_runnable_sequence c \<le> n" if "n \<in> ?out" for n using all that by auto
    ultimately show "\<forall>n \<in> ?out. oa_sequence a \<le> n" by (meson le_trans)
  qed (use run in blast)
  also have "\<dots> \<longleftrightarrow> (\<forall>r' a'. dict_get (ss_arrivals st) r' = Some a' \<longrightarrow> oa_identity a' = oa_identity a \<longrightarrow>
      oa_sequence a \<le> oa_sequence a')" unfolding outstanding_def by blast
  finally show ?thesis unfolding start .
qed


text \<open>A stage without state of its own, for the witnesses.\<close>

definition demo_hooks :: "(unit, unit) hooks" where
  "demo_hooks = \<lparr>hk_open = \<lambda>_. ret (), hk_attach = \<lambda>_. ret (), hk_append = \<lambda>c h. ([], Inr (ac_payload c), h),
     hk_append_batch = \<lambda>cs h. ([], Inr (map ac_payload cs), h), hk_control = \<lambda>_ _. ret (), hk_close = \<lambda>_. ret (),
     hk_usage = \<lambda>_ _. 0\<rparr>"

definition demo_identity :: session_identity where
  "demo_identity = \<lparr>sid_id = ''s'', sid_open_index = 1\<rparr>"

definition demo_op :: "op_kind \<Rightarrow> timed_chunk option \<Rightarrow> session_operation" where
  "demo_op k c = \<lparr>so_operation = k, so_identity = demo_identity, so_stages = [''vad''], so_chunk = c,
     so_should_preempt = False, so_preempted_request_ids = []\<rparr>"

definition demo_payload :: "string \<Rightarrow> session_operation \<Rightarrow> unit stage_payload" where
  "demo_payload r op = \<lparr>pl_request_id = r, pl_operation = Inr (Some op), pl_data = Data ()\<rparr>"

definition demo_sched :: "(unit, unit) sched" where
  "demo_sched = \<lparr>ss_hook_state = (), ss_max_open_sessions = 1, ss_max_state_bytes = 10, ss_open_sessions = [],
     ss_append_cancel_events = [], ss_is_shutting_down = False, ss_arrivals = [], ss_cursors = [], ss_aborted = {}, ss_outbox = []\<rparr>"

definition demo_two_arrived :: "(unit, unit) sched" where
  "demo_two_arrived =
     snd (register_operation (demo_payload ''b'' (demo_op OpClose None))
       (snd (register_operation (demo_payload ''a'' (demo_op OpOpen None)) demo_sched)))"

lemma demo_reachable: "(sched_step hk unpackb rc)\<^sup>*\<^sup>* demo_sched demo_two_arrived"
proof -
  let ?s1 = "snd (register_operation (demo_payload ''a'' (demo_op OpOpen None)) demo_sched)"
  have "sched_step hk unpackb rc demo_sched ?s1"
    by (rule sched_step.arrive) (simp add: demo_sched_def)
  moreover have "dict_get (ss_arrivals ?s1) (pl_request_id (demo_payload ''b'' (demo_op OpClose None))) = None"
    by code_simp
  then have "sched_step hk unpackb rc ?s1 demo_two_arrived"
    unfolding demo_two_arrived_def by (rule sched_step.arrive)
  ultimately show ?thesis by (rule converse_rtranclp_into_rtranclp [OF _ r_into_rtranclp])
qed


section \<open>Preemption, failures and fragments\<close>

lemma cancel_fold_get:
  "dict_get (fold (\<lambda>(r, a) events. if oa_identity a = i \<and> dict_has events r then dict_set r True events else events) arrivals events) q =
     (if dict_has events q \<and> (\<exists>a. (q, a) \<in> set arrivals \<and> oa_identity a = i) then Some True else dict_get events q)"
proof (induction arrivals arbitrary: events)
  case (Cons p arrivals)
  obtain r a where p: "p = (r, a)" by (cases p)
  show ?case using Cons.IH [of "if oa_identity a = i \<and> dict_has events r then dict_set r True events else events"] p
    by (auto simp: dict_has_iff)
qed simp


definition demo_busy :: "(unit, unit) sched" where
  "demo_busy = demo_sched\<lparr>ss_append_cancel_events := [(''a'', False)],
     ss_arrivals := [(''a'', \<lparr>oa_identity = demo_identity, oa_operation = OpAppend, oa_sequence = 0\<rparr>)]\<rparr>"


lemma start_append_frame:
  assumes "start_append unpackb p op st = (Inr call, st1)"
  obtains s where "dict_get (ss_open_sessions st) (so_identity op) = Some s"
    and "ss_open_sessions st1 = dict_set (so_identity op) (s\<lparr>st_fragments := []\<rparr>) (ss_open_sessions st)"
    and "ss_hook_state st1 = ss_hook_state st" and "ss_is_shutting_down st1 = ss_is_shutting_down st"
    and "ss_max_state_bytes st1 = ss_max_state_bytes st"
    and "ac_identity call = so_identity op" and "pl_request_id (ac_payload call) = pl_request_id p"
  using assms
  by (auto simp: start_append_def io_simps take_fragments_def set_session_def Let_def
      split: option.splits sum.splits if_splits)

lemma close_session_run:
  assumes "dict_get (ss_open_sessions st) i = Some s" and "st_is_open s" and "hk_close hk i (ss_hook_state st) = (Inr (), h)"
  shows "close_session hk i st = (Inr (), drop_session i (st\<lparr>ss_hook_state := h\<rparr>))"
  using assms by (simp add: close_session_def run_hook_def io_simps)

lemma unknown_session:
  assumes "\<not> dict_has (ss_open_sessions st) (so_identity op)" and "so_operation op \<notin> {OpOpen, OpClose}"
  shows "compute_session hk unpackb p op st = (Inl (ValueError ''unknown session open index''), st)"
  using assms by (simp add: compute_session_def with_state_def raise_def)


definition demo_full_hooks :: "(unit, unit) hooks" where
  "demo_full_hooks = demo_hooks\<lparr>hk_usage := \<lambda>_ _. 11\<rparr>"

definition demo_open :: "(unit, unit) sched" where
  "demo_open = demo_sched\<lparr>ss_open_sessions := [(demo_identity, new_session\<lparr>st_is_open := True\<rparr>)]\<rparr>"


text \<open>The fragment operations of a chunk, sent one after the other.\<close>

definition fragment_op :: "session_operation \<Rightarrow> timed_chunk \<Rightarrow> session_operation" where
  "fragment_op op f = op\<lparr>so_operation := OpFragment, so_chunk := Some f\<rparr>"

definition feed_fragments ::
  "('h, 'd) hooks \<Rightarrow> (byte list \<Rightarrow> timed_chunk result) \<Rightarrow> 'd stage_payload \<Rightarrow> session_operation \<Rightarrow> timed_chunk list \<Rightarrow>
   ('h, 'd) sched \<Rightarrow> ('h, 'd) sched" where
  "feed_fragments hk unpackb p op fs st = fold (\<lambda>f st. snd (compute_session hk unpackb p (fragment_op op f) st)) fs st"

lemma fragment_step:
  assumes "dict_get (ss_open_sessions st) (so_identity op) = Some s" and "\<not> ss_is_shutting_down st"
  shows "compute_session hk unpackb p (fragment_op op f) st =
    (Inr (p\<lparr>pl_data := Held\<rparr>),
     set_session (so_identity op)
       (s\<lparr>st_fragments := filter (\<lambda>g. tc_turn g = tc_turn f) (st_fragments s) @ [f]\<rparr>) st)"
  using assms dict_get_has [OF assms(1)]
  by (simp add: compute_session_def fragment_op_def stopping_def hold_fragment_def take_fragments_def io_simps)

lemma feed_fragments_run:
  assumes "dict_get (ss_open_sessions st) (so_identity op) = Some s" and "\<not> ss_is_shutting_down st"
    and "\<forall>f \<in> set fs. tc_turn f = t" and "fs \<noteq> []"
  shows "dict_get (ss_open_sessions (feed_fragments hk unpackb p op fs st)) (so_identity op) =
           Some (s\<lparr>st_fragments := filter (\<lambda>g. tc_turn g = t) (st_fragments s) @ fs\<rparr>) \<and>
         ss_aborted (feed_fragments hk unpackb p op fs st) = ss_aborted st"
  using assms
proof (induction fs arbitrary: st s)
  case (Cons f fs)
  let ?s1 = "s\<lparr>st_fragments := filter (\<lambda>g. tc_turn g = tc_turn f) (st_fragments s) @ [f]\<rparr>"
  let ?st1 = "set_session (so_identity op) ?s1 st"
  have step: "feed_fragments hk unpackb p op (f # fs) st = feed_fragments hk unpackb p op fs ?st1"
    using fragment_step [OF Cons.prems(1,2)] by (simp add: feed_fragments_def)
  have st1: "dict_get (ss_open_sessions ?st1) (so_identity op) = Some ?s1" "\<not> ss_is_shutting_down ?st1"
    "ss_aborted ?st1 = ss_aborted st" using Cons.prems by (simp_all add: set_session_def)
  have t: "tc_turn f = t" "\<forall>f \<in> set fs. tc_turn f = t" using Cons.prems(3) by simp_all
  show ?case
  proof (cases "fs = []")
    case True
    then show ?thesis using step st1 t by (simp add: feed_fragments_def)
  next
    case False
    from Cons.IH [OF st1(1,2) t(2) False] step st1(3) t(1) show ?thesis by simp
  qed
qed simp

text \<open>
  C15. A chunk over the size limit crosses to the stage intact: sent as its fragments in a row and then
  the append of the last one, to an open session that may still hold fragments an interrupt left of
  another turn, the hooks get exactly the chunk, at the sequence number of its last fragment, and the
  operation carried on along the route holds it too.\<close>

theorem fragmented_chunk_restored:
  assumes "bin_layout packb" and "0 \<le> mx \<and> mx < 2 ^ 32" and "mx < int (length (packb c))" and "unpackb (packb c) = Inr c"
    and "\<And>s. seq \<le> s \<Longrightarrow> s < seq + int (length (packb c)) \<Longrightarrow> envelope_fits packb c mx s"
    and "dict_get (ss_open_sessions st) (so_identity op) = Some sess" and "\<not> ss_is_shutting_down st"
    and "\<forall>f \<in> set (st_fragments sess). tc_turn f \<noteq> tc_turn c"
  shows "\<exists>fs. fragment_chunk packb c seq mx = (fs, None) \<and>
           (let st' = feed_fragments hk unpackb p op (butlast (map fst fs)) st;
                restored = c\<lparr>tc_seq := seq + int (length fs) - 1\<rparr>
            in \<exists>call st''. start_append unpackb p (op\<lparr>so_chunk := Some (last (map fst fs))\<rparr>) st' = (Inr call, st'') \<and>
                 ac_chunk call = restored \<and>
                 pl_operation (ac_payload call) = Inr (Some (op\<lparr>so_chunk := Some restored\<rparr>)))"
proof -
  have ne: "packb c \<noteq> []" using assms(2,3) by auto
  from fragments_all [of packb mx c unpackb seq, OF assms(1) conjunct2 [OF assms(2)] ne assms(4)] assms(5)
  obtain fs where fs: "fragment_chunk packb c seq mx = (fs, None)" "\<forall>(f, _) \<in> set fs. int (length (packb f)) \<le> mx \<and> tc_turn f = tc_turn c"
    "join_fragments unpackb (map fst fs) = Inr (c\<lparr>tc_seq := seq + int (length fs) - 1\<rparr>)" by auto
  have two: "2 \<le> length fs" by (rule fragments_many [OF fs(1) conjunct1 [OF assms(2)] assms(3,5)])
  define init where "init = butlast (map fst fs)"
  define lst where "lst = last (map fst fs)"
  have all: "map fst fs = init @ [lst]" using two by (cases fs rule: rev_cases) (simp_all add: init_def lst_def)
  have init: "init \<noteq> []" using two all by (cases init) (auto dest: arg_cong [where f = length])
  have turn: "tc_turn f = tc_turn c" if "f \<in> set (init @ [lst])" for f
    using fs(2) that unfolding all [symmetric] by auto
  define st' where "st' = feed_fragments hk unpackb p op init st"
  have "filter (\<lambda>g. tc_turn g = tc_turn c) (st_fragments sess) = []" using assms(8) by (simp add: filter_empty_conv)
  with feed_fragments_run [OF assms(6,7) _ init, of "tc_turn c" hk unpackb p] turn
  have held: "dict_get (ss_open_sessions st') (so_identity op) = Some (sess\<lparr>st_fragments := init\<rparr>)"
    by (simp add: st'_def)
  have "filter (\<lambda>f. tc_turn f = tc_turn lst) init = init" using turn by (auto simp: filter_id_conv)
  then have "\<exists>call st''. start_append unpackb p (op\<lparr>so_chunk := Some lst\<rparr>) st' = (Inr call, st'') \<and>
      ac_chunk call = c\<lparr>tc_seq := seq + int (length fs) - 1\<rparr> \<and>
      pl_operation (ac_payload call) = Inr (Some (op\<lparr>so_chunk := Some (c\<lparr>tc_seq := seq + int (length fs) - 1\<rparr>)\<rparr>))"
    using held init fs(3) by (simp add: start_append_def io_simps take_fragments_def all Let_def)
  then show ?thesis using fs(1) unfolding st'_def init_def lst_def by (intro exI [of _ fs]) (simp add: Let_def)
qed

theorem fragmented_chunk_restored_witness:
  "\<exists>fs. fragment_chunk demo_packb demo_chunk 4 20 = (fs, None) \<and>
     (\<exists>call st''. start_append (\<lambda>_. Inr demo_chunk) (demo_payload ''a'' (demo_op OpAppend None))
        ((demo_op OpAppend None)\<lparr>so_chunk := Some (last (map fst fs))\<rparr>)
        (feed_fragments demo_hooks (\<lambda>_. Inr demo_chunk) (demo_payload ''a'' (demo_op OpAppend None)) (demo_op OpAppend None)
          (butlast (map fst fs)) demo_open) = (Inr call, st'') \<and> tc_payload (ac_chunk call) = PBytes (replicate 20 7))"
proof -
  have "length (demo_packb demo_chunk) = 25" by code_simp
  moreover have "dict_get (ss_open_sessions demo_open) (so_identity (demo_op OpAppend None)) =
      Some (new_session\<lparr>st_is_open := True\<rparr>)" "\<not> ss_is_shutting_down demo_open"
    by (simp_all add: demo_open_def demo_op_def demo_sched_def)
  moreover have "st_fragments (new_session\<lparr>st_is_open := True\<rparr> :: unit stage_session) = []" by (simp add: new_session_def)
  ultimately obtain fs where "fragment_chunk demo_packb demo_chunk 4 20 = (fs, None)"
    "let st' = feed_fragments demo_hooks (\<lambda>_. Inr demo_chunk) (demo_payload ''a'' (demo_op OpAppend None))
         (demo_op OpAppend None) (butlast (map fst fs)) demo_open;
         restored = demo_chunk\<lparr>tc_seq := 4 + int (length fs) - 1\<rparr>
     in \<exists>call st''. start_append (\<lambda>_. Inr demo_chunk) (demo_payload ''a'' (demo_op OpAppend None))
          ((demo_op OpAppend None)\<lparr>so_chunk := Some (last (map fst fs))\<rparr>) st' = (Inr call, st'') \<and>
          ac_chunk call = restored \<and>
          pl_operation (ac_payload call) = Inr (Some ((demo_op OpAppend None)\<lparr>so_chunk := Some restored\<rparr>))"
    using fragmented_chunk_restored [OF demo_packb_layout, of 20 demo_chunk "\<lambda>_. Inr demo_chunk" 4 demo_open
        "demo_op OpAppend None" "new_session\<lparr>st_is_open := True\<rparr>" demo_hooks "demo_payload ''a'' (demo_op OpAppend None)"]
      demo_envelope_fits by auto
  then show ?thesis by (auto simp: Let_def demo_chunk_def intro!: exI [of _ fs])
qed

section \<open>Rounds of a batch\<close>

definition of_session :: "(string, operation_arrival) dict \<Rightarrow> session_identity \<Rightarrow> 'd stage_payload \<Rightarrow> bool" where
  "of_session arrivals i p \<longleftrightarrow> map_option oa_identity (dict_get arrivals (pl_request_id p)) = Some i"

definition taken :: "'d batch_round \<Rightarrow> 'd stage_payload list" where
  "taken rd = map fst (rd_appends rd) @ rd_alone rd"

definition round_inv :: "(string, operation_arrival) dict \<Rightarrow> 'd stage_payload list \<Rightarrow> 'd batch_round \<Rightarrow> bool" where
  "round_inv arrivals done rd \<longleftrightarrow>
     mset (taken rd) + mset (rd_later rd) = mset done \<and>
     (\<forall>i. filter (of_session arrivals i) done =
            filter (of_session arrivals i) (taken rd) @ filter (of_session arrivals i) (rd_later rd)) \<and>
     (\<forall>i. length (filter (of_session arrivals i) (taken rd)) = (if i \<in> rd_sessions rd then 1 else 0)) \<and>
     (\<forall>i. i \<notin> rd_sessions rd \<longrightarrow> filter (of_session arrivals i) done = [])"

lemma round_inv_empty: "round_inv arrivals [] empty_round"
  by (simp add: round_inv_def taken_def empty_round_def)

text \<open>Taking a payload whose session is new to the round, or that belongs to no session.\<close>

lemma round_inv_take:
  assumes "round_inv arrivals done rd" and "\<And>i. of_session arrivals i p \<Longrightarrow> i \<notin> rd_sessions rd"
    and "mset (taken rd') = mset (taken rd) + {#p#}"
    and "\<And>i. filter (of_session arrivals i) (taken rd') =
           (if of_session arrivals i p then [p] else filter (of_session arrivals i) (taken rd))"
    and "rd_later rd' = rd_later rd" and "rd_sessions rd' = rd_sessions rd \<union> {i. of_session arrivals i p}"
  shows "round_inv arrivals (done @ [p]) rd'"
  unfolding round_inv_def
proof (intro conjI allI impI)
  fix i
  have new: "of_session arrivals i p \<Longrightarrow> filter (of_session arrivals i) done = []"
    "filter (of_session arrivals i) done =
       filter (of_session arrivals i) (taken rd) @ filter (of_session arrivals i) (rd_later rd)"
    using assms(1,2) unfolding round_inv_def by blast+
  then show "filter (of_session arrivals i) (done @ [p]) =
      filter (of_session arrivals i) (taken rd') @ filter (of_session arrivals i) (rd_later rd')"
    using assms(4,5) by auto
  show "length (filter (of_session arrivals i) (taken rd')) = (if i \<in> rd_sessions rd' then 1 else 0)"
    using assms(1,4,6) by (simp add: round_inv_def)
  have "i \<notin> rd_sessions rd \<longrightarrow> filter (of_session arrivals i) done = []" using assms(1) unfolding round_inv_def by blast
  then show "i \<notin> rd_sessions rd' \<Longrightarrow> filter (of_session arrivals i) (done @ [p]) = []"
    using assms(6) by auto
qed (use assms(1,3,5) in \<open>simp add: round_inv_def\<close>)

lemma filter_taken_append:
  "round_inv arrivals done rd \<Longrightarrow> (of_session arrivals i p \<Longrightarrow> i \<notin> rd_sessions rd) \<Longrightarrow> of_session arrivals i p \<Longrightarrow>
   filter (of_session arrivals i) (map fst (rd_appends rd)) = [] \<and> filter (of_session arrivals i) (rd_alone rd) = []"
  by (auto simp: round_inv_def taken_def)

lemma classify_inv:
  assumes "round_inv arrivals done rd" and "classify arrivals p rd = Inr rd'"
  shows "round_inv arrivals (done @ [p]) rd'"
proof (cases "dict_get arrivals (pl_request_id p)")
  case None
  then have no: "\<not> of_session arrivals i p" for i by (simp add: of_session_def)
  from None assms(2) have rd': "rd' = rd\<lparr>rd_alone := rd_alone rd @ [p]\<rparr>" by (simp add: classify_def)
  show ?thesis by (rule round_inv_take [OF assms(1)]) (simp_all add: rd' no taken_def)
next
  case (Some a)
  let ?i = "oa_identity a"
  have is_i: "of_session arrivals i p \<longleftrightarrow> i = ?i" for i using Some by (auto simp: of_session_def)
  show ?thesis
  proof (cases "?i \<in> rd_sessions rd")
    case True
    with Some assms(2) have rd': "rd' = rd\<lparr>rd_later := rd_later rd @ [p]\<rparr>" by (simp add: classify_def)
    show ?thesis using assms(1) True by (auto simp: round_inv_def rd' taken_def is_i)
  next
    case False
    obtain op where op: "pl_operation p = Inr (Some op)"
      using Some False assms(2) by (auto simp: classify_def Let_def split: sum.splits option.splits)
    have empty: "filter (of_session arrivals ?i) (map fst (rd_appends rd)) = []"
      "filter (of_session arrivals ?i) (rd_alone rd) = []"
      using filter_taken_append [OF assms(1), of ?i p] False is_i by auto
    show ?thesis
    proof (cases "so_operation op = OpAppend")
      case True
      with Some False op assms(2) have rd': "rd' = rd\<lparr>rd_sessions := insert ?i (rd_sessions rd), rd_appends := rd_appends rd @ [(p, op)]\<rparr>"
        by (simp add: classify_def Let_def)
      show ?thesis by (rule round_inv_take [OF assms(1)]) (use False empty in \<open>auto simp: rd' taken_def is_i\<close>)
    next
      case alone: False
      with Some False op assms(2) have rd': "rd' = rd\<lparr>rd_sessions := insert ?i (rd_sessions rd), rd_alone := rd_alone rd @ [p]\<rparr>"
        by (simp add: classify_def Let_def)
      show ?thesis by (rule round_inv_take [OF assms(1)]) (use False empty in \<open>auto simp: rd' taken_def is_i\<close>)
    qed
  qed
qed

lemma split_round_inv:
  "split_round arrivals pending = Inr rd \<Longrightarrow> round_inv arrivals pending rd"
proof -
  have "fold_r (classify arrivals) ps rd0 = Inr rd \<Longrightarrow> round_inv arrivals done rd0 \<Longrightarrow> round_inv arrivals (done @ ps) rd"
    for ps rd0 "done"
  proof (induction ps arbitrary: rd0 "done")
    case (Cons p ps)
    then obtain rd1 where "classify arrivals p rd0 = Inr rd1" "fold_r (classify arrivals) ps rd1 = Inr rd"
      by (auto simp: bind_r_Inr_iff)
    with classify_inv [OF Cons.prems(2)] Cons.IH [of rd1 "done @ [p]"] show ?case by simp
  qed simp
  from this [OF _ round_inv_empty] show "split_round arrivals pending = Inr rd \<Longrightarrow> round_inv arrivals pending rd"
    unfolding split_round_def by fastforce
qed

text \<open>
  A round of a batch takes, of every session with pending operations, exactly its first one and leaves
  the rest for later rounds in their order; nothing is lost or run twice. So one session's operations of a
  batch run in arrival order while different sessions share a round.\<close>

theorem batch_round_takes_first:
  assumes "split_round arrivals pending = Inr rd"
  shows "mset (map fst (rd_appends rd)) + mset (rd_alone rd) + mset (rd_later rd) = mset pending \<and>
         (\<forall>i. let mine = filter (of_session arrivals i)
              in mine pending \<noteq> [] \<longrightarrow>
                 mine (map fst (rd_appends rd)) @ mine (rd_alone rd) = [hd (mine pending)] \<and>
                 mine (rd_later rd) = tl (mine pending))"
proof -
  have inv: "round_inv arrivals pending rd" by (rule split_round_inv [OF assms])
  have "filter (of_session arrivals i) (taken rd) = [hd (filter (of_session arrivals i) pending)] \<and>
      filter (of_session arrivals i) (rd_later rd) = tl (filter (of_session arrivals i) pending)"
    if ne: "filter (of_session arrivals i) pending \<noteq> []" for i
  proof -
    have "i \<in> rd_sessions rd" using inv ne unfolding round_inv_def by blast
    then have "length (filter (of_session arrivals i) (taken rd)) = 1" using inv unfolding round_inv_def by simp
    then obtain p where p: "filter (of_session arrivals i) (taken rd) = [p]" by (auto simp: length_Suc_conv)
    moreover have "filter (of_session arrivals i) pending =
        filter (of_session arrivals i) (taken rd) @ filter (of_session arrivals i) (rd_later rd)"
      using inv unfolding round_inv_def by blast
    ultimately show ?thesis by simp
  qed
  with inv show ?thesis by (simp add: round_inv_def taken_def Let_def)
qed

theorem batch_round_takes_first_witness:
  "let ps = [demo_payload ''a'' (demo_op OpOpen None), demo_payload ''b'' (demo_op OpClose None)]
   in \<exists>rd. split_round (ss_arrivals demo_two_arrived) ps = Inr rd \<and>
        filter (of_session (ss_arrivals demo_two_arrived) demo_identity) (rd_later rd) =
          [demo_payload ''b'' (demo_op OpClose None)]"
proof -
  let ?ps = "[demo_payload ''a'' (demo_op OpOpen None), demo_payload ''b'' (demo_op OpClose None)]"
  have "(case split_round (ss_arrivals demo_two_arrived) ?ps of Inr _ \<Rightarrow> True | Inl _ \<Rightarrow> False)" by code_simp
  then obtain rd where rd: "split_round (ss_arrivals demo_two_arrived) ?ps = Inr rd"
    by (cases "split_round (ss_arrivals demo_two_arrived) ?ps") auto
  have "filter (of_session (ss_arrivals demo_two_arrived) demo_identity) ?ps = ?ps" by code_simp
  with batch_round_takes_first [OF rd]
  have "filter (of_session (ss_arrivals demo_two_arrived) demo_identity) (rd_later rd) = [demo_payload ''b'' (demo_op OpClose None)]"
    by (metis (no_types, lifting) list.distinct(1) list.sel(3))
  with rd show ?thesis by (auto simp: Let_def)
qed

end
