(* ===== verification/Coordinator.thy ===== *)
theory Coordinator
  imports Topology Session_Proto
begin

text \<open>
  The coordinator of the pipeline, \<^verbatim>\<open>sglang_omni/pipeline/coordinator.py\<close> with
  \<^verbatim>\<open>admission.py\<close>: admission and submission of requests, aborts, completions of one or
  several terminal stages, and the byte budget of the streams its readers have not taken yet.

  The coordinator runs on one asyncio loop: code between two suspensions is one step. A suspended call
  is a record of the state: a send to a stage in \<open>co_submitting\<close>, a broadcast of an abort task in
  \<open>co_abort_tasks\<close>, a release or a closing stream in \<open>co_releasing\<close> and \<open>co_closing\<close>, and the completion
  loop's own suspended calls in \<open>co_frames\<close>, innermost first. Putting into an unbounded asyncio queue does
  not suspend. Futures, queues and request records are objects compared by identity, so the tables hold
  addresses. The clock is an argument.
\<close>

declare map_of_eq_Some_iff [simp del] Some_eq_map_of_iff [simp del]

section \<open>Messages\<close>

text \<open>Objects the coordinator only carries have the type \<open>'o\<close>; of a dict payload it counts the bytes fields.\<close>

datatype 'o field = FBytes "byte list" | FObj 'o

datatype 'o body = BDict "(string, 'o field) dict" | BObj 'o | BNone

record 'o complete_message =
  cm_request_id :: string
  cm_from_stage :: string
  cm_success :: bool
  cm_result :: "'o body"
  cm_error :: "string option"

record 'o stream_message =
  sm_request_id :: string
  sm_from_stage :: string
  sm_chunk :: "'o body"
  sm_stage_id :: "int option"
  sm_stage_name :: "string option"
  sm_modality :: "string option"
  sm_chunk_id :: "int option"

datatype 'o event = Complete "'o complete_message" | Stream "'o stream_message"

fun field_bytes :: "'o field \<Rightarrow> int" where
  "field_bytes (FBytes bs) = int (length bs)"
| "field_bytes (FObj _) = 0"

fun body_bytes :: "'o body \<Rightarrow> int" where
  "body_bytes (BDict d) = dict_sum field_bytes d"
| "body_bytes (BObj _) = 0"
| "body_bytes BNone = 0"

fun stream_message_payload_bytes :: "'o event \<Rightarrow> int" where
  "stream_message_payload_bytes (Complete m) = body_bytes (cm_result m)"
| "stream_message_payload_bytes (Stream m) = body_bytes (sm_chunk m)"

section \<open>Admission errors\<close>

definition QUEUE_FULL_MESSAGE :: string where
  "QUEUE_FULL_MESSAGE = ''The request queue is full.''"

definition ADMIN_DROPPED_MESSAGE :: string where
  "ADMIN_DROPPED_MESSAGE = ''The request was dropped by an admin action.''"

text \<open>\<open>s in t\<close> on strings.\<close>

fun occurs_in :: "string \<Rightarrow> string \<Rightarrow> bool" where
  "occurs_in s [] \<longleftrightarrow> s = []"
| "occurs_in s (c # t) \<longleftrightarrow> take (length s) (c # t) = s \<or> occurs_in s t"

definition queue_full_matches :: "string option \<Rightarrow> bool" where
  "queue_full_matches m \<longleftrightarrow> (case m of None \<Rightarrow> False | Some s \<Rightarrow> occurs_in QUEUE_FULL_MESSAGE s)"

definition queue_full_from_message :: "string option \<Rightarrow> error" where
  "queue_full_from_message m =
     (if queue_full_matches m then QueueFullError
      else RuntimeError (case m of None \<Rightarrow> ''Unknown error'' | Some s \<Rightarrow> if s = [] then ''Unknown error'' else s))"

definition admin_dropped_matches :: "string option \<Rightarrow> bool" where
  "admin_dropped_matches m \<longleftrightarrow> m = Some ADMIN_DROPPED_MESSAGE"

section \<open>State\<close>

datatype request_state = PENDING | RUNNING | COMPLETED | FAILED | ABORTED

text \<open>What a completion future is resolved with: one terminal's result or the results of all of them.\<close>

datatype 'o outcome = Single "'o body" | Merged "(string, 'o body) dict"

datatype 'o future = Waiting | FResult "'o outcome" | FException error | FCancelled

record 'o request_info =
  ri_obj :: nat
  ri_state :: request_state
  ri_current_stage :: string
  ri_terminal_stages :: "string set option"
  ri_counts_toward_admission :: bool
  ri_result :: "'o outcome option"
  ri_error :: "string option"

record stream_backlog =
  sb_undelivered_bytes :: int
  sb_reader_idle_since_s :: rat

record 'o omni_request =
  rq_inputs :: 'o
  rq_params :: "(string, 'o) dict"
  rq_metadata :: "(string, 'o) dict"

datatype 'o request_arg = Omni "'o omni_request" | Raw 'o

datatype 'o stage_message =
    SubmitMessage string string "'o omni_request" "(string, int) dict option"
  | AbortMessage string

text \<open>
  The suspended calls of the completion loop: the abort of an admin-dropped request, the broadcast of the
  failure path, and the streams of an over-full backlog that are still to be failed.
\<close>

datatype 'o frame =
    AwaitAbort "'o complete_message" nat nat
  | AwaitBroadcast "'o complete_message"
  | FailStreams "(string \<times> nat) list"

text \<open>The value of a terminal stage resolver: a sequence, of strings or not, or something else.\<close>

datatype terminal_spec = TStages "string option list" | TOther

record ('o, 's) coord_config =
  cf_entry_stage :: string
  cf_terminal_stages :: "string set"
  cf_resolver :: "('o omni_request \<Rightarrow> terminal_spec option result) option"
  cf_replica_topology :: replica_topology
  cf_process_plan :: logical_process_plan
  cf_bind :: "string \<Rightarrow> nat \<Rightarrow> string \<Rightarrow> 's \<Rightarrow> int \<times> 's"
  cf_max_in_flight :: "int option"
  cf_max_total_backlog_bytes :: "int option"

record ('o, 's) coord =
  co_policy :: 's
  co_stages :: "(string, string) dict"
  co_requests :: "(string, 'o request_info) dict"
  co_partial_results :: "(string, (string, 'o body) dict) dict"
  co_completion_futures :: "(string, nat) dict"
  co_stream_queues :: "(string, nat) dict"
  co_stream_backlogs :: "(string, stream_backlog) dict"
  co_stream_backlog_bytes :: int
  co_failed_stream_count :: nat
  co_abort_tasks :: "(string, nat) dict"
  co_session_handlers :: "string list"
  co_running :: bool
  co_fatal_error :: "string option"
  co_next_object :: nat
  co_future_objs :: "nat \<Rightarrow> 'o future"
  co_queue_objs :: "nat \<Rightarrow> 'o event list"
  co_task_results :: "nat \<Rightarrow> bool result option"
  co_submitting :: "(string \<times> nat \<times> 'o stage_message) list"
  co_releasing :: "(string \<times> nat \<times> nat option) list"
  co_closing :: "(string \<times> nat \<times> nat option) list"
  co_frames :: "'o frame list"
  co_sent :: "'o stage_message list"
  co_session_outputs :: "'o stream_message list"
  co_discarded :: "'o body list"

definition coordinator_init ::
  "('o, 's) coord_config \<Rightarrow> 's \<Rightarrow> ('o, 's) coord result" where
  "coordinator_init cf policy =
     (if (case cf_max_in_flight cf of None \<Rightarrow> False | Some v \<Rightarrow> v < 0)
      then Inl (ValueError ''max_in_flight must be >= 0'')
      else Inr \<lparr>co_policy = policy, co_stages = [], co_requests = [], co_partial_results = [],
             co_completion_futures = [], co_stream_queues = [], co_stream_backlogs = [],
             co_stream_backlog_bytes = 0, co_failed_stream_count = 0, co_abort_tasks = [],
             co_session_handlers = [], co_running = False, co_fatal_error = None, co_next_object = 0,
             co_future_objs = (\<lambda>_. Waiting), co_queue_objs = (\<lambda>_. []), co_task_results = (\<lambda>_. None),
             co_submitting = [], co_releasing = [], co_closing = [], co_frames = [], co_sent = [],
             co_session_outputs = [], co_discarded = []\<rparr>)"

definition register_stage :: "string \<Rightarrow> string \<Rightarrow> ('o, 's) coord \<Rightarrow> ('o, 's) coord" where
  "register_stage name endpoint st = st\<lparr>co_stages := dict_set name endpoint (co_stages st)\<rparr>"

definition start :: "('o, 's) coord \<Rightarrow> ('o, 's) coord" where
  "start st = st\<lparr>co_running := True\<rparr>"

section \<open>Objects\<close>

definition put_queue :: "nat \<Rightarrow> 'o event \<Rightarrow> ('o, 's) coord \<Rightarrow> ('o, 's) coord" where
  "put_queue q m st = st\<lparr>co_queue_objs := (co_queue_objs st)(q := co_queue_objs st q @ [m])\<rparr>"

definition set_future :: "nat \<Rightarrow> 'o future \<Rightarrow> ('o, 's) coord \<Rightarrow> ('o, 's) coord" where
  "set_future f v st =
     (if co_future_objs st f = Waiting then st\<lparr>co_future_objs := (co_future_objs st)(f := v)\<rparr> else st)"

text \<open>Assigning to a request record changes the table only while it still holds that record.\<close>

definition update_info ::
  "string \<Rightarrow> nat \<Rightarrow> ('o request_info \<Rightarrow> 'o request_info) \<Rightarrow> ('o, 's) coord \<Rightarrow> ('o, 's) coord" where
  "update_info r obj f st =
     (case dict_get (co_requests st) r of
        Some info \<Rightarrow> if ri_obj info = obj then st\<lparr>co_requests := dict_set r (f info) (co_requests st)\<rparr> else st
      | None \<Rightarrow> st)"

definition pop_request :: "string \<Rightarrow> ('o, 's) coord \<Rightarrow> ('o, 's) coord" where
  "pop_request r st = st\<lparr>co_requests := dict_del r (co_requests st)\<rparr>"

definition pop_partial :: "string \<Rightarrow> ('o, 's) coord \<Rightarrow> ('o, 's) coord" where
  "pop_partial r st = st\<lparr>co_partial_results := dict_del r (co_partial_results st)\<rparr>"

definition push_frame :: "'o frame \<Rightarrow> ('o, 's) coord \<Rightarrow> ('o, 's) coord" where
  "push_frame fr st = st\<lparr>co_frames := fr # co_frames st\<rparr>"

definition failure :: "string \<Rightarrow> string \<Rightarrow> 'o complete_message" where
  "failure r message = \<lparr>cm_request_id = r, cm_from_stage = ''coordinator'', cm_success = False,
     cm_result = BNone, cm_error = Some message\<rparr>"

definition reject_completion_future :: "string \<Rightarrow> error \<Rightarrow> ('o, 's) coord \<Rightarrow> ('o, 's) coord" where
  "reject_completion_future r e st =
     (case dict_get (co_completion_futures st) r of
        None \<Rightarrow> st
      | Some f \<Rightarrow> if dict_has (co_stream_queues st) r then set_future f FCancelled st else set_future f (FException e) st)"

text \<open>Queueing for the stream reader of a request, if it has one.\<close>

definition put_stream :: "string \<Rightarrow> 'o event \<Rightarrow> ('o, 's) coord \<Rightarrow> ('o, 's) coord" where
  "put_stream r m st =
     (case dict_get (co_stream_queues st) r of None \<Rightarrow> st | Some q \<Rightarrow> put_queue q m st)"

section \<open>Aborts\<close>

text \<open>
  What a caller of \<open>abort\<close> has: its result at once, or the task whose result it awaits. The task broadcasts
  first; \<open>run_abort\<close> is the rest of it once the broadcast has returned, or has raised an error.
\<close>

datatype abort_call = Returned bool | Awaits nat

fun awaited :: "abort_call \<Rightarrow> nat option" where
  "awaited (Returned _) = None"
| "awaited (Awaits t) = Some t"

definition abort_request :: "string \<Rightarrow> ('o, 's) coord \<Rightarrow> abort_call \<times> ('o, 's) coord" where
  "abort_request r st =
     (case dict_get (co_abort_tasks st) r of
        Some t \<Rightarrow> (Awaits t, st)
      | None \<Rightarrow>
          (case dict_get (co_requests st) r of
             None \<Rightarrow> (Returned False, st)
           | Some info \<Rightarrow>
               if ri_state info = COMPLETED \<or> ri_state info = ABORTED then (Returned False, st)
               else (Awaits (co_next_object st),
                     st\<lparr>co_abort_tasks := dict_set r (co_next_object st) (co_abort_tasks st),
                        co_next_object := Suc (co_next_object st)\<rparr>)))"

definition end_task :: "nat \<Rightarrow> bool result \<Rightarrow> ('o, 's) coord \<Rightarrow> ('o, 's) coord" where
  "end_task t res st = st\<lparr>co_task_results := (co_task_results st)(t := Some res)\<rparr>"

definition run_abort :: "string \<Rightarrow> nat \<Rightarrow> error option \<Rightarrow> ('o, 's) coord \<Rightarrow> ('o, 's) coord" where
  "run_abort r t failed st =
     (case failed of
        Some e \<Rightarrow> end_task t (Inl e) st
      | None \<Rightarrow>
          let st = st\<lparr>co_sent := co_sent st @ [AbortMessage r]\<rparr>
          in case dict_get (co_requests st) r of
               None \<Rightarrow> end_task t (Inr False) st
             | Some info \<Rightarrow>
                 let st = reject_completion_future r (CancelledError ''aborted'') st;
                     st = put_stream r (Complete (failure r ''aborted'')) st
                 in end_task t (Inr True) (pop_partial r (pop_request r st)))"

definition on_abort_task_done :: "string \<Rightarrow> nat \<Rightarrow> ('o, 's) coord \<Rightarrow> ('o, 's) coord" where
  "on_abort_task_done r t st =
     (if dict_get (co_abort_tasks st) r = Some t then st\<lparr>co_abort_tasks := dict_del r (co_abort_tasks st)\<rparr> else st)"

section \<open>Submission\<close>

definition request_id_is_reserved :: "string \<Rightarrow> ('o, 's) coord \<Rightarrow> bool" where
  "request_id_is_reserved r st \<longleftrightarrow>
     dict_has (co_requests st) r \<or> dict_has (co_completion_futures st) r \<or>
     dict_has (co_stream_queues st) r \<or> dict_has (co_abort_tasks st) r"

definition resolve_terminal_stages ::
  "('o, 's) coord_config \<Rightarrow> 'o omni_request \<Rightarrow> string set result" where
  "resolve_terminal_stages cf request =
     (case cf_resolver cf of
        None \<Rightarrow> Inr (cf_terminal_stages cf)
      | Some resolver \<Rightarrow> bind_r (resolver request) (\<lambda>resolved.
          case resolved of
            None \<Rightarrow> Inr (cf_terminal_stages cf)
          | Some TOther \<Rightarrow> Inl (ValueError ''terminal_stages_resolver must return a sequence'')
          | Some (TStages ss) \<Rightarrow>
              if None \<in> set ss then Inl (ValueError ''terminal_stages_resolver must return terminal stage names'')
              else let stages = the ` set ss
                   in if stages = {} then Inl (ValueError ''terminal_stages_resolver returned no terminal stages'')
                      else if \<not> stages \<subseteq> cf_terminal_stages cf
                      then Inl (ValueError ''terminal_stages_resolver returned stages outside the static terminal stages'')
                      else Inr stages))"

definition expected_terminal_stages ::
  "('o, 's) coord_config \<Rightarrow> string \<Rightarrow> ('o, 's) coord \<Rightarrow> string set" where
  "expected_terminal_stages cf r st =
     (case dict_get (co_requests st) r of
        None \<Rightarrow> cf_terminal_stages cf
      | Some info \<Rightarrow> (case ri_terminal_stages info of None \<Rightarrow> cf_terminal_stages cf | Some t \<Rightarrow> t))"

definition admission_count :: "('o, 's) coord \<Rightarrow> nat" where
  "admission_count st = length (filter ri_counts_toward_admission (dict_values (co_requests st)))"

definition entry_instance ::
  "('o, 's) coord_config \<Rightarrow> string option \<Rightarrow> (string, int) dict option \<Rightarrow> string result" where
  "entry_instance cf target bindings =
     (if target \<noteq> None \<and> target \<noteq> Some [] then Inr (the target)
      else if rt_is_replicated (cf_replica_topology cf) (cf_entry_stage cf)
      then bind_r (dict_lookup (case bindings of None \<Rightarrow> [] | Some b \<Rightarrow> b) (cf_entry_stage cf))
             (rt_resolve (cf_replica_topology cf) (cf_entry_stage cf))
      else Inr (cf_entry_stage cf))"

fun as_omni_request :: "'o request_arg \<Rightarrow> 'o omni_request" where
  "as_omni_request (Omni q) = q"
| "as_omni_request (Raw x) = \<lparr>rq_inputs = x, rq_params = [], rq_metadata = []\<rparr>"

text \<open>Tracking a request: its record, its future and, for a streamed one, its queue with an empty backlog.\<close>

definition track_request ::
  "('o, 's) coord_config \<Rightarrow> string \<Rightarrow> nat option \<Rightarrow> string set \<Rightarrow> bool \<Rightarrow> rat \<Rightarrow> 'o stage_message \<Rightarrow>
   ('o, 's) coord \<Rightarrow> nat \<times> ('o, 's) coord" where
  "track_request cf r queue terminals counts now message st =
     (let f = co_next_object st;
          info = \<lparr>ri_obj = f, ri_state = PENDING, ri_current_stage = cf_entry_stage cf,
                  ri_terminal_stages = Some terminals, ri_counts_toward_admission = counts,
                  ri_result = None, ri_error = None\<rparr>;
          st = st\<lparr>co_requests := dict_set r info (co_requests st),
                  co_completion_futures := dict_set r f (co_completion_futures st),
                  co_future_objs := (co_future_objs st)(f := Waiting),
                  co_next_object := Suc f,
                  co_submitting := (r, f, message) # co_submitting st\<rparr>;
          st = (case queue of
                  None \<Rightarrow> st
                | Some q \<Rightarrow> st\<lparr>co_stream_queues := dict_set r q (co_stream_queues st),
                    co_stream_backlogs := dict_set r \<lparr>sb_undelivered_bytes = 0, sb_reader_idle_since_s = now\<rparr>
                                            (co_stream_backlogs st)\<rparr>)
      in (f, st))"

text \<open>
  The part of \<open>submit_request\<close> between its guards and the tracking: the replica bindings, the entry
  instance and the terminal stages, with the binding policy's new state.
\<close>

definition plan_submit ::
  "('o, 's) coord_config \<Rightarrow> string \<Rightarrow> 'o omni_request \<Rightarrow> string option \<Rightarrow> string set option \<Rightarrow>
   (string, int) dict option \<Rightarrow> ('o, 's) coord \<Rightarrow> (string set \<times> 'o stage_message) result \<times> 's" where
  "plan_submit cf r request target terminals bindings st =
     (let (assigned, policy) = (case bindings of
            Some b \<Rightarrow> (Inr (Some b), co_policy st)
          | None \<Rightarrow> assign_replica_bindings (cf_bind cf) (cf_process_plan cf) r (co_policy st))
      in (bind_r assigned (\<lambda>replica_bindings.
          bind_r (entry_instance cf target replica_bindings) (\<lambda>instance.
          if \<not> dict_has (co_stages st) instance then Inl (ValueError ''Entry stage not registered'')
          else bind_r (case terminals of None \<Rightarrow> resolve_terminal_stages cf request | Some t \<Rightarrow> Inr t)
                 (\<lambda>t. Inr (t, SubmitMessage instance r request replica_bindings)))), policy))"

definition admission_full :: "('o, 's) coord_config \<Rightarrow> ('o, 's) coord \<Rightarrow> bool" where
  "admission_full cf st \<longleftrightarrow>
     (case cf_max_in_flight cf of None \<Rightarrow> False | Some cap \<Rightarrow> cap \<le> int (admission_count st))"

text \<open>
  \<open>submit_request\<close> up to its send to the entry stage; the queue argument is the queue object and its
  \<open>maxsize\<close>. The result is the address of the completion future.
\<close>

definition submit_request ::
  "('o, 's) coord_config \<Rightarrow> string \<Rightarrow> 'o request_arg \<Rightarrow> (nat \<times> int) option \<Rightarrow> string option \<Rightarrow>
   string set option \<Rightarrow> (string, int) dict option \<Rightarrow> bool \<Rightarrow> rat \<Rightarrow> ('o, 's) coord \<Rightarrow> nat result \<times> ('o, 's) coord" where
  "submit_request cf r arg queue target terminals bindings bypass now st =
     (if co_fatal_error st \<noteq> None then (Inl (RuntimeError (the (co_fatal_error st))), st)
      else if request_id_is_reserved r st then (Inl (ValueError ''Request already exists''), st)
      else if (case queue of None \<Rightarrow> False | Some (q, maxsize) \<Rightarrow> 0 < maxsize)
      then (Inl (ValueError ''stream_queue must be unbounded''), st)
      else if \<not> bypass \<and> admission_full cf st then (Inl QueueFullError, st)
      else case plan_submit cf r (as_omni_request arg) target terminals bindings st of
             (Inl e, policy) \<Rightarrow> (Inl e, st\<lparr>co_policy := policy\<rparr>)
           | (Inr (t, message), policy) \<Rightarrow>
               (case track_request cf r (map_option fst queue) t (\<not> bypass) now message (st\<lparr>co_policy := policy\<rparr>) of
                  (f, st) \<Rightarrow> (Inr f, st)))"

definition end_submit :: "string \<Rightarrow> nat \<Rightarrow> ('o, 's) coord \<Rightarrow> ('o, 's) coord" where
  "end_submit r f st = st\<lparr>co_submitting := filter (\<lambda>(r', f', _). (r', f') \<noteq> (r, f)) (co_submitting st)\<rparr>"

definition submit_sent :: "string \<Rightarrow> nat \<Rightarrow> 'o stage_message \<Rightarrow> ('o, 's) coord \<Rightarrow> ('o, 's) coord" where
  "submit_sent r f message st =
     (let st = end_submit r f st\<lparr>co_sent := co_sent st @ [message]\<rparr>
      in case dict_get (co_requests st) r of
           None \<Rightarrow> st
         | Some info \<Rightarrow> st\<lparr>co_requests := dict_set r (info\<lparr>ri_state := RUNNING\<rparr>) (co_requests st)\<rparr>)"

section \<open>Release of a submission\<close>

definition release_entry :: "string \<Rightarrow> ('o, 's) coord \<Rightarrow> ('o, 's) coord" where
  "release_entry r st =
     st\<lparr>co_completion_futures := dict_del r (co_completion_futures st),
        co_stream_queues := dict_del r (co_stream_queues st),
        co_stream_backlogs := dict_del r (co_stream_backlogs st),
        co_stream_backlog_bytes := co_stream_backlog_bytes st -
          (case dict_get (co_stream_backlogs st) r of None \<Rightarrow> 0 | Some b \<Rightarrow> sb_undelivered_bytes b)\<rparr>"

text \<open>\<open>release_submission\<close> up to the abort it awaits, and its \<open>finally\<close> block.\<close>

definition release_submission :: "string \<Rightarrow> nat \<Rightarrow> ('o, 's) coord \<Rightarrow> ('o, 's) coord" where
  "release_submission r f st =
     (if dict_get (co_completion_futures st) r \<noteq> Some f then st
      else case abort_request r (set_future f FCancelled st) of
             (call, st) \<Rightarrow> st\<lparr>co_releasing := (r, f, awaited call) # co_releasing st\<rparr>)"

definition release_end :: "string \<Rightarrow> nat \<Rightarrow> nat option \<Rightarrow> ('o, 's) coord \<Rightarrow> ('o, 's) coord" where
  "release_end r f t st =
     (let st = st\<lparr>co_releasing := remove1 (r, f, t) (co_releasing st)\<rparr>
      in if dict_get (co_completion_futures st) r = Some f then release_entry r st else st)"

text \<open>The two ways a send of \<open>submit_request\<close> ends otherwise: an error of the socket, or a cancelled caller.\<close>

definition submit_failed :: "string \<Rightarrow> nat \<Rightarrow> ('o, 's) coord \<Rightarrow> ('o, 's) coord" where
  "submit_failed r f st = release_submission r f (pop_request r (end_submit r f st))"

definition submit_cancelled :: "string \<Rightarrow> nat \<Rightarrow> ('o, 's) coord \<Rightarrow> ('o, 's) coord" where
  "submit_cancelled r f st = release_submission r f (end_submit r f st)"

section \<open>The byte budget of the streams\<close>

text \<open>The stream whose reader has been idle longest, of those with undelivered bytes: \<open>min\<close> with a key.\<close>

definition idlest_stream :: "(string, stream_backlog) dict \<Rightarrow> string result" where
  "idlest_stream backlogs =
     (case filter (\<lambda>(r, b). 0 < sb_undelivered_bytes b) backlogs of
        [] \<Rightarrow> Inl (ValueError ''min() arg is an empty sequence'')
      | x # xs \<Rightarrow> Inr (fst (fold (\<lambda>y m. if sb_reader_idle_since_s (snd y) < sb_reader_idle_since_s (snd m) then y else m)
                              xs x)))"

definition fail_idlest :: "('o, 's) coord \<Rightarrow> (('o, 's) coord \<times> string \<times> nat) result" where
  "fail_idlest st =
     bind_r (idlest_stream (co_stream_backlogs st)) (\<lambda>r.
     bind_r (dict_lookup (co_stream_backlogs st) r) (\<lambda>b.
     bind_r (dict_lookup (co_completion_futures st) r) (\<lambda>f.
     bind_r (dict_lookup (co_stream_queues st) r) (\<lambda>q.
       Inr (st\<lparr>co_stream_backlogs := dict_del r (co_stream_backlogs st),
               co_stream_backlog_bytes := co_stream_backlog_bytes st - sb_undelivered_bytes b,
               co_completion_futures := dict_del r (co_completion_futures st),
               co_failed_stream_count := Suc (co_failed_stream_count st),
               co_queue_objs := (co_queue_objs st)(q := [])\<rparr>, r, q)))))"

definition over_backlog :: "('o, 's) coord_config \<Rightarrow> ('o, 's) coord \<Rightarrow> bool" where
  "over_backlog cf st \<longleftrightarrow>
     (case cf_max_total_backlog_bytes cf of None \<Rightarrow> False | Some cap \<Rightarrow> cap < co_stream_backlog_bytes st)"

lemma length_delete_less: "dict_has d k \<Longrightarrow> length (dict_del k d) < length d"
  by (induction d) (auto simp: dict_has_def length_delete_le le_imp_less_Suc)

lemma fail_idlest_fewer:
  assumes "fail_idlest st = Inr (st', x)"
  shows "length (co_stream_backlogs st') < length (co_stream_backlogs st)"
  using assms by (auto simp: fail_idlest_def bind_r_Inr_iff intro!: length_delete_less)

text \<open>The streams to fail, idlest first, until the rest fits; every round drops a backlog.\<close>

function enforce_backlog ::
  "('o, 's) coord_config \<Rightarrow> ('o, 's) coord \<Rightarrow> (string \<times> nat) list \<Rightarrow> (('o, 's) coord \<times> (string \<times> nat) list) result" where
  "enforce_backlog cf st failed =
     (if \<not> over_backlog cf st then Inr (st, failed)
      else case fail_idlest st of
             Inl e \<Rightarrow> Inl e
           | Inr (st', x) \<Rightarrow> enforce_backlog cf st' (failed @ [x]))"
  by pat_completeness auto

termination
  by (relation "measure (\<lambda>(cf, st, failed). length (co_stream_backlogs st))") (auto dest: fail_idlest_fewer)

declare enforce_backlog.simps [simp del]

definition queue_stream_message ::
  "('o, 's) coord_config \<Rightarrow> rat \<Rightarrow> string \<Rightarrow> 'o event \<Rightarrow> ('o, 's) coord \<Rightarrow> ('o, 's) coord result" where
  "queue_stream_message cf now r m st =
     bind_r (dict_lookup (co_stream_backlogs st) r) (\<lambda>b.
     bind_r (dict_lookup (co_stream_queues st) r) (\<lambda>q.
       let n = stream_message_payload_bytes m;
           b = (if sb_undelivered_bytes b = 0 then b\<lparr>sb_reader_idle_since_s := now\<rparr> else b);
           b = b\<lparr>sb_undelivered_bytes := sb_undelivered_bytes b + n\<rparr>;
           st = put_queue q m (st\<lparr>co_stream_backlogs := dict_set r b (co_stream_backlogs st),
                                  co_stream_backlog_bytes := co_stream_backlog_bytes st + n\<rparr>)
       in bind_r (enforce_backlog cf st []) (\<lambda>(st, failed). Inr (push_frame (FailStreams failed) st))))"

section \<open>Completions and stream chunks\<close>

definition complete_future :: "string \<Rightarrow> 'o outcome \<Rightarrow> ('o, 's) coord \<Rightarrow> ('o, 's) coord" where
  "complete_future r v st =
     (case dict_get (co_completion_futures st) r of None \<Rightarrow> st | Some f \<Rightarrow> set_future f (FResult v) st)"

definition fail_completion :: "'o complete_message \<Rightarrow> nat \<Rightarrow> ('o, 's) coord \<Rightarrow> ('o, 's) coord" where
  "fail_completion msg obj st =
     push_frame (AwaitBroadcast msg)
       (update_info (cm_request_id msg) obj (\<lambda>i. i\<lparr>ri_state := FAILED, ri_error := cm_error msg\<rparr>) st)"

definition finish_request :: "string \<Rightarrow> 'o outcome \<Rightarrow> ('o, 's) coord \<Rightarrow> ('o, 's) coord" where
  "finish_request r v st = pop_request r (complete_future r v st)"

definition succeed_completion ::
  "('o, 's) coord_config \<Rightarrow> rat \<Rightarrow> 'o complete_message \<Rightarrow> ('o, 's) coord \<Rightarrow> ('o, 's) coord result" where
  "succeed_completion cf now msg st =
     (let r = cm_request_id msg;
          expected = expected_terminal_stages cf r st;
          deliver = (\<lambda>st. if dict_has (co_stream_queues st) r then queue_stream_message cf now r (Complete msg) st
                          else Inr st)
      in if expected \<noteq> {} \<and> cm_from_stage msg \<notin> expected then Inr st
         else if card expected \<le> 1 then deliver (finish_request r (Single (cm_result msg)) st)
         else
           let partials = dict_set (cm_from_stage msg) (cm_result msg)
                 (case dict_get (co_partial_results st) r of None \<Rightarrow> [] | Some p \<Rightarrow> p);
               st = st\<lparr>co_partial_results := dict_set r partials (co_partial_results st)\<rparr>
           in deliver (if expected \<subseteq> set (dict_keys partials)
                       then finish_request r (Merged partials) (pop_partial r st) else st))"

definition handle_completion ::
  "('o, 's) coord_config \<Rightarrow> rat \<Rightarrow> 'o complete_message \<Rightarrow> ('o, 's) coord \<Rightarrow> ('o, 's) coord result" where
  "handle_completion cf now msg st =
     (let r = cm_request_id msg in
      case dict_get (co_requests st) r of
        None \<Rightarrow> Inr (st\<lparr>co_discarded := co_discarded st @ [cm_result msg]\<rparr>)
      | Some info \<Rightarrow>
          if ri_state info = FAILED then Inr (st\<lparr>co_discarded := co_discarded st @ [cm_result msg]\<rparr>)
          else
            let msg = msg\<lparr>cm_from_stage := rt_logical_name (cf_replica_topology cf) (cm_from_stage msg)\<rparr>
            in if \<not> cm_success msg \<and> admin_dropped_matches (cm_error msg)
               then (case abort_request r st of
                       (Returned b, st) \<Rightarrow> Inr st
                     | (Awaits t, st) \<Rightarrow> Inr (push_frame (AwaitAbort msg (ri_obj info) t) st))
               else if \<not> cm_success msg then Inr (fail_completion msg (ri_obj info) st)
               else succeed_completion cf now msg st)"

definition handle_stream ::
  "('o, 's) coord_config \<Rightarrow> rat \<Rightarrow> 'o stream_message \<Rightarrow> ('o, 's) coord \<Rightarrow> ('o, 's) coord result" where
  "handle_stream cf now msg st =
     (let r = sm_request_id msg; name = rt_logical_name (cf_replica_topology cf) in
      if r \<in> set (co_session_handlers st) then Inr (st\<lparr>co_session_outputs := co_session_outputs st @ [msg]\<rparr>)
      else if \<not> dict_has (co_stream_backlogs st) r then Inr st
      else queue_stream_message cf now r
             (Stream (msg\<lparr>sm_from_stage := name (sm_from_stage msg),
                          sm_stage_name := map_option name (sm_stage_name msg)\<rparr>)) st)"

text \<open>The completion loop takes the next event, and goes on where it was suspended.\<close>

fun handle_event :: "('o, 's) coord_config \<Rightarrow> rat \<Rightarrow> 'o event \<Rightarrow> ('o, 's) coord \<Rightarrow> ('o, 's) coord result" where
  "handle_event cf now (Complete msg) st = handle_completion cf now msg st"
| "handle_event cf now (Stream msg) st = handle_stream cf now msg st"

definition after_broadcast :: "'o complete_message \<Rightarrow> bool \<Rightarrow> ('o, 's) coord \<Rightarrow> ('o, 's) coord" where
  "after_broadcast msg ok st =
     (let r = cm_request_id msg;
          st = (if ok then pop_request r (st\<lparr>co_sent := co_sent st @ [AbortMessage r]\<rparr>) else st);
          st = reject_completion_future r (queue_full_from_message (cm_error msg)) (pop_partial r st)
      in put_stream r (Complete msg) st)"

definition after_abort ::
  "'o complete_message \<Rightarrow> nat \<Rightarrow> bool result \<Rightarrow> ('o, 's) coord \<Rightarrow> ('o, 's) coord" where
  "after_abort msg obj res st = (case res of Inr _ \<Rightarrow> st | Inl _ \<Rightarrow> fail_completion msg obj st)"

definition request_is_over :: "string \<Rightarrow> ('o, 's) coord \<Rightarrow> bool" where
  "request_is_over r st \<longleftrightarrow>
     (case dict_get (co_requests st) r of None \<Rightarrow> True | Some info \<Rightarrow> ri_state info = FAILED)"

definition fail_stream ::
  "('o, 's) coord_config \<Rightarrow> rat \<Rightarrow> string \<Rightarrow> nat \<Rightarrow> ('o, 's) coord \<Rightarrow> ('o, 's) coord result" where
  "fail_stream cf now r q st =
     (if request_is_over r st then Inr (put_queue q (Complete (failure r QUEUE_FULL_MESSAGE)) st)
      else handle_completion cf now (failure r QUEUE_FULL_MESSAGE) st)"

text \<open>\<open>ok\<close> says whether the awaited broadcast returned or raised.\<close>

definition resume ::
  "('o, 's) coord_config \<Rightarrow> rat \<Rightarrow> bool \<Rightarrow> ('o, 's) coord \<Rightarrow> ('o, 's) coord result" where
  "resume cf now ok st =
     (case co_frames st of
        [] \<Rightarrow> Inr st
      | AwaitBroadcast msg # frames \<Rightarrow> Inr (after_broadcast msg ok (st\<lparr>co_frames := frames\<rparr>))
      | AwaitAbort msg obj t # frames \<Rightarrow>
          (case co_task_results st t of
             None \<Rightarrow> Inr st
           | Some res \<Rightarrow> Inr (after_abort msg obj res (st\<lparr>co_frames := frames\<rparr>)))
      | FailStreams [] # frames \<Rightarrow> Inr (st\<lparr>co_frames := frames\<rparr>)
      | FailStreams ((r, q) # rest) # frames \<Rightarrow>
          fail_stream cf now r q (st\<lparr>co_frames := FailStreams rest # frames\<rparr>))"

section \<open>Stream readers\<close>

definition SESSION_METADATA_KEY :: string where
  "SESSION_METADATA_KEY = ''omni_session''"

fun reject_session_metadata :: "'o request_arg \<Rightarrow> unit result" where
  "reject_session_metadata (Omni q) =
     (if dict_has (rq_metadata q) SESSION_METADATA_KEY then Inl (ValueError ''request metadata key is reserved'') else Inr ())"
| "reject_session_metadata (Raw x) = Inr ()"

text \<open>\<open>submit\<close> and \<open>stream\<close> up to the send; a stream makes the queue its reader will take from.\<close>

definition submit ::
  "('o, 's) coord_config \<Rightarrow> string \<Rightarrow> 'o request_arg \<Rightarrow> rat \<Rightarrow> ('o, 's) coord \<Rightarrow> nat result \<times> ('o, 's) coord" where
  "submit cf r arg now st =
     (case reject_session_metadata arg of
        Inl e \<Rightarrow> (Inl e, st)
      | Inr _ \<Rightarrow> submit_request cf r arg None None None None False now st)"

definition stream_open ::
  "('o, 's) coord_config \<Rightarrow> string \<Rightarrow> 'o request_arg \<Rightarrow> rat \<Rightarrow> ('o, 's) coord \<Rightarrow> nat result \<times> ('o, 's) coord" where
  "stream_open cf r arg now st =
     (case reject_session_metadata arg of
        Inl e \<Rightarrow> (Inl e, st)
      | Inr _ \<Rightarrow>
          let q = co_next_object st;
              st = st\<lparr>co_next_object := Suc q, co_queue_objs := (co_queue_objs st)(q := [])\<rparr>
          in submit_request cf r arg (Some (q, 0)) None None None False now st)"

text \<open>
  One round of the reader's loop, given the terminals it expects and those that have completed: the
  message it yields, the completed set after it, and whether the stream ends there.
\<close>

datatype 'o read = Blocked | Raises error | Yields "'o event" "string set" bool

fun is_failure :: "'o event \<Rightarrow> bool" where
  "is_failure (Complete m) \<longleftrightarrow> \<not> cm_success m"
| "is_failure (Stream m) \<longleftrightarrow> False"

fun failure_error :: "'o event \<Rightarrow> error" where
  "failure_error (Complete m) = queue_full_from_message (cm_error m)"
| "failure_error (Stream m) = queue_full_from_message None"

fun reader_state :: "('o, 's) coord_config \<Rightarrow> string set \<Rightarrow> string set \<Rightarrow> 'o event \<Rightarrow> string set \<times> bool" where
  "reader_state cf expected completed (Complete m) =
     (let completed = insert (rt_logical_name (cf_replica_topology cf) (cm_from_stage m)) completed
      in (completed, expected = {} \<or> expected \<subseteq> completed))"
| "reader_state cf expected completed (Stream m) = (completed, False)"

definition stream_next ::
  "('o, 's) coord_config \<Rightarrow> string \<Rightarrow> nat \<Rightarrow> string set \<Rightarrow> string set \<Rightarrow> rat \<Rightarrow> ('o, 's) coord \<Rightarrow>
   'o read \<times> ('o, 's) coord" where
  "stream_next cf r q expected completed now st =
     (case co_queue_objs st q of
        [] \<Rightarrow> (Blocked, st)
      | m # ms \<Rightarrow>
          let st = st\<lparr>co_queue_objs := (co_queue_objs st)(q := ms)\<rparr>
          in if is_failure m then (Raises (failure_error m), st)
             else case dict_get (co_stream_backlogs st) r of
                    None \<Rightarrow> (Raises (KeyError r), st)
                  | Some b \<Rightarrow>
                      let n = stream_message_payload_bytes m;
                          b = b\<lparr>sb_undelivered_bytes := sb_undelivered_bytes b - n, sb_reader_idle_since_s := now\<rparr>;
                          (completed, finished) = reader_state cf expected completed m
                      in (Yields m completed finished,
                          st\<lparr>co_stream_backlogs := dict_set r b (co_stream_backlogs st),
                             co_stream_backlog_bytes := co_stream_backlog_bytes st - n\<rparr>))"

text \<open>The reader's \<open>finally\<close> block, up to the abort it awaits and after it.\<close>

definition stream_close :: "string \<Rightarrow> nat \<Rightarrow> ('o, 's) coord \<Rightarrow> ('o, 's) coord" where
  "stream_close r q st =
     (if dict_get (co_stream_queues st) r \<noteq> Some q then st
      else if dict_has (co_requests st) r
      then (case abort_request r st of (call, st) \<Rightarrow> st\<lparr>co_closing := (r, q, awaited call) # co_closing st\<rparr>)
      else st\<lparr>co_closing := (r, q, None) # co_closing st\<rparr>)"

definition stream_close_end :: "string \<Rightarrow> nat \<Rightarrow> nat option \<Rightarrow> ('o, 's) coord \<Rightarrow> ('o, 's) coord" where
  "stream_close_end r q t st =
     (let st = st\<lparr>co_closing := remove1 (r, q, t) (co_closing st)\<rparr>
      in if dict_get (co_stream_queues st) r = Some q then release_entry r st else st)"

section \<open>Failing everything\<close>

definition fail_pending_one :: "string \<Rightarrow> string \<times> 'o request_info \<Rightarrow> ('o, 's) coord \<Rightarrow> ('o, 's) coord" where
  "fail_pending_one message entry st =
     put_stream (fst entry) (Complete (failure (fst entry) message))
       (reject_completion_future (fst entry) (RuntimeError message)
         (update_info (fst entry) (ri_obj (snd entry)) (\<lambda>i. i\<lparr>ri_state := FAILED, ri_error := Some message\<rparr>) st))"

definition fail_pending_requests :: "string \<Rightarrow> ('o, 's) coord \<Rightarrow> ('o, 's) coord" where
  "fail_pending_requests message st =
     (let st = st\<lparr>co_running := False, co_fatal_error := Some message\<rparr>
      in (fold (fail_pending_one message) (co_requests st) st)\<lparr>co_requests := [], co_partial_results := []\<rparr>)"

section \<open>Steps\<close>

text \<open>
  Everything that can happen on the loop. A caller still in its send has neither released nor read yet,
  and no stage answers a request before the send that carries it has returned; a reader takes from the
  queue it registered.
\<close>

fun event_request :: "'o event \<Rightarrow> string" where
  "event_request (Complete m) = cm_request_id m"
| "event_request (Stream m) = sm_request_id m"

definition submitting_ids :: "('o, 's) coord \<Rightarrow> string set" where
  "submitting_ids st = fst ` set (co_submitting st)"

definition task_over :: "nat option \<Rightarrow> ('o, 's) coord \<Rightarrow> bool" where
  "task_over t st \<longleftrightarrow> (case t of None \<Rightarrow> True | Some t \<Rightarrow> co_task_results st t \<noteq> None)"

inductive coord_step ::
  "('o, 's) coord_config \<Rightarrow> ('o, 's) coord \<Rightarrow> ('o, 's) coord \<Rightarrow> bool" for cf where
  register: "coord_step cf st (register_stage name endpoint st)"
| start: "coord_step cf st (start st)"
| submit: "coord_step cf st (snd (submit cf r arg now st))"
| stream_open: "coord_step cf st (snd (stream_open cf r arg now st))"
| session_submit: "coord_step cf st (snd (submit_request cf r arg None target terminals bindings bypass now st))"
| sent: "(r, f, m) \<in> set (co_submitting st) \<Longrightarrow> coord_step cf st (submit_sent r f m st)"
| send_failed: "(r, f, m) \<in> set (co_submitting st) \<Longrightarrow> coord_step cf st (submit_failed r f st)"
| send_cancelled: "(r, f, m) \<in> set (co_submitting st) \<Longrightarrow> coord_step cf st (submit_cancelled r f st)"
| release: "r \<notin> submitting_ids st \<Longrightarrow> coord_step cf st (release_submission r f st)"
| release_end: "(r, f, t) \<in> set (co_releasing st) \<Longrightarrow> task_over t st \<Longrightarrow> coord_step cf st (release_end r f t st)"
| abort: "coord_step cf st (snd (abort_request r st))"
| run_abort: "dict_get (co_abort_tasks st) r = Some t \<Longrightarrow> co_task_results st t = None \<Longrightarrow>
    coord_step cf st (run_abort r t failed st)"
| abort_done: "co_task_results st t \<noteq> None \<Longrightarrow> coord_step cf st (on_abort_task_done r t st)"
| event: "co_frames st = [] \<Longrightarrow> event_request m \<notin> submitting_ids st \<Longrightarrow> handle_event cf now m st = Inr st' \<Longrightarrow>
    coord_step cf st st'"
| resume: "resume cf now ok st = Inr st' \<Longrightarrow> coord_step cf st st'"
| read: "dict_get (co_stream_queues st) r = Some q \<Longrightarrow> r \<notin> submitting_ids st \<Longrightarrow>
    coord_step cf st (snd (stream_next cf r q expected completed now st))"
| close: "r \<notin> submitting_ids st \<Longrightarrow> coord_step cf st (stream_close r q st)"
| close_end: "(r, q, t) \<in> set (co_closing st) \<Longrightarrow> task_over t st \<Longrightarrow> coord_step cf st (stream_close_end r q t st)"
| fail_all: "coord_step cf st (fail_pending_requests message st)"
| session_handlers: "coord_step cf st (st\<lparr>co_session_handlers := handlers\<rparr>)"
| session_reject: "coord_step cf st (reject_completion_future r e st)"
| session_settle: "coord_step cf st (set_future f v st)"

section \<open>The invariant\<close>

text \<open>Bytes of the messages in a queue that its backlog counts: failures are queued without counting.\<close>

definition counted :: "'o event list \<Rightarrow> int" where
  "counted ms = sum_list (map stream_message_payload_bytes (filter (\<lambda>m. \<not> is_failure m) ms))"

fun frame_failures :: "'o frame \<Rightarrow> (string \<times> nat) list" where
  "frame_failures (FailStreams xs) = xs"
| "frame_failures fr = []"

definition failing_ids :: "'o frame list \<Rightarrow> string set" where
  "failing_ids frames = (\<Union>fr \<in> set frames. fst ` set (frame_failures fr))"

fun frame_ok :: "'o frame \<Rightarrow> bool" where
  "frame_ok (AwaitAbort m obj t) \<longleftrightarrow> \<not> cm_success m"
| "frame_ok (AwaitBroadcast m) \<longleftrightarrow> \<not> cm_success m"
| "frame_ok (FailStreams xs) \<longleftrightarrow> True"

definition budget_ok :: "('o, 's) coord \<Rightarrow> bool" where
  "budget_ok st \<longleftrightarrow> dict_ok (co_stream_backlogs st) \<and>
     co_stream_backlog_bytes st = dict_sum sb_undelivered_bytes (co_stream_backlogs st) \<and>
     inj_on (dict_get (co_stream_queues st)) (dom (dict_get (co_stream_queues st)))"

text \<open>
  The stream of a request: no backlog without a queue and a future, the backlog counts what the queue
  holds; a stream without a backlog holds only failures, and its request is over or
  about to be failed; \<open>F\<close> are the streams about to be failed. Nothing is queued while it is being sent.
\<close>

definition stream_ok :: "string set \<Rightarrow> ('o, 's) coord \<Rightarrow> string \<Rightarrow> bool" where
  "stream_ok F st r \<longleftrightarrow>
     (case dict_get (co_stream_queues st) r of
        None \<Rightarrow> dict_get (co_stream_backlogs st) r = None
      | Some q \<Rightarrow>
          q < co_next_object st \<and>
          (case dict_get (co_stream_backlogs st) r of
             None \<Rightarrow> list_all is_failure (co_queue_objs st q) \<and> (request_is_over r st \<or> r \<in> F) \<and> r \<notin> submitting_ids st
           | Some b \<Rightarrow> dict_get (co_completion_futures st) r \<noteq> None \<and>
               sb_undelivered_bytes b = counted (co_queue_objs st q) \<and>
               (r \<in> submitting_ids st \<longrightarrow> sb_undelivered_bytes b = 0)))"

definition admission_ok :: "('o, 's) coord_config \<Rightarrow> ('o, 's) coord \<Rightarrow> bool" where
  "admission_ok cf st \<longleftrightarrow> dict_ok (co_requests st) \<and>
     (\<forall>cap. cf_max_in_flight cf = Some cap \<longrightarrow> int (admission_count st) \<le> cap)"

definition core_ok :: "('o, 's) coord_config \<Rightarrow> string set \<Rightarrow> ('o, 's) coord \<Rightarrow> bool" where
  "core_ok cf F st \<longleftrightarrow> budget_ok st \<and> (\<forall>r. stream_ok F st r) \<and> admission_ok cf st \<and> list_all frame_ok (co_frames st)"

definition coord_ok :: "('o, 's) coord_config \<Rightarrow> ('o, 's) coord \<Rightarrow> bool" where
  "coord_ok cf st \<longleftrightarrow> core_ok cf (failing_ids (co_frames st)) st \<and> \<not> over_backlog cf st"

lemma field_bytes_nonneg: "0 \<le> field_bytes x"
  by (cases x) auto

lemma payload_bytes_nonneg: "0 \<le> stream_message_payload_bytes m"
proof -
  have "0 \<le> body_bytes b" for b :: "'a body"
    by (cases b) (auto intro: dict_sum_nonneg field_bytes_nonneg)
  then show ?thesis by (cases m) auto
qed

lemma counted_simps [simp]:
  "counted [] = 0"
  "counted (m # ms) = (if is_failure m then 0 else stream_message_payload_bytes m) + counted ms"
  "counted (ms @ ms') = counted ms + counted ms'"
  by (auto simp: counted_def)

lemma counted_nonneg: "0 \<le> counted ms"
  by (induction ms) (auto intro: add_nonneg_nonneg payload_bytes_nonneg)

lemma admission_count_sum:
  "int (admission_count st) = dict_sum (\<lambda>i. if ri_counts_toward_admission i then 1 else 0) (co_requests st)"
proof -
  have "int (length (filter ri_counts_toward_admission (dict_values d)))
      = dict_sum (\<lambda>i. if ri_counts_toward_admission i then 1 else 0) d"
    for d :: "(string, 'a request_info) dict"
    by (induction d) auto
  then show ?thesis by (simp add: admission_count_def)
qed

lemma failing_ids_simps [simp]:
  "failing_ids [] = {}" "failing_ids (fr # frames) = fst ` set (frame_failures fr) \<union> failing_ids frames"
  by (auto simp: failing_ids_def)

named_theorems core_intros \<open>updates that keep the coordinator's core invariant\<close>

lemma stream_ok_mono: "stream_ok F st r \<Longrightarrow> F \<subseteq> G \<Longrightarrow> stream_ok G st r"
  by (auto simp: stream_ok_def split: option.splits)

lemma core_ok_mono: "core_ok cf F st \<Longrightarrow> F \<subseteq> G \<Longrightarrow> core_ok cf G st"
  by (auto simp: core_ok_def intro: stream_ok_mono)

lemma core_frames: "core_ok cf F st \<Longrightarrow> list_all frame_ok (co_frames st)"
  by (simp add: core_ok_def)

lemma core_stream: "core_ok cf F st \<Longrightarrow> stream_ok F st r"
  by (simp add: core_ok_def)

lemma core_put_failure [core_intros]:
  assumes "core_ok cf F st" and "is_failure m"
  shows "core_ok cf F (put_queue q m st)"
proof -
  have "stream_ok F (put_queue q m st) r" for r
    using core_stream [OF assms(1), of r] assms(2)
    by (auto simp: stream_ok_def put_queue_def submitting_ids_def request_is_over_def split: option.splits)
  then show ?thesis
    using assms(1) by (simp add: core_ok_def budget_ok_def admission_ok_def admission_count_def put_queue_def)
qed

lemma core_unrelated:
  assumes "core_ok cf F st"
    and "co_requests st' = co_requests st" "co_completion_futures st' = co_completion_futures st"
      "co_stream_queues st' = co_stream_queues st" "co_stream_backlogs st' = co_stream_backlogs st"
      "co_stream_backlog_bytes st' = co_stream_backlog_bytes st" "co_next_object st \<le> co_next_object st'"
      "co_queue_objs st' = co_queue_objs st" "submitting_ids st' \<subseteq> submitting_ids st" "list_all frame_ok (co_frames st')"
  shows "core_ok cf F st'"
proof -
  have "stream_ok F st' r" for r
    using core_stream [OF assms(1), of r] assms(7,9)
    by (auto simp: stream_ok_def request_is_over_def assms(2-5,8) split: option.splits)
  then show ?thesis
    using assms(1,10) by (simp add: core_ok_def budget_ok_def admission_ok_def admission_count_def assms(2-6))
qed

lemma core_pop_request [core_intros]:
  assumes "core_ok cf F st"
  shows "core_ok cf F (pop_request r st)"
proof -
  have ok: "dict_ok (co_requests st)" using assms by (simp add: core_ok_def admission_ok_def)
  then have "admission_count (pop_request r st) \<le> admission_count st"
    using admission_count_sum [of "pop_request r st"] admission_count_sum [of st]
    by (simp add: dict_sum_del pop_request_def split: option.splits if_splits)
  then have "admission_ok cf (pop_request r st)"
    using assms ok by (auto simp: core_ok_def admission_ok_def pop_request_def split: option.splits)
  moreover have "stream_ok F (pop_request r st) r'" for r'
    using core_stream [OF assms, of r']
    by (auto simp: stream_ok_def request_is_over_def submitting_ids_def pop_request_def split: option.splits)
  ultimately show ?thesis using assms by (simp add: core_ok_def budget_ok_def pop_request_def)
qed

text \<open>Replacing a request's record keeps the invariant when it keeps the admission flag and a failed state.\<close>

lemma core_set_request:
  assumes "core_ok cf F st" and "dict_get (co_requests st) r = Some info"
    and "ri_counts_toward_admission info' = ri_counts_toward_admission info"
    and "ri_state info' = FAILED \<or> (r \<in> submitting_ids st)"
  shows "core_ok cf F (st\<lparr>co_requests := dict_set r info' (co_requests st)\<rparr>)"
proof -
  let ?st = "st\<lparr>co_requests := dict_set r info' (co_requests st)\<rparr>"
  have ok: "dict_ok (co_requests st)" using assms by (simp add: core_ok_def admission_ok_def)
  then have "int (admission_count ?st) = int (admission_count st)"
    unfolding admission_count_sum using assms(2,3) by (simp add: dict_sum_set)
  then have "admission_ok cf ?st"
    using assms ok by (auto simp: core_ok_def admission_ok_def split: option.splits)
  moreover have "stream_ok F ?st r'" for r'
    using core_stream [OF assms(1), of r'] assms(4)
    by (auto simp: stream_ok_def request_is_over_def submitting_ids_def split: option.splits)
  ultimately show ?thesis using assms by (simp add: core_ok_def budget_ok_def)
qed

lemma core_fail_info [core_intros]:
  assumes "core_ok cf F st"
  shows "core_ok cf F (update_info r obj (\<lambda>i. i\<lparr>ri_state := FAILED, ri_error := e\<rparr>) st)"
  using assms by (auto simp: update_info_def split: option.splits intro: core_set_request)

lemma core_set_future [core_intros]: "core_ok cf F st \<Longrightarrow> core_ok cf F (set_future f v st)"
  using core_frames [of cf F st]
  by (auto elim: core_unrelated simp: set_future_def submitting_ids_def)

lemma core_reject [core_intros]: "core_ok cf F st \<Longrightarrow> core_ok cf F (reject_completion_future r e st)"
  by (auto simp: reject_completion_future_def intro: core_set_future split: option.splits)

lemma core_complete_future [core_intros]: "core_ok cf F st \<Longrightarrow> core_ok cf F (complete_future r v st)"
  by (auto simp: complete_future_def intro: core_set_future split: option.splits)

lemma core_put_stream [core_intros]:
  "core_ok cf F st \<Longrightarrow> is_failure m \<Longrightarrow> core_ok cf F (put_stream r m st)"
  by (auto simp: put_stream_def intro: core_put_failure split: option.splits)

lemma core_pop_partial [core_intros]: "core_ok cf F st \<Longrightarrow> core_ok cf F (pop_partial r st)"
  using core_frames [of cf F st] by (auto elim: core_unrelated simp: pop_partial_def submitting_ids_def)

lemma core_abort_request [core_intros]:
  "core_ok cf F st \<Longrightarrow> core_ok cf F (snd (abort_request r st))"
  using core_frames [of cf F st]
  by (auto elim: core_unrelated simp: abort_request_def submitting_ids_def split: option.splits)

lemma core_release_entry [core_intros]:
  assumes "core_ok cf F st"
  shows "core_ok cf F (release_entry r st)"
proof -
  have "stream_ok F (release_entry r st) r'" for r'
    using core_stream [OF assms, of r']
    by (auto simp: stream_ok_def request_is_over_def submitting_ids_def release_entry_def split: option.splits)
  moreover have "budget_ok (release_entry r st)"
    using assms by (auto simp: core_ok_def budget_ok_def release_entry_def dict_sum_del inj_on_def dom_def split: option.splits)
  ultimately show ?thesis
    using assms by (simp add: core_ok_def admission_ok_def admission_count_def release_entry_def)
qed

lemma core_track_request:
  assumes "core_ok cf F st" and "\<not> request_id_is_reserved r st"
    and "\<And>q. queue = Some q \<Longrightarrow> q < co_next_object st \<and> co_queue_objs st q = [] \<and> q \<notin> ran (dict_get (co_stream_queues st))"
    and "\<And>cap. counts \<Longrightarrow> cf_max_in_flight cf = Some cap \<Longrightarrow> int (admission_count st) < cap"
  shows "core_ok cf F (snd (track_request cf r queue terminals counts now message st))"
proof -
  let ?st = "snd (track_request cf r queue terminals counts now message st)"
  have free: "dict_get (co_requests st) r = None" "dict_get (co_stream_queues st) r = None"
    using assms(2) by (auto simp: request_id_is_reserved_def dict_has_iff)
  then have nob: "dict_get (co_stream_backlogs st) r = None"
    using core_stream [OF assms(1), of r] by (simp add: stream_ok_def)
  have "stream_ok F ?st r'" for r'
    using core_stream [OF assms(1), of r'] assms(3) free
    by (cases queue) (auto simp: stream_ok_def request_is_over_def submitting_ids_def track_request_def Let_def
        less_Suc_eq split: option.splits)
  moreover have "budget_ok ?st"
  proof (cases queue)
    case None
    then show ?thesis using assms(1) by (simp add: core_ok_def budget_ok_def track_request_def Let_def)
  next
    case (Some q)
    then show ?thesis using assms(1) assms(3) [OF Some] nob
      by (auto simp: core_ok_def budget_ok_def track_request_def Let_def dict_sum_set inj_on_def dom_def ran_def)
  qed
  moreover have "admission_ok cf ?st"
  proof -
    have ok: "dict_ok (co_requests st)" using assms(1) by (simp add: core_ok_def admission_ok_def)
    then have "int (admission_count ?st) = int (admission_count st) + (if counts then 1 else 0)"
      unfolding admission_count_sum using free
      by (cases queue) (simp_all add: track_request_def Let_def dict_sum_set)
    then show ?thesis using assms(1,4) ok
      by (cases queue; fastforce simp: core_ok_def admission_ok_def track_request_def Let_def)
  qed
  ultimately show ?thesis
    using assms(1) by (cases queue) (simp_all add: core_ok_def track_request_def Let_def)
qed

lemma queue_unshared:
  assumes "core_ok cf F st" "dict_get (co_stream_queues st) r = Some q" "r' \<noteq> r"
  shows "dict_get (co_stream_queues st) r' \<noteq> Some q"
  using assms unfolding core_ok_def budget_ok_def inj_on_def by (metis domI)

section \<open>The backlog bound\<close>

lemma fold_pick: "fold (\<lambda>y m. if P y m then y else m) xs x \<in> set (x # xs)"
proof (induction xs arbitrary: x)
  case (Cons y xs)
  show ?case using Cons.IH [of "if P y x then y else x"] by (auto split: if_splits)
qed simp

lemma idlest_stream_ex:
  assumes "0 < dict_sum sb_undelivered_bytes d"
  shows "\<exists>r b. idlest_stream d = Inr r \<and> (r, b) \<in> set d \<and> 0 < sb_undelivered_bytes b"
proof -
  let ?pos = "filter (\<lambda>(r, b). 0 < sb_undelivered_bytes b) d"
  obtain x xs where pos: "?pos = x # xs"
    using dict_sum_pos_ex [OF assms] by (cases ?pos) (auto simp: filter_empty_conv)
  define y where "y = fold (\<lambda>y m. if sb_reader_idle_since_s (snd y) < sb_reader_idle_since_s (snd m) then y else m) xs x"
  have "y \<in> set ?pos" unfolding y_def pos by (rule fold_pick)
  then have "y \<in> set d" "0 < sb_undelivered_bytes (snd y)" by auto
  moreover have "idlest_stream d = Inr (fst y)" by (simp add: idlest_stream_def pos y_def)
  ultimately show ?thesis by (metis prod.collapse)
qed

definition cap_ok :: "('o, 's) coord_config \<Rightarrow> bool" where
  "cap_ok cf \<longleftrightarrow> (\<forall>cap. cf_max_total_backlog_bytes cf = Some cap \<longrightarrow> 0 \<le> cap)"

lemma over_backlog_le:
  "\<not> over_backlog cf st \<Longrightarrow> co_stream_backlog_bytes st' \<le> co_stream_backlog_bytes st \<Longrightarrow> \<not> over_backlog cf st'"
  by (auto simp: over_backlog_def split: option.splits)

lemma fail_idlest_ok:
  assumes "core_ok cf F st" and "over_backlog cf st" and "cap_ok cf"
  shows "\<exists>st' r q. fail_idlest st = Inr (st', r, q) \<and> core_ok cf (insert r F) st' \<and>
    co_frames st' = co_frames st \<and> co_requests st' = co_requests st"
proof -
  have sum: "co_stream_backlog_bytes st = dict_sum sb_undelivered_bytes (co_stream_backlogs st)"
    and ok: "dict_ok (co_stream_backlogs st)"
    and inj: "inj_on (dict_get (co_stream_queues st)) (dom (dict_get (co_stream_queues st)))"
    using assms(1) by (simp_all add: core_ok_def budget_ok_def)
  have "0 < dict_sum sb_undelivered_bytes (co_stream_backlogs st)"
    using assms(2,3) by (auto simp: over_backlog_def cap_ok_def sum split: option.splits)
  then obtain r b where r: "idlest_stream (co_stream_backlogs st) = Inr r"
      "(r, b) \<in> set (co_stream_backlogs st)" "0 < sb_undelivered_bytes b"
    using idlest_stream_ex by blast
  have b: "dict_get (co_stream_backlogs st) r = Some b" using dict_mem_get [OF ok r(2)] .
  then obtain q f where q: "dict_get (co_stream_queues st) r = Some q" "dict_get (co_completion_futures st) r = Some f"
      "r \<notin> submitting_ids st"
    using core_stream [OF assms(1), of r] r(3) by (auto simp: stream_ok_def split: option.splits)
  define st' where "st' = st\<lparr>co_stream_backlogs := dict_del r (co_stream_backlogs st),
      co_stream_backlog_bytes := co_stream_backlog_bytes st - sb_undelivered_bytes b,
      co_completion_futures := dict_del r (co_completion_futures st),
      co_failed_stream_count := Suc (co_failed_stream_count st),
      co_queue_objs := (co_queue_objs st)(q := [])\<rparr>"
  have "fail_idlest st = Inr (st', r, q)"
    by (simp add: fail_idlest_def dict_lookup_def r b q st'_def)
  moreover have "stream_ok (insert r F) st' r'" for r'
  proof (cases "r' = r")
    case True
    then show ?thesis using core_stream [OF assms(1), of r] q
      by (auto simp: stream_ok_def st'_def submitting_ids_def)
  next
    case False
    then have "dict_get (co_stream_queues st) r' \<noteq> Some q"
      by (rule queue_unshared [OF assms(1) q(1)])
    then show ?thesis using core_stream [OF assms(1), of r'] False
      by (auto simp: stream_ok_def st'_def submitting_ids_def request_is_over_def split: option.splits)
  qed
  then have "core_ok cf (insert r F) st'"
    using assms(1) ok inj sum b
    by (simp add: core_ok_def budget_ok_def admission_ok_def admission_count_def st'_def dict_sum_del)
  moreover have "co_frames st' = co_frames st" "co_requests st' = co_requests st" by (simp_all add: st'_def)
  ultimately show ?thesis by blast
qed

lemma enforce_backlog_ok:
  assumes "core_ok cf F st" and "cap_ok cf"
  shows "\<exists>st' xs. enforce_backlog cf st failed = Inr (st', failed @ xs) \<and> core_ok cf (F \<union> fst ` set xs) st' \<and>
    \<not> over_backlog cf st' \<and> co_frames st' = co_frames st \<and> co_requests st' = co_requests st"
  using assms
proof (induction cf st failed arbitrary: F rule: enforce_backlog.induct)
  case (1 cf st failed)
  show ?case
  proof (cases "over_backlog cf st")
    case False
    then show ?thesis using 1(2) by (auto simp: enforce_backlog.simps [of cf st])
  next
    case True
    from fail_idlest_ok [OF 1(2) True 1(3)] obtain st1 r q
      where s: "fail_idlest st = Inr (st1, r, q)" "core_ok cf (insert r F) st1"
        "co_frames st1 = co_frames st" "co_requests st1 = co_requests st" by blast
    from 1(1) [of _ st1 "(r, q)" "insert r F"] True s 1(3) obtain st' xs where
      e: "enforce_backlog cf st1 (failed @ [(r, q)]) = Inr (st', (failed @ [(r, q)]) @ xs)"
         "core_ok cf (insert r F \<union> fst ` set xs) st'" "\<not> over_backlog cf st'"
         "co_frames st' = co_frames st1" "co_requests st' = co_requests st1"
      by auto
    then have "enforce_backlog cf st failed = Inr (st', failed @ (r, q) # xs)"
      using True s(1) by (simp add: enforce_backlog.simps [of cf st])
    moreover have "core_ok cf (F \<union> fst ` set ((r, q) # xs)) st'" using e(2) by simp
    ultimately show ?thesis using e(3-5) s(3,4) by (intro exI [of _ st'] exI [of _ "(r, q) # xs"]) simp
  qed
qed

lemma core_put_counted:
  assumes "core_ok cf F st" and "dict_get (co_stream_backlogs st) r = Some b" and "r \<notin> submitting_ids st"
    and "dict_get (co_stream_queues st) r = Some q" and "\<not> is_failure m"
    and "sb_undelivered_bytes b' = sb_undelivered_bytes b + stream_message_payload_bytes m"
  shows "core_ok cf F (put_queue q m (st\<lparr>co_stream_backlogs := dict_set r b' (co_stream_backlogs st),
    co_stream_backlog_bytes := co_stream_backlog_bytes st + stream_message_payload_bytes m\<rparr>))"
    (is "core_ok cf F ?st")
proof -
  have inj: "inj_on (dict_get (co_stream_queues st)) (dom (dict_get (co_stream_queues st)))"
    using assms(1) by (simp add: core_ok_def budget_ok_def)
  have "stream_ok F ?st r'" for r'
  proof (cases "r' = r")
    case True
    then show ?thesis using core_stream [OF assms(1), of r] assms(2-6)
      by (auto simp: stream_ok_def submitting_ids_def put_queue_def)
  next
    case False
    then have "dict_get (co_stream_queues st) r' \<noteq> Some q"
      by (rule queue_unshared [OF assms(1,4)])
    then show ?thesis using core_stream [OF assms(1), of r'] False
      by (auto simp: stream_ok_def submitting_ids_def request_is_over_def put_queue_def split: option.splits)
  qed
  then show ?thesis using assms(1,2,6)
    by (simp add: core_ok_def budget_ok_def admission_ok_def admission_count_def put_queue_def dict_sum_set)
qed

lemma queue_stream_message_ok:
  assumes "core_ok cf F st" and "cap_ok cf" and "dict_has (co_stream_backlogs st) r"
    and "r \<notin> submitting_ids st" and "\<not> is_failure m"
  shows "\<exists>st' xs. queue_stream_message cf now r m st = Inr st' \<and> co_frames st' = FailStreams xs # co_frames st \<and>
    core_ok cf (F \<union> fst ` set xs) st' \<and> \<not> over_backlog cf st'"
proof -
  obtain b where b: "dict_get (co_stream_backlogs st) r = Some b" using assms(3) by (auto simp: dict_has_iff)
  then obtain q where q: "dict_get (co_stream_queues st) r = Some q"
    using core_stream [OF assms(1), of r] by (auto simp: stream_ok_def split: option.splits)
  define b' where "b' = (if sb_undelivered_bytes b = 0 then b\<lparr>sb_reader_idle_since_s := now\<rparr> else b)
    \<lparr>sb_undelivered_bytes := sb_undelivered_bytes b + stream_message_payload_bytes m\<rparr>"
  let ?st = "put_queue q m (st\<lparr>co_stream_backlogs := dict_set r b' (co_stream_backlogs st),
    co_stream_backlog_bytes := co_stream_backlog_bytes st + stream_message_payload_bytes m\<rparr>)"
  have "core_ok cf F ?st"
    by (rule core_put_counted [OF assms(1) b assms(4) q assms(5)]) (simp add: b'_def)
  from enforce_backlog_ok [OF this assms(2), of "[]"] obtain st1 xs where
    e: "enforce_backlog cf ?st [] = Inr (st1, xs)" "core_ok cf (F \<union> fst ` set xs) st1" "\<not> over_backlog cf st1"
       "co_frames st1 = co_frames ?st" by auto
  have "queue_stream_message cf now r m st = Inr (push_frame (FailStreams xs) st1)"
    using e(1) by (cases "sb_undelivered_bytes b = 0") (simp_all add: queue_stream_message_def dict_lookup_def b q b'_def Let_def)
  moreover have "core_ok cf (F \<union> fst ` set xs) (push_frame (FailStreams xs) st1)"
    using core_frames [OF e(2)] by (intro core_unrelated [OF e(2)]) (auto simp: push_frame_def submitting_ids_def)
  moreover have "\<not> over_backlog cf (push_frame (FailStreams xs) st1)"
    using e(3) by (rule over_backlog_le) (simp add: push_frame_def)
  ultimately show ?thesis using e(4) by (simp add: push_frame_def put_queue_def)
qed

section \<open>Every step keeps the invariant\<close>

text \<open>Most operations change neither the suspended calls of the completion loop nor the byte count.\<close>

definition quiet :: "('o, 's) coord \<Rightarrow> ('o, 's) coord \<Rightarrow> bool" where
  "quiet st st' \<longleftrightarrow> co_frames st' = co_frames st \<and> co_stream_backlog_bytes st' = co_stream_backlog_bytes st"

lemma quiet_refl [simp]: "quiet st st"
  by (simp add: quiet_def)

lemma quiet_trans: "quiet st st' \<Longrightarrow> quiet st' st'' \<Longrightarrow> quiet st st''"
  by (simp add: quiet_def)

lemma quiet_ops [simp]:
  "quiet st (set_future f v st)" "quiet st (put_queue q m st)" "quiet st (pop_request r st)" "quiet st (pop_partial r st)"
  "quiet st (update_info r obj g st)" "quiet st (reject_completion_future r e st)" "quiet st (put_stream r m st)"
  "quiet st (complete_future r out st)" "quiet st (snd (abort_request r st))" "quiet st (end_task t res st)"
  "quiet st (end_submit r f st)"
  by (auto simp: quiet_def set_future_def put_queue_def pop_request_def pop_partial_def update_info_def
      reject_completion_future_def put_stream_def complete_future_def abort_request_def end_task_def end_submit_def
      split: option.splits)

lemma coord_ok_quiet:
  assumes "coord_ok cf st" and "core_ok cf (failing_ids (co_frames st)) st'" and "quiet st st'"
  shows "coord_ok cf st'"
  using assms over_backlog_le [of cf st st'] by (simp add: coord_ok_def quiet_def)

lemma coord_ok_core: "coord_ok cf st \<Longrightarrow> core_ok cf (failing_ids (co_frames st)) st"
  by (simp add: coord_ok_def)

lemma core_ok_over:
  assumes "core_ok cf (insert r F) st" and "request_is_over r st"
  shows "core_ok cf F st"
proof -
  have "stream_ok F st r'" for r'
    using core_stream [OF assms(1), of r'] assms(2) by (auto simp: stream_ok_def split: option.splits)
  then show ?thesis using assms(1) by (simp add: core_ok_def)
qed

lemma core_frames_update:
  assumes "core_ok cf F st" and "list_all frame_ok frames"
  shows "core_ok cf F (st\<lparr>co_frames := frames\<rparr>)"
  using assms by (auto elim: core_unrelated simp: submitting_ids_def)

lemma core_sent [core_intros]: "core_ok cf F st \<Longrightarrow> core_ok cf F (st\<lparr>co_sent := xs\<rparr>)"
  using core_frames [of cf F st] by (auto elim: core_unrelated simp: submitting_ids_def)

lemma core_end_task [core_intros]: "core_ok cf F st \<Longrightarrow> core_ok cf F (end_task t res st)"
  using core_frames [of cf F st] by (auto elim: core_unrelated simp: submitting_ids_def end_task_def)

lemma core_end_submit [core_intros]: "core_ok cf F st \<Longrightarrow> core_ok cf F (end_submit r f st)"
  using core_frames [of cf F st] by (auto elim!: core_unrelated simp: submitting_ids_def end_submit_def)

lemma core_releasing [core_intros]: "core_ok cf F st \<Longrightarrow> core_ok cf F (st\<lparr>co_releasing := xs\<rparr>)"
  using core_frames [of cf F st] by (auto elim: core_unrelated simp: submitting_ids_def)

lemma core_closing [core_intros]: "core_ok cf F st \<Longrightarrow> core_ok cf F (st\<lparr>co_closing := xs\<rparr>)"
  using core_frames [of cf F st] by (auto elim: core_unrelated simp: submitting_ids_def)

lemma core_policy [core_intros]: "core_ok cf F st \<Longrightarrow> core_ok cf F (st\<lparr>co_policy := p\<rparr>)"
  using core_frames [of cf F st] by (auto elim: core_unrelated simp: submitting_ids_def)

lemma coord_push_frame:
  assumes "coord_ok cf st" and "frame_ok fr" and "frame_failures fr = []"
  shows "coord_ok cf (push_frame fr st)"
proof -
  note core = coord_ok_core [OF assms(1)]
  have "core_ok cf (failing_ids (co_frames st)) (push_frame fr st)"
    unfolding push_frame_def using core_frames_update [OF core] core_frames [OF core] assms(2) by simp
  moreover have "\<not> over_backlog cf (push_frame fr st)"
    by (rule over_backlog_le [of cf st]) (use assms(1) in \<open>simp_all add: coord_ok_def push_frame_def\<close>)
  ultimately show ?thesis using assms(3) by (simp add: coord_ok_def push_frame_def)
qed

lemma core_fail_completion:
  assumes "core_ok cf (insert (cm_request_id msg) F) st" and "\<not> cm_success msg"
    and "dict_get (co_requests st) (cm_request_id msg) = Some info"
  shows "core_ok cf F (fail_completion msg (ri_obj info) st)"
proof -
  let ?r = "cm_request_id msg"
  let ?st = "update_info ?r (ri_obj info) (\<lambda>i. i\<lparr>ri_state := FAILED, ri_error := cm_error msg\<rparr>) st"
  have "core_ok cf (insert ?r F) ?st" using assms(1) by (rule core_fail_info)
  moreover have "request_is_over ?r ?st" using assms(3) by (simp add: update_info_def request_is_over_def)
  ultimately have "core_ok cf F ?st" by (rule core_ok_over)
  from core_frames_update [OF this, of "AwaitBroadcast msg # co_frames ?st"] core_frames [OF this] assms(2)
  show ?thesis by (simp add: fail_completion_def push_frame_def)
qed

lemma coord_fail_completion:
  assumes "coord_ok cf st" and "\<not> cm_success msg"
  shows "coord_ok cf (fail_completion msg obj st)"
proof -
  let ?st = "update_info (cm_request_id msg) obj (\<lambda>i. i\<lparr>ri_state := FAILED, ri_error := cm_error msg\<rparr>) st"
  have "coord_ok cf ?st"
    by (rule coord_ok_quiet [OF assms(1) core_fail_info [OF coord_ok_core [OF assms(1)]]]) simp
  then show ?thesis using assms(2) by (simp add: fail_completion_def coord_push_frame)
qed

lemma coord_pop_frame:
  assumes "coord_ok cf st" and "co_frames st = fr # frames"
  shows "core_ok cf (fst ` set (frame_failures fr) \<union> failing_ids frames) (st\<lparr>co_frames := frames\<rparr>)"
    and "\<not> over_backlog cf (st\<lparr>co_frames := frames\<rparr>)" and "frame_ok fr" and "list_all frame_ok frames"
  using assms coord_ok_core [OF assms(1)] core_frames [OF coord_ok_core [OF assms(1)]]
    over_backlog_le [of cf st "st\<lparr>co_frames := frames\<rparr>"] core_frames_update [of cf "failing_ids (co_frames st)" st frames]
  by (simp_all add: coord_ok_def)

lemma active_stream_has_backlog:
  assumes "coord_ok cf st" and "co_frames st = []" and "dict_has (co_stream_queues st) r" and "\<not> request_is_over r st"
  shows "dict_has (co_stream_backlogs st) r"
  using core_stream [OF coord_ok_core [OF assms(1)], of r] assms(2-4)
  by (auto simp: stream_ok_def dict_has_iff split: option.splits)

lemma queue_stream_message_coord:
  assumes "coord_ok cf st" and "cap_ok cf" and "dict_has (co_stream_backlogs st) r"
    and "r \<notin> submitting_ids st" and "\<not> is_failure m"
  shows "\<exists>st'. queue_stream_message cf now r m st = Inr st' \<and> coord_ok cf st'"
  using queue_stream_message_ok [OF coord_ok_core [OF assms(1)] assms(2-5), of now]
  by (auto simp: coord_ok_def Un_commute)

lemma deliver_coord:
  assumes "coord_ok cf st" and "cap_ok cf" and "r \<notin> submitting_ids st" and "cm_success msg"
    and "dict_has (co_stream_queues st) r \<Longrightarrow> dict_has (co_stream_backlogs st) r"
  shows "\<exists>st'. (if dict_has (co_stream_queues st) r then queue_stream_message cf now r (Complete msg) st else Inr st)
    = Inr st' \<and> coord_ok cf st'"
  using assms queue_stream_message_coord [OF assms(1,2) _ assms(3), of "Complete msg" now] by auto

lemma finish_request_coord:
  assumes "coord_ok cf st"
  shows "coord_ok cf (finish_request r v st)" and "co_stream_queues (finish_request r v st) = co_stream_queues st"
    and "co_stream_backlogs (finish_request r v st) = co_stream_backlogs st"
    and "submitting_ids (finish_request r v st) = submitting_ids st"
proof -
  have "core_ok cf (failing_ids (co_frames st)) (finish_request r v st)"
    unfolding finish_request_def by (intro core_intros coord_ok_core assms)
  moreover have "quiet st (finish_request r v st)"
    unfolding finish_request_def by (rule quiet_trans [OF quiet_ops(8) quiet_ops(3)])
  ultimately show "coord_ok cf (finish_request r v st)" using coord_ok_quiet assms by blast
qed (auto simp: finish_request_def pop_request_def complete_future_def set_future_def submitting_ids_def split: option.splits)

lemma partial_update_coord:
  assumes "coord_ok cf st"
  shows "coord_ok cf (st\<lparr>co_partial_results := d\<rparr>)"
proof -
  have "core_ok cf (failing_ids (co_frames st)) (st\<lparr>co_partial_results := d\<rparr>)"
    using coord_ok_core [OF assms] core_frames [OF coord_ok_core [OF assms]]
    by (auto elim: core_unrelated simp: submitting_ids_def)
  then show ?thesis by (rule coord_ok_quiet [OF assms]) (simp add: quiet_def)
qed

lemma succeed_completion_coord:
  assumes "coord_ok cf st" and "cap_ok cf" and "co_frames st = []" and "cm_success msg"
    and "cm_request_id msg \<notin> submitting_ids st" and "\<not> request_is_over (cm_request_id msg) st"
  shows "\<exists>st'. succeed_completion cf now msg st = Inr st' \<and> coord_ok cf st'"
proof -
  let ?r = "cm_request_id msg"
  have has: "dict_has (co_stream_queues st) ?r \<Longrightarrow> dict_has (co_stream_backlogs st) ?r"
    using active_stream_has_backlog assms(1,3,6) by blast
  define d where "d = (case dict_get (co_partial_results st) ?r of None \<Rightarrow> [] | Some p \<Rightarrow> p)"
  define ps where "ps = dict_set (cm_from_stage msg) (cm_result msg) d"
  let ?st1 = "finish_request ?r (Single (cm_result msg)) st"
  let ?st2 = "st\<lparr>co_partial_results := dict_set ?r ps (co_partial_results st)\<rparr>"
  let ?st3 = "finish_request ?r (Merged ps) (pop_partial ?r ?st2)"
  have deliver: "\<exists>st'. (if dict_has (co_stream_queues s) ?r then queue_stream_message cf now ?r (Complete msg) s else Inr s)
      = Inr st' \<and> coord_ok cf st'"
    if "coord_ok cf s" "co_stream_queues s = co_stream_queues st" "co_stream_backlogs s = co_stream_backlogs st"
      "submitting_ids s = submitting_ids st" for s
    by (rule deliver_coord) (use that has assms in simp_all)
  have c2: "coord_ok cf ?st2" and c3: "coord_ok cf (pop_partial ?r ?st2)"
    using assms(1) by (simp_all add: partial_update_coord pop_partial_def)
  have same: "co_stream_queues (pop_partial ?r ?st2) = co_stream_queues st"
    "co_stream_backlogs (pop_partial ?r ?st2) = co_stream_backlogs st"
    "submitting_ids (pop_partial ?r ?st2) = submitting_ids st"
    by (simp_all add: pop_partial_def submitting_ids_def)
  have "\<exists>st'. (if dict_has (co_stream_queues ?st1) ?r then queue_stream_message cf now ?r (Complete msg) ?st1 else Inr ?st1)
      = Inr st' \<and> coord_ok cf st'"
    by (rule deliver) (use finish_request_coord [OF assms(1)] in simp_all)
  moreover have "\<exists>st'. (if dict_has (co_stream_queues ?st2) ?r then queue_stream_message cf now ?r (Complete msg) ?st2 else Inr ?st2)
      = Inr st' \<and> coord_ok cf st'"
    by (rule deliver) (use c2 in \<open>simp_all add: submitting_ids_def\<close>)
  moreover have "\<exists>st'. (if dict_has (co_stream_queues ?st3) ?r then queue_stream_message cf now ?r (Complete msg) ?st3 else Inr ?st3)
      = Inr st' \<and> coord_ok cf st'"
    by (rule deliver) (use finish_request_coord [OF c3] same in simp_all)
  ultimately show ?thesis
    using assms(1) unfolding succeed_completion_def Let_def d_def [symmetric] ps_def [symmetric] by (auto split: if_splits)
qed

lemma coord_unrelated:
  assumes "coord_ok cf st"
    and "co_requests st' = co_requests st" "co_completion_futures st' = co_completion_futures st"
      "co_stream_queues st' = co_stream_queues st" "co_stream_backlogs st' = co_stream_backlogs st"
      "co_stream_backlog_bytes st' = co_stream_backlog_bytes st" "co_next_object st \<le> co_next_object st'"
      "co_queue_objs st' = co_queue_objs st" "submitting_ids st' \<subseteq> submitting_ids st" "co_frames st' = co_frames st"
  shows "coord_ok cf st'"
proof (rule coord_ok_quiet [OF assms(1)])
  show "core_ok cf (failing_ids (co_frames st)) st'"
    using core_frames [OF coord_ok_core [OF assms(1)]] assms(10)
    by (intro core_unrelated [OF coord_ok_core [OF assms(1)] assms(2-9)]) simp
qed (simp add: quiet_def assms)

lemma coord_discarded: "coord_ok cf st \<Longrightarrow> coord_ok cf (st\<lparr>co_discarded := xs\<rparr>)"
  by (erule coord_unrelated) (simp_all add: submitting_ids_def)

lemma coord_session_outputs: "coord_ok cf st \<Longrightarrow> coord_ok cf (st\<lparr>co_session_outputs := xs\<rparr>)"
  by (erule coord_unrelated) (simp_all add: submitting_ids_def)

lemma coord_abort: "coord_ok cf st \<Longrightarrow> coord_ok cf (snd (abort_request r st))"
  using coord_ok_quiet [OF _ core_abort_request [OF coord_ok_core] quiet_ops(9)] by blast

lemma handle_completion_coord:
  assumes "coord_ok cf st" and "cap_ok cf" and "co_frames st = []" and "cm_request_id msg \<notin> submitting_ids st"
  shows "\<exists>st'. handle_completion cf now msg st = Inr st' \<and> coord_ok cf st'"
proof (cases "request_is_over (cm_request_id msg) st")
  case True
  then show ?thesis using coord_discarded [OF assms(1)]
    by (auto simp: handle_completion_def request_is_over_def Let_def split: option.splits)
next
  case False
  then obtain info where info: "dict_get (co_requests st) (cm_request_id msg) = Some info" "ri_state info \<noteq> FAILED"
    by (auto simp: request_is_over_def split: option.splits)
  define m where "m = msg\<lparr>cm_from_stage := rt_logical_name (cf_replica_topology cf) (cm_from_stage msg)\<rparr>"
  have m: "cm_request_id m = cm_request_id msg" "cm_success m = cm_success msg" "cm_error m = cm_error msg"
    by (simp_all add: m_def)
  have eq: "handle_completion cf now msg st =
     (if \<not> cm_success m \<and> admin_dropped_matches (cm_error m)
      then (case abort_request (cm_request_id msg) st of
              (Returned b, st) \<Rightarrow> Inr st
            | (Awaits t, st) \<Rightarrow> Inr (push_frame (AwaitAbort m (ri_obj info) t) st))
      else if \<not> cm_success m then Inr (fail_completion m (ri_obj info) st)
      else succeed_completion cf now m st)"
    using info unfolding m_def by (simp add: handle_completion_def Let_def)
  consider "\<not> cm_success m" "admin_dropped_matches (cm_error m)"
    | "\<not> cm_success m" "\<not> admin_dropped_matches (cm_error m)" | "cm_success m" by blast
  then show ?thesis
  proof cases
    case 1
    obtain call st1 where a: "abort_request (cm_request_id msg) st = (call, st1)" by fastforce
    with coord_abort [OF assms(1), of "cm_request_id msg"] have "coord_ok cf st1" by simp
    with a 1 eq show ?thesis by (cases call) (auto intro: coord_push_frame)
  next
    case 2
    with eq coord_fail_completion [OF assms(1), of m] show ?thesis by simp
  next
    case 3
    with succeed_completion_coord [OF assms(1,2,3), of m now] m assms(4) False eq show ?thesis by simp
  qed
qed

lemma handle_event_coord:
  assumes "coord_ok cf st" and "cap_ok cf" and "co_frames st = []" and "event_request m \<notin> submitting_ids st"
  shows "\<exists>st'. handle_event cf now m st = Inr st' \<and> coord_ok cf st'"
proof (cases m)
  case (Complete msg)
  then show ?thesis using handle_completion_coord [OF assms(1-3)] assms(4) by simp
next
  case (Stream msg)
  have "\<exists>st'. queue_stream_message cf now (sm_request_id msg) (Stream msg') st = Inr st' \<and> coord_ok cf st'"
    if "dict_has (co_stream_backlogs st) (sm_request_id msg)" for msg'
    by (rule queue_stream_message_coord) (use assms that Stream in simp_all)
  then show ?thesis using Stream assms(1) coord_session_outputs by (auto simp: handle_stream_def Let_def)
qed

lemma fail_stream_coord:
  fixes st :: "('o, 's) coord"
  assumes "core_ok cf (insert r (failing_ids (co_frames st))) st" and "\<not> over_backlog cf st"
  shows "\<exists>st'. fail_stream cf now r q st = Inr st' \<and> coord_ok cf st'"
proof (cases "request_is_over r st")
  case True
  let ?m = "Complete (failure r QUEUE_FULL_MESSAGE)"
  have "coord_ok cf st" using core_ok_over [OF assms(1) True] assms(2) by (simp add: coord_ok_def)
  then have "coord_ok cf (put_queue q ?m st)"
    by (rule coord_ok_quiet) (auto intro!: core_put_failure core_ok_over [OF assms(1) True] simp: failure_def)
  with True show ?thesis by (simp add: fail_stream_def)
next
  case False
  then obtain info where info: "dict_get (co_requests st) r = Some info" "ri_state info \<noteq> FAILED"
    by (auto simp: request_is_over_def split: option.splits)
  define m :: "'o complete_message" where "m = (failure r QUEUE_FULL_MESSAGE)
    \<lparr>cm_from_stage := rt_logical_name (cf_replica_topology cf) (cm_from_stage (failure r QUEUE_FULL_MESSAGE))\<rparr>"
  have m: "cm_request_id m = r" "\<not> cm_success m" by (simp_all add: m_def failure_def)
  have "fail_stream cf now r q st = Inr (fail_completion m (ri_obj info) st)"
    using False info
    by (simp add: fail_stream_def handle_completion_def m_def Let_def failure_def admin_dropped_matches_def
        QUEUE_FULL_MESSAGE_def ADMIN_DROPPED_MESSAGE_def)
  moreover have "core_ok cf (failing_ids (co_frames st)) (fail_completion m (ri_obj info) st)"
    by (rule core_fail_completion) (use assms(1) m info in simp_all)
  moreover have "co_frames (fail_completion m (ri_obj info) st) = AwaitBroadcast m # co_frames st"
    "co_stream_backlog_bytes (fail_completion m (ri_obj info) st) = co_stream_backlog_bytes st"
    by (auto simp: fail_completion_def push_frame_def update_info_def split: option.splits)
  ultimately show ?thesis using assms(2) over_backlog_le [of cf st "fail_completion m (ri_obj info) st"]
    by (simp add: coord_ok_def)
qed

lemma after_broadcast_coord:
  assumes "coord_ok cf st" and "\<not> cm_success msg"
  shows "coord_ok cf (after_broadcast msg ok st)"
proof -
  have "core_ok cf (failing_ids (co_frames st)) (after_broadcast msg ok st)"
    unfolding after_broadcast_def Let_def
    by (cases ok) (auto intro!: core_intros coord_ok_core [OF assms(1)] simp: assms(2))
  moreover have "quiet st (after_broadcast msg ok st)"
    unfolding after_broadcast_def Let_def
    by (rule quiet_trans [OF _ quiet_ops(7)], rule quiet_trans [OF _ quiet_ops(6)], rule quiet_trans [OF _ quiet_ops(4)])
      (simp add: quiet_def pop_request_def)
  ultimately show ?thesis using coord_ok_quiet assms(1) by blast
qed

lemma resume_coord:
  assumes "coord_ok cf st"
  shows "\<exists>st'. resume cf now ok st = Inr st' \<and> coord_ok cf st'"
proof (cases "co_frames st")
  case Nil
  then show ?thesis using assms by (simp add: resume_def)
next
  case (Cons fr frames)
  note pop = coord_pop_frame [OF assms Cons]
  show ?thesis
  proof (cases fr)
    case (AwaitAbort m obj t)
    with pop have c: "coord_ok cf (st\<lparr>co_frames := frames\<rparr>)" "\<not> cm_success m" by (simp_all add: coord_ok_def)
    with Cons AwaitAbort assms coord_fail_completion [OF c] show ?thesis
      by (auto simp: resume_def after_abort_def split: option.splits sum.splits)
  next
    case (AwaitBroadcast m)
    with pop have "coord_ok cf (st\<lparr>co_frames := frames\<rparr>)" "\<not> cm_success m" by (simp_all add: coord_ok_def)
    with Cons AwaitBroadcast after_broadcast_coord show ?thesis by (simp add: resume_def)
  next
    case (FailStreams xs)
    show ?thesis
    proof (cases xs)
      case Nil
      with pop FailStreams Cons show ?thesis by (simp add: resume_def coord_ok_def)
    next
      case (Cons x rest)
      obtain r q where x: "x = (r, q)" by (cases x)
      let ?st = "st\<lparr>co_frames := FailStreams rest # frames\<rparr>"
      have "core_ok cf (insert r (failing_ids (co_frames ?st))) ?st"
        using core_frames_update [OF pop(1), of "FailStreams rest # frames"] pop(4) FailStreams Cons x by simp
      moreover have "\<not> over_backlog cf ?st" using over_backlog_le [OF pop(2), of ?st] by simp
      ultimately show ?thesis using fail_stream_coord [of cf r ?st now q] Cons x FailStreams \<open>co_frames st = fr # frames\<close>
        by (simp add: resume_def)
    qed
  qed
qed

lemma track_request_quiet [simp]:
  "quiet st (snd (track_request cf r queue terminals counts now message st))"
  by (cases queue) (simp_all add: quiet_def track_request_def Let_def)

lemma submit_request_cases:
  obtains p where "snd (submit_request cf r arg queue target terminals bindings bypass now st) = st\<lparr>co_policy := p\<rparr>"
  | p t m where "snd (submit_request cf r arg queue target terminals bindings bypass now st)
        = snd (track_request cf r (map_option fst queue) t (\<not> bypass) now m (st\<lparr>co_policy := p\<rparr>))"
      "\<not> request_id_is_reserved r st" "bypass \<or> \<not> admission_full cf st"
proof (cases "co_fatal_error st \<noteq> None \<or> request_id_is_reserved r st \<or>
    (case queue of None \<Rightarrow> False | Some (q, maxsize) \<Rightarrow> 0 < maxsize) \<or> (\<not> bypass \<and> admission_full cf st)")
  case True
  then have "snd (submit_request cf r arg queue target terminals bindings bypass now st) = st\<lparr>co_policy := co_policy st\<rparr>"
    by (auto simp: submit_request_def)
  then show thesis by (rule that(1))
next
  case False
  obtain planned p where p: "plan_submit cf r (as_omni_request arg) target terminals bindings st = (planned, p)"
    by fastforce
  show thesis
  proof (cases planned)
    case (Inl e)
    then have "snd (submit_request cf r arg queue target terminals bindings bypass now st) = st\<lparr>co_policy := p\<rparr>"
      using False p by (auto simp: submit_request_def)
    then show thesis by (rule that(1))
  next
    case (Inr tm)
    then have "snd (submit_request cf r arg queue target terminals bindings bypass now st)
        = snd (track_request cf r (map_option fst queue) (fst tm) (\<not> bypass) now (snd tm) (st\<lparr>co_policy := p\<rparr>))"
      using False p by (cases tm) (auto simp: submit_request_def split: prod.splits)
    then show thesis by (rule that(2)) (use False in auto)
  qed
qed

lemma core_submit_request:
  assumes "core_ok cf F st"
    and "\<And>q n. queue = Some (q, n) \<Longrightarrow>
      q < co_next_object st \<and> co_queue_objs st q = [] \<and> q \<notin> ran (dict_get (co_stream_queues st))"
  shows "core_ok cf F (snd (submit_request cf r arg queue target terminals bindings bypass now st))
    \<and> quiet st (snd (submit_request cf r arg queue target terminals bindings bypass now st))"
proof (cases rule: submit_request_cases [of cf r arg queue target terminals bindings bypass now st])
  case (1 p)
  then show ?thesis using core_policy [OF assms(1)] by (simp add: quiet_def)
next
  case (2 p t m)
  let ?st = "st\<lparr>co_policy := p\<rparr>"
  have "core_ok cf F (snd (track_request cf r (map_option fst queue) t (\<not> bypass) now m ?st))"
    by (rule core_track_request [OF core_policy [OF assms(1)]])
      (use 2 assms(2) in \<open>auto simp: request_id_is_reserved_def admission_count_def admission_full_def\<close>)
  moreover have "quiet st (snd (track_request cf r (map_option fst queue) t (\<not> bypass) now m ?st))"
    by (rule quiet_trans [OF _ track_request_quiet]) (simp add: quiet_def)
  ultimately show ?thesis using 2(1) by simp
qed

lemma coord_submit_request:
  assumes "coord_ok cf st"
    and "\<And>q n. queue = Some (q, n) \<Longrightarrow>
      q < co_next_object st \<and> co_queue_objs st q = [] \<and> q \<notin> ran (dict_get (co_stream_queues st))"
  shows "coord_ok cf (snd (submit_request cf r arg queue target terminals bindings bypass now st))"
proof -
  let ?st' = "snd (submit_request cf r arg queue target terminals bindings bypass now st)"
  have "core_ok cf (failing_ids (co_frames st)) ?st' \<and> quiet st ?st'"
    by (rule core_submit_request [OF coord_ok_core [OF assms(1)]]) (rule assms(2))
  then show ?thesis using coord_ok_quiet [OF assms(1)] by blast
qed

lemma coord_queue_fresh:
  assumes "coord_ok cf st"
  shows "q \<ge> co_next_object st \<Longrightarrow> q \<notin> ran (dict_get (co_stream_queues st))"
    and "coord_ok cf (st\<lparr>co_next_object := Suc (co_next_object st),
        co_queue_objs := (co_queue_objs st)(co_next_object st := [])\<rparr>)" (is "coord_ok cf ?st")
proof -
  have below: "q < co_next_object st" if "dict_get (co_stream_queues st) r = Some q" for r q
    using core_stream [OF coord_ok_core [OF assms], of r] that by (simp add: stream_ok_def)
  then show "q \<ge> co_next_object st \<Longrightarrow> q \<notin> ran (dict_get (co_stream_queues st))"
    by (force simp: ran_def)
  have "stream_ok (failing_ids (co_frames st)) ?st r" for r
    using core_stream [OF coord_ok_core [OF assms], of r] below [of r]
    by (fastforce simp: stream_ok_def submitting_ids_def request_is_over_def split: option.splits)
  then have "core_ok cf (failing_ids (co_frames st)) ?st"
    using coord_ok_core [OF assms] by (simp add: core_ok_def budget_ok_def admission_ok_def admission_count_def)
  then show "coord_ok cf ?st" by (rule coord_ok_quiet [OF assms]) (simp add: quiet_def)
qed

lemma coord_submit: "coord_ok cf st \<Longrightarrow> coord_ok cf (snd (submit cf r arg now st))"
  using coord_submit_request [of cf st None] by (auto simp: submit_def split: sum.splits)

lemma coord_stream_open:
  assumes "coord_ok cf st"
  shows "coord_ok cf (snd (stream_open cf r arg now st))"
proof -
  let ?q = "co_next_object st"
  let ?st = "st\<lparr>co_next_object := Suc ?q, co_queue_objs := (co_queue_objs st)(?q := [])\<rparr>"
  have "coord_ok cf (snd (submit_request cf r arg (Some (?q, 0)) None None None False now ?st))"
    by (rule coord_submit_request [OF coord_queue_fresh(2) [OF assms]])
      (use coord_queue_fresh(1) [OF assms, of ?q] in auto)
  then show ?thesis using assms by (auto simp: stream_open_def Let_def split: sum.splits)
qed

lemma coord_release_submission: "coord_ok cf st \<Longrightarrow> coord_ok cf (release_submission r f st)"
proof -
  assume ok: "coord_ok cf st"
  let ?st = "set_future f FCancelled st"
  have "coord_ok cf (snd (abort_request r ?st))"
    by (intro coord_abort coord_ok_quiet [OF ok core_set_future [OF coord_ok_core [OF ok]]]) simp
  then have "coord_ok cf ((snd (abort_request r ?st))\<lparr>co_releasing := xs\<rparr>)" for xs
    by (rule coord_unrelated) (simp_all add: submitting_ids_def)
  then show ?thesis using ok by (auto simp: release_submission_def split: prod.splits)
qed

lemma coord_release_entry:
  assumes "coord_ok cf st"
  shows "coord_ok cf (release_entry r st)"
proof -
  have "0 \<le> (case dict_get (co_stream_backlogs st) r of None \<Rightarrow> 0 | Some b \<Rightarrow> sb_undelivered_bytes b)"
    using core_stream [OF coord_ok_core [OF assms], of r]
    by (auto simp: stream_ok_def counted_nonneg split: option.splits)
  then have "\<not> over_backlog cf (release_entry r st)"
    using assms over_backlog_le [of cf st "release_entry r st"] by (simp add: coord_ok_def release_entry_def)
  then show ?thesis using core_release_entry [OF coord_ok_core [OF assms], of r]
    by (simp add: coord_ok_def release_entry_def)
qed

lemma coord_release_end: "coord_ok cf st \<Longrightarrow> coord_ok cf (release_end r f t st)"
  using coord_unrelated [of cf st "st\<lparr>co_releasing := remove1 (r, f, t) (co_releasing st)\<rparr>"]
  by (simp add: release_end_def Let_def coord_release_entry submitting_ids_def)

lemma coord_closing: "coord_ok cf st \<Longrightarrow> coord_ok cf (st\<lparr>co_closing := xs\<rparr>)"
  by (erule coord_unrelated) (simp_all add: submitting_ids_def)

lemma coord_stream_close:
  assumes "coord_ok cf st"
  shows "coord_ok cf (stream_close r q st)"
proof -
  obtain call st1 where a: "abort_request r st = (call, st1)" by fastforce
  then have "coord_ok cf st1" using coord_abort [OF assms, of r] by simp
  then show ?thesis using assms a by (simp add: stream_close_def coord_closing)
qed

lemma coord_stream_close_end: "coord_ok cf st \<Longrightarrow> coord_ok cf (stream_close_end r q t st)"
  using coord_unrelated [of cf st "st\<lparr>co_closing := remove1 (r, q, t) (co_closing st)\<rparr>"]
  by (simp add: stream_close_end_def Let_def coord_release_entry submitting_ids_def)

lemma coord_end_submit: "coord_ok cf st \<Longrightarrow> coord_ok cf (end_submit r f st)"
  using coord_ok_quiet [OF _ core_end_submit [OF coord_ok_core] quiet_ops(11)] by blast

lemma coord_pop_request: "coord_ok cf st \<Longrightarrow> coord_ok cf (pop_request r st)"
  using coord_ok_quiet [OF _ core_pop_request [OF coord_ok_core] quiet_ops(3)] by blast

lemma coord_submit_sent:
  assumes "coord_ok cf st" and "(r, f, m) \<in> set (co_submitting st)"
  shows "coord_ok cf (submit_sent r f m st)"
proof -
  let ?F = "failing_ids (co_frames st)"
  let ?set = "\<lambda>st. case dict_get (co_requests st) r of
       None \<Rightarrow> st
     | Some info \<Rightarrow> st\<lparr>co_requests := dict_set r (info\<lparr>ri_state := RUNNING\<rparr>) (co_requests st)\<rparr>"
  have r: "r \<in> submitting_ids st" using assms(2) by (force simp: submitting_ids_def)
  have "core_ok cf ?F (?set st)"
    using core_set_request [OF coord_ok_core [OF assms(1)]] coord_ok_core [OF assms(1)] r
    by (auto split: option.splits)
  then have "core_ok cf ?F ((end_submit r f (?set st))\<lparr>co_sent := co_sent st @ [m]\<rparr>)"
    by (intro core_intros)
  moreover have "submit_sent r f m st = (end_submit r f (?set st))\<lparr>co_sent := co_sent st @ [m]\<rparr>"
    by (simp add: submit_sent_def end_submit_def Let_def split: option.splits)
  moreover have "quiet st (submit_sent r f m st)"
    by (auto simp: quiet_def submit_sent_def end_submit_def Let_def split: option.splits)
  ultimately show ?thesis using coord_ok_quiet [OF assms(1)] by simp
qed

lemma coord_run_abort:
  assumes "coord_ok cf st"
  shows "coord_ok cf (run_abort r t failed st)"
proof -
  have "core_ok cf (failing_ids (co_frames st)) (run_abort r t failed st)"
    unfolding run_abort_def Let_def using coord_ok_core [OF assms]
    by (cases failed; cases "dict_get (co_requests st) r") (auto intro!: core_intros simp: failure_def)
  moreover have "quiet st (run_abort r t failed st)"
  proof -
    let ?st = "st\<lparr>co_sent := co_sent st @ [AbortMessage r]\<rparr>"
    have "quiet ?st (end_task t (Inr True) (pop_partial r (pop_request r (put_stream r m
        (reject_completion_future r e ?st)))))" for m e
      by (meson quiet_trans quiet_ops)
    then show ?thesis unfolding run_abort_def Let_def
      by (cases failed; cases "dict_get (co_requests st) r") (auto simp: quiet_def end_task_def)
  qed
  ultimately show ?thesis using coord_ok_quiet [OF assms] by blast
qed

lemma coord_stream_next:
  assumes "coord_ok cf st" and "dict_get (co_stream_queues st) r = Some q" and "r \<notin> submitting_ids st"
  shows "coord_ok cf (snd (stream_next cf r q expected completed now st))"
proof (cases "co_queue_objs st q")
  case Nil
  then show ?thesis using assms(1) by (simp add: stream_next_def)
next
  case (Cons m ms)
  let ?F = "failing_ids (co_frames st)"
  note core = coord_ok_core [OF assms(1)]
  have other: "dict_get (co_stream_queues st) r' \<noteq> Some q" if "r' \<noteq> r" for r'
    by (rule queue_unshared [OF core assms(2) that])
  show ?thesis
  proof (cases "is_failure m \<or> dict_get (co_stream_backlogs st) r = None")
    case True
    let ?st = "st\<lparr>co_queue_objs := (co_queue_objs st)(q := ms)\<rparr>"
    have fail: "is_failure m" using True core_stream [OF core, of r] assms(2) Cons by (auto simp: stream_ok_def)
    then have "stream_ok ?F ?st r'" for r'
      using core_stream [OF core, of r'] core_stream [OF core, of r] assms(2) Cons other [of r']
      by (cases "r' = r") (auto simp: stream_ok_def submitting_ids_def request_is_over_def split: option.splits)
    then have "coord_ok cf ?st"
      using core by (intro coord_ok_quiet [OF assms(1)])
        (simp_all add: core_ok_def budget_ok_def admission_ok_def admission_count_def quiet_def)
    moreover have "snd (stream_next cf r q expected completed now st) = ?st"
      using fail Cons by (simp add: stream_next_def Let_def)
    ultimately show ?thesis by simp
  next
    case False
    then obtain b where b: "dict_get (co_stream_backlogs st) r = Some b" by auto
    define b' where "b' = b\<lparr>sb_undelivered_bytes := sb_undelivered_bytes b - stream_message_payload_bytes m,
      sb_reader_idle_since_s := now\<rparr>"
    let ?st = "st\<lparr>co_queue_objs := (co_queue_objs st)(q := ms),
      co_stream_backlogs := dict_set r b' (co_stream_backlogs st),
      co_stream_backlog_bytes := co_stream_backlog_bytes st - stream_message_payload_bytes m\<rparr>"
    have eq: "snd (stream_next cf r q expected completed now st) = ?st"
      using False Cons b by (simp add: stream_next_def b'_def Let_def split: prod.splits)
    have "stream_ok ?F ?st r'" for r'
      using core_stream [OF core, of r'] core_stream [OF core, of r] assms(2,3) Cons b False other [of r']
      by (cases "r' = r") (auto simp: stream_ok_def b'_def submitting_ids_def request_is_over_def split: option.splits)
    then have "core_ok cf ?F ?st"
      using core b by (simp add: core_ok_def budget_ok_def admission_ok_def admission_count_def dict_sum_set b'_def)
    moreover have "\<not> over_backlog cf ?st"
      by (rule over_backlog_le [of cf st]) (use assms(1) payload_bytes_nonneg [of m] in \<open>simp_all add: coord_ok_def\<close>)
    ultimately show ?thesis unfolding eq by (simp add: coord_ok_def)
  qed
qed

lemma core_fail_pending_one:
  "core_ok cf F st \<Longrightarrow> core_ok cf F (fail_pending_one message entry st)"
  unfolding fail_pending_one_def by (intro core_intros) (simp_all add: failure_def)

lemma quiet_fail_pending_one: "quiet st (fail_pending_one message entry st)"
  unfolding fail_pending_one_def by (meson quiet_trans quiet_ops)

lemma fail_pending_fold:
  assumes "core_ok cf F st"
  shows "core_ok cf F (fold (fail_pending_one message) entries st) \<and> quiet st (fold (fail_pending_one message) entries st)"
  using assms
proof (induction entries arbitrary: st)
  case (Cons e entries)
  from Cons.IH [OF core_fail_pending_one [OF Cons.prems, of message e]] show ?case
    using quiet_trans [OF quiet_fail_pending_one [of st message e]] by simp
qed simp

lemma coord_fail_pending:
  assumes "coord_ok cf st"
  shows "coord_ok cf (fail_pending_requests message st)"
proof -
  let ?F = "failing_ids (co_frames st)"
  let ?st0 = "st\<lparr>co_running := False, co_fatal_error := Some message\<rparr>"
  let ?st1 = "fold (fail_pending_one message) (co_requests ?st0) ?st0"
  let ?st2 = "?st1\<lparr>co_requests := [], co_partial_results := []\<rparr>"
  have "coord_ok cf ?st0"
    using assms by (rule coord_unrelated) (simp_all add: submitting_ids_def)
  then have c: "core_ok cf ?F ?st1" "quiet ?st0 ?st1"
    using fail_pending_fold [of cf ?F ?st0] coord_ok_core [of cf ?st0] by auto
  have "stream_ok ?F ?st2 r" for r
    using core_stream [OF c(1), of r]
    by (auto simp: stream_ok_def submitting_ids_def request_is_over_def split: option.splits)
  moreover have "admission_ok cf ?st2"
  proof -
    have "int 0 \<le> cap" if "cf_max_in_flight cf = Some cap" for cap
      using c(1) that by (fastforce simp: core_ok_def admission_ok_def)
    then show ?thesis by (simp add: admission_ok_def admission_count_def)
  qed
  ultimately have "core_ok cf ?F ?st2" using c(1) by (simp add: core_ok_def budget_ok_def)
  then have "coord_ok cf ?st2"
    by (rule coord_ok_quiet [OF assms]) (use c(2) in \<open>simp add: quiet_def\<close>)
  then show ?thesis by (simp add: fail_pending_requests_def)
qed

lemma coord_step_ok:
  assumes "coord_step cf st st'" and "coord_ok cf st" and "cap_ok cf"
  shows "coord_ok cf st'"
  using assms
proof (induction rule: coord_step.induct)
  case (event st m now st')
  with handle_event_coord [of cf st m now] show ?case by auto
next
  case (resume now ok st st')
  with resume_coord [of cf st now ok] show ?case by auto
next
  case (abort_done st t r)
  then show ?case unfolding on_abort_task_done_def
    by (auto elim!: coord_unrelated simp: submitting_ids_def)
next
  case (session_submit st)
  then show ?case using coord_submit_request [of cf st None] by auto
next
  case (register st name endpoint)
  then show ?case unfolding register_stage_def by (auto elim!: coord_unrelated simp: submitting_ids_def)
next
  case (start st)
  then show ?case unfolding Coordinator.start_def by (auto elim!: coord_unrelated simp: submitting_ids_def)
next
  case (session_handlers st handlers)
  then show ?case by (auto elim!: coord_unrelated simp: submitting_ids_def)
next
  case (session_reject st r e)
  then show ?case using coord_ok_quiet [OF _ core_reject [OF coord_ok_core] quiet_ops(6)] by blast
next
  case (session_settle st f v)
  then show ?case using coord_ok_quiet [OF _ core_set_future [OF coord_ok_core] quiet_ops(1)] by blast
qed (simp_all add: coord_submit coord_stream_open coord_submit_sent submit_failed_def submit_cancelled_def
    coord_release_submission coord_pop_request coord_end_submit coord_release_end coord_abort coord_run_abort
    coord_stream_next coord_stream_close coord_stream_close_end coord_fail_pending)

lemma coord_init_ok:
  assumes "coordinator_init cf policy = Inr st" and "cap_ok cf"
  shows "coord_ok cf st"
  using assms
  by (auto simp: coordinator_init_def coord_ok_def core_ok_def budget_ok_def stream_ok_def admission_ok_def
      admission_count_def over_backlog_def cap_ok_def inj_on_def dict_sum_def split: if_splits option.splits)

interpretation coord_sys: step_system "\<lambda>st. cap_ok cf \<and> (\<exists>policy. coordinator_init cf policy = Inr st)"
  "coord_step cf" "\<lambda>st. cap_ok cf \<and> coord_ok cf st" for cf
  by unfold_locales (auto intro: coord_init_ok coord_step_ok)

lemma coord_reachable:
  assumes "coordinator_init cf policy = Inr st0" and "cap_ok cf" and "(coord_step cf)\<^sup>*\<^sup>* st0 st"
  shows "coord_ok cf st"
  using coord_sys.inv_reachable assms by blast

section \<open>Properties\<close>

text \<open>
  C2. Nothing stops the completion loop: in every state the coordinator can reach, however submissions,
  aborts, releases, cap failures and readers interleave, the handler of the next stage event and every
  resumed part of it return without raising (no missing backlog, queue or future, no empty minimum), and
  a reader never finds its backlog gone while its queue still holds output.
\<close>

theorem completion_loop_never_raises:
  assumes "coordinator_init cf policy = Inr st0"
    and "\<And>cap. cf_max_total_backlog_bytes cf = Some cap \<Longrightarrow> 0 \<le> cap"
    and "(coord_step cf)\<^sup>*\<^sup>* st0 st"
  shows "(co_frames st = [] \<and> event_request m \<notin> submitting_ids st \<longrightarrow> (\<exists>st'. handle_event cf now m st = Inr st')) \<and>
    (\<exists>st'. resume cf now ok st = Inr st') \<and>
    (dict_get (co_stream_queues st) r = Some q \<longrightarrow>
       fst (stream_next cf r q expected completed now st) \<noteq> Raises (KeyError r))"
proof -
  have cap: "cap_ok cf" using assms(2) by (simp add: cap_ok_def)
  note ok = coord_reachable [OF assms(1) cap assms(3)]
  have "fst (stream_next cf r q expected completed now st) \<noteq> Raises (KeyError r)"
    if q: "dict_get (co_stream_queues st) r = Some q"
  proof -
    have "is_failure m \<or> dict_get (co_stream_backlogs st) r \<noteq> None" if "co_queue_objs st q = m # ms" for m ms
      using core_stream [OF coord_ok_core [OF ok], of r] q that by (auto simp: stream_ok_def split: option.splits)
    moreover have "failure_error m \<noteq> KeyError r" for m :: "'a event"
      by (cases m) (auto simp: queue_full_from_message_def)
    ultimately show ?thesis
      by (auto simp: stream_next_def Let_def split: list.splits option.splits prod.splits)
  qed
  then show ?thesis using handle_event_coord [OF ok cap] resume_coord [OF ok] by blast
qed

text \<open>
  A coordinator with one stage, a byte budget of four and one request in flight, and a stream on it whose
  submission has been sent.
\<close>

definition demo_config :: "(unit, round_robin) coord_config" where
  "demo_config = \<lparr>cf_entry_stage = ''tts'', cf_terminal_stages = {''tts''}, cf_resolver = None,
     cf_replica_topology = [], cf_process_plan = \<lparr>plan_processes = [], plan_stage_to_process = []\<rparr>,
     cf_bind = round_robin_bind, cf_max_in_flight = Some 1, cf_max_total_backlog_bytes = Some 4\<rparr>"

definition demo_start :: "(unit, round_robin) coord" where
  "demo_start = (case coordinator_init demo_config \<lparr>rr_counters = []\<rparr> of Inr st \<Rightarrow> st)"

definition demo_opened :: "(unit, round_robin) coord" where
  "demo_opened = snd (stream_open demo_config ''a'' (Raw ()) 0 (register_stage ''tts'' ''e'' demo_start))"

definition demo_sent :: "(unit, round_robin) coord" where
  "demo_sent = submit_sent ''a'' 1 (snd (snd (hd (co_submitting demo_opened)))) demo_opened"

definition demo_audio :: "byte list \<Rightarrow> unit event" where
  "demo_audio bs = Stream \<lparr>sm_request_id = ''a'', sm_from_stage = ''tts'', sm_chunk = BDict [(''audio'', FBytes bs)],
     sm_stage_id = None, sm_stage_name = None, sm_modality = None, sm_chunk_id = None\<rparr>"

lemma demo_init: "coordinator_init demo_config \<lparr>rr_counters = []\<rparr> = Inr demo_start"
  by (simp add: coordinator_init_def demo_start_def demo_config_def)

lemma demo_reach: "(coord_step demo_config)\<^sup>*\<^sup>* demo_start demo_sent"
proof -
  have "map (\<lambda>(r, f, m). (r, f)) (co_submitting demo_opened) = [(''a'', 1)]" by code_simp
  then obtain m where m: "co_submitting demo_opened = [(''a'', 1, m)]" by auto
  have "coord_step demo_config demo_start (register_stage ''tts'' ''e'' demo_start)" by (rule coord_step.register)
  moreover have "coord_step demo_config (register_stage ''tts'' ''e'' demo_start) demo_opened"
    unfolding demo_opened_def by (rule coord_step.stream_open)
  moreover have "coord_step demo_config demo_opened demo_sent"
    unfolding demo_sent_def using m by (auto intro: coord_step.sent)
  ultimately show ?thesis
    by (rule converse_rtranclp_into_rtranclp [OF _ converse_rtranclp_into_rtranclp [OF _ r_into_rtranclp]])
qed

lemma demo_cap: "cf_max_total_backlog_bytes demo_config = Some cap \<Longrightarrow> 0 \<le> cap"
  by (simp add: demo_config_def)

theorem completion_loop_never_raises_witness:
  "(\<exists>st'. handle_event demo_config 1 (demo_audio [1, 2, 3]) demo_sent = Inr st') \<and>
   (\<exists>st'. resume demo_config 1 True demo_sent = Inr st')"
proof -
  have "co_frames demo_sent = [] \<and> event_request (demo_audio [1, 2, 3]) \<notin> submitting_ids demo_sent" by code_simp
  then show ?thesis
    using completion_loop_never_raises [OF demo_init demo_cap demo_reach, of "demo_audio [1, 2, 3]" 1 True] by blast
qed

text \<open>
  C11. The undelivered bytes are counted exactly and bounded: in every reachable state each open stream's
  backlog is the number of payload bytes of the output its reader has not taken, the total is the sum of
  the backlogs, and it never exceeds the configured cap.
\<close>

theorem stream_backlog_exact:
  assumes "coordinator_init cf policy = Inr st0"
    and "\<And>cap. cf_max_total_backlog_bytes cf = Some cap \<Longrightarrow> 0 \<le> cap"
    and "(coord_step cf)\<^sup>*\<^sup>* st0 st"
  shows "co_stream_backlog_bytes st = dict_sum sb_undelivered_bytes (co_stream_backlogs st) \<and>
    (dict_get (co_stream_backlogs st) r = Some b \<longrightarrow>
       (\<exists>q. dict_get (co_stream_queues st) r = Some q \<and> sb_undelivered_bytes b =
          sum_list (map stream_message_payload_bytes (filter (\<lambda>m. \<not> is_failure m) (co_queue_objs st q))))) \<and>
    (cf_max_total_backlog_bytes cf = Some cap \<longrightarrow> co_stream_backlog_bytes st \<le> cap)"
proof -
  have "cap_ok cf" using assms(2) by (simp add: cap_ok_def)
  note ok = coord_reachable [OF assms(1) this assms(3)]
  have "\<exists>q. dict_get (co_stream_queues st) r = Some q \<and> sb_undelivered_bytes b = counted (co_queue_objs st q)"
    if "dict_get (co_stream_backlogs st) r = Some b"
    using core_stream [OF coord_ok_core [OF ok], of r] that by (auto simp: stream_ok_def split: option.splits)
  moreover have "budget_ok st" "\<not> over_backlog cf st" using ok by (simp_all add: coord_ok_def core_ok_def)
  ultimately show ?thesis by (auto simp: budget_ok_def over_backlog_def counted_def)
qed

definition demo_heard :: "(unit, round_robin) coord" where
  "demo_heard = (case handle_event demo_config 1 (demo_audio [1, 2, 3]) demo_sent of Inr st \<Rightarrow> st)"

lemma demo_heard_reach: "(coord_step demo_config)\<^sup>*\<^sup>* demo_start demo_heard"
proof (rule rtranclp.rtrancl_into_rtrancl [OF demo_reach])
  have "case handle_event demo_config 1 (demo_audio [1, 2, 3]) demo_sent of Inr st \<Rightarrow> True | Inl _ \<Rightarrow> False"
    by code_simp
  then have "handle_event demo_config 1 (demo_audio [1, 2, 3]) demo_sent = Inr demo_heard"
    by (auto simp: demo_heard_def split: sum.splits)
  moreover have "co_frames demo_sent = [] \<and> event_request (demo_audio [1, 2, 3]) \<notin> submitting_ids demo_sent" by code_simp
  ultimately show "coord_step demo_config demo_sent demo_heard" by (blast intro: coord_step.event)
qed

theorem stream_backlog_exact_witness:
  "co_stream_backlog_bytes demo_heard = 3 \<and>
   co_stream_backlog_bytes demo_heard = dict_sum sb_undelivered_bytes (co_stream_backlogs demo_heard) \<and>
   co_stream_backlog_bytes demo_heard \<le> 4"
proof -
  have "cf_max_total_backlog_bytes demo_config = Some 4" by (simp add: demo_config_def)
  moreover have "co_stream_backlog_bytes demo_heard = 3" by code_simp
  ultimately show ?thesis
    using stream_backlog_exact [OF demo_init demo_cap demo_heard_reach, where cap = 4] by blast
qed

text \<open>
  C18. Admission is bounded: the requests that hold an admission slot never exceed \<open>max_in_flight\<close>, and a
  submission that would take another one is refused with the queue-full error and changes nothing.
\<close>

theorem admission_bounded:
  assumes "coordinator_init cf policy = Inr st0"
    and "\<And>cap. cf_max_total_backlog_bytes cf = Some cap \<Longrightarrow> 0 \<le> cap"
    and "(coord_step cf)\<^sup>*\<^sup>* st0 st" and "cf_max_in_flight cf = Some cap"
  shows "int (length (filter ri_counts_toward_admission (dict_values (co_requests st)))) \<le> cap \<and>
    (int (admission_count st) = cap \<and> co_fatal_error st = None \<and> \<not> request_id_is_reserved r st \<longrightarrow>
       submit_request cf r arg None target terminals bindings False now st = (Inl QueueFullError, st))"
proof -
  have "cap_ok cf" using assms(2) by (simp add: cap_ok_def)
  from coord_ok_core [OF coord_reachable [OF assms(1) this assms(3)]] assms(4) show ?thesis
    by (auto simp: core_ok_def admission_ok_def admission_count_def submit_request_def admission_full_def)
qed

theorem admission_bounded_witness:
  "int (length (filter ri_counts_toward_admission (dict_values (co_requests demo_sent)))) \<le> 1 \<and>
   submit_request demo_config ''b'' (Raw ()) None None None None False 0 demo_sent = (Inl QueueFullError, demo_sent)"
proof -
  have full: "cf_max_in_flight demo_config = Some 1" by (simp add: demo_config_def)
  have "int (admission_count demo_sent) = 1 \<and> co_fatal_error demo_sent = None \<and> \<not> request_id_is_reserved ''b'' demo_sent"
    by code_simp
  then show ?thesis using admission_bounded [OF demo_init demo_cap demo_reach full] by blast
qed

section \<open>Several terminal stages\<close>

abbreviation logical_from :: "('o, 's) coord_config \<Rightarrow> 'o complete_message \<Rightarrow> string" where
  "logical_from cf m \<equiv> rt_logical_name (cf_replica_topology cf) (cm_from_stage m)"

abbreviation terminal_results :: "('o, 's) coord_config \<Rightarrow> 'o complete_message list \<Rightarrow> (string, 'o body) dict" where
  "terminal_results cf ms \<equiv> map (\<lambda>m. (logical_from cf m, cm_result m)) ms"

text \<open>The state of a request that waits for several terminals, none of them done yet.\<close>

definition awaits_terminals ::
  "string \<Rightarrow> string set \<Rightarrow> nat \<Rightarrow> ('o, 's) coord \<Rightarrow> bool" where
  "awaits_terminals r T f st \<longleftrightarrow>
     (\<exists>info. dict_get (co_requests st) r = Some info \<and> ri_state info \<noteq> FAILED \<and> ri_terminal_stages info = Some T) \<and>
     dict_get (co_completion_futures st) r = Some f \<and> co_future_objs st f = Waiting \<and>
     \<not> dict_has (co_stream_queues st) r"

lemma handle_terminal:
  assumes "awaits_terminals r T f st" and "1 < card T"
    and "cm_request_id m = r" "cm_success m" "logical_from cf m \<in> T"
  defines "ps \<equiv> dict_set (logical_from cf m) (cm_result m) (case dict_get (co_partial_results st) r of None \<Rightarrow> [] | Some p \<Rightarrow> p)"
  shows "\<not> T \<subseteq> set (dict_keys ps) \<Longrightarrow> handle_completion cf now m st
      = Inr (st\<lparr>co_partial_results := dict_set r ps (co_partial_results st)\<rparr>)"
    and "T \<subseteq> set (dict_keys ps) \<Longrightarrow> \<exists>st'. handle_completion cf now m st = Inr st' \<and>
      co_future_objs st' f = FResult (Merged ps) \<and> dict_get (co_requests st') r = None \<and>
      dict_get (co_partial_results st') r = None"
proof -
  obtain info where info: "dict_get (co_requests st) r = Some info" "ri_state info \<noteq> FAILED" "ri_terminal_stages info = Some T"
    and f: "dict_get (co_completion_futures st) r = Some f" "co_future_objs st f = Waiting" "\<not> dict_has (co_stream_queues st) r"
    using assms(1) unfolding awaits_terminals_def by blast
  let ?st = "st\<lparr>co_partial_results := dict_set r ps (co_partial_results st)\<rparr>"
  let ?done = "finish_request r (Merged ps) (pop_partial r ?st)"
  have "expected_terminal_stages cf r st = T" using info by (simp add: expected_terminal_stages_def)
  moreover have "\<not> dict_has (co_stream_queues ?done) r"
    using f by (simp add: finish_request_def pop_request_def pop_partial_def complete_future_def set_future_def)
  moreover have "T \<noteq> {}" "\<not> card T \<le> 1" using assms(2,5) by auto
  ultimately have eq: "handle_completion cf now m st = Inr (if T \<subseteq> set (dict_keys ps) then ?done else ?st)"
    using info f assms(3-5)
    by (simp add: handle_completion_def succeed_completion_def Let_def ps_def)
  then show "\<not> T \<subseteq> set (dict_keys ps) \<Longrightarrow> handle_completion cf now m st = Inr ?st" by simp
  have "co_future_objs ?done f = FResult (Merged ps)" "dict_get (co_requests ?done) r = None"
    "dict_get (co_partial_results ?done) r = None"
    using f by (simp_all add: finish_request_def pop_request_def pop_partial_def complete_future_def set_future_def)
  with eq show "T \<subseteq> set (dict_keys ps) \<Longrightarrow> \<exists>st'. handle_completion cf now m st = Inr st' \<and>
      co_future_objs st' f = FResult (Merged ps) \<and> dict_get (co_requests st') r = None \<and>
      dict_get (co_partial_results st') r = None" by simp
qed

lemma handle_terminals:
  assumes "awaits_terminals r T f st" and "1 < card T" and "dict_get (co_partial_results st) r = None"
    and "\<forall>m \<in> set ms. cm_request_id m = r \<and> cm_success m \<and> logical_from cf m \<in> T"
    and "distinct (map (logical_from cf) ms)" and "set (map (logical_from cf) ms) \<subset> T"
  shows "\<exists>st'. fold_r (handle_completion cf now) ms st = Inr st' \<and> awaits_terminals r T f st' \<and>
    dict_get (co_partial_results st') r = (if ms = [] then None else Some (terminal_results cf ms))"
  using assms(4-6)
proof (induction ms rule: rev_induct)
  case Nil
  then show ?case using assms(1,3) by simp
next
  case (snoc m ms)
  then obtain st1 where st1: "fold_r (handle_completion cf now) ms st = Inr st1" "awaits_terminals r T f st1"
    "dict_get (co_partial_results st1) r = (if ms = [] then None else Some (terminal_results cf ms))"
    by (auto simp: psubset_eq)
  let ?p = "terminal_results cf ms"
  have p: "(case dict_get (co_partial_results st1) r of None \<Rightarrow> [] | Some p \<Rightarrow> p) = ?p" using st1(3) by simp
  have "\<not> dict_has ?p (logical_from cf m)"
    using snoc.prems(2) by (auto simp: dict_has_def)
  then have ps: "dict_set (logical_from cf m) (cm_result m) ?p = terminal_results cf (ms @ [m])"
    by (simp add: dict_set_new)
  have keys: "\<not> T \<subseteq> set (dict_keys (terminal_results cf (ms @ [m])))"
    using snoc.prems(3) by (auto simp: comp_def)
  have m: "cm_request_id m = r" "cm_success m" "logical_from cf m \<in> T" using snoc.prems(1) by auto
  from handle_terminal(1) [OF st1(2) assms(2) m, of now] p ps keys
  have "handle_completion cf now m st1 =
      Inr (st1\<lparr>co_partial_results := dict_set r (terminal_results cf (ms @ [m])) (co_partial_results st1)\<rparr>)"
    by simp
  moreover have "awaits_terminals r T f (st1\<lparr>co_partial_results := d\<rparr>)" for d
    using st1(2) by (simp add: awaits_terminals_def)
  ultimately show ?case using st1(1) by (simp add: fold_r_append)
qed

lemma handle_last_terminal:
  assumes "awaits_terminals r T f st" and "1 < card T"
    and "(case dict_get (co_partial_results st) r of None \<Rightarrow> [] | Some p \<Rightarrow> p) = terminal_results cf ms"
    and "cm_request_id m = r" "cm_success m" "distinct (map (logical_from cf) (ms @ [m]))"
    and "set (map (logical_from cf) (ms @ [m])) = T"
  shows "\<exists>st'. handle_completion cf now m st = Inr st' \<and>
    co_future_objs st' f = FResult (Merged (terminal_results cf (ms @ [m]))) \<and>
    dict_get (co_requests st') r = None \<and> dict_get (co_partial_results st') r = None"
proof -
  have "\<not> dict_has (terminal_results cf ms) (logical_from cf m)"
    using assms(6) by (auto simp: dict_has_def)
  then have "dict_set (logical_from cf m) (cm_result m) (terminal_results cf ms) = terminal_results cf (ms @ [m])"
    by (simp add: dict_set_new)
  moreover have "T \<subseteq> set (dict_keys (terminal_results cf (ms @ [m])))"
    using assms(7) by (auto simp: comp_def)
  ultimately show ?thesis
    using handle_terminal(2) [OF assms(1,2,4,5), of cf now] assms(3,7) by auto
qed


definition demo_two :: "(unit, round_robin) coord" where
  "demo_two = snd (submit_request demo_config ''b'' (Raw ()) None None (Some {''tts'', ''txt''}) None True 0 demo_sent)"

definition demo_complete :: "string \<Rightarrow> unit complete_message" where
  "demo_complete stage = \<lparr>cm_request_id = ''b'', cm_from_stage = stage, cm_success = True, cm_result = BObj (), cm_error = None\<rparr>"


end
