(* ===== verification/Sessions.thy ===== *)
theory Sessions
  imports Delivery Topology
begin

text \<open>
  The coordinator's side of a session over a fixed stage route,
  \<^verbatim>\<open>sglang_omni/pipeline/sessions.py\<close>: admission of input, the pump that sends it to the
  owners in order, controls with their barriers, the output budget, delivery through the pacer, and the
  close with its cleanup. One asyncio task runs between suspensions, so each definition below is one such
  part; the sends themselves belong to the coordinator and are steps that succeed or fail. The msgpack
  codec is an argument, as in the protocol. Profiler events are left out.
\<close>

section \<open>Data\<close>

record pending_chunk =
  pc_chunk :: timed_chunk
  pc_encoded_bytes :: int
  pc_request_id :: string
  pc_continues :: bool

datatype flight = Accepted | Submitted

text \<open>
  A session. \<open>se_in_flight\<close> is \<open>in_flight_append\<close> with the chunk the pump holds; a barrier is the input
  number a control arrived at and the control's identity. The last three fields record what left the
  session: the inputs sent, the outputs handed to the consumer, and the turn ends returned as controls.
\<close>

record session =
  se_identity :: session_identity
  se_stages :: "string list"
  se_limits :: session_limits
  se_is_node :: bool
  se_opened :: "string list"
  se_pending :: "pending_chunk list"
  se_pending_bytes :: int
  se_pending_count :: int
  se_control_barriers :: "(nat \<times> nat) list"
  se_next_barrier :: nat
  se_in_flight :: "(pending_chunk \<times> flight) option"
  se_submitted_appends :: "(string, timed_chunk) dict"
  se_outputs :: "budgeted list"
  se_output_bytes :: int
  se_pacer :: "pacer option"
  se_next_input :: nat
  se_next_output :: nat
  se_next_delivered :: nat
  se_modality_end_ms :: "(string, rat) dict"
  se_ended_modalities :: "string list"
  se_is_closing :: bool
  se_is_closed :: bool
  se_has_output_consumer :: bool
  se_error :: "error option"
  se_cleanup_error :: "error option"
  se_sent :: "timed_chunk list"
  se_delivered :: "output_chunk list"
  se_returned :: "timed_chunk list"

definition session_init ::
  "session_identity \<Rightarrow> string list \<Rightarrow> session_limits \<Rightarrow> bool \<Rightarrow> rat \<Rightarrow> session" where
  "session_init identity stages limits is_node lead_ms =
     \<lparr>se_identity = identity, se_stages = stages, se_limits = limits, se_is_node = is_node, se_opened = [],
      se_pending = [], se_pending_bytes = 0, se_pending_count = 0, se_control_barriers = [], se_next_barrier = 0,
      se_in_flight = None, se_submitted_appends = [], se_outputs = [], se_output_bytes = 0,
      se_pacer = (if is_node then None else Some (pacer_init lead_ms False)), se_next_input = 0, se_next_output = 0,
      se_next_delivered = 0, se_modality_end_ms = [], se_ended_modalities = [], se_is_closing = False,
      se_is_closed = False, se_has_output_consumer = False, se_error = None, se_cleanup_error = None,
      se_sent = [], se_delivered = [], se_returned = []\<rparr>"

section \<open>Input\<close>

definition check_timing :: "pyfloat \<Rightarrow> pyfloat \<Rightarrow> string \<Rightarrow> (string, rat) dict option \<Rightarrow> unit result" where
  "check_timing t_start duration modality ends =
     (case (t_start, duration) of
        (Fin s, Fin d) \<Rightarrow>
          if d < 0 then Inl (ValueError ''input timing must be finite with a non-negative duration'')
          else (case ends of
                  None \<Rightarrow> Inr ()
                | Some ends \<Rightarrow>
                    if s < (case dict_get ends modality of None \<Rightarrow> 0 | Some e \<Rightarrow> e)
                    then Inl (ValueError ''input timing overlaps or moves backwards'') else Inr ())
      | _ \<Rightarrow> Inl (ValueError ''input timing must be finite with a non-negative duration''))"

definition admit_input ::
  "(timed_chunk \<Rightarrow> byte list) \<Rightarrow> (byte list \<Rightarrow> timed_chunk result) \<Rightarrow> timed_chunk \<Rightarrow> session_limits \<Rightarrow>
   (string, rat) dict \<Rightarrow> string list \<Rightarrow> (timed_chunk \<times> int) result" where
  "admit_input packb unpackb chunk limits ends ended =
     (if tc_modality chunk \<in> set ended then Inl (ValueError ''input after EOS'')
      else
        bind_r (case tc_payload chunk of
                  PBytes _ \<Rightarrow> Inr (chunk, wire_size packb chunk)
                | _ \<Rightarrow> bind_r (unpackb (packb chunk)) (\<lambda>copy. Inr (copy, int (length (packb chunk)))))
          (\<lambda>(chunk, encoded_bytes).
            if encoded_bytes > max_chunk_bytes limits then Inl (ValueError ''max_chunk_bytes'')
            else if \<not> dict_has ends (tc_modality chunk) \<and> length ends \<ge> max_modalities limits then Inl QueueFullError
            else Inr (chunk, encoded_bytes)))"

fun finite_value :: "pyfloat \<Rightarrow> rat" where
  "finite_value (Fin x) = x"
| "finite_value NonFinite = 0"

text \<open>
  \<open>append_session\<close> on a route's session. The chunk's timing is what arrived, as Python floats; once it
  has been checked to be finite the chunk carries it.
\<close>

definition append_session ::
  "(timed_chunk \<Rightarrow> byte list) \<Rightarrow> (byte list \<Rightarrow> timed_chunk result) \<Rightarrow> timed_chunk \<Rightarrow> pyfloat \<Rightarrow> pyfloat \<Rightarrow> bool \<Rightarrow>
   string \<Rightarrow> session \<Rightarrow> (int \<times> session) result" where
  "append_session packb unpackb chunk t_start duration continues request_id st =
     (if se_is_closing st \<or> se_is_closed st then Inl (RuntimeError ''session is closing'')
      else if tc_seq chunk \<noteq> int (se_next_input st)
      then Inl (ValueError ''input seq must be contiguous within an open index'')
      else
        bind_r (check_timing t_start duration (tc_modality chunk)
                  (if se_is_node st then None else Some (se_modality_end_ms st))) (\<lambda>_.
        bind_r (admit_input packb unpackb
                  (chunk\<lparr>tc_t_start_ms := finite_value t_start, tc_duration_ms := finite_value duration\<rparr>)
                  (se_limits st) (se_modality_end_ms st) (se_ended_modalities st))
          (\<lambda>(chunk, encoded_bytes).
            if se_pending_count st \<ge> max_pending_chunks (se_limits st) \<or>
               se_pending_bytes st + encoded_bytes > max_pending_bytes (se_limits st)
            then Inl QueueFullError
            else
              Inr (tc_seq chunk,
                st\<lparr>se_pending := se_pending st @ [\<lparr>pc_chunk = chunk, pc_encoded_bytes = encoded_bytes,
                     pc_request_id = request_id, pc_continues = continues\<rparr>],
                   se_pending_count := se_pending_count st + 1,
                   se_pending_bytes := se_pending_bytes st + encoded_bytes,
                   se_next_input := Suc (se_next_input st),
                   se_modality_end_ms := dict_set (tc_modality chunk) (tc_t_start_ms chunk + tc_duration_ms chunk)
                                           (se_modality_end_ms st),
                   se_ended_modalities := (if tc_eos chunk \<and> \<not> se_is_node st
                                           then List.insert (tc_modality chunk) (se_ended_modalities st)
                                           else se_ended_modalities st),
                   se_pacer := (if tc_eos chunk then map_option end_input (se_pacer st) else se_pacer st)\<rparr>))))"

section \<open>Output\<close>

definition session_output :: "session \<Rightarrow> int \<Rightarrow> timed_chunk \<Rightarrow> output_kind \<Rightarrow> output_chunk" where
  "session_output st input_seq chunk kind =
     \<lparr>oc_identity = se_identity st, oc_seq = int (se_next_output st), oc_input_seq = input_seq,
      oc_modality = tc_modality chunk, oc_t_start_ms = tc_t_start_ms chunk, oc_duration_ms = tc_duration_ms chunk,
      oc_payload = tc_payload chunk, oc_format = tc_format chunk, oc_eos = tc_eos chunk, oc_turn = tc_turn chunk,
      oc_kind = kind\<rparr>"

definition emit_session_output ::
  "(output_chunk \<Rightarrow> byte list) \<Rightarrow> int \<Rightarrow> timed_chunk \<Rightarrow> output_kind \<Rightarrow> session \<Rightarrow> session result" where
  "emit_session_output packb input_seq chunk kind st =
     (if se_is_closing st then Inr st
      else
        let out = session_output st input_seq chunk kind; sz = wire_size_out packb out
        in if int (length (se_outputs st)) \<ge> max_output_chunks (se_limits st) \<or>
              se_output_bytes st + sz > max_output_bytes (se_limits st)
           then Inl SessionOutputBudgetError
           else Inr (st\<lparr>se_outputs := se_outputs st @ [(out, sz)], se_output_bytes := se_output_bytes st + sz,
                        se_next_output := Suc (se_next_output st)\<rparr>))"

text \<open>An output as the chunk a control operation receives, and a released turn end that goes back to the route.\<close>

definition output_as_chunk :: "output_chunk \<Rightarrow> timed_chunk" where
  "output_as_chunk out =
     \<lparr>tc_modality = oc_modality out, tc_t_start_ms = oc_t_start_ms out, tc_duration_ms = oc_duration_ms out,
      tc_seq = 0, tc_payload = oc_payload out, tc_format = oc_format out, tc_eos = oc_eos out, tc_turn = oc_turn out\<rparr>"

definition return_turn_end :: "output_chunk \<Rightarrow> session \<Rightarrow> session result" where
  "return_turn_end out st =
     bind_r (oc_control_type out) (\<lambda>ctl.
       Inr (if ctl = Some TURN_DONE then st\<lparr>se_returned := se_returned st @ [output_as_chunk out]\<rparr> else st))"

text \<open>
  The rounds of the consumer's loop in \<open>session_outputs\<close>: taking an output of a session without a pacer;
  offering one to the pacer; releasing what is due; handing a released one over, numbered.
\<close>

definition consumer_start :: "session \<Rightarrow> session result" where
  "consumer_start st =
     (if se_has_output_consumer st then Inl (RuntimeError ''session already has an output consumer'')
      else Inr (st\<lparr>se_has_output_consumer := True\<rparr>))"

definition take_output :: "session \<Rightarrow> session" where
  "take_output st =
     (case se_outputs st of
        (out, sz) # rest \<Rightarrow>
          if se_pacer st = None \<and> \<not> se_is_closing st
          then st\<lparr>se_outputs := rest, se_output_bytes := se_output_bytes st - sz, se_delivered := se_delivered st @ [out]\<rparr>
          else st
      | [] \<Rightarrow> st)"

definition offer_output :: "session \<Rightarrow> session result" where
  "offer_output st =
     (case (se_outputs st, se_pacer st) of
        ((out, sz) # rest, Some p) \<Rightarrow>
          if se_is_closing st then Inr st
          else bind_r (offer out sz p) (\<lambda>(dropped, p).
                 Inr (st\<lparr>se_outputs := rest, se_output_bytes := se_output_bytes st - dropped, se_pacer := Some p\<rparr>))
      | _ \<Rightarrow> Inr st)"

definition release_output :: "(output_chunk \<Rightarrow> byte list) \<Rightarrow> rat \<Rightarrow> session \<Rightarrow> session result" where
  "release_output packb now st =
     (case se_pacer st of
        None \<Rightarrow> Inr st
      | Some p \<Rightarrow> bind_r (release packb now p) (\<lambda>(p, released).
          Inr (st\<lparr>se_pacer := Some (p\<lparr>dp_unsent := dp_unsent p @ released\<rparr>)\<rparr>)))"

definition send_output :: "session \<Rightarrow> session result" where
  "send_output st =
     (case se_pacer st of
        None \<Rightarrow> Inr st
      | Some p \<Rightarrow>
          (case dp_unsent p of
             [] \<Rightarrow> Inr st
           | (out, sz) # rest \<Rightarrow>
               if se_is_closing st then Inr st
               else
                 bind_r (return_turn_end out (st\<lparr>se_pacer := Some (p\<lparr>dp_unsent := rest\<rparr>),
                                                  se_output_bytes := se_output_bytes st - sz\<rparr>)) (\<lambda>st.
                   Inr (st\<lparr>se_next_delivered := Suc (se_next_delivered st),
                           se_delivered := se_delivered st @ [out\<lparr>oc_seq := int (se_next_delivered st)\<rparr>]\<rparr>))))"

section \<open>Closing\<close>

definition begin_session_close :: "session \<Rightarrow> session" where
  "begin_session_close st =
     st\<lparr>se_is_closing := True, se_outputs := [],
        se_pacer := map_option (\<lambda>p. p\<lparr>dp_items := [], dp_unsent := []\<rparr>) (se_pacer st), se_output_bytes := 0\<rparr>"

definition fail_session :: "error \<Rightarrow> session \<Rightarrow> session" where
  "fail_session e st =
     begin_session_close (st\<lparr>se_error := (case se_error st of None \<Rightarrow> Some e | Some e' \<Rightarrow> Some e')\<rparr>)"

section \<open>The pump\<close>

definition pump_waits :: "session \<Rightarrow> bool" where
  "pump_waits st \<longleftrightarrow>
     (case se_pending st of
        [] \<Rightarrow> True
      | p # _ \<Rightarrow> (case se_control_barriers st of
                     [] \<Rightarrow> False
                   | (position, _) # _ \<Rightarrow> tc_seq (pc_chunk p) \<ge> int position))"

definition pump_take :: "session \<Rightarrow> session" where
  "pump_take st =
     (if se_is_closing st \<or> se_in_flight st \<noteq> None \<or> pump_waits st then st
      else st\<lparr>se_pending := tl (se_pending st), se_in_flight := Some (hd (se_pending st), Accepted)\<rparr>)"

text \<open>The \<open>finally\<close> of a round: the chunk's slot is free again.\<close>

definition pump_free :: "pending_chunk \<Rightarrow> session \<Rightarrow> session" where
  "pump_free p st =
     st\<lparr>se_in_flight := None, se_pending_count := se_pending_count st - 1,
        se_pending_bytes := se_pending_bytes st - pc_encoded_bytes p\<rparr>"

text \<open>The send of the chunk in flight has returned, or has raised.\<close>

definition pump_submitted :: "session \<Rightarrow> session" where
  "pump_submitted st =
     (case se_in_flight st of
        Some (p, Accepted) \<Rightarrow>
          st\<lparr>se_submitted_appends := (if pc_continues p then se_submitted_appends st
                                       else dict_set (pc_request_id p) (pc_chunk p) (se_submitted_appends st)),
             se_in_flight := Some (p, Submitted), se_sent := se_sent st @ [pc_chunk p]\<rparr>
      | _ \<Rightarrow> st)"

definition pump_send_failed :: "error \<Rightarrow> session \<Rightarrow> session" where
  "pump_send_failed e st =
     (case se_in_flight st of
        Some (p, Accepted) \<Rightarrow> fail_session e (pump_free p (begin_session_close st))
      | _ \<Rightarrow> st)"

text \<open>
  The operation of the chunk in flight has completed, or failed: \<open>finish_session_operation\<close>, the
  confirmation to the client, and the end of the round.
\<close>

definition pump_finish :: "(output_chunk \<Rightarrow> byte list) \<Rightarrow> error option \<Rightarrow> session \<Rightarrow> session" where
  "pump_finish packb failed st =
     (case se_in_flight st of
        Some (p, Submitted) \<Rightarrow>
          (let st = st\<lparr>se_submitted_appends := dict_del (pc_request_id p) (se_submitted_appends st)\<rparr>
           in case failed of
                Some e \<Rightarrow> fail_session e (pump_free p (fail_session e st))
              | None \<Rightarrow>
                  (case emit_session_output packb (tc_seq (pc_chunk p)) ((pc_chunk p)\<lparr>tc_payload := PNone\<rparr>) KInputDone st of
                     Inr st \<Rightarrow> pump_free p st
                   | Inl e \<Rightarrow> fail_session e (pump_free p st)))
      | _ \<Rightarrow> st)"

definition pump_idle_timeout :: "session \<Rightarrow> session" where
  "pump_idle_timeout st =
     (if \<not> se_is_closing st \<and> se_in_flight st = None \<and> pump_waits st then fail_session SessionIdleTimeoutError st else st)"

section \<open>Controls\<close>

text \<open>The owners a control goes to: those named, by their logical names, or all of the route.\<close>

definition control_owners :: "replica_topology \<Rightarrow> string list option \<Rightarrow> session \<Rightarrow> string list result" where
  "control_owners topology stages st =
     (let owners = filter (\<lambda>owner. case stages of None \<Rightarrow> True | Some ss \<Rightarrow> rt_logical_name topology owner \<in> set ss) (se_stages st)
      in if (case stages of None \<Rightarrow> False | Some ss \<Rightarrow> length owners \<noteq> length ss)
         then Inl (ValueError ''control stages are not all on the session route'') else Inr owners)"

text \<open>An interrupt drops what the pacer holds of its turn.\<close>

definition purge_interrupted :: "string option \<Rightarrow> int option \<Rightarrow> session \<Rightarrow> session" where
  "purge_interrupted ctl turn st =
     (case se_pacer st of
        Some p \<Rightarrow>
          if ctl = Some INTERRUPT
          then (case purge turn p of
                  (dropped, p) \<Rightarrow> st\<lparr>se_output_bytes := se_output_bytes st - dropped, se_pacer := Some p\<rparr>)
          else st
      | None \<Rightarrow> st)"

definition add_barrier :: "session \<Rightarrow> session" where
  "add_barrier st =
     st\<lparr>se_control_barriers := se_control_barriers st @ [(se_next_input st, se_next_barrier st)],
        se_next_barrier := Suc (se_next_barrier st)\<rparr>"

definition control_arrive ::
  "replica_topology \<Rightarrow> timed_chunk \<Rightarrow> string list option \<Rightarrow> session \<Rightarrow> ((nat \<times> string list) result) \<times> session" where
  "control_arrive topology event stages st =
     (if se_is_closing st \<or> se_is_closed st then (Inl (RuntimeError ''session is closing''), st)
      else case tc_control_type event of
             Inl e \<Rightarrow> (Inl e, st)
           | Inr ctl \<Rightarrow>
               let st = purge_interrupted ctl (tc_turn event) st
               in case control_owners topology stages st of
                    Inl e \<Rightarrow> (Inl e, st)
                  | Inr owners \<Rightarrow> (Inr (se_next_barrier st, owners), add_barrier st))"

text \<open>The wait of an ordered control is over.\<close>

definition control_may_go :: "nat \<Rightarrow> bool \<Rightarrow> session \<Rightarrow> bool" where
  "control_may_go barrier should_preempt st \<longleftrightarrow>
     (case se_control_barriers st of
        [] \<Rightarrow> False
      | (position, first) # _ \<Rightarrow>
          first = barrier \<and>
          (case se_pending st of [] \<Rightarrow> True | p # _ \<Rightarrow> tc_seq (pc_chunk p) \<ge> int position) \<and>
          (case se_in_flight st of None \<Rightarrow> True | Some (_, f) \<Rightarrow> should_preempt \<and> f = Submitted))"

definition control_end :: "nat \<Rightarrow> session \<Rightarrow> session" where
  "control_end barrier st =
     st\<lparr>se_control_barriers := filter (\<lambda>(_, b). b \<noteq> barrier) (se_control_barriers st)\<rparr>"

section \<open>The table of sessions\<close>

record sessions =
  ct_sessions :: "(string, session) dict"
  ct_graphs :: "string set"
  ct_unavailable :: "string set"
  ct_is_stopping :: bool
  ct_next_open_index :: int

definition get_session :: "session_identity \<Rightarrow> sessions \<Rightarrow> session result" where
  "get_session identity ct =
     (case dict_get (ct_sessions ct) (sid_id identity) of
        None \<Rightarrow> Inl (ValueError ''unknown or stale session reference'')
      | Some st \<Rightarrow> if se_identity st \<noteq> identity then Inl (ValueError ''unknown or stale session reference'') else Inr st)"

text \<open>
  The route of a new session: the checks, the replica of each stage, and the owners' registration. The
  policy's state is returned with it.
\<close>

definition resolve_route_owners ::
  "(string \<Rightarrow> nat \<Rightarrow> string \<Rightarrow> 's \<Rightarrow> int \<times> 's) \<Rightarrow> logical_process_plan \<Rightarrow> replica_topology \<Rightarrow> string \<Rightarrow> string set \<Rightarrow>
   string list \<Rightarrow> string \<Rightarrow> bool \<Rightarrow> 's \<Rightarrow> sessions \<Rightarrow> ((string, int) dict \<times> string list) result \<times> 's" where
  "resolve_route_owners bind plan topology entry_stage registered stages session_id is_node policy ct =
     (if stages = [] \<or> (hd stages \<noteq> entry_stage \<and> \<not> is_node) \<or> \<not> distinct stages
      then (Inl (ValueError ''stages must be a unique route beginning at entry_stage''), policy)
      else if dict_has (ct_sessions ct) session_id \<or> session_id \<in> ct_graphs ct then (Inl (ValueError ''session ID already reserved''), policy)
      else
        let (assigned, policy) = assign_replica_bindings bind plan session_id policy
        in (bind_r assigned (\<lambda>b.
            let bindings = (case b of None \<Rightarrow> [] | Some b \<Rightarrow> b)
            in bind_r (map_r (\<lambda>stage. if rt_is_replicated topology stage
                                      then bind_r (dict_lookup bindings stage) (rt_resolve topology stage)
                                      else Inr stage) stages) (\<lambda>owners.
               if \<not> set owners \<subseteq> registered then Inl (ValueError ''session route contains an unregistered owner'')
               else if ct_unavailable ct \<inter> set owners \<noteq> {} then Inl (ValueError ''unavailable owner'')
               else Inr (bindings, owners))), policy))"

definition reserve_session ::
  "string \<Rightarrow> string list \<Rightarrow> session_limits \<Rightarrow> bool \<Rightarrow> rat \<Rightarrow> sessions \<Rightarrow> sessions" where
  "reserve_session session_id owners limits is_node lead_ms ct =
     ct\<lparr>ct_sessions := dict_set session_id
          (session_init \<lparr>sid_id = session_id, sid_open_index = ct_next_open_index ct\<rparr> owners limits is_node lead_ms)
          (ct_sessions ct),
        ct_next_open_index := ct_next_open_index ct + 1\<rparr>"

text \<open>
  Closing the owners, last opened first, until one does not confirm: \<open>confirm\<close> is the error of an
  owner's close, if it has one. The result is the owners left unconfirmed and the error.
\<close>

fun close_owners :: "(string \<Rightarrow> error option) \<Rightarrow> string list \<Rightarrow> string list \<Rightarrow> string list \<times> error option" where
  "close_owners confirm [] unconfirmed = (unconfirmed, None)"
| "close_owners confirm (owner # owners) unconfirmed =
     (case confirm owner of
        None \<Rightarrow> close_owners confirm owners (butlast unconfirmed)
      | Some e \<Rightarrow> (unconfirmed, Some e))"

text \<open>\<open>cleanup_session\<close> once the pump has ended, and the case of a pump that did not end in time.\<close>

definition clear_session :: "session \<Rightarrow> session" where
  "clear_session st = (begin_session_close st)\<lparr>se_pending := [], se_pending_count := 0, se_pending_bytes := 0\<rparr>"

definition cleanup_session :: "(string \<Rightarrow> error option) \<Rightarrow> session \<Rightarrow> sessions \<Rightarrow> sessions" where
  "cleanup_session confirm st ct =
     (let st = clear_session st;
          sid = sid_id (se_identity st)
      in case close_owners confirm (rev (se_opened st)) (se_opened st) of
           (_, None) \<Rightarrow>
             if se_cleanup_error st = None then ct\<lparr>ct_sessions := dict_del sid (ct_sessions ct)\<rparr>
             else ct\<lparr>ct_sessions := dict_set sid (st\<lparr>se_is_closed := True\<rparr>) (ct_sessions ct)\<rparr>
         | (unconfirmed, Some e) \<Rightarrow>
             ct\<lparr>ct_unavailable := ct_unavailable ct \<union> set unconfirmed,
                ct_sessions := dict_set sid
                  (st\<lparr>se_cleanup_error := Some e, se_error := (case se_error st of None \<Rightarrow> Some e | Some e' \<Rightarrow> Some e'),
                      se_is_closed := True\<rparr>) (ct_sessions ct)\<rparr>)"

definition fail_session_cleanup :: "error \<Rightarrow> session \<Rightarrow> sessions \<Rightarrow> sessions" where
  "fail_session_cleanup e st ct =
     ct\<lparr>ct_unavailable := ct_unavailable ct \<union> set (se_opened st),
        ct_sessions := dict_set (sid_id (se_identity st))
          (st\<lparr>se_cleanup_error := Some e, se_error := Some e, se_is_closed := True\<rparr>) (ct_sessions ct)\<rparr>"

section \<open>Steps of a session\<close>

inductive session_step ::
  "(timed_chunk \<Rightarrow> byte list) \<Rightarrow> (output_chunk \<Rightarrow> byte list) \<Rightarrow> (byte list \<Rightarrow> timed_chunk result) \<Rightarrow> session \<Rightarrow> session \<Rightarrow> bool"
  for packb packo unpackb where
  append: "append_session packb unpackb chunk t d continues request_id st = Inr (n, st') \<Longrightarrow> session_step packb packo unpackb st st'"
| emit: "emit_session_output packo input_seq chunk kind st = Inr st' \<Longrightarrow> session_step packb packo unpackb st st'"
| consume: "consumer_start st = Inr st' \<Longrightarrow> session_step packb packo unpackb st st'"
| take: "session_step packb packo unpackb st (take_output st)"
| offer: "offer_output st = Inr st' \<Longrightarrow> session_step packb packo unpackb st st'"
| release: "release_output packo now st = Inr st' \<Longrightarrow> session_step packb packo unpackb st st'"
| send: "send_output st = Inr st' \<Longrightarrow> session_step packb packo unpackb st st'"
| consumer_end: "session_step packb packo unpackb st (begin_session_close (st\<lparr>se_has_output_consumer := False\<rparr>))"
| pump_take: "session_step packb packo unpackb st (pump_take st)"
| pump_submitted: "session_step packb packo unpackb st (pump_submitted st)"
| pump_send_failed: "session_step packb packo unpackb st (pump_send_failed e st)"
| pump_finish: "session_step packb packo unpackb st (pump_finish packo failed st)"
| pump_idle: "session_step packb packo unpackb st (pump_idle_timeout st)"
| control: "session_step packb packo unpackb st (snd (control_arrive topology event stages st))"
| control_end: "session_step packb packo unpackb st (control_end barrier st)"
| fail: "session_step packb packo unpackb st (fail_session e st)"
| close: "session_step packb packo unpackb st (begin_session_close st)"
| opened: "session_step packb packo unpackb st (st\<lparr>se_opened := se_opened st @ [owner]\<rparr>)"
| clear: "se_in_flight st = None \<Longrightarrow> session_step packb packo unpackb st ((clear_session st)\<lparr>se_is_closed := True\<rparr>)"

section \<open>Input order\<close>

text \<open>The chunk the pump has taken and not yet sent.\<close>

fun taken_chunk :: "(pending_chunk \<times> flight) option \<Rightarrow> timed_chunk list" where
  "taken_chunk (Some (p, Accepted)) = [pc_chunk p]"
| "taken_chunk _ = []"

lemmas flight_cases = taken_chunk.cases [case_names accepted idle submitted]

definition taken_chunks :: "session \<Rightarrow> timed_chunk list" where
  "taken_chunks st = se_sent st @ taken_chunk (se_in_flight st)"

definition numbered :: "timed_chunk list \<Rightarrow> bool" where
  "numbered cs \<longleftrightarrow> map tc_seq cs = map int [0..<length cs]"

text \<open>
  What was sent, and what is about to be, is numbered from zero; as long as the session is open the pending
  chunks go on from there up to the next input, and no chunk has been taken past a waiting control.
\<close>

definition input_ok :: "session \<Rightarrow> bool" where
  "input_ok st \<longleftrightarrow>
     numbered (taken_chunks st) \<and>
     (\<not> se_is_closing st \<longrightarrow> numbered (taken_chunks st @ map pc_chunk (se_pending st)) \<and>
        length (taken_chunks st) + length (se_pending st) = se_next_input st) \<and>
     length (taken_chunks st) \<le> se_next_input st \<and>
     sorted (map fst (se_control_barriers st)) \<and>
     (\<forall>(position, b) \<in> set (se_control_barriers st).
        length (taken_chunks st) \<le> position \<and> position \<le> se_next_input st \<and> b < se_next_barrier st)"

definition same_input :: "session \<Rightarrow> session \<Rightarrow> bool" where
  "same_input st st' \<longleftrightarrow>
     se_sent st' = se_sent st \<and> se_in_flight st' = se_in_flight st \<and> se_pending st' = se_pending st \<and>
     se_next_input st' = se_next_input st \<and> se_control_barriers st' = se_control_barriers st \<and>
     se_next_barrier st' = se_next_barrier st \<and> (se_is_closing st \<longrightarrow> se_is_closing st') \<and>
     se_pending_count st' = se_pending_count st \<and> se_pending_bytes st' = se_pending_bytes st \<and>
     se_limits st' = se_limits st"

lemma input_ok_same: "same_input st st' \<Longrightarrow> input_ok st \<Longrightarrow> input_ok st'"
  by (auto simp: same_input_def input_ok_def taken_chunks_def)

lemma numbered_append: "numbered (cs @ [c]) \<longleftrightarrow> numbered cs \<and> tc_seq c = int (length cs)"
  by (auto simp: numbered_def)

lemma numbered_take: "numbered (cs @ ds) \<Longrightarrow> numbered cs"
proof (induction ds rule: rev_induct)
  case (snoc d ds)
  then show ?case by (simp add: numbered_append flip: append_assoc)
qed simp

lemma numbered_next: "numbered (cs @ c # ds) \<Longrightarrow> tc_seq c = int (length cs)"
  using numbered_take [of "cs @ [c]" ds] by (simp add: numbered_append)

lemma same_input_refl [simp]: "same_input st st"
  by (simp add: same_input_def)

lemma same_input_close [simp]: "same_input st (begin_session_close st)" "same_input st (fail_session e st)"
  by (simp_all add: same_input_def begin_session_close_def fail_session_def)

lemma same_input_emit: "emit_session_output packo n c k st = Inr st' \<Longrightarrow> same_input st st'"
  by (auto simp: emit_session_output_def same_input_def Let_def split: if_splits)

lemma same_input_offer: "offer_output st = Inr st' \<Longrightarrow> same_input st st'"
  by (auto simp: offer_output_def same_input_def bind_r_Inr_iff split: list.splits option.splits if_splits)

lemma same_input_release: "release_output packo now st = Inr st' \<Longrightarrow> same_input st st'"
  by (auto simp: release_output_def same_input_def bind_r_Inr_iff split: option.splits)

lemma same_input_send: "send_output st = Inr st' \<Longrightarrow> same_input st st'"
  by (auto simp: send_output_def return_turn_end_def same_input_def bind_r_Inr_iff
      split: option.splits list.splits if_splits)

lemma same_input_take: "same_input st (take_output st)"
  by (auto simp: take_output_def same_input_def split: list.splits)

lemma same_input_trans: "same_input st st' \<Longrightarrow> same_input st' st'' \<Longrightarrow> same_input st st''"
  by (simp add: same_input_def)

text \<open>What the snapshot of a mutable payload relies on: a decoded copy has the number of the chunk.\<close>

definition codec_ok :: "(timed_chunk \<Rightarrow> byte list) \<Rightarrow> (byte list \<Rightarrow> timed_chunk result) \<Rightarrow> bool" where
  "codec_ok packb unpackb \<longleftrightarrow> (\<forall>c c'. unpackb (packb c) = Inr c' \<longrightarrow> tc_seq c' = tc_seq c)"

lemma admit_input_ok:
  assumes "admit_input packb unpackb chunk limits ends ended = Inr (c, n)" and "codec_ok packb unpackb"
  shows "tc_seq c = tc_seq chunk \<and> 0 \<le> n \<and> n \<le> max_chunk_bytes limits"
  using assms
  by (auto simp: admit_input_def codec_ok_def bind_r_Inr_iff wire_size_def split: if_splits payload.splits)

lemma append_session_ok:
  assumes "append_session packb unpackb chunk t d continues request_id st = Inr (n, st')" and "codec_ok packb unpackb"
  obtains c k where "st' = st\<lparr>se_pending := se_pending st @ [\<lparr>pc_chunk = c, pc_encoded_bytes = k,
                     pc_request_id = request_id, pc_continues = continues\<rparr>],
      se_pending_count := se_pending_count st + 1, se_pending_bytes := se_pending_bytes st + k,
      se_next_input := Suc (se_next_input st),
      se_modality_end_ms := dict_set (tc_modality c) (tc_t_start_ms c + tc_duration_ms c) (se_modality_end_ms st),
      se_ended_modalities := (if tc_eos c \<and> \<not> se_is_node st then List.insert (tc_modality c) (se_ended_modalities st)
                              else se_ended_modalities st),
      se_pacer := (if tc_eos c then map_option end_input (se_pacer st) else se_pacer st)\<rparr>"
    and "tc_seq c = int (se_next_input st)" and "0 \<le> k" and "\<not> se_is_closing st"
    and "se_pending_count st < max_pending_chunks (se_limits st)"
    and "se_pending_bytes st + k \<le> max_pending_bytes (se_limits st)"
proof -
  let ?c = "chunk\<lparr>tc_t_start_ms := finite_value t, tc_duration_ms := finite_value d\<rparr>"
  from assms(1) obtain c k where ck: "admit_input packb unpackb ?c (se_limits st) (se_modality_end_ms st) (se_ended_modalities st)
      = Inr (c, k)"
    unfolding append_session_def by (auto simp: bind_r_Inr_iff split: if_splits)
  from admit_input_ok [OF this assms(2)] have "tc_seq c = tc_seq ?c" "0 \<le> k" by auto
  with assms(1) ck show thesis
    unfolding append_session_def by (intro that [of c k]) (auto simp: bind_r_Inr_iff split: if_splits)
qed

lemma input_ok_append:
  assumes "append_session packb unpackb chunk t d continues request_id st = Inr (n, st')"
    and "codec_ok packb unpackb" and "input_ok st"
  shows "input_ok st'"
proof (cases rule: append_session_ok [OF assms(1,2)])
  case (1 c k)
  let ?p = "\<lparr>pc_chunk = c, pc_encoded_bytes = k, pc_request_id = request_id, pc_continues = continues\<rparr>"
  have st': "se_pending st' = se_pending st @ [?p]" "se_next_input st' = Suc (se_next_input st)"
      "taken_chunks st' = taken_chunks st" "se_control_barriers st' = se_control_barriers st"
      "se_next_barrier st' = se_next_barrier st" "se_is_closing st' = se_is_closing st"
    unfolding 1(1) by (simp_all add: taken_chunks_def)
  have n: "numbered (taken_chunks st @ map pc_chunk (se_pending st))"
    "length (taken_chunks st) + length (se_pending st) = se_next_input st"
    using assms(3) 1(4) by (simp_all add: input_ok_def)
  then have "numbered ((taken_chunks st @ map pc_chunk (se_pending st)) @ [c])"
    unfolding numbered_append using 1(2) by simp
  then show ?thesis using assms(3) n(2) unfolding input_ok_def st' by (auto simp: le_Suc_eq)
qed

lemma input_ok_pump_take: "input_ok st \<Longrightarrow> input_ok (pump_take st)"
proof -
  assume ok: "input_ok st"
  show ?thesis
  proof (cases "se_is_closing st \<or> se_in_flight st \<noteq> None \<or> pump_waits st")
    case True
    then show ?thesis using ok by (simp add: pump_take_def)
  next
    case False
    then have idle: "se_in_flight st = None" by blast
    from False obtain p ps where p: "se_pending st = p # ps" by (auto simp: pump_waits_def split: list.splits)
    have tk: "taken_chunks (pump_take st) = taken_chunks st @ [pc_chunk p]"
      and same: "se_pending (pump_take st) = ps" "se_next_input (pump_take st) = se_next_input st"
        "se_control_barriers (pump_take st) = se_control_barriers st" "se_next_barrier (pump_take st) = se_next_barrier st"
        "se_is_closing (pump_take st) = se_is_closing st"
      using False p by (simp_all add: pump_take_def taken_chunks_def idle)
    have n: "numbered (taken_chunks st @ pc_chunk p # map pc_chunk ps)"
      "length (taken_chunks st) + Suc (length ps) = se_next_input st"
      using ok False p by (simp_all add: input_ok_def)
    note seq = numbered_next [OF n(1)]
    have "Suc (length (taken_chunks st)) \<le> position" if b: "(position, b) \<in> set (se_control_barriers st)" for position b
    proof (cases "se_control_barriers st")
      case (Cons x xs)
      then obtain q c where x: "x = (q, c)" by (cases x)
      then have "int (length (taken_chunks st)) < int q" using False p Cons seq by (auto simp: pump_waits_def)
      moreover have "q \<le> position"
        using ok b Cons x by (auto simp: input_ok_def)
      ultimately show ?thesis by simp
    qed (use b in simp)
    then show ?thesis
      using ok n seq numbered_take [of "taken_chunks st @ [pc_chunk p]" "map pc_chunk ps"]
      unfolding input_ok_def tk same by (auto simp: case_prod_unfold)
  qed
qed

lemma input_ok_dropped:
  assumes "input_ok st" and "se_is_closing st'" and "se_sent st' = se_sent st" and "se_in_flight st' = None"
    and "se_next_input st' = se_next_input st" "se_control_barriers st' = se_control_barriers st"
      "se_next_barrier st' = se_next_barrier st"
  shows "input_ok st'"
proof -
  have "taken_chunks st' = se_sent st" "taken_chunks st = se_sent st @ taken_chunk (se_in_flight st)"
    using assms by (simp_all add: taken_chunks_def)
  then show ?thesis using assms numbered_take [of "se_sent st"] unfolding input_ok_def by fastforce
qed

lemma input_ok_pump_submitted: "input_ok st \<Longrightarrow> input_ok (pump_submitted st)"
  by (cases "se_in_flight st" rule: flight_cases)
    (simp_all add: pump_submitted_def input_ok_def taken_chunks_def)

lemma input_ok_pump_send_failed: "input_ok st \<Longrightarrow> input_ok (pump_send_failed e st)"
  by (cases "se_in_flight st" rule: flight_cases)
    (auto simp: pump_send_failed_def pump_free_def fail_session_def begin_session_close_def elim: input_ok_dropped)

lemma input_ok_free:
  assumes "input_ok st" and "se_in_flight st = Some (p, Submitted)"
  shows "input_ok (pump_free p st)"
  using assms by (simp add: input_ok_def taken_chunks_def pump_free_def)

lemma input_ok_pump_finish: "input_ok st \<Longrightarrow> input_ok (pump_finish packo failed st)"
proof (cases "se_in_flight st" rule: flight_cases)
  case c: (submitted p)
  assume ok: "input_ok st"
  let ?st = "st\<lparr>se_submitted_appends := dict_del (pc_request_id p) (se_submitted_appends st)\<rparr>"
  have ok': "input_ok ?st" using ok by (simp add: input_ok_def taken_chunks_def)
  have free: "input_ok (pump_free p st1)" if "same_input ?st st1" for st1
  proof (rule input_ok_free)
    show "input_ok st1" by (rule input_ok_same [OF that ok'])
    show "se_in_flight st1 = Some (p, Submitted)" using that c by (simp add: same_input_def)
  qed
  have fin: "input_ok (fail_session e st1)" if "input_ok st1" for e st1
    using input_ok_same [OF same_input_close(2) that] .
  show ?thesis using c
    by (cases failed; cases "emit_session_output packo (tc_seq (pc_chunk p)) ((pc_chunk p)\<lparr>tc_payload := PNone\<rparr>) KInputDone ?st")
      (auto simp: pump_finish_def Let_def intro!: fin free dest: same_input_emit)
qed (simp_all add: pump_finish_def)

lemma control_arrive_cases:
  obtains "snd (control_arrive topology event stages st) = st"
  | ctl turn where "snd (control_arrive topology event stages st) = purge_interrupted ctl turn st"
  | ctl turn where "snd (control_arrive topology event stages st) = add_barrier (purge_interrupted ctl turn st)"
proof -
  let ?st = "snd (control_arrive topology event stages st)"
  have "?st = st \<or> (\<exists>ctl turn. ?st = purge_interrupted ctl turn st) \<or>
      (\<exists>ctl turn. ?st = add_barrier (purge_interrupted ctl turn st))"
    by (auto simp: control_arrive_def Let_def split: sum.splits)
  then show thesis using that by blast
qed

lemma same_input_purge [simp]: "same_input st (purge_interrupted ctl turn st)"
  by (auto simp: purge_interrupted_def same_input_def split: option.splits prod.splits)

lemma input_ok_barrier: "input_ok st \<Longrightarrow> input_ok (add_barrier st)"
  by (fastforce simp: input_ok_def taken_chunks_def sorted_append add_barrier_def)

lemma input_ok_control: "input_ok st \<Longrightarrow> input_ok (snd (control_arrive topology event stages st))"
  by (cases rule: control_arrive_cases [of topology event stages st])
    (auto intro: input_ok_barrier input_ok_same [OF same_input_purge])

lemma input_ok_control_end: "input_ok st \<Longrightarrow> input_ok (control_end b st)"
  by (auto simp: input_ok_def taken_chunks_def control_end_def sorted_filter)

lemma input_ok_step:
  assumes "session_step packb packo unpackb st st'" and "codec_ok packb unpackb" and "input_ok st"
  shows "input_ok st'"
  using assms
proof (induction rule: session_step.induct)
  case (consume st st')
  then show ?case by (auto simp: consumer_start_def input_ok_def taken_chunks_def split: if_splits)
next
  case (consumer_end st)
  then have "input_ok (st\<lparr>se_has_output_consumer := False\<rparr>)" by (simp add: input_ok_def taken_chunks_def)
  then show ?case using input_ok_same same_input_close(1) by blast
next
  case (pump_idle st)
  then show ?case using input_ok_same [OF same_input_close(2)] by (simp add: pump_idle_timeout_def)
next
  case (opened st owner)
  then show ?case by (simp add: input_ok_def taken_chunks_def)
next
  case (clear st)
  then show ?case by (auto elim!: input_ok_dropped simp: clear_session_def begin_session_close_def)
qed (blast intro: input_ok_append input_ok_same same_input_emit same_input_offer same_input_release same_input_send
    same_input_take input_ok_pump_take input_ok_pump_submitted input_ok_pump_send_failed input_ok_pump_finish
    input_ok_control input_ok_control_end same_input_close)+

section \<open>Input slots\<close>

fun flight_bytes :: "(pending_chunk \<times> flight) option \<Rightarrow> int" where
  "flight_bytes None = 0"
| "flight_bytes (Some (p, _)) = pc_encoded_bytes p"

text \<open>The slots and bytes of accepted input: exact, and within the limits.\<close>

definition slots_ok :: "session \<Rightarrow> bool" where
  "slots_ok st \<longleftrightarrow>
     se_pending_count st = int (length (se_pending st)) + (if se_in_flight st = None then 0 else 1) \<and>
     se_pending_bytes st = sum_list (map pc_encoded_bytes (se_pending st)) + flight_bytes (se_in_flight st) \<and>
     (\<forall>p \<in> set (se_pending st). 0 \<le> pc_encoded_bytes p) \<and> 0 \<le> flight_bytes (se_in_flight st) \<and>
     se_pending_count st \<le> max_pending_chunks (se_limits st) \<and> se_pending_bytes st \<le> max_pending_bytes (se_limits st) \<and>
     0 \<le> max_pending_chunks (se_limits st) \<and> 0 \<le> max_pending_bytes (se_limits st)"

lemma slots_ok_same: "same_input st st' \<Longrightarrow> slots_ok st \<Longrightarrow> slots_ok st'"
  by (simp add: same_input_def slots_ok_def)

lemma slots_ok_append:
  assumes "append_session packb unpackb chunk t d continues request_id st = Inr (n, st')"
    and "codec_ok packb unpackb" and "slots_ok st"
  shows "slots_ok st'"
proof (cases rule: append_session_ok [OF assms(1,2)])
  case (1 c k)
  show ?thesis unfolding 1(1) using assms(3) 1(3,5,6) by (auto simp: slots_ok_def)
qed

lemma slots_ok_pump_take: "slots_ok st \<Longrightarrow> slots_ok (pump_take st)"
  by (cases "se_pending st") (auto simp: pump_take_def slots_ok_def pump_waits_def)

lemma slots_ok_pump_submitted: "slots_ok st \<Longrightarrow> slots_ok (pump_submitted st)"
  by (cases "se_in_flight st" rule: flight_cases) (simp_all add: pump_submitted_def slots_ok_def)

lemma slots_ok_free:
  assumes "slots_ok st" and "se_in_flight st = Some (p, f)"
  shows "slots_ok (pump_free p st)"
  using assms by (simp add: slots_ok_def pump_free_def)

lemma slots_ok_fail: "slots_ok st \<Longrightarrow> slots_ok (fail_session e st)"
  using slots_ok_same [OF same_input_close(2)] .

lemma slots_ok_pump_send_failed: "slots_ok st \<Longrightarrow> slots_ok (pump_send_failed e st)"
  by (cases "se_in_flight st" rule: flight_cases)
    (auto simp: pump_send_failed_def begin_session_close_def
      intro!: slots_ok_fail slots_ok_free slots_ok_same [OF same_input_close(1), unfolded begin_session_close_def])

lemma slots_ok_pump_finish: "slots_ok st \<Longrightarrow> slots_ok (pump_finish packo failed st)"
proof (cases "se_in_flight st" rule: flight_cases)
  case c: (submitted p)
  assume ok: "slots_ok st"
  let ?st = "st\<lparr>se_submitted_appends := dict_del (pc_request_id p) (se_submitted_appends st)\<rparr>"
  have free: "slots_ok (pump_free p st1)" if "same_input ?st st1" for st1
  proof (rule slots_ok_free)
    show "slots_ok st1" by (rule slots_ok_same [OF that]) (use ok in \<open>simp add: slots_ok_def\<close>)
    show "se_in_flight st1 = Some (p, Submitted)" using that c by (simp add: same_input_def)
  qed
  show ?thesis using c
    by (cases failed; cases "emit_session_output packo (tc_seq (pc_chunk p)) ((pc_chunk p)\<lparr>tc_payload := PNone\<rparr>) KInputDone ?st")
      (auto simp: pump_finish_def Let_def intro!: slots_ok_fail free dest: same_input_emit)
qed (simp_all add: pump_finish_def)

lemma slots_ok_barrier: "slots_ok st \<Longrightarrow> slots_ok (add_barrier st)"
  by (simp add: slots_ok_def add_barrier_def)

lemma slots_ok_control: "slots_ok st \<Longrightarrow> slots_ok (snd (control_arrive topology event stages st))"
  by (cases rule: control_arrive_cases [of topology event stages st])
    (auto intro: slots_ok_barrier slots_ok_same [OF same_input_purge])

lemma slots_ok_step:
  assumes "session_step packb packo unpackb st st'" and "codec_ok packb unpackb" and "slots_ok st"
  shows "slots_ok st'"
  using assms
proof (induction rule: session_step.induct)
  case (consume st st')
  then show ?case by (auto simp: consumer_start_def slots_ok_def split: if_splits)
next
  case (pump_idle st)
  then show ?case using slots_ok_fail by (simp add: pump_idle_timeout_def)
next
  case (consumer_end st)
  then show ?case by (simp add: slots_ok_def begin_session_close_def)
next
  case (control_end st barrier)
  then show ?case by (simp add: slots_ok_def control_end_def)
next
  case (opened st owner)
  then show ?case by (simp add: slots_ok_def)
next
  case (clear st)
  then show ?case by (simp add: slots_ok_def clear_session_def begin_session_close_def)
qed (blast intro: slots_ok_append slots_ok_same same_input_emit same_input_offer same_input_release same_input_send
    same_input_take slots_ok_pump_take slots_ok_pump_submitted slots_ok_pump_send_failed slots_ok_pump_finish
    slots_ok_control same_input_close)+

section \<open>Output bytes\<close>

abbreviation sizes_ok :: "budgeted list \<Rightarrow> bool" where
  "sizes_ok items \<equiv> list_all (\<lambda>item. 0 \<le> snd item) items"

lemma sizes_ok_bytes: "sizes_ok items \<Longrightarrow> 0 \<le> queue_bytes items"
  by (auto simp: list_all_iff intro!: queue_bytes_nonneg)

lemma sizes_ok_filter: "sizes_ok items \<Longrightarrow> sizes_ok (filter P items)"
  by (simp add: list_all_iff)

lemma split_audio_bytes:
  assumes "split_audio packb out sz head_ms = Inr (Some ((h, hs), (t, ts)))"
  shows "hs + ts = sz" and "0 \<le> sz \<Longrightarrow> 0 \<le> hs \<and> 0 \<le> ts"
proof -
  have "hs = min (wire_size_out packb h) sz \<and> ts = sz - hs"
    using assms unfolding split_audio_def Let_def
    by (simp only: split: payload.split_asm if_split_asm,
        simp_all only: sum.inject option.inject prod.inject sum.distinct option.distinct,
        (elim conjE, hypsubst, simp only: simp_thms)+)
  moreover have "0 \<le> wire_size_out packb h" by (auto simp: wire_size_out_def split: payload.splits)
  ultimately show "hs + ts = sz" and "0 \<le> sz \<Longrightarrow> 0 \<le> hs \<and> 0 \<le> ts" by auto
qed

text \<open>One round of a release moves the bytes of its item and no others.\<close>

definition moved :: "int \<Rightarrow> release_state \<Rightarrow> release_state \<Rightarrow> bool" where
  "moved sz rs rs' \<longleftrightarrow> (case (rs, rs') of ((p, R, H), (p', R', H')) \<Rightarrow>
     queue_bytes R' + queue_bytes H' = queue_bytes R + queue_bytes H + sz \<and> dp_unsent p' = dp_unsent p \<and>
     (sizes_ok R \<and> sizes_ok H \<and> 0 \<le> sz \<longrightarrow> sizes_ok R' \<and> sizes_ok H'))"

lemma moved_simps:
  "moved sz (p, R, H) (hold (out, sz) (p', R, H)) \<longleftrightarrow> dp_unsent p' = dp_unsent p"
  "moved sz (p, R, H) (take_audio (out, sz) (p', R, H)) \<longleftrightarrow> dp_unsent p' = dp_unsent p"
  "moved sz (p, R, H) (p', R @ [(out, sz)], H) \<longleftrightarrow> dp_unsent p' = dp_unsent p"
  by (auto simp: moved_def hold_def take_audio_def)

lemma release_audio_moved:
  assumes "release_audio packb now (out, sz) (p, R, H) = Inr rs'"
  shows "moved sz (p, R, H) rs'"
proof -
  let ?p = "start_clock out now p"
  have u: "dp_unsent ?p = dp_unsent p" by (simp add: start_clock_def)
  have split: "moved sz (p, R, H) (hold tail (take_audio head (?p, R, H)))"
    if "split_audio packb out sz ms = Inr (Some (head, tail))" for ms head tail
    using split_audio_bytes [of packb out sz ms "fst head" "snd head" "fst tail" "snd tail"] that u
    by (cases head; cases tail) (auto simp: moved_def hold_def take_audio_def)
  show ?thesis using assms u split
    by (auto simp: release_audio_def Let_def moved_simps bind_r_Inr_iff split: option.splits if_splits)
qed

lemma release_item_moved:
  assumes "release_item packb now (out, sz) (p, R, H) = Inr rs'"
  shows "moved sz (p, R, H) rs'"
  using assms
  by (auto simp: release_item_def bind_r_Inr_iff moved_simps split: if_splits intro: release_audio_moved)

lemma release_fold_moved:
  assumes "fold_r (release_item packb now) items rs = Inr rs'" and "sizes_ok items"
  shows "moved (queue_bytes items) rs rs'"
  using assms
proof (induction items arbitrary: rs)
  case Nil
  then show ?case by (auto simp: moved_def split: prod.splits)
next
  case (Cons item items)
  obtain out sz p R H where [simp]: "item = (out, sz)" "rs = (p, R, H)" by (metis prod.exhaust)
  from Cons.prems(1) obtain rs1 where "release_item packb now item rs = Inr rs1" "fold_r (release_item packb now) items rs1 = Inr rs'"
    by (auto simp: bind_r_Inr_iff)
  with release_item_moved [of packb now out sz p R H rs1] Cons.IH [of rs1] Cons.prems(2) sizes_ok_bytes [of items]
  show ?case by (auto simp: moved_def split: prod.splits)
qed

lemma coalesce_fold_bytes:
  assumes "fold_r (coalesce_item lead) items acc = Inr acc'" and "sizes_ok items" and "sizes_ok acc"
  shows "queue_bytes acc' = queue_bytes acc + queue_bytes items \<and> sizes_ok acc'"
  using assms
proof (induction items arbitrary: acc)
  case (Cons item items)
  obtain out sz where item: "item = (out, sz)" by (cases item)
  from Cons.prems(1) obtain acc1 where a: "coalesce_item lead item acc = Inr acc1" "fold_r (coalesce_item lead) items acc1 = Inr acc'"
    by (auto simp: bind_r_Inr_iff)
  have "queue_bytes acc1 = queue_bytes acc + sz \<and> sizes_ok acc1"
    using a(1) Cons.prems(2,3) item
    by (cases acc rule: rev_cases) (auto simp: coalesce_item_def bind_r_Inr_iff split: if_splits prod.splits)
  with Cons.IH [OF a(2)] Cons.prems(2) item show ?case by auto
qed simp

lemma release_bytes:
  assumes "release packb now p = Inr (p', out)" and "sizes_ok (dp_items p)"
  shows "queue_bytes out + queue_bytes (dp_items p') = queue_bytes (dp_items p)" and "dp_unsent p' = dp_unsent p"
    and "sizes_ok out" and "sizes_ok (dp_items p')"
proof -
  from assms(1) obtain q R H where r: "fold_r (release_item packb now) (dp_items p) (p\<lparr>dp_wake := False\<rparr>, [], []) = Inr (q, R, H)"
      "p' = q\<lparr>dp_items := H\<rparr>" "fold_r (coalesce_item (dp_lead_ms p')) R [] = Inr out"
    by (auto simp: release_def release_loop_def bind_r_Inr_iff)
  from release_fold_moved [OF r(1) assms(2)]
  have m: "queue_bytes R + queue_bytes H = queue_bytes (dp_items p)" "dp_unsent q = dp_unsent p" "sizes_ok R" "sizes_ok H"
    using assms(2) sizes_ok_bytes [of "dp_items p"] by (auto simp: moved_def)
  from coalesce_fold_bytes [OF r(3) m(3)] m r(2)
  show "queue_bytes out + queue_bytes (dp_items p') = queue_bytes (dp_items p)" "dp_unsent p' = dp_unsent p"
    "sizes_ok out" "sizes_ok (dp_items p')" by simp_all
qed

fun pacer_queue :: "pacer option \<Rightarrow> budgeted list" where
  "pacer_queue None = []"
| "pacer_queue (Some p) = dp_items p @ dp_unsent p"

text \<open>
  The output budget: exact over what the session and its pacer hold, and within the limits; a paced
  session has numbered what it delivered from zero.
\<close>

definition output_ok :: "session \<Rightarrow> bool" where
  "output_ok st \<longleftrightarrow>
     se_output_bytes st = queue_bytes (se_outputs st) + queue_bytes (pacer_queue (se_pacer st)) \<and>
     sizes_ok (se_outputs st) \<and> sizes_ok (pacer_queue (se_pacer st)) \<and>
     se_output_bytes st \<le> max_output_bytes (se_limits st) \<and>
     int (length (se_outputs st)) \<le> max_output_chunks (se_limits st) \<and>
     0 \<le> max_output_bytes (se_limits st) \<and> 0 \<le> max_output_chunks (se_limits st) \<and>
     (se_pacer st \<noteq> None \<longrightarrow> map oc_seq (se_delivered st) = map int [0..<se_next_delivered st])"

definition same_output :: "session \<Rightarrow> session \<Rightarrow> bool" where
  "same_output st st' \<longleftrightarrow>
     se_outputs st' = se_outputs st \<and> se_output_bytes st' = se_output_bytes st \<and>
     pacer_queue (se_pacer st') = pacer_queue (se_pacer st) \<and> (se_pacer st' = None \<longleftrightarrow> se_pacer st = None) \<and>
     se_limits st' = se_limits st \<and> se_delivered st' = se_delivered st \<and> se_next_delivered st' = se_next_delivered st"

lemma output_ok_same: "same_output st st' \<Longrightarrow> output_ok st \<Longrightarrow> output_ok st'"
  by (auto simp: same_output_def output_ok_def)

lemma output_ok_close: "output_ok st \<Longrightarrow> output_ok (begin_session_close st)"
  by (cases "se_pacer st") (simp_all add: output_ok_def begin_session_close_def)

lemma output_ok_fail: "output_ok st \<Longrightarrow> output_ok (fail_session e st)"
  unfolding fail_session_def by (rule output_ok_close, erule output_ok_same [rotated]) (simp add: same_output_def)

lemma output_ok_emit:
  assumes "emit_session_output packo n c k st = Inr st'" and "output_ok st"
  shows "output_ok st'"
proof -
  have "0 \<le> wire_size_out packo out" for out by (auto simp: wire_size_out_def split: payload.splits)
  then show ?thesis using assms
    by (auto simp: emit_session_output_def output_ok_def Let_def split: if_splits)
qed

lemma output_ok_take: "output_ok st \<Longrightarrow> output_ok (take_output st)"
  by (cases "se_outputs st"; cases "se_pacer st") (auto simp: take_output_def output_ok_def)

lemma purge_queue:
  assumes "purge turn p = (dropped, p')" and "sizes_ok (dp_items p @ dp_unsent p)"
  shows "queue_bytes (dp_items p' @ dp_unsent p') + dropped = queue_bytes (dp_items p @ dp_unsent p)"
    and "sizes_ok (dp_items p' @ dp_unsent p')" and "0 \<le> dropped"
proof -
  let ?keep = "filter (\<lambda>(out, _). \<not> oc_interrupted out turn) :: budgeted list \<Rightarrow> budgeted list"
  have drop: "queue_bytes (?keep q) \<le> queue_bytes q" if "sizes_ok q" for q
    using that by (induction q) auto
  show "queue_bytes (dp_items p' @ dp_unsent p') + dropped = queue_bytes (dp_items p @ dp_unsent p)"
    "sizes_ok (dp_items p' @ dp_unsent p')" "0 \<le> dropped"
    using assms drop [of "dp_items p"] drop [of "dp_unsent p"]
    by (auto simp: purge_def Let_def sizes_ok_filter split: if_splits)
qed

lemma output_ok_offer:
  assumes "offer_output st = Inr st'" and "output_ok st"
  shows "output_ok st'"
proof (cases "se_outputs st = [] \<or> se_pacer st = None \<or> se_is_closing st")
  case True
  then show ?thesis using assms by (auto simp: offer_output_def split: list.splits option.splits)
next
  case False
  then obtain out sz rest p where o: "se_outputs st = (out, sz) # rest" "se_pacer st = Some p" by (cases "se_outputs st") auto
  from assms(1) False o obtain dropped p' where f: "offer out sz p = Inr (dropped, p')"
      "st' = st\<lparr>se_outputs := rest, se_output_bytes := se_output_bytes st - dropped, se_pacer := Some p'\<rparr>"
    by (auto simp: offer_output_def bind_r_Inr_iff)
  obtain q where q: "p' = q\<lparr>dp_items := dp_items q @ [(out, sz)], dp_wake := True\<rparr>"
      "(dropped, q) = (0, p) \<or> purge (oc_turn out) p = (dropped, q)"
    using f(1) by (cases "purge (oc_turn out) p") (auto simp: offer_def bind_r_Inr_iff split: if_splits)
  have "queue_bytes (dp_items q @ dp_unsent q) + dropped = queue_bytes (dp_items p @ dp_unsent p)"
    "sizes_ok (dp_items q @ dp_unsent q)" "0 \<le> dropped"
    using q(2) purge_queue [of "oc_turn out" p dropped q] assms(2) o(2) by (auto simp: output_ok_def)
  then show ?thesis using assms(2) o unfolding f(2) q(1) by (auto simp: output_ok_def)
qed

lemma output_ok_release:
  assumes "release_output packo now st = Inr st'" and "output_ok st"
  shows "output_ok st'"
proof (cases "se_pacer st")
  case (Some p)
  with assms(1) obtain p' out where r: "release packo now p = Inr (p', out)"
      "st' = st\<lparr>se_pacer := Some (p'\<lparr>dp_unsent := dp_unsent p' @ out\<rparr>)\<rparr>"
    by (auto simp: release_output_def bind_r_Inr_iff)
  have "sizes_ok (dp_items p)" using assms(2) Some by (simp add: output_ok_def)
  from release_bytes [OF r(1) this] assms(2) Some show ?thesis unfolding r(2) by (simp add: output_ok_def)
qed (use assms in \<open>simp add: release_output_def\<close>)

lemma output_ok_send:
  assumes "send_output st = Inr st'" and "output_ok st"
  shows "output_ok st'"
  using assms
  by (auto simp: send_output_def return_turn_end_def output_ok_def bind_r_Inr_iff
      split: option.splits list.splits if_splits)

lemma output_ok_pump_free: "output_ok st \<Longrightarrow> output_ok (pump_free p st)"
  by (erule output_ok_same [rotated]) (simp add: same_output_def pump_free_def)

lemma output_ok_pump_finish: "output_ok st \<Longrightarrow> output_ok (pump_finish packo failed st)"
proof (cases "se_in_flight st" rule: flight_cases)
  case c: (submitted p)
  assume ok: "output_ok st"
  let ?st = "st\<lparr>se_submitted_appends := dict_del (pc_request_id p) (se_submitted_appends st)\<rparr>"
  have ok': "output_ok ?st" by (rule output_ok_same [OF _ ok]) (simp add: same_output_def)
  show ?thesis using c ok'
    by (cases failed; cases "emit_session_output packo (tc_seq (pc_chunk p)) ((pc_chunk p)\<lparr>tc_payload := PNone\<rparr>) KInputDone ?st")
      (auto simp: pump_finish_def Let_def intro!: output_ok_fail output_ok_pump_free dest: output_ok_emit)
qed (simp_all add: pump_finish_def)

lemma output_ok_pump_send_failed: "output_ok st \<Longrightarrow> output_ok (pump_send_failed e st)"
  by (cases "se_in_flight st" rule: flight_cases)
    (simp_all add: pump_send_failed_def output_ok_fail output_ok_pump_free output_ok_close)

lemma output_ok_purge:
  assumes "output_ok st"
  shows "output_ok (purge_interrupted ctl turn st)"
proof (cases "se_pacer st")
  case (Some p)
  obtain dropped q where q: "purge turn p = (dropped, q)" by fastforce
  from purge_queue [OF this] assms Some show ?thesis by (auto simp: purge_interrupted_def q output_ok_def)
qed (use assms in \<open>simp add: purge_interrupted_def\<close>)

lemma output_ok_control: "output_ok st \<Longrightarrow> output_ok (snd (control_arrive topology event stages st))"
  by (cases rule: control_arrive_cases [of topology event stages st])
    (auto intro: output_ok_purge simp: add_barrier_def elim!: output_ok_same [rotated, OF output_ok_purge] simp: same_output_def)

lemma output_ok_append:
  assumes "append_session packb unpackb chunk t d continues request_id st = Inr (n, st')"
    and "codec_ok packb unpackb" and "output_ok st"
  shows "output_ok st'"
proof (cases rule: append_session_ok [OF assms(1,2)])
  case (1 c k)
  show ?thesis
    by (rule output_ok_same [OF _ assms(3)], unfold 1(1), cases "se_pacer st") (simp_all add: same_output_def end_input_def)
qed

lemma output_ok_step:
  assumes "session_step packb packo unpackb st st'" and "codec_ok packb unpackb" and "output_ok st"
  shows "output_ok st'"
  using assms
proof (induction rule: session_step.induct)
  case (consume st st')
  then show ?case by (auto simp: consumer_start_def output_ok_def split: if_splits)
next
  case (consumer_end st)
  then have "output_ok (st\<lparr>se_has_output_consumer := False\<rparr>)" by (simp add: output_ok_def)
  then show ?case by (rule output_ok_close)
next
  case (pump_take st)
  then show ?case by (simp add: pump_take_def output_ok_def)
next
  case (pump_submitted st)
  then show ?case
    by (cases "se_in_flight st" rule: flight_cases) (simp_all add: pump_submitted_def output_ok_def)
next
  case (pump_idle st)
  then show ?case using output_ok_fail by (simp add: pump_idle_timeout_def)
next
  case (control_end st barrier)
  then show ?case by (simp add: output_ok_def control_end_def)
next
  case (opened st owner)
  then show ?case by (simp add: output_ok_def)
next
  case (clear st)
  then have "output_ok (begin_session_close st)" by (blast intro: output_ok_close)
  then show ?case by (rule output_ok_same [rotated]) (simp add: same_output_def clear_session_def)
qed (blast intro: output_ok_append output_ok_emit output_ok_take output_ok_offer output_ok_release output_ok_send
    output_ok_pump_send_failed output_ok_pump_finish output_ok_control output_ok_fail output_ok_close)+

section \<open>Reachable sessions\<close>

definition session_initial :: "session \<Rightarrow> bool" where
  "session_initial st \<longleftrightarrow>
     (\<exists>identity stages limits is_node lead_ms. st = session_init identity stages limits is_node lead_ms \<and>
        0 \<le> max_pending_chunks limits \<and> 0 \<le> max_pending_bytes limits \<and>
        0 \<le> max_output_chunks limits \<and> 0 \<le> max_output_bytes limits)"

definition session_ok :: "session \<Rightarrow> bool" where
  "session_ok st \<longleftrightarrow> input_ok st \<and> slots_ok st \<and> output_ok st"

lemma session_initial_ok: "session_initial st \<Longrightarrow> session_ok st"
  by (auto simp: session_initial_def session_ok_def input_ok_def slots_ok_def output_ok_def session_init_def
      taken_chunks_def numbered_def pacer_init_def)

interpretation session_sys: step_system "\<lambda>st. codec_ok packb unpackb \<and> session_initial st"
  "session_step packb packo unpackb" "\<lambda>st. codec_ok packb unpackb \<and> session_ok st" for packb packo unpackb
  by unfold_locales
    (auto simp: session_ok_def dest: input_ok_step slots_ok_step output_ok_step session_initial_ok [unfolded session_ok_def])

lemma session_reachable:
  assumes "codec_ok packb unpackb" and "session_initial st0" and "(session_step packb packo unpackb)\<^sup>*\<^sup>* st0 st"
  shows "session_ok st"
  using session_sys.inv_reachable assms by blast

section \<open>Properties\<close>

text \<open>
  C3. A session's input reaches its owners in order: whatever appends, controls, outputs and failures
  interleave, the chunks sent along the route are numbered without a gap from zero, and as long as the
  session is open the chunk being sent and the pending ones continue them up to the last accepted input, so
  none is lost, repeated or overtaken.
\<close>

theorem session_inputs_in_order:
  assumes "\<And>c c'. unpackb (packb c) = Inr c' \<Longrightarrow> tc_seq c' = tc_seq c" and "session_initial st0"
    and "(session_step packb packo unpackb)\<^sup>*\<^sup>* st0 st"
  shows "map tc_seq (se_sent st) = map int [0..<length (se_sent st)] \<and>
    (\<not> se_is_closing st \<longrightarrow>
       map tc_seq (se_sent st @ taken_chunk (se_in_flight st) @ map pc_chunk (se_pending st))
         = map int [0..<se_next_input st])"
proof -
  have "codec_ok packb unpackb" using assms(1) by (auto simp: codec_ok_def)
  then have ok: "input_ok st" using session_reachable assms(2,3) by (auto simp: session_ok_def)
  then have "numbered (se_sent st)"
    using numbered_take [of "se_sent st" "taken_chunk (se_in_flight st)"] by (simp add: input_ok_def taken_chunks_def)
  moreover have "map tc_seq (se_sent st @ taken_chunk (se_in_flight st) @ map pc_chunk (se_pending st))
      = map int [0..<se_next_input st]" if "\<not> se_is_closing st"
  proof -
    have "numbered (taken_chunks st @ map pc_chunk (se_pending st))"
      "length (taken_chunks st @ map pc_chunk (se_pending st)) = se_next_input st"
      using ok that by (simp_all add: input_ok_def)
    then show ?thesis unfolding numbered_def taken_chunks_def by (metis append_assoc)
  qed
  ultimately show ?thesis by (simp add: numbered_def)
qed

text \<open>A session with one owner, and a codec for the closed instances below.\<close>

definition demo_limits :: session_limits where
  "demo_limits = \<lparr>max_modalities = 2, max_pending_chunks = 2, max_pending_bytes = 100, max_output_chunks = 2,
     max_output_bytes = 100, max_chunk_bytes = 50\<rparr>"

definition demo_session :: session where
  "demo_session = session_init \<lparr>sid_id = ''s'', sid_open_index = 1\<rparr> [''asr''] demo_limits False 100"

definition demo_input :: "int \<Rightarrow> timed_chunk" where
  "demo_input seq = \<lparr>tc_modality = ''audio'', tc_t_start_ms = 0, tc_duration_ms = 0, tc_seq = seq,
     tc_payload = PBytes [1, 2], tc_format = None, tc_eos = False, tc_turn = None\<rparr>"

lemma demo_session_initial: "session_initial demo_session"
proof -
  have "0 \<le> max_pending_chunks demo_limits" "0 \<le> max_pending_bytes demo_limits"
    "0 \<le> max_output_chunks demo_limits" "0 \<le> max_output_bytes demo_limits"
    by (simp_all add: demo_limits_def)
  then show ?thesis unfolding session_initial_def demo_session_def by blast
qed

definition demo_encode :: "timed_chunk \<Rightarrow> byte list" where
  "demo_encode c = (if tc_seq c < 0 then 1 else 0) # replicate (nat \<bar>tc_seq c\<bar>) 0"

definition demo_decode :: "byte list \<Rightarrow> timed_chunk result" where
  "demo_decode bs =
     (case bs of
        [] \<Rightarrow> Inl (ValueError [])
      | b # rest \<Rightarrow> Inr (demo_input (if b = 1 then - int (length rest) else int (length rest))))"

lemma demo_codec: "demo_decode (demo_encode c) = Inr c' \<Longrightarrow> tc_seq c' = tc_seq c"
  by (auto simp: demo_decode_def demo_encode_def demo_input_def split: if_splits)

abbreviation demo_step :: "session \<Rightarrow> session \<Rightarrow> bool" where
  "demo_step \<equiv> session_step demo_encode (\<lambda>_. [0]) demo_decode"

definition demo_append :: "int \<Rightarrow> session \<Rightarrow> (int \<times> session) result" where
  "demo_append seq st = append_session demo_encode demo_decode (demo_input seq) (Fin (of_int seq)) (Fin 1) False ''r'' st"

definition demo_first :: session where
  "demo_first = (case demo_append 0 demo_session of Inr (_, st) \<Rightarrow> st)"

definition demo_second :: session where
  "demo_second = (case demo_append 1 (pump_take demo_first) of Inr (_, st) \<Rightarrow> st)"

lemma demo_second_reach: "demo_step\<^sup>*\<^sup>* demo_session (pump_submitted demo_second)"
proof -
  have "case demo_append 0 demo_session of Inr (n, _) \<Rightarrow> n = 0 | _ \<Rightarrow> False" by code_simp
  then have "demo_append 0 demo_session = Inr (0, demo_first)"
    by (auto simp: demo_first_def split: sum.splits)
  then have "demo_step demo_session demo_first" unfolding demo_append_def by (rule session_step.append)
  moreover have "demo_step demo_first (pump_take demo_first)" by (rule session_step.pump_take)
  moreover have "case demo_append 1 (pump_take demo_first) of Inr (n, _) \<Rightarrow> n = 1 | _ \<Rightarrow> False" by code_simp
  then have "demo_append 1 (pump_take demo_first) = Inr (1, demo_second)"
    by (auto simp: demo_second_def split: sum.splits)
  then have "demo_step (pump_take demo_first) demo_second" unfolding demo_append_def by (rule session_step.append)
  moreover have "demo_step demo_second (pump_submitted demo_second)" by (rule session_step.pump_submitted)
  ultimately show ?thesis
    by (rule converse_rtranclp_into_rtranclp [OF _ converse_rtranclp_into_rtranclp
          [OF _ converse_rtranclp_into_rtranclp [OF _ r_into_rtranclp]]])
qed

theorem session_inputs_in_order_witness:
  "length (se_sent (pump_submitted demo_second)) = 1 \<and>
   map tc_seq (se_sent (pump_submitted demo_second) @ taken_chunk (se_in_flight (pump_submitted demo_second)) @
     map pc_chunk (se_pending (pump_submitted demo_second))) = [0, 1]"
proof -
  have "se_next_input (pump_submitted demo_second) = 2 \<and> \<not> se_is_closing (pump_submitted demo_second) \<and>
      length (se_sent (pump_submitted demo_second)) = 1" by code_simp
  then show ?thesis
    using session_inputs_in_order [OF demo_codec demo_session_initial demo_second_reach]
    by (auto simp: numeral_2_eq_2)
qed

text \<open>
  C19. A session's budgets are exact and bounded: the slots and bytes of accepted input are those of the
  pending chunks and the one in flight, the output bytes are those of the outputs the session and its pacer
  hold, split, joined or purged as they may be, and neither ever exceeds the session's limits. A paced
  session numbers what it delivers without a gap from zero.
\<close>

theorem session_budgets_exact:
  assumes "\<And>c c'. unpackb (packb c) = Inr c' \<Longrightarrow> tc_seq c' = tc_seq c" and "session_initial st0"
    and "(session_step packb packo unpackb)\<^sup>*\<^sup>* st0 st"
  shows "se_pending_count st = int (length (se_pending st)) + (if se_in_flight st = None then 0 else 1) \<and>
    se_pending_bytes st = sum_list (map pc_encoded_bytes (se_pending st)) + flight_bytes (se_in_flight st) \<and>
    se_pending_count st \<le> max_pending_chunks (se_limits st) \<and> se_pending_bytes st \<le> max_pending_bytes (se_limits st) \<and>
    se_output_bytes st = queue_bytes (se_outputs st) + queue_bytes (pacer_queue (se_pacer st)) \<and>
    se_output_bytes st \<le> max_output_bytes (se_limits st) \<and>
    int (length (se_outputs st)) \<le> max_output_chunks (se_limits st) \<and>
    (se_pacer st \<noteq> None \<longrightarrow> map oc_seq (se_delivered st) = map int [0..<se_next_delivered st])"
proof -
  have "codec_ok packb unpackb" using assms(1) by (auto simp: codec_ok_def)
  from session_reachable [OF this assms(2,3)] have "slots_ok st" "output_ok st" by (simp_all add: session_ok_def)
  then show ?thesis by (simp add: slots_ok_def output_ok_def)
qed

theorem session_budgets_exact_witness:
  "se_pending_count (pump_submitted demo_second) = 2 \<and>
   se_pending_count (pump_submitted demo_second) \<le> max_pending_chunks (se_limits (pump_submitted demo_second)) \<and>
   se_pending_bytes (pump_submitted demo_second) \<le> max_pending_bytes (se_limits (pump_submitted demo_second))"
proof -
  have "length (se_pending (pump_submitted demo_second)) = 1 \<and> se_in_flight (pump_submitted demo_second) \<noteq> None" by code_simp
  then show ?thesis
    using session_budgets_exact [OF demo_codec demo_session_initial demo_second_reach] by (simp split: if_splits)
qed

section \<open>Controls among the inputs\<close>

text \<open>A barrier keeps its position, and a new one gets an identity of its own.\<close>

definition barriers_from :: "session \<Rightarrow> session \<Rightarrow> bool" where
  "barriers_from st st' \<longleftrightarrow> se_next_barrier st \<le> se_next_barrier st' \<and>
     (\<forall>position b. (position, b) \<in> set (se_control_barriers st') \<longrightarrow> b < se_next_barrier st \<longrightarrow>
        (position, b) \<in> set (se_control_barriers st))"

lemma barriers_from_refl [simp]: "barriers_from st st"
  by (simp add: barriers_from_def)

lemma barriers_from_trans: "barriers_from st st' \<Longrightarrow> barriers_from st' st'' \<Longrightarrow> barriers_from st st''"
  unfolding barriers_from_def by (meson order_less_le_trans order_trans)

lemma barriers_from_same: "same_input st st' \<Longrightarrow> barriers_from st st'"
  by (simp add: barriers_from_def same_input_def)

lemma barriers_from_control: "barriers_from st (snd (control_arrive topology event stages st))"
  using same_input_purge
  by (cases rule: control_arrive_cases [of topology event stages st])
    (auto intro: barriers_from_same simp: barriers_from_def add_barrier_def same_input_def)

lemma barriers_from_equal:
  "se_control_barriers st' = se_control_barriers st \<Longrightarrow> se_next_barrier st' = se_next_barrier st \<Longrightarrow> barriers_from st st'"
  by (simp add: barriers_from_def)

lemma emit_barriers: "emit_session_output packo n c k st = Inr st' \<Longrightarrow>
    se_control_barriers st' = se_control_barriers st \<and> se_next_barrier st' = se_next_barrier st"
  by (drule same_input_emit) (simp add: same_input_def)

lemma pump_barriers:
  "barriers_from st (pump_take st)" "barriers_from st (pump_submitted st)" "barriers_from st (pump_send_failed e st)"
  "barriers_from st (pump_idle_timeout st)"
  by (cases "se_in_flight st" rule: flight_cases;
      simp add: barriers_from_def pump_take_def pump_submitted_def pump_send_failed_def pump_idle_timeout_def pump_free_def
        fail_session_def begin_session_close_def)+

lemma pump_finish_barriers: "barriers_from st (pump_finish packo failed st)"
proof (cases "se_in_flight st" rule: flight_cases)
  case c: (submitted p)
  let ?st = "st\<lparr>se_submitted_appends := dict_del (pc_request_id p) (se_submitted_appends st)\<rparr>"
  show ?thesis using c
    by (cases failed; cases "emit_session_output packo (tc_seq (pc_chunk p)) ((pc_chunk p)\<lparr>tc_payload := PNone\<rparr>) KInputDone ?st")
      (auto simp: pump_finish_def Let_def barriers_from_def pump_free_def fail_session_def begin_session_close_def
        dest!: emit_barriers)
qed (simp_all add: pump_finish_def)

lemma append_barriers:
  assumes "append_session packb unpackb chunk t d continues request_id st = Inr (n, st')" and "codec_ok packb unpackb"
  shows "barriers_from st st'"
proof (cases rule: append_session_ok [OF assms])
  case (1 c k)
  show ?thesis unfolding 1(1) by (simp add: barriers_from_def)
qed

lemma barriers_from_step:
  assumes "session_step packb packo unpackb st st'" and "codec_ok packb unpackb"
  shows "barriers_from st st'"
  using assms
proof (induction rule: session_step.induct)
  case (append chunk t d continues request_id st n st')
  then show ?case using append_barriers by blast
next
  case (consume st st')
  then show ?case by (auto simp: consumer_start_def barriers_from_def split: if_splits)
next
  case (consumer_end st)
  then show ?case by (simp add: barriers_from_def begin_session_close_def)
next
  case (control_end st barrier)
  then show ?case by (auto simp: barriers_from_def control_end_def)
next
  case (opened st owner)
  then show ?case by (simp add: barriers_from_def)
next
  case (clear st)
  then show ?case by (simp add: barriers_from_def clear_session_def begin_session_close_def)
qed (blast intro: barriers_from_same same_input_emit same_input_offer same_input_release same_input_send same_input_take
    same_input_close barriers_from_control pump_barriers pump_finish_barriers)+

lemma barriers_from_steps:
  "(session_step packb packo unpackb)\<^sup>*\<^sup>* st st' \<Longrightarrow> codec_ok packb unpackb \<Longrightarrow> barriers_from st st'"
  by (induction rule: rtranclp_induct) (auto intro: barriers_from_trans barriers_from_step)

lemma control_may_go_sent:
  assumes "input_ok st" and "\<not> se_is_closing st" and "control_may_go b should_preempt st"
  obtains position where "(position, b) \<in> set (se_control_barriers st)" "map tc_seq (se_sent st) = map int [0..<position]"
    "\<not> should_preempt \<longrightarrow> se_in_flight st = None"
proof -
  obtain position rest where hd: "se_control_barriers st = (position, b) # rest"
      "case se_pending st of [] \<Rightarrow> True | p # _ \<Rightarrow> tc_seq (pc_chunk p) \<ge> int position"
      "case se_in_flight st of None \<Rightarrow> True | Some (_, f) \<Rightarrow> should_preempt \<and> f = Submitted"
    using assms(3) by (auto simp: control_may_go_def split: list.splits)
  then have sent: "taken_chunks st = se_sent st"
    by (cases "se_in_flight st" rule: flight_cases) (auto simp: taken_chunks_def)
  have n: "numbered (se_sent st @ map pc_chunk (se_pending st))" "numbered (se_sent st)"
      "length (se_sent st) + length (se_pending st) = se_next_input st"
      "length (se_sent st) \<le> position" "position \<le> se_next_input st"
    using assms(1,2) hd(1) sent by (auto simp: input_ok_def)
  have "position \<le> length (se_sent st)"
  proof (cases "se_pending st")
    case (Cons p ps)
    then have "tc_seq (pc_chunk p) = int (length (se_sent st))" using numbered_next n(1) by simp
    then show ?thesis using hd(2) Cons by simp
  qed (use n in simp)
  with n have "map tc_seq (se_sent st) = map int [0..<position]" by (simp add: numbered_def)
  with hd show thesis by (intro that [of position]) (auto split: option.splits)
qed

text \<open>
  C14. An ordered control keeps its arrival order among the inputs: when it goes out, the owners have been
  sent exactly the inputs accepted before it arrived and none accepted after it, and unless it preempts,
  all of those are finished.
\<close>

theorem control_keeps_arrival_order:
  assumes "\<And>c c'. unpackb (packb c) = Inr c' \<Longrightarrow> tc_seq c' = tc_seq c" and "session_initial st0"
    and "(session_step packb packo unpackb)\<^sup>*\<^sup>* st0 st"
    and "control_arrive topology event stages st = (Inr (b, owners), st1)"
    and "(session_step packb packo unpackb)\<^sup>*\<^sup>* st1 st2"
    and "control_may_go b should_preempt st2" and "\<not> se_is_closing st2"
  shows "map tc_seq (se_sent st2) = map int [0..<se_next_input st] \<and> (\<not> should_preempt \<longrightarrow> se_in_flight st2 = None)"
proof -
  have codec: "codec_ok packb unpackb" using assms(1) by (auto simp: codec_ok_def)
  have "session_step packb packo unpackb st st1"
    using session_step.control [of packb packo unpackb st topology event stages] assms(4) by simp
  then have r2: "(session_step packb packo unpackb)\<^sup>*\<^sup>* st0 st2" using assms(3,5) by (meson rtranclp.rtrancl_into_rtrancl rtranclp_trans)
  have ok: "input_ok st" "input_ok st2"
    using session_reachable [OF codec assms(2)] assms(3) r2 by (auto simp: session_ok_def)
  obtain position where p: "(position, b) \<in> set (se_control_barriers st2)" "map tc_seq (se_sent st2) = map int [0..<position]"
      "\<not> should_preempt \<longrightarrow> se_in_flight st2 = None"
    by (rule control_may_go_sent [OF ok(2) assms(7,6)])
  obtain ctl where st1: "st1 = add_barrier (purge_interrupted ctl (tc_turn event) st)"
      "b = se_next_barrier (purge_interrupted ctl (tc_turn event) st)"
    using assms(4) by (auto simp: control_arrive_def Let_def split: if_splits sum.splits)
  note same = same_input_purge [of st ctl "tc_turn event", unfolded same_input_def]
  have "b < se_next_barrier st1" using st1 by (simp add: add_barrier_def)
  then have "(position, b) \<in> set (se_control_barriers st1)"
    using barriers_from_steps [OF assms(5) codec] p(1) by (simp add: barriers_from_def)
  moreover have "b = se_next_barrier st" "se_control_barriers st1 = se_control_barriers st @ [(se_next_input st, b)]"
    using same st1 by (simp_all add: add_barrier_def)
  ultimately have "position = se_next_input st" using ok(1) by (auto simp: input_ok_def)
  with p show ?thesis by simp
qed

definition demo_interrupt :: timed_chunk where
  "demo_interrupt = (demo_input 0)\<lparr>tc_payload := PDict [(''type'', JStr ''interrupt'')], tc_format := Some ''session''\<rparr>"

theorem control_keeps_arrival_order_witness:
  "let st1 = snd (control_arrive [] demo_interrupt None demo_session) in
   map tc_seq (se_sent st1) = map int [0..<se_next_input demo_session] \<and> se_in_flight st1 = None"
proof -
  let ?st1 = "snd (control_arrive [] demo_interrupt None demo_session)"
  have "fst (control_arrive [] demo_interrupt None demo_session) = Inr (0, [''asr''])" by code_simp
  then have "control_arrive [] demo_interrupt None demo_session = (Inr (0, [''asr'']), ?st1)"
    by (metis prod.collapse)
  moreover have "control_may_go 0 False ?st1" by code_simp
  moreover have "\<not> se_is_closing ?st1" by code_simp
  ultimately show ?thesis
    using control_keeps_arrival_order [OF demo_codec demo_session_initial rtranclp.rtrancl_refl _ rtranclp.rtrancl_refl]
    by (metis (no_types, lifting))
qed

section \<open>Cleanup\<close>

lemma close_owners_all:
  "\<forall>owner \<in> set owners. confirm owner = None \<Longrightarrow>
   close_owners confirm owners unconfirmed = (take (length unconfirmed - length owners) unconfirmed, None)"
  by (induction owners arbitrary: unconfirmed) (auto simp: butlast_conv_take min_def)

lemma close_owners_stop:
  assumes "\<forall>owner \<in> set ys. confirm owner = None" and "confirm x = Some e"
  shows "close_owners confirm (rev (xs @ x # ys)) (xs @ x # ys) = (xs @ [x], Some e)"
  using assms
proof (induction ys rule: rev_induct)
  case (snoc y ys)
  have "butlast (xs @ x # ys @ [y]) = xs @ x # ys" by (simp add: butlast_append)
  with snoc show ?case by simp
qed simp

text \<open>
  C27. A close never gives back an owner that has not confirmed it: the owners are closed last opened
  first; when all confirm, the session leaves the table and nothing stays reserved; when one does not, the
  session stays with the error, that owner and every one opened before it become unavailable, and no later
  route is opened over any of them.
\<close>

theorem cleanup_reserves_unconfirmed:
  assumes "se_cleanup_error st = None"
  shows "((\<forall>owner \<in> set (se_opened st). confirm owner = None) \<longrightarrow>
      cleanup_session confirm st ct = ct\<lparr>ct_sessions := dict_del (sid_id (se_identity st)) (ct_sessions ct)\<rparr>) \<and>
    (se_opened st = xs @ x # ys \<and> (\<forall>owner \<in> set ys. confirm owner = None) \<and> confirm x = Some e \<longrightarrow>
      (\<exists>st'. dict_get (ct_sessions (cleanup_session confirm st ct)) (sid_id (se_identity st)) = Some st' \<and>
         se_cleanup_error st' = Some e \<and> se_is_closed st' \<and> se_pending st' = [] \<and> se_outputs st' = []) \<and>
      ct_unavailable (cleanup_session confirm st ct) = ct_unavailable ct \<union> set (xs @ [x]) \<and>
      (fst (resolve_route_owners bind plan topology entry_stage registered stages session_id is_node policy
             (cleanup_session confirm st ct)) = Inr (bindings, owners) \<longrightarrow> set owners \<inter> set (xs @ [x]) = {}))"
proof -
  have same: "se_opened (clear_session st) = se_opened st" "se_cleanup_error (clear_session st) = None"
    "se_identity (clear_session st) = se_identity st" "se_pending (clear_session st) = []" "se_outputs (clear_session st) = []"
    using assms by (simp_all add: clear_session_def begin_session_close_def)
  have all: "cleanup_session confirm st ct = ct\<lparr>ct_sessions := dict_del (sid_id (se_identity st)) (ct_sessions ct)\<rparr>"
    if "\<forall>owner \<in> set (se_opened st). confirm owner = None"
    using close_owners_all [of "rev (se_opened st)" confirm "se_opened st"] that
    by (simp add: cleanup_session_def Let_def same)
  have one: "\<exists>st'. cleanup_session confirm st ct = ct\<lparr>ct_unavailable := ct_unavailable ct \<union> set (xs @ [x]),
        ct_sessions := dict_set (sid_id (se_identity st)) st' (ct_sessions ct)\<rparr> \<and>
      se_cleanup_error st' = Some e \<and> se_is_closed st' \<and> se_pending st' = [] \<and> se_outputs st' = []"
    if "se_opened st = xs @ x # ys" "\<forall>owner \<in> set ys. confirm owner = None" "confirm x = Some e"
    using close_owners_stop [OF that(2,3), of xs] that(1)
    by (intro exI [of _ "(clear_session st)\<lparr>se_cleanup_error := Some e,
        se_error := (case se_error (clear_session st) of None \<Rightarrow> Some e | Some e' \<Rightarrow> Some e'), se_is_closed := True\<rparr>"])
      (simp add: cleanup_session_def Let_def same)
  have refused: "set owners \<inter> U = {}"
    if "fst (resolve_route_owners bind plan topology entry_stage registered stages session_id is_node policy ct') = Inr (bindings, owners)"
      "U \<subseteq> ct_unavailable ct'" for ct' U
    using that
    by (auto simp: resolve_route_owners_def bind_r_Inr_iff Let_def split: if_splits prod.splits)
  show ?thesis
  proof (intro conjI impI)
    assume "\<forall>owner \<in> set (se_opened st). confirm owner = None"
    then show "cleanup_session confirm st ct = ct\<lparr>ct_sessions := dict_del (sid_id (se_identity st)) (ct_sessions ct)\<rparr>"
      by (rule all)
  next
    assume a: "se_opened st = xs @ x # ys \<and> (\<forall>owner \<in> set ys. confirm owner = None) \<and> confirm x = Some e"
    then obtain st' where st': "cleanup_session confirm st ct = ct\<lparr>ct_unavailable := ct_unavailable ct \<union> set (xs @ [x]),
        ct_sessions := dict_set (sid_id (se_identity st)) st' (ct_sessions ct)\<rparr>"
      "se_cleanup_error st' = Some e \<and> se_is_closed st' \<and> se_pending st' = [] \<and> se_outputs st' = []" using one by blast
    then show "\<exists>st'. dict_get (ct_sessions (cleanup_session confirm st ct)) (sid_id (se_identity st)) = Some st' \<and>
         se_cleanup_error st' = Some e \<and> se_is_closed st' \<and> se_pending st' = [] \<and> se_outputs st' = []"
      by simp
    show un: "ct_unavailable (cleanup_session confirm st ct) = ct_unavailable ct \<union> set (xs @ [x])"
      unfolding st'(1) by simp
    assume "fst (resolve_route_owners bind plan topology entry_stage registered stages session_id is_node policy
             (cleanup_session confirm st ct)) = Inr (bindings, owners)"
    then show "set owners \<inter> set (xs @ [x]) = {}" by (rule refused) (auto simp: un)
  qed
qed

definition demo_closing :: session where
  "demo_closing = demo_session\<lparr>se_opened := [''asr'', ''llm'', ''tts'']\<rparr>"

definition demo_table :: sessions where
  "demo_table = \<lparr>ct_sessions = [(''s'', demo_closing)], ct_graphs = {}, ct_unavailable = {}, ct_is_stopping = False,
     ct_next_open_index = 2\<rparr>"

definition demo_confirm :: "string \<Rightarrow> error option" where
  "demo_confirm owner = (if owner = ''llm'' then Some (TimeoutError ''close'') else None)"

theorem cleanup_reserves_unconfirmed_witness:
  "ct_unavailable (cleanup_session demo_confirm demo_closing demo_table) = {''asr'', ''llm''}"
proof -
  have "se_cleanup_error demo_closing = None" "se_opened demo_closing = [''asr''] @ ''llm'' # [''tts'']"
    "ct_unavailable demo_table = {}" "\<forall>owner \<in> set [''tts'']. demo_confirm owner = None"
    "demo_confirm ''llm'' = Some (TimeoutError ''close'')" by code_simp+
  then show ?thesis
    using cleanup_reserves_unconfirmed [of demo_closing demo_confirm demo_table "[''asr'']" "''llm''" "[''tts'']"
        "TimeoutError ''close''"] by fastforce
qed

end
