(* ===== verification/Session_Graph.thy ===== *)
theory Session_Graph
  imports Sessions
begin

text \<open>
  Sessions over a graph of nodes, \<^verbatim>\<open>sglang_omni/pipeline/session_graph.py\<close> and the runtime record of
  \<^verbatim>\<open>pipeline/sessions.py\<close>: one session per node, bounded edges between the nodes, control edges with
  their fences, paced publication to the client, the confirmations of the client's input and the close.

  The runner's tasks share one asyncio loop. A task is its program point: what it still has to do is data
  (\<open>forwarder\<close>, \<open>router\<close>, \<open>pacer_at\<close>, \<open>job\<close>). A step runs a task from one \<open>await\<close> to the next; where the
  code passes an \<open>await\<close> without suspending, the model may still interleave another task, so the theorems
  cover every schedule of the code. \<open>wake\<close> events are left out: a waiting task may look at its condition at any
  time. The names of inboxes, sessions and pacers are the nodes of the graph, so those tables are functions.
\<close>

section \<open>Data\<close>

type_synonym inbox_item = "string \<times> timed_chunk \<times> int option"

record node_inbox =
  ib_queued :: "inbox_item list"
  ib_counts :: "string \<Rightarrow> int"

definition empty_inbox :: node_inbox where
  "empty_inbox = \<lparr>ib_queued = [], ib_counts = (\<lambda>_. 0)\<rparr>"

type_synonym control_target = "string \<times> control_edge"

text \<open>
  The task \<open>forward_graph_inputs\<close> of a node. While it appends fragments: the chunk, the current fragment,
  the fragments the generator still yields and the error it ends with.
\<close>

record forwarder =
  fw_seq :: int
  fw_deadline :: "rat option"
  fw_fragments :: "(timed_chunk \<times> (timed_chunk \<times> bool) \<times> (timed_chunk \<times> bool) list \<times> error option) option"

text \<open>
  The task \<open>route_graph_outputs\<close> of a node: waiting for an output; for the earlier control to be
  delivered; at the fence of the next target, with the targets fenced so far; reporting delivered audio
  within a fence; handing the output to its readers; in the client's full queue. \<open>rt_delivery\<close> is the job
  that delivers the node's last control.
\<close>

datatype router_at =
    RReady
  | RAwait output_chunk
  | RFence output_chunk "control_target list" "control_target list"
  | RReport output_chunk control_target "string list" timed_chunk "control_target list" "control_target list"
  | RRead output_chunk "string list"
  | RPublish output_chunk output_chunk int

record router =
  rt_at :: router_at
  rt_delivery :: "nat option"

text \<open>The task \<open>deliver_paced_outputs\<close> of a node with a pacer.\<close>

datatype pacer_at = PRelease | PDrain | PTell output_chunk "string list"

text \<open>
  A control on its way along its edges: the client's (\<open>control_graph\<close>) or a node's
  (\<open>deliver_node_control\<close>). The first target is the one at hand; a barrier is the one of its session.
\<close>

datatype job_at = JFence | JReport "string list" timed_chunk | JDeliver | JWait nat "string list" | JSend nat

record job =
  jb_source :: string
  jb_event :: timed_chunk
  jb_preempt :: bool
  jb_targets :: "control_target list"
  jb_at :: job_at

text \<open>How far \<open>finish_graph_close\<close> has come: the nodes left to close and those that did not.\<close>

datatype close_at = COpen | CBegun | CForwarders | CNodes "string list" "(string \<times> error) list" | CClosed

datatype task = Forwarding | Routing | Delivering

text \<open>
  \<open>SessionGraphRuntime\<close>. \<open>gr_sessions\<close> are the node sessions of the table. \<open>gr_ended\<close> holds the
  tasks that ended and whose done callback has had no effect yet, with the exception of each. The last three fields record what happened: the outputs the
  client took, the inputs confirmed to it, and the controls handed to a node's owners with the appends
  they name.
\<close>

record graph =
  gr_identity :: session_identity
  gr_graph :: session_graph
  gr_limits :: session_limits
  gr_operation_timeout_s :: rat
  gr_sessions :: "string \<Rightarrow> session option"
  gr_inboxes :: "string \<Rightarrow> node_inbox"
  gr_outputs :: "(output_chunk \<times> int \<times> string) list"
  gr_output_bytes :: int
  gr_pacers :: "string \<Rightarrow> pacer option"
  gr_interrupted_turns :: "string \<Rightarrow> int set"
  gr_client_sequences :: "string \<Rightarrow> (int, int) dict"
  gr_pending_input_done :: "(int, int) dict"
  gr_output_end_ms :: rat
  gr_reply_start_ms :: rat
  gr_open_turns :: "int option set"
  gr_eos_confirmed :: "string set"
  gr_end_input :: "timed_chunk option"
  gr_drains :: "(string \<times> timed_chunk) list"
  gr_modality_end_ms :: "(string, rat) dict"
  gr_ended_modalities :: "string list"
  gr_next_input :: nat
  gr_next_output :: nat
  gr_error :: "error option"
  gr_cleanup_error :: "error option"
  gr_is_closing :: bool
  gr_has_output_consumer :: bool
  gr_close :: close_at
  gr_forwarders :: "string \<Rightarrow> forwarder option"
  gr_routers :: "string \<Rightarrow> router option"
  gr_paced :: "string \<Rightarrow> pacer_at option"
  gr_jobs :: "(nat, job) dict"
  gr_next_job :: nat
  gr_ended :: "(task \<times> string \<times> error option) list"
  gr_taken :: "output_chunk list"
  gr_confirmed :: "int list"
  gr_controls :: "(string \<times> timed_chunk \<times> string list) list"

abbreviation gr_nodes :: "graph \<Rightarrow> string list" where
  "gr_nodes st \<equiv> dict_keys (sg_nodes (gr_graph st))"

text \<open>
  \<open>nodes\<close> holds the sessions in the order they were opened, the graph's. A graph is checked when it is made,
  so its order does not raise here.
\<close>

definition node_order :: "session_graph \<Rightarrow> string list" where
  "node_order g = (case graph_order g of Inl _ \<Rightarrow> [] | Inr order \<Rightarrow> order)"

section \<open>Opening\<close>

text \<open>
  \<open>open_graph_nodes\<close>: the nodes are opened in the graph's order; \<open>opens\<close> is the error of a node's open,
  if it has one. The result is the nodes opened, in order; on an error the nodes already open are closed,
  last first, and those closes come with the error.
\<close>

fun open_nodes :: "(string \<Rightarrow> error option) \<Rightarrow> string list \<Rightarrow> string list \<Rightarrow> (error \<times> string list) + string list" where
  "open_nodes opens [] nodes = Inr nodes"
| "open_nodes opens (name # names) nodes =
     (case opens name of None \<Rightarrow> open_nodes opens names (nodes @ [name]) | Some e \<Rightarrow> Inl (e, rev nodes))"

definition open_graph_nodes :: "(string \<Rightarrow> error option) \<Rightarrow> session_graph \<Rightarrow> (error \<times> string list) + string list" where
  "open_graph_nodes opens g =
     (case graph_order g of Inl e \<Rightarrow> Inl (e, []) | Inr order \<Rightarrow> open_nodes opens order [])"

text \<open>
  \<open>open_graph\<close> once its nodes are open: every node has a session with the graph's limits and a forwarder and
  a router, and a node that publishes audio has a pacer and the task that delivers from it.
\<close>

definition publishes_audio :: "session_graph \<Rightarrow> string \<Rightarrow> bool" where
  "publishes_audio g name \<longleftrightarrow>
     (case dict_get (sg_publish g) name of None \<Rightarrow> False | Some formats \<Rightarrow> set AUDIO_FORMATS \<inter> set formats \<noteq> {})"

definition graph_init ::
  "session_identity \<Rightarrow> session_graph \<Rightarrow> session_limits \<Rightarrow> rat \<Rightarrow> rat \<Rightarrow> (string \<Rightarrow> session_identity \<times> string list) \<Rightarrow> graph" where
  "graph_init identity g limits operation_timeout_s lead_ms route =
     (let is_node = (\<lambda>name. dict_has (sg_nodes g) name)
      in \<lparr>gr_identity = identity, gr_graph = g, gr_limits = limits, gr_operation_timeout_s = operation_timeout_s,
          gr_sessions = (\<lambda>name. if is_node name
             then Some (session_init (fst (route name)) (snd (route name)) limits True lead_ms) else None),
          gr_inboxes = (\<lambda>_. empty_inbox), gr_outputs = [], gr_output_bytes = 0,
          gr_pacers = (\<lambda>name. if publishes_audio g name then Some (pacer_init lead_ms False) else None),
          gr_interrupted_turns = (\<lambda>_. {}), gr_client_sequences = (\<lambda>_. []), gr_pending_input_done = [],
          gr_output_end_ms = 0, gr_reply_start_ms = 0, gr_open_turns = {}, gr_eos_confirmed = {},
          gr_end_input = None, gr_drains = [], gr_modality_end_ms = [], gr_ended_modalities = [],
          gr_next_input = 0, gr_next_output = 0, gr_error = None, gr_cleanup_error = None,
          gr_is_closing = False, gr_has_output_consumer = False, gr_close = COpen,
          gr_forwarders = (\<lambda>name. if is_node name
             then Some \<lparr>fw_seq = 0, fw_deadline = None, fw_fragments = None\<rparr> else None),
          gr_routers = (\<lambda>name. if is_node name then Some \<lparr>rt_at = RReady, rt_delivery = None\<rparr> else None),
          gr_paced = (\<lambda>name. if publishes_audio g name then Some PRelease else None),
          gr_jobs = [], gr_next_job = 0, gr_ended = [], gr_taken = [], gr_confirmed = [], gr_controls = []\<rparr>)"

section \<open>Failure of a graph\<close>

definition begin_graph_close :: "graph \<Rightarrow> graph" where
  "begin_graph_close st = (if gr_close st = COpen then st\<lparr>gr_close := CBegun\<rparr> else st)"

definition or_error :: "error option \<Rightarrow> error \<Rightarrow> error option" where
  "or_error first e = (case first of None \<Rightarrow> Some e | Some e' \<Rightarrow> Some e')"

definition fail_graph :: "error \<Rightarrow> graph \<Rightarrow> graph" where
  "fail_graph e st = begin_graph_close (st\<lparr>gr_error := or_error (gr_error st) e\<rparr>)"

text \<open>
  The done callback of a task. Once the graph is closing it does nothing, and \<open>stop_graph_tasks\<close> looks at the
  task instead.
\<close>

definition task_done :: "graph \<Rightarrow> graph" where
  "task_done st =
     (case gr_ended st of
        [] \<Rightarrow> st
      | (_, _, e) # ended \<Rightarrow>
          if gr_is_closing st then st
          else fail_graph (case e of Some e \<Rightarrow> e | None \<Rightarrow> RuntimeError ''graph node session ended'') (st\<lparr>gr_ended := ended\<rparr>))"

section \<open>Edges\<close>

definition node_bound :: "session_graph \<Rightarrow> string \<Rightarrow> string \<Rightarrow> data_edge" where
  "node_bound g target source =
     (case dict_get (sg_nodes g) target of None \<Rightarrow> default_edge source | Some node \<Rightarrow> bound node source)"

definition edge_capacity :: "graph \<Rightarrow> string \<Rightarrow> string \<Rightarrow> int" where
  "edge_capacity st target source =
     (case de_capacity (node_bound (gr_graph st) target source) of
        None \<Rightarrow> max_pending_chunks (gr_limits st) | Some c \<Rightarrow> c)"

text \<open>\<open>is_interrupted_reply\<close> where the control type of the chunk may raise, and \<open>is_interrupted\<close>.\<close>

definition interrupted_reply :: "timed_chunk \<Rightarrow> int \<Rightarrow> bool result" where
  "interrupted_reply chunk turn =
     (if tc_turn chunk = Some turn
      then bind_r (tc_control_type chunk) (\<lambda>ctl. Inr (is_interrupted_reply (tc_turn chunk) ctl (Some turn)))
      else Inr False)"

definition is_interrupted :: "graph \<Rightarrow> string \<Rightarrow> timed_chunk \<Rightarrow> bool result" where
  "is_interrupted st target chunk =
     (case tc_turn chunk of
        None \<Rightarrow> Inr False
      | Some turn \<Rightarrow> if turn \<in> gr_interrupted_turns st target then interrupted_reply chunk turn else Inr False)"

abbreviation is_from :: "string \<Rightarrow> inbox_item \<Rightarrow> bool" where
  "is_from source item \<equiv> fst item = source"

abbreviation set_inbox :: "string \<Rightarrow> node_inbox \<Rightarrow> graph \<Rightarrow> graph" where
  "set_inbox target inbox st \<equiv> st\<lparr>gr_inboxes := (gr_inboxes st)(target := inbox)\<rparr>"

definition queue_item :: "string \<Rightarrow> inbox_item \<Rightarrow> graph \<Rightarrow> graph" where
  "queue_item target item st =
     (let inbox = gr_inboxes st target
      in set_inbox target
           \<lparr>ib_queued = ib_queued inbox @ [item],
            ib_counts = (ib_counts inbox)(fst item := ib_counts inbox (fst item) + 1)\<rparr> st)"

definition drop_oldest :: "string \<Rightarrow> string \<Rightarrow> graph \<Rightarrow> graph" where
  "drop_oldest target source st =
     (let inbox = gr_inboxes st target
      in set_inbox target
           \<lparr>ib_queued = remove_first (is_from source) (ib_queued inbox),
            ib_counts = (ib_counts inbox)(source := ib_counts inbox source - 1)\<rparr> st)"

text \<open>\<open>next()\<close> on a generator without an element, which an asynchronous caller sees as this error.\<close>

abbreviation stop_iteration :: error where
  "stop_iteration \<equiv> RuntimeError ''generator raised StopIteration''"

text \<open>
  \<open>put_graph_inbox\<close> at its loop: the result is whether the put is over; \<^const>\<open>False\<close> is the wait of a
  producer on a full edge.
\<close>

definition put_graph_inbox :: "string \<Rightarrow> string \<Rightarrow> timed_chunk \<Rightarrow> (graph, bool) io" where
  "put_graph_inbox target source chunk st =
     (let overflow = de_overflow (node_bound (gr_graph st) target source);
          full = edge_capacity st target source \<le> ib_counts (gr_inboxes st target) source
      in case is_interrupted st target chunk of
           Inl e \<Rightarrow> (Inl e, st)
         | Inr True \<Rightarrow> (Inr True, st)
         | Inr False \<Rightarrow>
             if overflow = Block \<and> full then (Inr False, st)
             else if overflow = DropOldest \<and> full then
               if list_ex (is_from source) (ib_queued (gr_inboxes st target))
               then (Inr True, queue_item target (source, chunk, None) (drop_oldest target source st))
               else (Inl stop_iteration, st)
             else (Inr True, queue_item target (source, chunk, None) st))"

section \<open>Outputs to the client\<close>

definition outputs_full :: "graph \<Rightarrow> bool" where
  "outputs_full st \<longleftrightarrow>
     0 < max_output_chunks (gr_limits st) \<and> max_output_chunks (gr_limits st) \<le> int (length (gr_outputs st))"

definition reserve_graph_output :: "(output_chunk \<Rightarrow> byte list) \<Rightarrow> output_chunk \<Rightarrow> (graph, int) io" where
  "reserve_graph_output packo out st =
     (let sz = wire_size_out packo out
      in if gr_output_bytes st + sz > max_output_bytes (gr_limits st) then (Inl SessionOutputBudgetError, st)
         else (Inr sz, st\<lparr>gr_output_bytes := gr_output_bytes st + sz\<rparr>))"

definition input_done_output :: "graph \<Rightarrow> timed_chunk \<Rightarrow> output_chunk" where
  "input_done_output st chunk =
     \<lparr>oc_identity = gr_identity st, oc_seq = int (gr_next_output st), oc_input_seq = tc_seq chunk,
      oc_modality = tc_modality chunk, oc_t_start_ms = tc_t_start_ms chunk, oc_duration_ms = tc_duration_ms chunk,
      oc_payload = PNone, oc_format = tc_format chunk, oc_eos = tc_eos chunk, oc_turn = None, oc_kind = KInputDone\<rparr>"

definition emit_graph_input_done ::
  "(output_chunk \<Rightarrow> byte list) \<Rightarrow> string \<Rightarrow> timed_chunk \<Rightarrow> (graph, unit) io" where
  "emit_graph_input_done packo name chunk st =
     (let out = input_done_output st chunk
      in if outputs_full st then (Inl SessionOutputBudgetError, st)
         else
           then_do (reserve_graph_output packo out) (\<lambda>sz.
             modify (\<lambda>st. st\<lparr>gr_outputs := gr_outputs st @ [(out, sz, name)], gr_next_output := Suc (gr_next_output st),
                             gr_confirmed := gr_confirmed st @ [tc_seq chunk]\<rparr>)) st)"

text \<open>One reader is done with its copy of the client's input.\<close>

definition confirm_graph_input ::
  "(output_chunk \<Rightarrow> byte list) \<Rightarrow> string \<Rightarrow> timed_chunk \<Rightarrow> (graph, unit) io" where
  "confirm_graph_input packo name chunk st =
     (let st = (if tc_eos chunk then st\<lparr>gr_eos_confirmed := insert name (gr_eos_confirmed st)\<rparr> else st)
      in case dict_get (gr_pending_input_done st) (tc_seq chunk) of
           None \<Rightarrow> (Inl (KeyError []), st)
         | Some n \<Rightarrow>
             if n - 1 = 0 then
               let st = st\<lparr>gr_pending_input_done := dict_del (tc_seq chunk) (gr_pending_input_done st)\<rparr>
               in if tc_eos chunk then (Inr (), st\<lparr>gr_drains := gr_drains st @ [(name, chunk)]\<rparr>)
                  else emit_graph_input_done packo name chunk st
             else (Inr (), st\<lparr>gr_pending_input_done := dict_set (tc_seq chunk) (n - 1) (gr_pending_input_done st)\<rparr>))"

text \<open>\<open>publish_graph_output\<close> up to its put into the client's queue: the turns that are open, and the number.\<close>

definition track_turn :: "output_chunk \<Rightarrow> graph \<Rightarrow> graph" where
  "track_turn out st =
     (if oc_control out = Some TURN_QUEUED then st\<lparr>gr_open_turns := insert (oc_turn out) (gr_open_turns st)\<rparr>
      else if oc_control out \<in> {Some TURN_DONE, Some TURN_EMPTY, Some TURN_INTERRUPTED}
      then st\<lparr>gr_open_turns := gr_open_turns st - {oc_turn out}\<rparr> else st)"

definition number_output :: "output_chunk \<Rightarrow> graph \<Rightarrow> output_chunk \<times> graph" where
  "number_output out st =
     (let st = track_turn out st
      in (out\<lparr>oc_identity := gr_identity st, oc_seq := int (gr_next_output st), oc_input_seq := int (gr_next_input st - 1)\<rparr>,
          st\<lparr>gr_next_output := Suc (gr_next_output st)\<rparr>))"

definition put_output :: "output_chunk \<Rightarrow> int \<Rightarrow> string \<Rightarrow> graph \<Rightarrow> graph" where
  "put_output out sz name st = st\<lparr>gr_outputs := gr_outputs st @ [(out, sz, name)]\<rparr>"

text \<open>\<open>return_turn_end\<close> to the session of a node; the control type of a published output has been computed before.\<close>

definition return_node_turn_end :: "string \<Rightarrow> output_chunk \<Rightarrow> graph \<Rightarrow> graph" where
  "return_node_turn_end name out st =
     (case gr_sessions st name of
        None \<Rightarrow> st
      | Some s \<Rightarrow> (case return_turn_end out s of
                       Inl _ \<Rightarrow> st | Inr s \<Rightarrow> st\<lparr>gr_sessions := (gr_sessions st)(name := Some s)\<rparr>))"

text \<open>The client takes an output.\<close>

definition take_graph_output :: "graph \<Rightarrow> graph" where
  "take_graph_output st =
     (case gr_outputs st of
        [] \<Rightarrow> st
      | (out, sz, name) # rest \<Rightarrow>
          st\<lparr>gr_outputs := rest, gr_output_bytes := gr_output_bytes st - sz,
             gr_pacers := (gr_pacers st)(name := map_option (sent out) (gr_pacers st name)),
             gr_taken := gr_taken st @ [out]\<rparr>)"

definition graph_consumer_start :: "graph \<Rightarrow> graph result" where
  "graph_consumer_start st =
     (if gr_has_output_consumer st then Inl (RuntimeError ''session already has an output consumer'')
      else Inr (st\<lparr>gr_has_output_consumer := True\<rparr>))"

definition graph_consumer_end :: "graph \<Rightarrow> graph" where
  "graph_consumer_end st = begin_graph_close (st\<lparr>gr_has_output_consumer := False\<rparr>)"

section \<open>Input of the client\<close>

definition check_graph_input ::
  "(timed_chunk \<Rightarrow> byte list) \<Rightarrow> (byte list \<Rightarrow> timed_chunk result) \<Rightarrow> timed_chunk \<Rightarrow> pyfloat \<Rightarrow> pyfloat \<Rightarrow> graph \<Rightarrow>
   timed_chunk result" where
  "check_graph_input packb unpackb chunk t_start duration st =
     (if gr_is_closing st then Inl (RuntimeError ''session is closing'')
      else if gr_end_input st \<noteq> None then Inl (ValueError ''input after EOS'')
      else if tc_seq chunk \<noteq> int (gr_next_input st)
      then Inl (ValueError ''input seq must be contiguous within an open index'')
      else
        bind_r (check_timing t_start duration (tc_modality chunk) (Some (gr_modality_end_ms st))) (\<lambda>_.
        bind_r (admit_input packb unpackb
                  (chunk\<lparr>tc_t_start_ms := finite_value t_start, tc_duration_ms := finite_value duration\<rparr>)
                  (gr_limits st) (gr_modality_end_ms st) (gr_ended_modalities st)) (\<lambda>(chunk, _). Inr chunk)))"

definition input_readers :: "graph \<Rightarrow> timed_chunk \<Rightarrow> string list" where
  "input_readers st chunk = reading_nodes (gr_graph st) GRAPH_INPUT (tc_format chunk)"

definition full_readers :: "graph \<Rightarrow> timed_chunk \<Rightarrow> string list" where
  "full_readers st chunk =
     filter (\<lambda>name. edge_capacity st name GRAPH_INPUT \<le> ib_counts (gr_inboxes st name) GRAPH_INPUT)
       (input_readers st chunk)"

text \<open>The client's oldest input in a node's inbox, and the confirmations that dropping them for \<open>chunk\<close> makes due.\<close>

definition oldest_input :: "graph \<Rightarrow> string \<Rightarrow> inbox_item result" where
  "oldest_input st name =
     (case find (is_from GRAPH_INPUT) (ib_queued (gr_inboxes st name)) of
        None \<Rightarrow> Inl stop_iteration | Some item \<Rightarrow> Inr item)"

definition due_confirmations :: "graph \<Rightarrow> timed_chunk \<Rightarrow> inbox_item list \<Rightarrow> int result" where
  "due_confirmations st chunk dropped =
     (let seqs = map (\<lambda>(_, _, seq). seq) dropped
      in bind_r (map_r (\<lambda>seq. case seq of
                          None \<Rightarrow> Inl (KeyError [])
                        | Some s \<Rightarrow> bind_r (dict_lookup (gr_pending_input_done st) s) (\<lambda>n.
                            Inr (if int (count_list seqs (Some s)) = n then 1 else 0)))
                  (remdups seqs))
           (\<lambda>due. Inr (sum_list due + (if input_readers st chunk = [] then 1 else 0))))"

definition drop_input :: "(output_chunk \<Rightarrow> byte list) \<Rightarrow> string \<Rightarrow> (graph, unit) io" where
  "drop_input packo name st =
     (case oldest_input st name of
        Inl e \<Rightarrow> (Inl e, st)
      | Inr (_, chunk, _) \<Rightarrow> confirm_graph_input packo name chunk (drop_oldest name GRAPH_INPUT st))"

fun drop_inputs :: "(output_chunk \<Rightarrow> byte list) \<Rightarrow> string list \<Rightarrow> (graph, unit) io" where
  "drop_inputs packo [] = ret ()"
| "drop_inputs packo (name # names) = then_do (drop_input packo name) (\<lambda>_. drop_inputs packo names)"

definition queue_input :: "timed_chunk \<Rightarrow> graph \<Rightarrow> graph" where
  "queue_input chunk st = fold (\<lambda>name. queue_item name (GRAPH_INPUT, chunk, Some (tc_seq chunk))) (input_readers st chunk) st"

definition finish_graph_append :: "timed_chunk \<Rightarrow> graph \<Rightarrow> graph" where
  "finish_graph_append chunk st =
     st\<lparr>gr_end_input := (if tc_eos chunk then Some chunk else gr_end_input st),
        gr_pacers := (if tc_eos chunk then map_option end_input \<circ> gr_pacers st else gr_pacers st),
        gr_modality_end_ms := dict_set (tc_modality chunk) (tc_t_start_ms chunk + tc_duration_ms chunk) (gr_modality_end_ms st),
        gr_ended_modalities := (if tc_eos chunk then List.insert (tc_modality chunk) (gr_ended_modalities st)
                                else gr_ended_modalities st),
        gr_next_input := Suc (gr_next_input st)\<rparr>"

text \<open>\<open>append_graph\<close> once the input is admitted and there is room: what it changes, in order.\<close>

definition accept_input :: "(output_chunk \<Rightarrow> byte list) \<Rightarrow> timed_chunk \<Rightarrow> string list \<Rightarrow> (graph, int) io" where
  "accept_input packo chunk full st =
     then_do (if input_readers st chunk \<noteq> []
              then modify (\<lambda>st. st\<lparr>gr_pending_input_done :=
                     dict_set (tc_seq chunk) (int (length (input_readers st chunk))) (gr_pending_input_done st)\<rparr>)
              else emit_graph_input_done packo GRAPH_INPUT chunk) (\<lambda>_.
     then_do (drop_inputs packo full) (\<lambda>_.
     then_do (modify (\<lambda>st. finish_graph_append chunk (queue_input chunk st))) (\<lambda>_. ret (tc_seq chunk)))) st"

definition append_graph ::
  "(timed_chunk \<Rightarrow> byte list) \<Rightarrow> (output_chunk \<Rightarrow> byte list) \<Rightarrow> (byte list \<Rightarrow> timed_chunk result) \<Rightarrow>
   timed_chunk \<Rightarrow> pyfloat \<Rightarrow> pyfloat \<Rightarrow> (graph, int) io" where
  "append_graph packb packo unpackb chunk t_start duration st =
     (case bind_r (check_graph_input packb unpackb chunk t_start duration st) (\<lambda>chunk.
             let full = full_readers st chunk
             in bind_r (map_r (oldest_input st) full) (\<lambda>dropped.
                bind_r (due_confirmations st chunk dropped) (\<lambda>due.
                  if (\<exists>name \<in> set full. de_overflow (node_bound (gr_graph st) name GRAPH_INPUT) = Block) \<or>
                     (0 < max_output_chunks (gr_limits st) \<and>
                      max_output_chunks (gr_limits st) < int (length (gr_outputs st)) + due)
                  then Inl QueueFullError else Inr (chunk, full)))) of
        Inl e \<Rightarrow> (Inl e, st)
      | Inr (chunk, full) \<Rightarrow> accept_input packo chunk full st)"

section \<open>Fences\<close>

fun filter_r :: "('a \<Rightarrow> bool result) \<Rightarrow> 'a list \<Rightarrow> 'a list result" where
  "filter_r p [] = Inr []"
| "filter_r p (x # xs) = bind_r (p x) (\<lambda>b. bind_r (filter_r p xs) (\<lambda>ys. Inr (if b then x # ys else ys)))"

definition lift_r :: "('s \<Rightarrow> 's result) \<Rightarrow> ('s, unit) io" where
  "lift_r f st = (case f st of Inl e \<Rightarrow> (Inl e, st) | Inr st \<Rightarrow> (Inr (), st))"

definition fence_inbox :: "string \<Rightarrow> int \<Rightarrow> graph \<Rightarrow> graph result" where
  "fence_inbox target turn st =
     bind_r (filter_r (\<lambda>(source, chunk, _). if source = GRAPH_INPUT then Inr True
                         else bind_r (interrupted_reply chunk turn) (\<lambda>b. Inr (\<not> b)))
               (ib_queued (gr_inboxes st target)))
       (\<lambda>queued. Inr (set_inbox target
          \<lparr>ib_queued = queued, ib_counts = (\<lambda>source. int (length (filter (is_from source) queued)))\<rparr> st))"

definition fence_pending :: "string \<Rightarrow> int \<Rightarrow> graph \<Rightarrow> graph result" where
  "fence_pending target turn st =
     (case gr_sessions st target of
        None \<Rightarrow> Inl (KeyError [])
      | Some node \<Rightarrow>
          bind_r (filter_r (\<lambda>p. bind_r (interrupted_reply (pc_chunk p) turn) (\<lambda>b.
                       Inr (\<not> b \<or> dict_has (gr_client_sequences st target) (tc_seq (pc_chunk p))))) (se_pending node))
            (\<lambda>kept. Inr (st\<lparr>gr_sessions := (gr_sessions st)(target := Some (node\<lparr>
               se_pending_count := se_pending_count node - (int (length (se_pending node)) - int (length kept)),
               se_pending_bytes := se_pending_bytes node -
                 (sum_list (map pc_encoded_bytes (se_pending node)) - sum_list (map pc_encoded_bytes kept)),
               se_pending := kept\<rparr>))\<rparr>)))"

definition fence_turn :: "string \<Rightarrow> int \<Rightarrow> (graph, unit) io" where
  "fence_turn target turn =
     then_do (modify (\<lambda>st. st\<lparr>gr_interrupted_turns :=
                (gr_interrupted_turns st)(target := insert turn (gr_interrupted_turns st target))\<rparr>)) (\<lambda>_.
     then_do (lift_r (fence_inbox target turn)) (\<lambda>_. lift_r (fence_pending target turn)))"

text \<open>
  The pacer of the target drops the turn, and the client's queue its unread reply data. The outputs of a
  paced node in that queue have passed \<open>offer\<close>, so their control type does not raise.
\<close>

definition is_unread_reply :: "string \<Rightarrow> int \<Rightarrow> output_chunk \<times> int \<times> string \<Rightarrow> bool" where
  "is_unread_reply target turn entry \<longleftrightarrow>
     (case entry of (out, _, name) \<Rightarrow> name = target \<and> oc_turn out = Some turn \<and> oc_control out = None)"

definition output_sizes :: "(output_chunk \<times> int \<times> string) list \<Rightarrow> int" where
  "output_sizes entries = sum_list (map (\<lambda>(_, sz, _). sz) entries)"

definition purge_pacer :: "string \<Rightarrow> int option \<Rightarrow> graph \<Rightarrow> graph" where
  "purge_pacer target turn st =
     (case gr_pacers st target of
        None \<Rightarrow> st
      | Some p \<Rightarrow> (case purge turn p of
          (dropped, p) \<Rightarrow> st\<lparr>gr_output_bytes := gr_output_bytes st - dropped, gr_pacers := (gr_pacers st)(target := Some p)\<rparr>))"

definition drop_unread :: "string \<Rightarrow> int \<Rightarrow> graph \<Rightarrow> graph" where
  "drop_unread target turn st =
     st\<lparr>gr_output_bytes := gr_output_bytes st - output_sizes (filter (is_unread_reply target turn) (gr_outputs st)),
        gr_outputs := filter (\<lambda>entry. \<not> is_unread_reply target turn entry) (gr_outputs st)\<rparr>"

definition delivered_report :: "string \<Rightarrow> int \<Rightarrow> graph \<Rightarrow> timed_chunk" where
  "delivered_report name turn st =
     \<lparr>tc_modality = CONTROL, tc_t_start_ms = 0, tc_duration_ms = 0, tc_seq = 0,
      tc_payload = PDict [(''type'', JStr REPLY_DELIVERED),
        (''audio_ms'', JNum (case gr_pacers st name of None \<Rightarrow> 0 | Some p \<Rightarrow> delivered_ms turn p))],
      tc_format = Some SESSION_CONTROL, tc_eos = False, tc_turn = Some turn\<rparr>"

text \<open>
  \<open>fence_control_edge\<close> up to the report of delivered audio: the event goes on, does not, or goes on after the
  readers have been told.
\<close>

datatype fenced = FPass | FStop | FReport "string list" timed_chunk

definition fence_outputs :: "string \<Rightarrow> int option \<Rightarrow> (graph, fenced) io" where
  "fence_outputs target turn st =
     (let st = purge_pacer target turn st
      in case turn of
           None \<Rightarrow> (Inr FPass, st)
         | Some t \<Rightarrow>
             (let st = drop_unread target t st
              in (Inr (FReport (reading_nodes (gr_graph st) target (Some SESSION_CONTROL)) (delivered_report target t st)), st)))"

definition fence_control_edge :: "string \<Rightarrow> timed_chunk \<Rightarrow> (graph, fenced) io" where
  "fence_control_edge target event st =
     (case tc_control_type event of
        Inl e \<Rightarrow> (Inl e, st)
      | Inr ctl \<Rightarrow>
          then_do (case tc_turn event of
                     Some turn \<Rightarrow> if ctl = Some INTERRUPT then fence_turn target turn else ret ()
                   | None \<Rightarrow> ret ()) (\<lambda>_ st.
            if ctl = Some INTERRUPT \<and> gr_pacers st target \<noteq> None then fence_outputs target (tc_turn event) st
            else if ctl = None then
              (case is_interrupted st target event of
                 Inl e \<Rightarrow> (Inl e, st) | Inr b \<Rightarrow> (Inr (if b then FStop else FPass), st))
            else (Inr FPass, st)) st)"

section \<open>Forwarding the inboxes\<close>

definition set_forwarder :: "string \<Rightarrow> forwarder \<Rightarrow> graph \<Rightarrow> graph" where
  "set_forwarder name fw st = st\<lparr>gr_forwarders := (gr_forwarders st)(name := Some fw)\<rparr>"

definition fail_forwarder :: "string \<Rightarrow> error \<Rightarrow> graph \<Rightarrow> graph" where
  "fail_forwarder name e st =
     st\<lparr>gr_forwarders := (gr_forwarders st)(name := None), gr_ended := gr_ended st @ [(Forwarding, name, Some e)]\<rparr>"

definition pop_inbox :: "string \<Rightarrow> graph \<Rightarrow> graph" where
  "pop_inbox name st =
     (let inbox = gr_inboxes st name; source = fst (hd (ib_queued inbox))
      in set_inbox name \<lparr>ib_queued = tl (ib_queued inbox),
           ib_counts = (ib_counts inbox)(source := ib_counts inbox source - 1)\<rparr> st)"

definition rotate_inbox :: "string \<Rightarrow> graph \<Rightarrow> graph" where
  "rotate_inbox name st =
     (let inbox = gr_inboxes st name in set_inbox name (inbox\<lparr>ib_queued := rotate1 (ib_queued inbox)\<rparr>) st)"

text \<open>
  The client's EOS waits at a node for the readers upstream of it and, at a node with a feedback edge, for
  the open turns.
\<close>

definition upstream_of :: "session_graph \<Rightarrow> string \<Rightarrow> string list" where
  "upstream_of g name = takeWhile (\<lambda>n. n \<noteq> name) (node_order g)"

definition has_feedback :: "session_graph \<Rightarrow> string \<Rightarrow> bool" where
  "has_feedback g name \<longleftrightarrow>
     (case dict_get (sg_nodes g) name of
        None \<Rightarrow> False
      | Some node \<Rightarrow> list_ex (\<lambda>source. de_feedback (bound node source)) (dict_keys (node_edges node)))"

definition eos_waits :: "graph \<Rightarrow> string \<Rightarrow> timed_chunk \<Rightarrow> bool" where
  "eos_waits st name chunk \<longleftrightarrow>
     set (upstream_of (gr_graph st) name) \<inter> (set (input_readers st chunk) - gr_eos_confirmed st) \<noteq> {} \<or>
     (gr_open_turns st \<noteq> {} \<and> has_feedback (gr_graph st) name)"

definition full_input_deadline :: "rat \<Rightarrow> rat \<Rightarrow> rat option \<Rightarrow> rat result" where
  "full_input_deadline timeout now deadline =
     (case deadline of
        None \<Rightarrow> Inr (now + timeout)
      | Some d \<Rightarrow> if d \<le> now then Inl (TimeoutError ''graph node rejected input'') else Inr d)"

text \<open>\<open>append_session\<close> to the session of a node.\<close>

definition append_node ::
  "(timed_chunk \<Rightarrow> byte list) \<Rightarrow> (byte list \<Rightarrow> timed_chunk result) \<Rightarrow> string \<Rightarrow> timed_chunk \<Rightarrow> bool \<Rightarrow> string \<Rightarrow> graph \<Rightarrow>
   graph result" where
  "append_node packb unpackb name chunk continues request_id st =
     (case gr_sessions st name of
        None \<Rightarrow> Inl (ValueError ''unknown or stale session reference'')
      | Some s \<Rightarrow>
          bind_r (append_session packb unpackb chunk (Fin (tc_t_start_ms chunk)) (Fin (tc_duration_ms chunk))
                    continues request_id s)
            (\<lambda>(_, s). Inr (st\<lparr>gr_sessions := (gr_sessions st)(name := Some s)\<rparr>)))"

text \<open>A node session that is full is asked again until the deadline; another error ends the forwarder.\<close>

definition retry_or_fail :: "rat \<Rightarrow> string \<Rightarrow> forwarder \<Rightarrow> error \<Rightarrow> graph \<Rightarrow> graph" where
  "retry_or_fail now name fw e st =
     (if e = QueueFullError then
        (case full_input_deadline (gr_operation_timeout_s st) now (fw_deadline fw) of
           Inl e \<Rightarrow> fail_forwarder name e st
         | Inr d \<Rightarrow> set_forwarder name (fw\<lparr>fw_deadline := Some d\<rparr>) st)
      else fail_forwarder name e st)"

definition start_fragments :: "(timed_chunk \<Rightarrow> byte list) \<Rightarrow> string \<Rightarrow> forwarder \<Rightarrow> timed_chunk \<Rightarrow> graph \<Rightarrow> graph" where
  "start_fragments packb name fw chunk st =
     (case gr_sessions st name of
        None \<Rightarrow> fail_forwarder name (KeyError []) st
      | Some s \<Rightarrow>
          (case fragment_chunk packb chunk (fw_seq fw) (max_chunk_bytes (se_limits s)) of
             ([], None) \<Rightarrow> fail_forwarder name stop_iteration st
           | ([], Some e) \<Rightarrow> fail_forwarder name e st
           | (f # fs, e) \<Rightarrow> set_forwarder name (fw\<lparr>fw_deadline := None, fw_fragments := Some (chunk, f, fs, e)\<rparr>) st))"

definition forward_input ::
  "(timed_chunk \<Rightarrow> byte list) \<Rightarrow> (byte list \<Rightarrow> timed_chunk result) \<Rightarrow> rat \<Rightarrow> string \<Rightarrow> string \<Rightarrow> forwarder \<Rightarrow> graph \<Rightarrow> graph" where
  "forward_input packb unpackb now request_id name fw st =
     (case ib_queued (gr_inboxes st name) of
        [] \<Rightarrow> st
      | (source, chunk, client_seq) # rest \<Rightarrow>
          if tc_eos chunk \<and> client_seq \<noteq> None \<and> eos_waits st name chunk
          then (if rest \<noteq> [] then rotate_inbox name st else st)
          else if client_seq = None \<and>
            wire_size packb (chunk\<lparr>tc_seq := fw_seq fw\<rparr>) > max_chunk_bytes (gr_limits st)
          then start_fragments packb name fw chunk (pop_inbox name st)
          else
            (case append_node packb unpackb name (chunk\<lparr>tc_seq := fw_seq fw\<rparr>) False request_id st of
               Inl e \<Rightarrow> retry_or_fail now name fw e st
             | Inr st \<Rightarrow>
                 let st = pop_inbox name st;
                     st = (case client_seq of
                             None \<Rightarrow> st
                           | Some cs \<Rightarrow> st\<lparr>gr_client_sequences := (gr_client_sequences st)
                               (name := dict_set (fw_seq fw) cs (gr_client_sequences st name))\<rparr>)
                 in set_forwarder name (fw\<lparr>fw_seq := fw_seq fw + 1, fw_deadline := None\<rparr>) st))"

definition forward_fragment ::
  "(timed_chunk \<Rightarrow> byte list) \<Rightarrow> (byte list \<Rightarrow> timed_chunk result) \<Rightarrow> rat \<Rightarrow> string \<Rightarrow> string \<Rightarrow> forwarder \<Rightarrow>
   timed_chunk \<Rightarrow> timed_chunk \<times> bool \<Rightarrow> (timed_chunk \<times> bool) list \<Rightarrow> error option \<Rightarrow> graph \<Rightarrow> graph" where
  "forward_fragment packb unpackb now request_id name fw chunk current rest end_error st =
     (case current of (fragment, continues) \<Rightarrow>
        let finish = (\<lambda>seq. set_forwarder name (fw\<lparr>fw_seq := seq, fw_deadline := None, fw_fragments := None\<rparr>))
        in case is_interrupted st name chunk of
             Inl e \<Rightarrow> fail_forwarder name e st
           | Inr True \<Rightarrow> finish (tc_seq fragment) st
           | Inr False \<Rightarrow>
               (case append_node packb unpackb name fragment continues request_id st of
                  Inl e \<Rightarrow> retry_or_fail now name fw e st
                | Inr st \<Rightarrow>
                    if \<not> continues then finish (tc_seq fragment + 1) st
                    else (case (rest, end_error) of
                            (f # fs, _) \<Rightarrow>
                              set_forwarder name (fw\<lparr>fw_deadline := None, fw_fragments := Some (chunk, f, fs, end_error)\<rparr>) st
                          | ([], None) \<Rightarrow> fail_forwarder name stop_iteration st
                          | ([], Some e) \<Rightarrow> fail_forwarder name e st)))"

text \<open>One round of the forwarder of a node.\<close>

definition forward_graph_inputs ::
  "(timed_chunk \<Rightarrow> byte list) \<Rightarrow> (byte list \<Rightarrow> timed_chunk result) \<Rightarrow> rat \<Rightarrow> string \<Rightarrow> string \<Rightarrow> graph \<Rightarrow> graph" where
  "forward_graph_inputs packb unpackb now request_id name st =
     (case gr_forwarders st name of
        None \<Rightarrow> st
      | Some fw \<Rightarrow>
          (case fw_fragments fw of
             None \<Rightarrow> forward_input packb unpackb now request_id name fw st
           | Some (chunk, current, rest, e) \<Rightarrow>
               forward_fragment packb unpackb now request_id name fw chunk current rest e st))"

section \<open>Controls along the edges\<close>

definition set_job :: "nat \<Rightarrow> job \<Rightarrow> graph \<Rightarrow> graph" where
  "set_job i job st = st\<lparr>gr_jobs := dict_set i job (gr_jobs st)\<rparr>"

definition start_job :: "job \<Rightarrow> graph \<Rightarrow> graph" where
  "start_job job st = st\<lparr>gr_jobs := dict_set (gr_next_job st) job (gr_jobs st), gr_next_job := Suc (gr_next_job st)\<rparr>"

definition end_job :: "nat \<Rightarrow> graph \<Rightarrow> graph" where
  "end_job i st = st\<lparr>gr_jobs := dict_del i (gr_jobs st)\<rparr>"

text \<open>The client hears of the error of its control; the error of a node's control fails the graph.\<close>

definition fail_job :: "nat \<Rightarrow> job \<Rightarrow> error \<Rightarrow> graph \<Rightarrow> graph" where
  "fail_job i job e st =
     (let st = end_job i st
      in if jb_source job = GRAPH_INPUT \<or> gr_is_closing st then st else fail_graph e st)"

definition next_target :: "nat \<Rightarrow> job \<Rightarrow> graph \<Rightarrow> graph" where
  "next_target i job st =
     (if tl (jb_targets job) = [] then end_job i st
      else set_job i (job\<lparr>jb_targets := tl (jb_targets job),
                         jb_at := (if jb_source job = GRAPH_INPUT then JFence else JDeliver)\<rparr>) st)"

definition control_graph :: "timed_chunk \<Rightarrow> string list option \<Rightarrow> bool \<Rightarrow> graph \<Rightarrow> graph result" where
  "control_graph event stages should_preempt st =
     bind_r (tc_control_type event) (\<lambda>ctl.
     bind_r (graph_control_targets (gr_graph st) GRAPH_INPUT ctl) (\<lambda>targets.
       if gr_is_closing st then Inl (RuntimeError ''session is closing'')
       else if stages \<noteq> None then Inl (ValueError ''a graph delivers a control along its control edges'')
       else if targets = [] then Inl (ValueError ''no node takes the control'')
       else Inr (start_job \<lparr>jb_source = GRAPH_INPUT, jb_event = event, jb_preempt = should_preempt,
                            jb_targets = targets, jb_at = JFence\<rparr> st)))"

definition job_fence :: "nat \<Rightarrow> job \<Rightarrow> control_target \<Rightarrow> graph \<Rightarrow> graph" where
  "job_fence i job target st =
     (case fence_control_edge (fst target) (jb_event job) st of
        (Inl e, st) \<Rightarrow> fail_job i job e st
      | (Inr FPass, st) \<Rightarrow> set_job i (job\<lparr>jb_at := JDeliver\<rparr>) st
      | (Inr FStop, st) \<Rightarrow> next_target i job st
      | (Inr (FReport readers report), st) \<Rightarrow> set_job i (job\<lparr>jb_at := JReport readers report\<rparr>) st)"

definition job_report :: "nat \<Rightarrow> job \<Rightarrow> control_target \<Rightarrow> string list \<Rightarrow> timed_chunk \<Rightarrow> graph \<Rightarrow> graph" where
  "job_report i job target readers report st =
     (case readers of
        [] \<Rightarrow> set_job i (job\<lparr>jb_at := JDeliver\<rparr>) st
      | reader # rest \<Rightarrow>
          (case put_graph_inbox reader (fst target) report st of
             (Inl e, st) \<Rightarrow> fail_job i job e st
           | (Inr True, st) \<Rightarrow> set_job i (job\<lparr>jb_at := JReport rest report\<rparr>) st
           | (Inr False, st) \<Rightarrow> st))"

text \<open>
  The appends a preempting interrupt names: those of its turn the node's owners hold, other than the
  client's input. The wait for an append that is still being submitted.
\<close>

definition names_appends :: "job \<Rightarrow> control_edge \<Rightarrow> bool" where
  "names_appends job edge \<longleftrightarrow>
     (ce_should_preempt edge \<or> jb_preempt job) \<and> tc_control (jb_event job) = Some INTERRUPT \<and> tc_turn (jb_event job) \<noteq> None"

definition deliver_waits :: "job \<Rightarrow> control_edge \<Rightarrow> session \<Rightarrow> bool" where
  "deliver_waits job edge node \<longleftrightarrow>
     names_appends job edge \<and> \<not> se_is_closing node \<and>
     (case se_in_flight node of Some (_, Accepted) \<Rightarrow> True | _ \<Rightarrow> False)"

definition preempted_request_ids :: "job \<Rightarrow> control_target \<Rightarrow> session \<Rightarrow> graph \<Rightarrow> string list result" where
  "preempted_request_ids job target node st =
     (case tc_turn (jb_event job) of
        Some turn \<Rightarrow>
          if names_appends job (snd target) then
            bind_r (filter_r (\<lambda>(_, chunk). bind_r (interrupted_reply chunk turn) (\<lambda>b.
                        Inr (b \<and> \<not> dict_has (gr_client_sequences st (fst target)) (tc_seq chunk))))
                      (se_submitted_appends node)) (\<lambda>named. Inr (map fst named))
          else Inr []
      | None \<Rightarrow> Inr [])"

definition job_deliver :: "replica_topology \<Rightarrow> nat \<Rightarrow> job \<Rightarrow> control_target \<Rightarrow> graph \<Rightarrow> graph" where
  "job_deliver topology i job target st =
     (case gr_sessions st (fst target) of
        None \<Rightarrow> fail_job i job (if names_appends job (snd target) then KeyError []
                                 else ValueError ''unknown or stale session reference'') st
      | Some node \<Rightarrow>
          if deliver_waits job (snd target) node then st
          else
            (case preempted_request_ids job target node st of
               Inl e \<Rightarrow> fail_job i job e st
             | Inr ids \<Rightarrow>
                 (case control_arrive topology (jb_event job) None node of
                    (r, node) \<Rightarrow>
                      let st = st\<lparr>gr_sessions := (gr_sessions st)(fst target := Some node)\<rparr>
                      in case r of
                           Inl e \<Rightarrow> fail_job i job e st
                         | Inr (barrier, _) \<Rightarrow> set_job i (job\<lparr>jb_at := JWait barrier ids\<rparr>) st)))"

text \<open>The wait of an ordered control, and the end of its sends: answered, or failed.\<close>

definition job_go :: "nat \<Rightarrow> job \<Rightarrow> control_target \<Rightarrow> nat \<Rightarrow> string list \<Rightarrow> graph \<Rightarrow> graph" where
  "job_go i job target barrier ids st =
     (case gr_sessions st (fst target) of
        None \<Rightarrow> st
      | Some node \<Rightarrow>
          if ce_source (snd target) = GRAPH_INPUT \<and>
             \<not> control_may_go barrier (ce_should_preempt (snd target) \<or> jb_preempt job) node then st
          else set_job i (job\<lparr>jb_at := JSend barrier\<rparr>)
                 (st\<lparr>gr_controls := gr_controls st @ [(fst target, jb_event job, ids)]\<rparr>))"

definition end_barrier :: "string \<Rightarrow> nat \<Rightarrow> graph \<Rightarrow> graph" where
  "end_barrier name barrier st =
     st\<lparr>gr_sessions := (gr_sessions st)(name := map_option (control_end barrier) (gr_sessions st name))\<rparr>"

definition job_sent :: "nat \<Rightarrow> job \<Rightarrow> control_target \<Rightarrow> nat \<Rightarrow> error option \<Rightarrow> graph \<Rightarrow> graph" where
  "job_sent i job target barrier failed st =
     (let st = end_barrier (fst target) barrier st
      in case failed of None \<Rightarrow> next_target i job st | Some e \<Rightarrow> fail_job i job e st)"

text \<open>
  One round of a control; \<open>failed\<close> is the error of the wait or of a send, if the round has one.
\<close>

definition job_round :: "replica_topology \<Rightarrow> error option \<Rightarrow> nat \<Rightarrow> graph \<Rightarrow> graph" where
  "job_round topology failed i st =
     (case dict_get (gr_jobs st) i of
        None \<Rightarrow> st
      | Some job \<Rightarrow>
          (case jb_targets job of
             [] \<Rightarrow> end_job i st
           | target # _ \<Rightarrow>
               (case jb_at job of
                  JFence \<Rightarrow> job_fence i job target st
                | JReport readers report \<Rightarrow> job_report i job target readers report st
                | JDeliver \<Rightarrow> job_deliver topology i job target st
                | JWait barrier ids \<Rightarrow>
                    (case failed of None \<Rightarrow> job_go i job target barrier ids st
                     | Some _ \<Rightarrow> job_sent i job target barrier failed st)
                | JSend barrier \<Rightarrow> job_sent i job target barrier failed st)))"

section \<open>Routing the outputs of a node\<close>

definition set_router :: "string \<Rightarrow> router \<Rightarrow> graph \<Rightarrow> graph" where
  "set_router name rt st = st\<lparr>gr_routers := (gr_routers st)(name := Some rt)\<rparr>"

definition end_router :: "string \<Rightarrow> error option \<Rightarrow> graph \<Rightarrow> graph" where
  "end_router name e st = st\<lparr>gr_routers := (gr_routers st)(name := None), gr_ended := gr_ended st @ [(Routing, name, e)]\<rparr>"

definition fail_router :: "string \<Rightarrow> error \<Rightarrow> graph \<Rightarrow> graph" where
  "fail_router name e = end_router name (Some e)"

definition is_client_output :: "graph \<Rightarrow> string \<Rightarrow> timed_chunk \<Rightarrow> bool result" where
  "is_client_output st name chunk =
     bind_r (tc_control_type chunk) (\<lambda>event. Inr (
       if \<not> is_published (gr_graph st) name (tc_format chunk) \<or> event \<in> Some ` set NODE_CONTROLS then False
       else if event \<in> Some ` set REPORT_CONTROLS then reading_nodes (gr_graph st) name (tc_format chunk) = []
       else True))"

text \<open>Where an output goes: whether the client hears it, and the targets of its control edges.\<close>

definition route_plan :: "graph \<Rightarrow> string \<Rightarrow> timed_chunk \<Rightarrow> (bool \<times> control_target list) result" where
  "route_plan st name chunk =
     bind_r (is_client_output st name chunk) (\<lambda>published.
     bind_r (edge_event chunk) (\<lambda>event.
     bind_r (graph_control_targets (gr_graph st) name event) (\<lambda>targets. Inr (published, targets))))"

abbreviation output_readers :: "graph \<Rightarrow> string \<Rightarrow> output_chunk \<Rightarrow> string list" where
  "output_readers st name out \<equiv> reading_nodes (gr_graph st) name (oc_format out)"

definition time_graph_output :: "output_chunk \<Rightarrow> graph \<Rightarrow> output_chunk \<times> graph" where
  "time_graph_output out st =
     (let input_end_ms = (case dict_get (gr_modality_end_ms st) AUDIO of None \<Rightarrow> 0 | Some t \<Rightarrow> t);
          event = oc_control out;
          starts = (\<lambda>start. out\<lparr>oc_t_start_ms := start\<rparr>)
      in if oc_format out \<in> Some ` set AUDIO_FORMATS then
           let start = max (gr_output_end_ms st) (gr_reply_start_ms st)
           in (starts start, st\<lparr>gr_output_end_ms := start + oc_duration_ms out\<rparr>)
         else if event = Some TURN_STARTED then
           let start = max (gr_output_end_ms st) input_end_ms in (starts start, st\<lparr>gr_reply_start_ms := start\<rparr>)
         else if event = Some TURN_DONE then (starts (max (gr_output_end_ms st) (gr_reply_start_ms st)), st)
         else if event = Some TURN_INTERRUPTED then (starts input_end_ms, st\<lparr>gr_output_end_ms := input_end_ms\<rparr>)
         else if event \<in> {Some SPEECH_STARTED, Some SPEECH_STOPPED} then (out, st)
         else (starts input_end_ms, st))"

text \<open>An output of the node that is data, up to the first wait.\<close>

definition route_output :: "string \<Rightarrow> router \<Rightarrow> output_chunk \<Rightarrow> graph \<Rightarrow> graph" where
  "route_output name rt out st =
     (let chunk = output_as_chunk out
      in case is_interrupted st name chunk of
           Inl e \<Rightarrow> fail_router name e st
         | Inr True \<Rightarrow> st
         | Inr False \<Rightarrow>
             (case route_plan st name chunk of
                Inl e \<Rightarrow> fail_router name e st
              | Inr (published, targets) \<Rightarrow>
                  if rt_delivery rt = None \<or>
                     (published \<and> targets = [] \<and> output_readers st name out = [] \<and> gr_pacers st name = None \<and>
                      tc_control chunk \<noteq> Some TURN_DONE)
                  then set_router name (rt\<lparr>rt_at := RFence out targets []\<rparr>) st
                  else set_router name (rt\<lparr>rt_at := RAwait out\<rparr>) st))"

definition confirmation :: "output_chunk \<Rightarrow> int \<Rightarrow> timed_chunk" where
  "confirmation out client_seq =
     \<lparr>tc_modality = oc_modality out, tc_t_start_ms = oc_t_start_ms out, tc_duration_ms = oc_duration_ms out,
      tc_seq = client_seq, tc_payload = PNone, tc_format = oc_format out, tc_eos = oc_eos out, tc_turn = None\<rparr>"

definition route_input_done :: "(output_chunk \<Rightarrow> byte list) \<Rightarrow> string \<Rightarrow> output_chunk \<Rightarrow> graph \<Rightarrow> graph" where
  "route_input_done packo name out st =
     (case dict_get (gr_client_sequences st name) (oc_input_seq out) of
        None \<Rightarrow> st
      | Some client_seq \<Rightarrow>
          (case confirm_graph_input packo name (confirmation out client_seq)
                  (st\<lparr>gr_client_sequences := (gr_client_sequences st)
                        (name := dict_del (oc_input_seq out) (gr_client_sequences st name))\<rparr>) of
             (Inl e, st) \<Rightarrow> fail_router name e st
           | (Inr _, st) \<Rightarrow> st))"

definition route_take :: "(output_chunk \<Rightarrow> byte list) \<Rightarrow> string \<Rightarrow> router \<Rightarrow> graph \<Rightarrow> graph" where
  "route_take packo name rt st =
     (case gr_sessions st name of
        None \<Rightarrow> st
      | Some node \<Rightarrow>
          (case se_outputs node of
             [] \<Rightarrow> st
           | (out, _) # _ \<Rightarrow>
               if se_is_closing node then st
               else
                 let st = st\<lparr>gr_sessions := (gr_sessions st)(name := Some (take_output node))\<rparr>
                 in if oc_kind out = KInputDone then route_input_done packo name out st
                    else route_output name rt out st))"

definition route_await :: "string \<Rightarrow> router \<Rightarrow> output_chunk \<Rightarrow> graph \<Rightarrow> graph" where
  "route_await name rt out st =
     (if (case rt_delivery rt of None \<Rightarrow> False | Some i \<Rightarrow> dict_has (gr_jobs st) i) then st
      else case route_plan st name (output_as_chunk out) of
             Inl e \<Rightarrow> fail_router name e st
           | Inr (_, targets) \<Rightarrow> set_router name (rt\<lparr>rt_at := RFence out targets [], rt_delivery := None\<rparr>) st)"

text \<open>The fences are done: the delivery starts in the background, and the output goes on unless it was for the targets only.\<close>

definition route_fenced :: "string \<Rightarrow> router \<Rightarrow> output_chunk \<Rightarrow> control_target list \<Rightarrow> graph \<Rightarrow> graph" where
  "route_fenced name rt out fenced st =
     (let chunk = output_as_chunk out;
          rt = (if fenced = [] then rt else rt\<lparr>rt_delivery := Some (gr_next_job st)\<rparr>);
          st = (if fenced = [] then st
                else start_job \<lparr>jb_source = name, jb_event = chunk, jb_preempt = False, jb_targets = fenced, jb_at = JDeliver\<rparr> st)
      in case route_plan st name chunk of
           Inl e \<Rightarrow> fail_router name e st
         | Inr (published, targets) \<Rightarrow>
             if targets \<noteq> [] \<and> \<not> (published \<and> tc_control chunk \<in> Some ` set REPORT_CONTROLS)
             then set_router name (rt\<lparr>rt_at := RReady\<rparr>) st
             else
               let (out, st) = (if published \<and> sg_shared_timeline (gr_graph st) then time_graph_output out st else (out, st));
                   readers = (if holds_turn_end chunk (gr_pacers st name \<noteq> None) published then []
                              else output_readers st name out)
               in set_router name (rt\<lparr>rt_at := RRead out readers\<rparr>) st)"

definition route_fence ::
  "string \<Rightarrow> router \<Rightarrow> output_chunk \<Rightarrow> control_target list \<Rightarrow> control_target list \<Rightarrow> graph \<Rightarrow> graph" where
  "route_fence name rt out targets fenced st =
     (case targets of
        [] \<Rightarrow> route_fenced name rt out fenced st
      | target # rest \<Rightarrow>
          (case fence_control_edge (fst target) (output_as_chunk out) st of
             (Inl e, st) \<Rightarrow> fail_router name e st
           | (Inr FPass, st) \<Rightarrow> set_router name (rt\<lparr>rt_at := RFence out rest (fenced @ [target])\<rparr>) st
           | (Inr FStop, st) \<Rightarrow> set_router name (rt\<lparr>rt_at := RFence out rest fenced\<rparr>) st
           | (Inr (FReport readers report), st) \<Rightarrow>
               set_router name (rt\<lparr>rt_at := RReport out target readers report rest fenced\<rparr>) st))"

definition route_report ::
  "string \<Rightarrow> router \<Rightarrow> output_chunk \<Rightarrow> control_target \<Rightarrow> string list \<Rightarrow> timed_chunk \<Rightarrow>
   control_target list \<Rightarrow> control_target list \<Rightarrow> graph \<Rightarrow> graph" where
  "route_report name rt out target readers report rest fenced st =
     (case readers of
        [] \<Rightarrow> set_router name (rt\<lparr>rt_at := RFence out rest (fenced @ [target])\<rparr>) st
      | reader # readers \<Rightarrow>
          (case put_graph_inbox reader (fst target) report st of
             (Inl e, st) \<Rightarrow> fail_router name e st
           | (Inr True, st) \<Rightarrow> set_router name (rt\<lparr>rt_at := RReport out target readers report rest fenced\<rparr>) st
           | (Inr False, st) \<Rightarrow> st))"

text \<open>Publication: through the pacer, or into the client's queue, where a full queue holds the router.\<close>

definition route_publish :: "(output_chunk \<Rightarrow> byte list) \<Rightarrow> string \<Rightarrow> router \<Rightarrow> output_chunk \<Rightarrow> graph \<Rightarrow> graph" where
  "route_publish packo name rt out st =
     (case reserve_graph_output packo out st of
        (Inl e, st) \<Rightarrow> fail_router name e st
      | (Inr sz, st) \<Rightarrow>
          (case gr_pacers st name of
             Some p \<Rightarrow>
               (case offer out sz p of
                  Inl e \<Rightarrow> fail_router name e st
                | Inr (dropped, p) \<Rightarrow>
                    set_router name (rt\<lparr>rt_at := RReady\<rparr>)
                      (st\<lparr>gr_output_bytes := gr_output_bytes st - dropped, gr_pacers := (gr_pacers st)(name := Some p)\<rparr>))
           | None \<Rightarrow>
               (case number_output out st of (published, st) \<Rightarrow>
                  if outputs_full st then set_router name (rt\<lparr>rt_at := RPublish out published sz\<rparr>) st
                  else set_router name (rt\<lparr>rt_at := RReady\<rparr>)
                         (return_node_turn_end name out (put_output published sz name st)))))"

definition route_read ::
  "(output_chunk \<Rightarrow> byte list) \<Rightarrow> string \<Rightarrow> router \<Rightarrow> output_chunk \<Rightarrow> string list \<Rightarrow> graph \<Rightarrow> graph" where
  "route_read packo name rt out readers st =
     (let chunk = output_as_chunk out
      in case readers of
           reader # readers \<Rightarrow>
             (case put_graph_inbox reader name chunk st of
                (Inl e, st) \<Rightarrow> fail_router name e st
              | (Inr False, st) \<Rightarrow> st
              | (Inr True, st) \<Rightarrow>
                  (case is_interrupted st name chunk of
                     Inl e \<Rightarrow> fail_router name e st
                   | Inr b \<Rightarrow> set_router name (rt\<lparr>rt_at := (if b then RReady else RRead out readers)\<rparr>) st))
         | [] \<Rightarrow>
             (case is_interrupted st name chunk of
                Inl e \<Rightarrow> fail_router name e st
              | Inr True \<Rightarrow> set_router name (rt\<lparr>rt_at := RReady\<rparr>) st
              | Inr False \<Rightarrow>
                  (case is_client_output st name chunk of
                     Inl e \<Rightarrow> fail_router name e st
                   | Inr False \<Rightarrow> set_router name (rt\<lparr>rt_at := RReady\<rparr>) st
                   | Inr True \<Rightarrow> route_publish packo name rt out st)))"

definition route_put :: "string \<Rightarrow> router \<Rightarrow> output_chunk \<Rightarrow> output_chunk \<Rightarrow> int \<Rightarrow> graph \<Rightarrow> graph" where
  "route_put name rt out published sz st =
     (if outputs_full st then st
      else set_router name (rt\<lparr>rt_at := RReady\<rparr>) (return_node_turn_end name out (put_output published sz name st)))"

text \<open>One round of the router of a node; and its end, when the outputs of the node's session end.\<close>

definition route_graph_outputs :: "(output_chunk \<Rightarrow> byte list) \<Rightarrow> string \<Rightarrow> graph \<Rightarrow> graph" where
  "route_graph_outputs packo name st =
     (case gr_routers st name of
        None \<Rightarrow> st
      | Some rt \<Rightarrow>
          (case rt_at rt of
             RReady \<Rightarrow> route_take packo name rt st
           | RAwait out \<Rightarrow> route_await name rt out st
           | RFence out targets fenced \<Rightarrow> route_fence name rt out targets fenced st
           | RReport out target readers report rest fenced \<Rightarrow> route_report name rt out target readers report rest fenced st
           | RRead out readers \<Rightarrow> route_read packo name rt out readers st
           | RPublish out published sz \<Rightarrow> route_put name rt out published sz st))"

definition route_end :: "string \<Rightarrow> graph \<Rightarrow> graph" where
  "route_end name st =
     (case gr_routers st name of
        Some rt \<Rightarrow>
          (case gr_sessions st name of
             Some node \<Rightarrow>
               if rt_at rt = RReady \<and> se_is_closed node then
                 end_router name (se_error node) st
               else st
           | None \<Rightarrow> if rt_at rt = RReady then end_router name None st else st)
      | None \<Rightarrow> st)"

section \<open>Paced publication\<close>

definition set_paced :: "string \<Rightarrow> pacer_at \<Rightarrow> graph \<Rightarrow> graph" where
  "set_paced name point st = st\<lparr>gr_paced := (gr_paced st)(name := Some point)\<rparr>"

definition fail_paced :: "string \<Rightarrow> error \<Rightarrow> graph \<Rightarrow> graph" where
  "fail_paced name e st = st\<lparr>gr_paced := (gr_paced st)(name := None), gr_ended := gr_ended st @ [(Delivering, name, Some e)]\<rparr>"

definition paced_release :: "(output_chunk \<Rightarrow> byte list) \<Rightarrow> rat \<Rightarrow> string \<Rightarrow> pacer \<Rightarrow> graph \<Rightarrow> graph" where
  "paced_release packo now name p st =
     (case release packo now p of
        Inl e \<Rightarrow> fail_paced name e st
      | Inr (p, released) \<Rightarrow>
          set_paced name PDrain (st\<lparr>gr_pacers := (gr_pacers st)(name := Some (p\<lparr>dp_unsent := dp_unsent p @ released\<rparr>))\<rparr>))"

text \<open>What the pacer holds has passed \<open>offer\<close>, so its control type does not raise.\<close>

definition is_interrupted_output :: "graph \<Rightarrow> string \<Rightarrow> output_chunk \<Rightarrow> bool" where
  "is_interrupted_output st name out \<longleftrightarrow>
     (case oc_turn out of
        None \<Rightarrow> False
      | Some turn \<Rightarrow> turn \<in> gr_interrupted_turns st name \<and> oc_interrupted out (Some turn))"

definition paced_send :: "string \<Rightarrow> pacer \<Rightarrow> graph \<Rightarrow> graph" where
  "paced_send name p st =
     (case dp_unsent p of
        [] \<Rightarrow> set_paced name PRelease st
      | (out, sz) # rest \<Rightarrow>
          if outputs_full st then st
          else
            let st = st\<lparr>gr_pacers := (gr_pacers st)(name := Some (p\<lparr>dp_unsent := rest\<rparr>))\<rparr>
            in if is_interrupted_output st name out then st\<lparr>gr_output_bytes := gr_output_bytes st - sz\<rparr>
               else
                 (case number_output out st of (published, st) \<Rightarrow>
                    let st = put_output published sz name st
                    in if oc_control out = Some TURN_DONE
                       then set_paced name (PTell out (output_readers st name out)) st else st))"

definition paced_tell :: "string \<Rightarrow> output_chunk \<Rightarrow> string list \<Rightarrow> graph \<Rightarrow> graph" where
  "paced_tell name out readers st =
     (case readers of
        [] \<Rightarrow> set_paced name PDrain (return_node_turn_end name out st)
      | reader # readers \<Rightarrow>
          (case put_graph_inbox reader name (output_as_chunk out) st of
             (Inl e, st) \<Rightarrow> fail_paced name e st
           | (Inr True, st) \<Rightarrow> set_paced name (PTell out readers) st
           | (Inr False, st) \<Rightarrow> st))"

definition deliver_paced_outputs :: "(output_chunk \<Rightarrow> byte list) \<Rightarrow> rat \<Rightarrow> string \<Rightarrow> graph \<Rightarrow> graph" where
  "deliver_paced_outputs packo now name st =
     (case (gr_paced st name, gr_pacers st name) of
        (Some PRelease, Some p) \<Rightarrow> paced_release packo now name p st
      | (Some PDrain, Some p) \<Rightarrow> paced_send name p st
      | (Some (PTell out readers), Some _) \<Rightarrow> paced_tell name out readers st
      | _ \<Rightarrow> st)"

section \<open>The end of the input\<close>

fun any_r :: "('a \<Rightarrow> bool result) \<Rightarrow> 'a list \<Rightarrow> bool result" where
  "any_r p [] = Inr False"
| "any_r p (x # xs) = bind_r (p x) (\<lambda>b. if b then Inr True else any_r p xs)"

definition node_busy :: "graph \<Rightarrow> string \<Rightarrow> bool result" where
  "node_busy st name =
     (case gr_sessions st name of
        None \<Rightarrow> Inl (KeyError []) | Some node \<Rightarrow> Inr (se_pending_count node \<noteq> 0 \<or> se_outputs node \<noteq> []))"

definition graph_busy :: "graph \<Rightarrow> bool result" where
  "graph_busy st =
     (if gr_open_turns st \<noteq> {} \<or> gr_pending_input_done st \<noteq> [] \<or>
         list_ex (\<lambda>name. ib_queued (gr_inboxes st name) \<noteq> []) (node_order (gr_graph st)) then Inr True
      else bind_r (any_r (node_busy st) (node_order (gr_graph st))) (\<lambda>busy.
        Inr (busy \<or> list_ex (\<lambda>name. case gr_pacers st name of None \<Rightarrow> False | Some p \<Rightarrow> dp_items p \<noteq> []) (gr_nodes st))))"

text \<open>One round of \<open>drain_graph\<close>; \<open>expired\<close> is whether its deadline has passed.\<close>

definition drain_graph :: "(output_chunk \<Rightarrow> byte list) \<Rightarrow> bool \<Rightarrow> string \<times> timed_chunk \<Rightarrow> graph \<Rightarrow> graph" where
  "drain_graph packo expired drain st =
     (let ended = st\<lparr>gr_drains := remove1 drain (gr_drains st)\<rparr>
      in case graph_busy st of
           Inl e \<Rightarrow> fail_graph e ended
         | Inr True \<Rightarrow> if expired then fail_graph (TimeoutError ''Session graph did not drain after EOS'') ended else st
         | Inr False \<Rightarrow>
             (case emit_graph_input_done packo (fst drain) (snd drain) ended of
                (Inl e, st) \<Rightarrow> fail_graph e st | (Inr _, st) \<Rightarrow> st))"

section \<open>Closing\<close>

definition close_start :: "graph \<Rightarrow> graph" where
  "close_start st = (if gr_close st = CBegun then st\<lparr>gr_is_closing := True, gr_close := CForwarders\<rparr> else st)"

text \<open>
  \<open>stop_graph_tasks\<close>: the tasks are cancelled, and of those that had ended with an exception, in their order,
  the first fails the graph unless it has an error.
\<close>

definition first_error :: "error option \<Rightarrow> error list \<Rightarrow> error option" where
  "first_error first es = fold (\<lambda>e first. or_error first e) es first"

definition task_errors :: "task \<Rightarrow> string list \<Rightarrow> graph \<Rightarrow> error list" where
  "task_errors task names st =
     concat (map (\<lambda>name. concat (map (\<lambda>(t, n, e).
       case e of Some e \<Rightarrow> if t = task \<and> n = name then [e] else [] | None \<Rightarrow> []) (gr_ended st))) names)"

definition stop_forwarders :: "graph \<Rightarrow> graph" where
  "stop_forwarders st =
     (if gr_close st = CForwarders
      then st\<lparr>gr_forwarders := (\<lambda>_. None),
              gr_error := first_error (gr_error st) (task_errors Forwarding (node_order (gr_graph st)) st),
              gr_close := CNodes (rev (node_order (gr_graph st))) []\<rparr>
      else st)"

text \<open>The next node's session is closed; \<open>outcome\<close> is the error of the close, if it has one.\<close>

definition close_node :: "error option \<Rightarrow> graph \<Rightarrow> graph" where
  "close_node outcome st =
     (case gr_close st of
        CNodes (name # names) unclosed \<Rightarrow>
          (let node_error = (case gr_sessions st name of None \<Rightarrow> None | Some node \<Rightarrow> se_error node);
               st = st\<lparr>gr_error := (case node_error of None \<Rightarrow> gr_error st | Some e \<Rightarrow> or_error (gr_error st) e)\<rparr>
           in case outcome of
                None \<Rightarrow> st\<lparr>gr_sessions := (gr_sessions st)(name := None), gr_close := CNodes names unclosed\<rparr>
              | Some e \<Rightarrow> st\<lparr>gr_close := CNodes names (unclosed @ [(name, e)])\<rparr>)
      | _ \<Rightarrow> st)"

definition finish_close :: "graph \<Rightarrow> graph" where
  "finish_close st =
     (case gr_close st of
        CNodes [] unclosed \<Rightarrow>
          (let st = (case unclosed of
                       [] \<Rightarrow> st
                     | (_, e) # _ \<Rightarrow> st\<lparr>gr_cleanup_error := Some (RuntimeError ''graph nodes did not close''),
                                        gr_error := or_error (gr_error st) e\<rparr>)
           in st\<lparr>gr_routers := (\<lambda>_. None), gr_paced := (\<lambda>_. None), gr_drains := [],
                 gr_jobs := filter (\<lambda>(_, job). jb_source job = GRAPH_INPUT) (gr_jobs st),
                 gr_error := first_error (gr_error st)
                   (task_errors Routing (node_order (gr_graph st)) st @
                    task_errors Delivering (dict_keys (sg_publish (gr_graph st))) st),
                 gr_outputs := [], gr_output_bytes := 0, gr_close := CClosed\<rparr>)
      | _ \<Rightarrow> st)"

section \<open>Steps of a graph session\<close>

text \<open>
  A node's session also moves by itself: its pump, its stages' outputs, its other controls and its close.
  Its input comes from the forwarder alone and its outputs go to the router alone, so such a step neither
  accepts input nor hands an output over.
\<close>

inductive graph_step ::
  "(timed_chunk \<Rightarrow> byte list) \<Rightarrow> (output_chunk \<Rightarrow> byte list) \<Rightarrow> (byte list \<Rightarrow> timed_chunk result) \<Rightarrow> graph \<Rightarrow> graph \<Rightarrow> bool"
  for packb packo unpackb where
  append: "graph_step packb packo unpackb st (snd (append_graph packb packo unpackb chunk t d st))"
| consumer: "graph_consumer_start st = Inr st' \<Longrightarrow> graph_step packb packo unpackb st st'"
| take: "graph_step packb packo unpackb st (take_graph_output st)"
| consumer_end: "graph_step packb packo unpackb st (graph_consumer_end st)"
| control: "control_graph event stages should_preempt st = Inr st' \<Longrightarrow> graph_step packb packo unpackb st st'"
| job: "graph_step packb packo unpackb st (job_round topology failed i st)"
| forward: "graph_step packb packo unpackb st (forward_graph_inputs packb unpackb now request_id name st)"
| route: "graph_step packb packo unpackb st (route_graph_outputs packo name st)"
| route_end: "graph_step packb packo unpackb st (route_end name st)"
| paced: "graph_step packb packo unpackb st (deliver_paced_outputs packo now name st)"
| drain: "drain \<in> set (gr_drains st) \<Longrightarrow> graph_step packb packo unpackb st (drain_graph packo expired drain st)"
| task_done: "graph_step packb packo unpackb st (task_done st)"
| close_begin: "graph_step packb packo unpackb st (begin_graph_close st)"
| close_start: "graph_step packb packo unpackb st (close_start st)"
| close_forwarders: "graph_step packb packo unpackb st (stop_forwarders st)"
| close_node: "graph_step packb packo unpackb st (close_node outcome st)"
| close_finish: "graph_step packb packo unpackb st (finish_close st)"
| node: "gr_sessions st name = Some node \<Longrightarrow> session_step packb packo unpackb node node' \<Longrightarrow>
    se_next_input node' = se_next_input node \<Longrightarrow> se_delivered node' = se_delivered node \<Longrightarrow>
    graph_step packb packo unpackb st (st\<lparr>gr_sessions := (gr_sessions st)(name := Some node')\<rparr>)"

definition graph_initial :: "graph \<Rightarrow> bool" where
  "graph_initial st \<longleftrightarrow>
     (\<exists>identity g limits timeout lead_ms route.
        check_session_graph g = Inr g \<and> dict_ok (sg_nodes g) \<and>
        1 \<le> max_pending_chunks limits \<and> 0 \<le> max_pending_bytes limits \<and>
        0 \<le> max_output_chunks limits \<and> 0 \<le> max_output_bytes limits \<and>
        st = graph_init identity g limits timeout lead_ms route)"

end
