(* ===== verification/Graph_Invariants.thy ===== *)
theory Graph_Invariants
  imports Session_Graph
begin

text \<open>
  What holds of a graph session in every reachable state: the edges hold no more than their bounds, every
  copy of a client's input is counted, the output budget is exact, and the sessions of the nodes keep their
  own budgets although the graph drops input from them.
\<close>

section \<open>Sums over the nodes\<close>

lemma sum_list_changed:
  assumes "distinct xs" and "x \<in> set xs" and "\<And>y. y \<noteq> x \<Longrightarrow> g y = f y"
  shows "sum_list (map g xs) = sum_list (map f xs) - f x + (g x :: int)"
  using assms(1,2)
proof (induction xs)
  case (Cons y ys)
  show ?case
  proof (cases "y = x")
    case True
    have "map g ys = map f ys" using Cons.prems(1) True by (intro map_cong assms(3)) auto
    then have "sum_list (map g ys) = sum_list (map f ys)" by (rule arg_cong)
    with True show ?thesis by simp
  next
    case False
    then show ?thesis using Cons assms(3) by simp
  qed
qed simp

lemma sum_list_indicator:
  "distinct xs \<Longrightarrow> distinct ys \<Longrightarrow> set ys \<subseteq> set xs \<Longrightarrow>
   sum_list (map (\<lambda>x. if x \<in> set ys then 1 else 0) xs) = int (length ys)"
proof (induction xs arbitrary: ys)
  case (Cons x xs)
  have "sum_list (map (\<lambda>z. if z \<in> set ys then 1 else 0) xs) =
      sum_list (map (\<lambda>z. if z \<in> set (remove1 x ys) then 1 else 0) xs)"
    using Cons.prems by (intro arg_cong [of _ _ sum_list] map_cong) auto
  also have "\<dots> = int (length (remove1 x ys))" using Cons.prems by (intro Cons.IH) auto
  finally have sum: "sum_list (map (\<lambda>z. if z \<in> set ys then 1 else 0) xs) = int (length (remove1 x ys))" .
  show ?case
  proof (cases "x \<in> set ys")
    case True
    then have "int (length (remove1 x ys)) = int (length ys) - 1"
      using length_pos_if_in_set [of x ys] by (simp add: length_remove1 del: length_greater_0_conv)
    with True sum show ?thesis by simp
  qed (use sum in \<open>simp add: remove1_idem\<close>)
qed simp

definition node_sum :: "(string \<Rightarrow> int) \<Rightarrow> session_graph \<Rightarrow> int" where
  "node_sum f g = sum_list (map f (dict_keys (sg_nodes g)))"

lemma node_sum_changed:
  assumes "dict_ok (sg_nodes g)" and "name \<in> set (dict_keys (sg_nodes g))" and "\<And>m. m \<noteq> name \<Longrightarrow> f' m = f m"
  shows "node_sum f' g = node_sum f g - f name + f' name"
  using sum_list_changed [OF assms] by (simp add: node_sum_def)

lemma node_sum_same: "(\<And>m. f' m = f m) \<Longrightarrow> node_sum f' g = node_sum f g"
  by (simp add: node_sum_def comp_def)

lemma node_sum_plus: "node_sum (\<lambda>m. f m + f' m) g = node_sum f g + node_sum f' g"
  by (simp add: node_sum_def sum_list_addf comp_def)

lemma node_sum_nonneg: "(\<And>m. 0 \<le> f m) \<Longrightarrow> 0 \<le> node_sum f g"
  by (auto simp: node_sum_def comp_def intro!: sum_list_nonneg)

section \<open>Edges\<close>

definition edges_ok :: "graph \<Rightarrow> bool" where
  "edges_ok st \<longleftrightarrow>
     (\<forall>target source.
        ib_counts (gr_inboxes st target) source = int (length (filter (is_from source) (ib_queued (gr_inboxes st target)))) \<and>
        int (length (filter (is_from source) (ib_queued (gr_inboxes st target)))) \<le> edge_capacity st target source \<and>
        1 \<le> edge_capacity st target source)"

section \<open>Names\<close>

definition known :: "session_graph \<Rightarrow> string list \<Rightarrow> bool" where
  "known g names \<longleftrightarrow> set names \<subseteq> set (dict_keys (sg_nodes g))"

lemma known_simps [simp]:
  "known g []" "known g (name # names) \<longleftrightarrow> dict_has (sg_nodes g) name \<and> known g names"
  "known g (names @ names') \<longleftrightarrow> known g names \<and> known g names'"
  by (auto simp: known_def dict_has_def)

lemma known_tl: "known g (map fst xs) \<Longrightarrow> known g (map fst (tl xs))"
  by (cases xs) auto

lemma known_fst: "known g (map fst xs) \<Longrightarrow> x \<in> set xs \<Longrightarrow> fst x \<in> set (dict_keys (sg_nodes g))"
  by (auto simp: known_def)

fun point_names :: "router_at \<Rightarrow> string list" where
  "point_names (RFence out targets fenced) = map fst (targets @ fenced)"
| "point_names (RReport out target readers report targets fenced) = readers @ map fst (target # targets @ fenced)"
| "point_names (RRead out readers) = readers"
| "point_names _ = []"

fun report_readers :: "job_at \<Rightarrow> string list" where
  "report_readers (JReport readers report) = readers"
| "report_readers _ = []"

definition job_names :: "job \<Rightarrow> string list" where
  "job_names job = map fst (jb_targets job) @ report_readers (jb_at job)"

fun told_readers :: "pacer_at \<Rightarrow> string list" where
  "told_readers (PTell out readers) = readers"
| "told_readers _ = []"

fun point_held :: "router_at \<Rightarrow> int option" where
  "point_held (RPublish out published sz) = Some sz"
| "point_held _ = None"

text \<open>
  The tasks, targets and pacers belong to nodes of the graph, and a router in the client's full queue to one
  without a pacer. The names come from the graph, which never changes.
\<close>

definition names_ok :: "graph \<Rightarrow> bool" where
  "names_ok st \<longleftrightarrow>
     dict_ok (sg_nodes (gr_graph st)) \<and> GRAPH_INPUT \<notin> set (gr_nodes st) \<and>
     (\<forall>name rt. gr_routers st name = Some rt \<longrightarrow>
        name \<in> set (gr_nodes st) \<and> known (gr_graph st) (point_names (rt_at rt)) \<and>
        (point_held (rt_at rt) \<noteq> None \<longrightarrow> gr_pacers st name = None)) \<and>
     (\<forall>i job. (i, job) \<in> set (gr_jobs st) \<longrightarrow> known (gr_graph st) (job_names job)) \<and>
     (\<forall>name point. gr_paced st name = Some point \<longrightarrow> name \<in> set (gr_nodes st) \<and> known (gr_graph st) (told_readers point)) \<and>
     (\<forall>name. gr_pacers st name \<noteq> None \<longrightarrow> name \<in> set (gr_nodes st)) \<and>
     (\<forall>name. gr_forwarders st name \<noteq> None \<longrightarrow> name \<in> set (gr_nodes st))"

section \<open>Copies of the client's input\<close>

text \<open>The copies of input \<open>s\<close> a node still has: in its inbox, or taken by its session and not confirmed.\<close>

definition node_copies :: "graph \<Rightarrow> int \<Rightarrow> string \<Rightarrow> int" where
  "node_copies st s name =
     int (length (filter (\<lambda>(_, _, seq). seq = Some s) (ib_queued (gr_inboxes st name)))) +
     int (length (filter (\<lambda>(_, seq). seq = s) (gr_client_sequences st name)))"

definition copies :: "graph \<Rightarrow> int \<Rightarrow> int" where
  "copies st s = node_sum (node_copies st s) (gr_graph st)"

definition item_ok :: "int \<Rightarrow> inbox_item \<Rightarrow> bool" where
  "item_ok n item \<longleftrightarrow>
     (case item of (source, chunk, seq) \<Rightarrow>
        (source = GRAPH_INPUT \<longleftrightarrow> seq \<noteq> None) \<and> (\<forall>s. seq = Some s \<longrightarrow> tc_seq chunk = s \<and> s < n))"

definition items_ok :: "graph \<Rightarrow> bool" where
  "items_ok st \<longleftrightarrow>
     (\<forall>name item. item \<in> set (ib_queued (gr_inboxes st name)) \<longrightarrow> item_ok (int (gr_next_input st)) item) \<and>
     (\<forall>name k v. (k, v) \<in> set (gr_client_sequences st name) \<longrightarrow> v < int (gr_next_input st)) \<and>
     (\<forall>name. dict_ok (gr_client_sequences st name)) \<and>
     (\<forall>name fw k. gr_forwarders st name = Some fw \<longrightarrow> dict_has (gr_client_sequences st name) k \<longrightarrow> k < fw_seq fw) \<and>
     (\<forall>name fw chunk f fs e g. gr_forwarders st name = Some fw \<longrightarrow> fw_fragments fw = Some (chunk, f, fs, e) \<longrightarrow>
        g \<in> set (f # fs) \<longrightarrow> fw_seq fw \<le> tc_seq (fst g))"

text \<open>The inputs confirmed, or about to be once the graph has drained.\<close>

definition settled :: "graph \<Rightarrow> int list" where
  "settled st = gr_confirmed st @ map (tc_seq \<circ> snd) (gr_drains st)"

text \<open>
  \<open>counted k st\<close>: the counters of pending confirmations are exact, but for one copy of \<open>k\<close> that has just
  been given up and is still counted.
\<close>

definition counted_but :: "int option \<Rightarrow> graph \<Rightarrow> bool" where
  "counted_but k st \<longleftrightarrow>
     (\<forall>s. let n = copies st s + (if k = Some s then 1 else 0)
          in (n > 0 \<longrightarrow> dict_get (gr_pending_input_done st) s = Some n \<and> s \<notin> set (settled st)))"

definition settled_ok :: "graph \<Rightarrow> bool" where
  "settled_ok st \<longleftrightarrow> distinct (settled st) \<and> (\<forall>s \<in> set (settled st). s < int (gr_next_input st))"

section \<open>The output budget\<close>

definition held_bytes :: "graph \<Rightarrow> string \<Rightarrow> int" where
  "held_bytes st name =
     queue_bytes (pacer_queue (gr_pacers st name)) +
     (case gr_routers st name of None \<Rightarrow> 0 | Some rt \<Rightarrow> (case point_held (rt_at rt) of None \<Rightarrow> 0 | Some sz \<Rightarrow> sz))"

text \<open>
  \<open>budget_but d st\<close>: the output budget counts exactly what waits for the client, but for \<open>d\<close> bytes that are
  reserved and not stored yet.
\<close>

definition budget_but :: "int \<Rightarrow> graph \<Rightarrow> bool" where
  "budget_but d st \<longleftrightarrow>
     (gr_close st \<noteq> CClosed \<longrightarrow>
        gr_output_bytes st = output_sizes (gr_outputs st) + node_sum (held_bytes st) (gr_graph st) + d \<and>
        gr_output_bytes st \<le> max_output_bytes (gr_limits st)) \<and>
     (\<forall>(out, sz, name) \<in> set (gr_outputs st). 0 \<le> sz) \<and>
     (\<forall>name. sizes_ok (pacer_queue (gr_pacers st name))) \<and>
     (\<forall>name rt sz. gr_routers st name = Some rt \<longrightarrow> point_held (rt_at rt) = Some sz \<longrightarrow> 0 \<le> sz) \<and> 0 \<le> d \<and>
     (0 < max_output_chunks (gr_limits st) \<longrightarrow> int (length (gr_outputs st)) \<le> max_output_chunks (gr_limits st))"

section \<open>The sessions of the nodes\<close>

definition nodes_ok :: "graph \<Rightarrow> bool" where
  "nodes_ok st \<longleftrightarrow> (\<forall>name node. gr_sessions st name = Some node \<longrightarrow> slots_ok node \<and> output_ok node)"


section \<open>Frames\<close>

text \<open>Every part of the invariant speaks of a few fields; an update of the others keeps it.\<close>

lemma edge_capacity_cong:
  "gr_graph st' = gr_graph st \<Longrightarrow> gr_limits st' = gr_limits st \<Longrightarrow> edge_capacity st' = edge_capacity st"
  by (simp add: edge_capacity_def fun_eq_iff cong: option.case_cong)

lemma edges_ok_cong:
  assumes "gr_graph st' = gr_graph st" and "gr_limits st' = gr_limits st" and "gr_inboxes st' = gr_inboxes st"
  shows "edges_ok st' = edges_ok st"
  using assms(3) edge_capacity_cong [OF assms(1,2)] by (simp add: edges_ok_def)

lemma names_ok_cong:
  assumes "gr_graph st' = gr_graph st" and "gr_routers st' = gr_routers st" and "gr_jobs st' = gr_jobs st"
    and "gr_paced st' = gr_paced st" and "\<And>name. gr_pacers st' name = None \<longleftrightarrow> gr_pacers st name = None"
    and "\<And>name. gr_forwarders st' name = None \<longleftrightarrow> gr_forwarders st name = None"
  shows "names_ok st' = names_ok st"
  using assms by (simp add: names_ok_def)

lemma copies_cong:
  assumes "gr_graph st' = gr_graph st" and "gr_inboxes st' = gr_inboxes st"
    and "gr_client_sequences st' = gr_client_sequences st"
  shows "copies st' = copies st"
proof -
  have "node_copies st' = node_copies st" using assms by (simp add: node_copies_def fun_eq_iff)
  then show ?thesis using assms(1) by (intro ext) (simp add: copies_def)
qed

lemma counted_cong:
  assumes "gr_graph st' = gr_graph st" and "gr_inboxes st' = gr_inboxes st"
    and "gr_client_sequences st' = gr_client_sequences st" and "gr_pending_input_done st' = gr_pending_input_done st"
    and "settled st' = settled st"
  shows "counted_but k st' = counted_but k st"
  using copies_cong [OF assms(1-3)] assms(4,5) by (simp add: counted_but_def)

lemma budget_cong:
  assumes "gr_graph st' = gr_graph st" and "gr_limits st' = gr_limits st" and "gr_outputs st' = gr_outputs st"
    and "gr_output_bytes st' = gr_output_bytes st" and "\<And>name. pacer_queue (gr_pacers st' name) = pacer_queue (gr_pacers st name)"
    and "gr_routers st' = gr_routers st" and "gr_close st' = gr_close st"
  shows "budget_but d st' = budget_but d st"
proof -
  have "held_bytes st' = held_bytes st" using assms(5,6) by (simp add: held_bytes_def fun_eq_iff)
  then show ?thesis using assms by (simp add: budget_but_def)
qed

text \<open>The whole invariant; \<open>k\<close> and \<open>d\<close> are what an operation has in hand.\<close>

definition graph_inv :: "int option \<Rightarrow> int \<Rightarrow> graph \<Rightarrow> bool" where
  "graph_inv k d st \<longleftrightarrow>
     edges_ok st \<and> names_ok st \<and> items_ok st \<and> counted_but k st \<and> settled_ok st \<and> budget_but d st \<and> nodes_ok st"

abbreviation graph_ok :: "graph \<Rightarrow> bool" where
  "graph_ok \<equiv> graph_inv None 0"

definition keeps :: "graph \<Rightarrow> graph \<Rightarrow> bool" where
  "keeps st st' \<longleftrightarrow>
     gr_graph st' = gr_graph st \<and> gr_limits st' = gr_limits st \<and> gr_inboxes st' = gr_inboxes st \<and>
     gr_client_sequences st' = gr_client_sequences st \<and> gr_pending_input_done st' = gr_pending_input_done st \<and>
     gr_confirmed st' = gr_confirmed st \<and> gr_drains st' = gr_drains st \<and> gr_next_input st' = gr_next_input st \<and>
     gr_forwarders st' = gr_forwarders st \<and> gr_outputs st' = gr_outputs st \<and> gr_output_bytes st' = gr_output_bytes st \<and>
     gr_pacers st' = gr_pacers st \<and> gr_routers st' = gr_routers st \<and> gr_close st' = gr_close st \<and>
     gr_sessions st' = gr_sessions st \<and> gr_jobs st' = gr_jobs st \<and> gr_paced st' = gr_paced st"

lemma graph_inv_keeps: "keeps st st' \<Longrightarrow> graph_inv k d st \<Longrightarrow> graph_inv k d st'"
  unfolding keeps_def graph_inv_def
  using edges_ok_cong [of st' st] names_ok_cong [of st' st] counted_cong [of st' st k] budget_cong [of st' st d]
  by (simp add: items_ok_def settled_ok_def settled_def nodes_ok_def)

section \<open>Primitive updates\<close>

text \<open>The sessions of the nodes, the close and the errors are read by no other part.\<close>

lemma graph_inv_session:
  assumes "graph_inv k d st" and "slots_ok node" and "output_ok node"
  shows "graph_inv k d (st\<lparr>gr_sessions := (gr_sessions st)(name := Some node)\<rparr>)"
proof -
  let ?st = "st\<lparr>gr_sessions := (gr_sessions st)(name := Some node)\<rparr>"
  show ?thesis
    using assms edges_ok_cong [of ?st st] names_ok_cong [of ?st st] counted_cong [of ?st st k] budget_cong [of ?st st d]
    by (auto simp: graph_inv_def items_ok_def settled_ok_def settled_def nodes_ok_def)
qed

lemma graph_inv_session_gone:
  assumes "graph_inv k d st"
  shows "graph_inv k d (st\<lparr>gr_sessions := (gr_sessions st)(name := None)\<rparr>)"
proof -
  let ?st = "st\<lparr>gr_sessions := (gr_sessions st)(name := None)\<rparr>"
  show ?thesis
    using assms edges_ok_cong [of ?st st] names_ok_cong [of ?st st] counted_cong [of ?st st k] budget_cong [of ?st st d]
    by (auto simp: graph_inv_def items_ok_def settled_ok_def settled_def nodes_ok_def)
qed

lemma graph_inv_close:
  assumes "graph_inv k d st" and "gr_close st \<noteq> CClosed \<or> c = CClosed"
  shows "graph_inv k d (st\<lparr>gr_close := c\<rparr>)"
proof -
  let ?st = "st\<lparr>gr_close := c\<rparr>"
  have "held_bytes ?st = held_bytes st" by (simp add: held_bytes_def fun_eq_iff)
  then have "budget_but d ?st" using assms by (auto simp: graph_inv_def budget_but_def)
  then show ?thesis
    using assms edges_ok_cong [of ?st st] names_ok_cong [of ?st st] counted_cong [of ?st st k]
    by (auto simp: graph_inv_def items_ok_def settled_ok_def settled_def nodes_ok_def)
qed

lemma graph_inv_router:
  assumes "graph_inv k d st" and "\<And>rt. gr_routers st name = Some rt \<Longrightarrow> point_held (rt_at rt) = None"
    and "\<And>rt. r = Some rt \<Longrightarrow> name \<in> set (gr_nodes st) \<and> known (gr_graph st) (point_names (rt_at rt)) \<and>
           point_held (rt_at rt) = None"
  shows "graph_inv k d (st\<lparr>gr_routers := (gr_routers st)(name := r)\<rparr>)"
proof -
  let ?st = "st\<lparr>gr_routers := (gr_routers st)(name := r)\<rparr>"
  have "held_bytes ?st = held_bytes st" using assms(2,3) by (auto simp: held_bytes_def fun_eq_iff split: option.splits)
  then have "budget_but d ?st" using assms by (auto simp: graph_inv_def budget_but_def)
  moreover have "names_ok ?st" using assms by (auto simp: graph_inv_def names_ok_def)
  ultimately show ?thesis
    using assms(1) edges_ok_cong [of ?st st] counted_cong [of ?st st k]
    by (auto simp: graph_inv_def items_ok_def settled_ok_def settled_def nodes_ok_def)
qed

lemma graph_inv_jobs:
  assumes "graph_inv k d st" and "\<And>i job. (i, job) \<in> set jobs \<Longrightarrow> known (gr_graph st) (job_names job)"
  shows "graph_inv k d (st\<lparr>gr_jobs := jobs\<rparr>)"
proof -
  let ?st = "st\<lparr>gr_jobs := jobs\<rparr>"
  have "names_ok ?st" using assms by (auto simp: graph_inv_def names_ok_def)
  then show ?thesis
    using assms(1) edges_ok_cong [of ?st st] counted_cong [of ?st st k] budget_cong [of ?st st d]
    by (auto simp: graph_inv_def items_ok_def settled_ok_def settled_def nodes_ok_def)
qed

lemma graph_inv_paced:
  assumes "graph_inv k d st" and "\<And>point. at_point = Some point \<Longrightarrow> name \<in> set (gr_nodes st) \<and> known (gr_graph st) (told_readers point)"
  shows "graph_inv k d (st\<lparr>gr_paced := (gr_paced st)(name := at_point)\<rparr>)"
proof -
  let ?st = "st\<lparr>gr_paced := (gr_paced st)(name := at_point)\<rparr>"
  have "names_ok ?st" using assms by (auto simp: graph_inv_def names_ok_def)
  then show ?thesis
    using assms(1) edges_ok_cong [of ?st st] counted_cong [of ?st st k] budget_cong [of ?st st d]
    by (auto simp: graph_inv_def items_ok_def settled_ok_def settled_def nodes_ok_def)
qed

lemma graph_inv_forwarder:
  assumes "graph_inv k d st"
    and "\<And>fw. f = Some fw \<Longrightarrow> name \<in> set (gr_nodes st) \<and>
          (\<forall>key. dict_has (gr_client_sequences st name) key \<longrightarrow> key < fw_seq fw) \<and>
          (\<forall>chunk g fs e x. fw_fragments fw = Some (chunk, g, fs, e) \<longrightarrow> x \<in> set (g # fs) \<longrightarrow> fw_seq fw \<le> tc_seq (fst x))"
  shows "graph_inv k d (st\<lparr>gr_forwarders := (gr_forwarders st)(name := f)\<rparr>)"
proof -
  let ?st = "st\<lparr>gr_forwarders := (gr_forwarders st)(name := f)\<rparr>"
  have "names_ok ?st" using assms by (auto simp: graph_inv_def names_ok_def)
  moreover have "items_ok ?st" using assms by (auto simp: graph_inv_def items_ok_def)
  ultimately show ?thesis
    using assms(1) edges_ok_cong [of ?st st] counted_cong [of ?st st k] budget_cong [of ?st st d]
    by (auto simp: graph_inv_def settled_ok_def settled_def nodes_ok_def)
qed

text \<open>A pacer is replaced by one that holds other bytes, and the counter follows.\<close>

lemma graph_inv_pacer:
  assumes "graph_inv k d st" and "gr_pacers st name = Some p" and "sizes_ok (pacer_queue (Some q))" and "0 \<le> d'"
    and "queue_bytes (pacer_queue (Some q)) + d' - b = queue_bytes (pacer_queue (Some p)) + d" and "b \<le> 0"
  shows "graph_inv k d' (st\<lparr>gr_output_bytes := gr_output_bytes st + b, gr_pacers := (gr_pacers st)(name := Some q)\<rparr>)"
proof -
  let ?st = "st\<lparr>gr_output_bytes := gr_output_bytes st + b, gr_pacers := (gr_pacers st)(name := Some q)\<rparr>"
  have nm: "name \<in> set (gr_nodes st)" "dict_ok (sg_nodes (gr_graph st))"
    using assms(1,2) by (auto simp: graph_inv_def names_ok_def)
  have "node_sum (held_bytes ?st) (gr_graph st) =
      node_sum (held_bytes st) (gr_graph st) - held_bytes st name + held_bytes ?st name"
    using nm by (intro node_sum_changed) (auto simp: held_bytes_def)
  then have "budget_but d' ?st" using assms
    by (auto simp: graph_inv_def budget_but_def held_bytes_def algebra_simps)
  moreover have "names_ok ?st" using assms(1,2) by (auto simp: graph_inv_def names_ok_def)
  ultimately show ?thesis
    using assms(1) edges_ok_cong [of ?st st] counted_cong [of ?st st k]
    by (auto simp: graph_inv_def items_ok_def settled_ok_def settled_def nodes_ok_def)
qed


section \<open>Inboxes\<close>

abbreviation client_items :: "int \<Rightarrow> inbox_item list \<Rightarrow> int" where
  "client_items s items \<equiv> int (length (filter (\<lambda>(_, _, seq). seq = Some s) items))"

abbreviation one_if :: "bool \<Rightarrow> int" where
  "one_if b \<equiv> (if b then 1 else 0)"

lemma graph_inv_inbox:
  assumes inv: "graph_inv k d st" and name: "name \<in> set (gr_nodes st)"
    and counts: "\<And>source. ib_counts inbox source = int (length (filter (is_from source) (ib_queued inbox)))"
    and room: "\<And>source. ib_counts inbox source \<le> edge_capacity st name source"
    and items: "\<And>item. item \<in> set (ib_queued inbox) \<Longrightarrow> item_ok (int (gr_next_input st)) item"
    and same: "\<And>s. client_items s (ib_queued inbox) + one_if (k' = Some s) =
       client_items s (ib_queued (gr_inboxes st name)) + one_if (k = Some s)"
  shows "graph_inv k' d (set_inbox name inbox st)"
proof -
  let ?st = "set_inbox name inbox st"
  have parts: "edges_ok st" "names_ok st" "items_ok st" "counted_but k st" "settled_ok st" "budget_but d st" "nodes_ok st"
    using inv by (simp_all add: graph_inv_def)
  have "edge_capacity ?st = edge_capacity st" by (rule edge_capacity_cong) simp_all
  then have e: "edges_ok ?st" using parts(1) counts room by (simp add: edges_ok_def)
  have "copies ?st s + one_if (k' = Some s) = copies st s + one_if (k = Some s)" for s
    using node_sum_changed [of "gr_graph st" name "node_copies ?st s" "node_copies st s"] parts(2) name same [of s]
    by (auto simp: copies_def node_copies_def names_ok_def)
  then have c: "counted_but k' ?st" using parts(4) by (simp add: counted_but_def Let_def settled_def)
  show ?thesis
    using e c parts items names_ok_cong [of ?st st] budget_cong [of ?st st d]
    by (auto simp: graph_inv_def items_ok_def settled_ok_def settled_def nodes_ok_def)
qed

lemma counts_exact: "graph_inv k d st \<Longrightarrow>
    ib_counts (gr_inboxes st name) source = int (length (filter (is_from source) (ib_queued (gr_inboxes st name))))"
  and counts_le: "graph_inv k d st \<Longrightarrow> ib_counts (gr_inboxes st name) source \<le> edge_capacity st name source"
  and capacity_pos: "graph_inv k d st \<Longrightarrow> 1 \<le> edge_capacity st name source"
  and inbox_items: "graph_inv k d st \<Longrightarrow> item \<in> set (ib_queued (gr_inboxes st name)) \<Longrightarrow> item_ok (int (gr_next_input st)) item"
  unfolding graph_inv_def edges_ok_def items_ok_def by (auto, cases item, auto)

lemma item_ok_node: "source \<noteq> GRAPH_INPUT \<Longrightarrow> item_ok n (source, chunk, None)"
  by (simp add: item_ok_def)

lemma graph_inv_queue_item:
  assumes "graph_inv k d st" and "name \<in> set (gr_nodes st)" and "source \<noteq> GRAPH_INPUT"
    and "ib_counts (gr_inboxes st name) source < edge_capacity st name source"
  shows "graph_inv k d (queue_item name (source, chunk, None) st)"
  unfolding queue_item_def Let_def
  using assms counts_exact [OF assms(1)] counts_le [OF assms(1)] inbox_items [OF assms(1)]
  by (intro graph_inv_inbox [OF assms(1)]) (auto simp: item_ok_node)

text \<open>The oldest item of a source leaves; when it is the client's, its copy is in hand.\<close>

lemma remove_first_split:
  assumes "find P xs = Some x"
  obtains ys zs where "xs = ys @ x # zs" and "remove_first P xs = ys @ zs" and "P x" and "\<forall>y \<in> set ys. \<not> P y"
  using assms
proof (induction xs arbitrary: thesis)
  case (Cons y xs)
  show ?case
  proof (cases "P y")
    case True
    with Cons.prems show ?thesis by (auto intro: Cons.prems(1) [of "[]"])
  next
    case False
    with Cons.prems(2) obtain ys zs where "xs = ys @ x # zs" "remove_first P xs = ys @ zs" "P x" "\<forall>y \<in> set ys. \<not> P y"
      using Cons.IH by auto
    with False show ?thesis by (intro Cons.prems(1) [of "y # ys" zs]) auto
  qed
qed simp

lemma graph_inv_drop_oldest:
  assumes inv: "graph_inv None d st" and "name \<in> set (gr_nodes st)"
    and found: "find (is_from source) (ib_queued (gr_inboxes st name)) = Some (source', chunk, seq)"
  shows "graph_inv seq d (drop_oldest name source st)"
proof -
  obtain ys zs where q: "ib_queued (gr_inboxes st name) = ys @ (source', chunk, seq) # zs" "source' = source"
      "remove_first (is_from source) (ib_queued (gr_inboxes st name)) = ys @ zs"
    using remove_first_split [OF found] by (metis fst_conv)
  show ?thesis
    unfolding drop_oldest_def Let_def
    using assms q counts_exact [OF inv] counts_le [OF inv] inbox_items [OF inv, of _ name]
    by (intro graph_inv_inbox [OF inv]) (auto intro: order_trans [OF _ counts_le [OF inv]])
qed

lemma graph_inv_pop_inbox:
  assumes inv: "graph_inv None d st" and "name \<in> set (gr_nodes st)"
    and q: "ib_queued (gr_inboxes st name) = (source, chunk, seq) # rest"
  shows "graph_inv seq d (pop_inbox name st)"
  unfolding pop_inbox_def Let_def
  using assms counts_exact [OF inv] counts_le [OF inv] inbox_items [OF inv, of _ name]
  by (intro graph_inv_inbox [OF inv]) (auto intro: order_trans [OF _ counts_le [OF inv]])

lemma graph_inv_rotate:
  assumes inv: "graph_inv k d st" and "name \<in> set (gr_nodes st)"
  shows "graph_inv k d (rotate_inbox name st)"
proof -
  have r: "length (filter P (rotate1 xs)) = length (filter P xs)" for P and xs :: "inbox_item list"
    by (cases xs) auto
  show ?thesis
    unfolding rotate_inbox_def Let_def
    using assms counts_exact [OF inv] counts_le [OF inv] inbox_items [OF inv, of _ name]
    by (intro graph_inv_inbox [OF inv]) (auto simp: r)
qed


section \<open>Outputs and confirmations\<close>

lemma wire_size_out_nonneg: "0 \<le> wire_size_out packo out"
  by (simp add: wire_size_out_def split: payload.splits)

lemma output_sizes_simps [simp]:
  "output_sizes [] = 0" "output_sizes ((out, sz, name) # es) = sz + output_sizes es"
  "output_sizes (es @ fs) = output_sizes es + output_sizes fs"
  by (simp_all add: output_sizes_def)

lemma graph_inv_bytes:
  assumes "graph_inv k d st" and "0 \<le> d'" and "b + d = d'" and "b \<le> 0 \<or> gr_output_bytes st + b \<le> max_output_bytes (gr_limits st)"
  shows "graph_inv k d' (st\<lparr>gr_output_bytes := gr_output_bytes st + b\<rparr>)"
proof -
  let ?st = "st\<lparr>gr_output_bytes := gr_output_bytes st + b\<rparr>"
  have "held_bytes ?st = held_bytes st" by (simp add: held_bytes_def fun_eq_iff)
  then have "budget_but d' ?st" using assms by (auto simp: graph_inv_def budget_but_def)
  then show ?thesis
    using assms(1) edges_ok_cong [of ?st st] counted_cong [of ?st st k] names_ok_cong [of ?st st]
    by (auto simp: graph_inv_def items_ok_def settled_ok_def settled_def nodes_ok_def)
qed

lemma graph_inv_outputs:
  assumes "graph_inv k d st" and "0 \<le> d'" and "\<forall>(out, sz, name) \<in> set es. 0 \<le> sz"
    and "output_sizes es + d' = output_sizes (gr_outputs st) + d"
    and "0 < max_output_chunks (gr_limits st) \<Longrightarrow> int (length es) \<le> max_output_chunks (gr_limits st)"
  shows "graph_inv k d' (st\<lparr>gr_outputs := es\<rparr>)"
proof -
  let ?st = "st\<lparr>gr_outputs := es\<rparr>"
  have "held_bytes ?st = held_bytes st" by (simp add: held_bytes_def fun_eq_iff)
  then have "budget_but d' ?st" using assms by (auto simp: graph_inv_def budget_but_def)
  then show ?thesis
    using assms(1) edges_ok_cong [of ?st st] counted_cong [of ?st st k] names_ok_cong [of ?st st]
    by (auto simp: graph_inv_def items_ok_def settled_ok_def settled_def nodes_ok_def)
qed

lemma outputs_nonneg: "graph_inv k d st \<Longrightarrow> (out, sz, name) \<in> set (gr_outputs st) \<Longrightarrow> 0 \<le> sz"
  by (auto simp: graph_inv_def budget_but_def)

lemma graph_inv_reserve:
  assumes "graph_inv k 0 st" and "reserve_graph_output packo out st = (Inr sz, st')"
  shows "graph_inv k sz st' \<and> 0 \<le> sz"
  using assms graph_inv_bytes [OF assms(1), of "wire_size_out packo out" "wire_size_out packo out"] wire_size_out_nonneg
  by (auto simp: reserve_graph_output_def Let_def split: if_splits)

lemma reserve_error: "reserve_graph_output packo out st = (Inl e, st') \<Longrightarrow> st' = st"
  by (auto simp: reserve_graph_output_def Let_def split: if_splits)

lemma graph_inv_put_output:
  assumes "graph_inv k sz st" and "\<not> outputs_full st"
  shows "graph_inv k 0 (put_output out sz name st)"
proof -
  have "0 \<le> sz" using assms(1) by (simp add: graph_inv_def budget_but_def)
  then show ?thesis unfolding put_output_def
    using assms outputs_nonneg [OF assms(1)]
    by (intro graph_inv_outputs [OF assms(1)]) (auto simp: outputs_full_def)
qed

lemma graph_inv_confirmed:
  assumes "graph_inv k d st" and "s \<notin> set (settled st)" and "s < int (gr_next_input st)"
    and "copies st s = 0" and "k \<noteq> Some s"
  shows "graph_inv k d (st\<lparr>gr_confirmed := gr_confirmed st @ [s]\<rparr>)"
    and "tc_seq chunk = s \<Longrightarrow> graph_inv k d (st\<lparr>gr_drains := gr_drains st @ [(name, chunk)]\<rparr>)"
proof -
  let ?a = "st\<lparr>gr_confirmed := gr_confirmed st @ [s]\<rparr>" and ?b = "st\<lparr>gr_drains := gr_drains st @ [(name, chunk)]\<rparr>"
  have c: "copies ?a = copies st" "copies ?b = copies st" by (rule copies_cong; simp)+
  show "graph_inv k d ?a"
    using assms c(1) edges_ok_cong [of ?a st] names_ok_cong [of ?a st] budget_cong [of ?a st d]
    by (auto simp: graph_inv_def items_ok_def settled_ok_def settled_def nodes_ok_def counted_but_def Let_def)
  show "graph_inv k d ?b" if "tc_seq chunk = s"
    using that assms c(2) edges_ok_cong [of ?b st] names_ok_cong [of ?b st] budget_cong [of ?b st d]
    by (auto simp: graph_inv_def items_ok_def settled_ok_def settled_def nodes_ok_def counted_but_def Let_def)
qed

lemma emit_cases:
  obtains "snd (emit_graph_input_done packo name chunk st) = st"
  | sz st1 where "\<not> outputs_full st" and "reserve_graph_output packo (input_done_output st chunk) st = (Inr sz, st1)"
    and "emit_graph_input_done packo name chunk st =
      (Inr (), (put_output (input_done_output st chunk) sz name
         (st1\<lparr>gr_confirmed := gr_confirmed st1 @ [tc_seq chunk]\<rparr>))\<lparr>gr_next_output := Suc (gr_next_output st1)\<rparr>)"
proof (cases "outputs_full st")
  case True
  then show ?thesis by (intro that(1)) (simp add: emit_graph_input_done_def)
next
  case False
  show ?thesis
  proof (cases "reserve_graph_output packo (input_done_output st chunk) st")
    case (Pair r st1)
    show ?thesis
    proof (cases r)
      case (Inl e)
      then show ?thesis using Pair reserve_error [of packo "input_done_output st chunk" st e st1] False
        by (intro that(1)) (simp add: emit_graph_input_done_def Let_def then_do_def)
    next
      case (Inr sz)
      then show ?thesis using Pair False
        by (intro that(2) [of sz st1]) (simp_all add: emit_graph_input_done_def Let_def then_do_def modify_def put_output_def)
    qed
  qed
qed

lemma graph_inv_emit:
  assumes "graph_inv k 0 st" and "tc_seq chunk \<notin> set (settled st)" and "tc_seq chunk < int (gr_next_input st)"
    and "copies st (tc_seq chunk) = 0" and "k \<noteq> Some (tc_seq chunk)"
  shows "graph_inv k 0 (snd (emit_graph_input_done packo name chunk st))"
proof -
  let ?out = "input_done_output st chunk"
  show ?thesis
  proof (cases rule: emit_cases [of packo name chunk st])
    case (2 sz st1)
    from 2(2) have eq: "sz = wire_size_out packo ?out" "st1 = st\<lparr>gr_output_bytes := gr_output_bytes st + sz\<rparr>"
      by (auto simp: reserve_graph_output_def Let_def split: if_splits)
    have "copies st1 = copies st" by (rule copies_cong) (simp_all add: eq(2))
    then have "graph_inv k sz (st1\<lparr>gr_confirmed := gr_confirmed st1 @ [tc_seq chunk]\<rparr>)"
      using graph_inv_reserve [OF assms(1) 2(2)] assms by (intro graph_inv_confirmed(1)) (auto simp: settled_def eq(2))
    then have "graph_inv k 0 (put_output ?out sz name (st1\<lparr>gr_confirmed := gr_confirmed st1 @ [tc_seq chunk]\<rparr>))"
      using 2(1) by (intro graph_inv_put_output) (simp_all add: outputs_full_def eq(2))
    then show ?thesis unfolding 2(3) snd_conv by (rule graph_inv_keeps [rotated]) (simp add: keeps_def)
  qed (simp add: assms)
qed

lemma graph_inv_pending:
  assumes "graph_inv k d st"
    and "\<And>s. copies st s + one_if (k' = Some s) > 0 \<Longrightarrow>
           dict_get pending s = Some (copies st s + one_if (k' = Some s)) \<and> s \<notin> set (settled st)"
  shows "graph_inv k' d (st\<lparr>gr_pending_input_done := pending\<rparr>)"
proof -
  let ?st = "st\<lparr>gr_pending_input_done := pending\<rparr>"
  have "copies ?st = copies st" by (rule copies_cong) simp_all
  then have "counted_but k' ?st" using assms(2) by (simp add: counted_but_def Let_def settled_def)
  then show ?thesis
    using assms(1) edges_ok_cong [of ?st st] names_ok_cong [of ?st st] budget_cong [of ?st st d]
    by (auto simp: graph_inv_def items_ok_def settled_ok_def settled_def nodes_ok_def)
qed

lemma counted_copies:
  assumes "graph_inv k d st" and "copies st s + one_if (k = Some s) > 0"
  shows "dict_get (gr_pending_input_done st) s = Some (copies st s + one_if (k = Some s))" and "s \<notin> set (settled st)"
  using assms unfolding graph_inv_def counted_but_def Let_def by blast+

lemma copies_nonneg: "0 \<le> copies st s"
  by (simp add: copies_def node_copies_def node_sum_nonneg)

lemma graph_inv_eos_confirmed: "graph_inv k d st \<Longrightarrow> graph_inv k d (st\<lparr>gr_eos_confirmed := x\<rparr>)"
  by (rule graph_inv_keeps [rotated]) (simp_all add: keeps_def)

text \<open>The copy in hand is given up: the counter goes down, and with the last copy the input is settled.\<close>

lemma graph_inv_confirm:
  assumes inv: "graph_inv (Some s) 0 st" and s: "tc_seq chunk = s" "s < int (gr_next_input st)"
  shows "graph_inv None 0 (snd (confirm_graph_input packo name chunk st))"
proof -
  define st1 where "st1 = (if tc_eos chunk then st\<lparr>gr_eos_confirmed := insert name (gr_eos_confirmed st)\<rparr> else st)"
  have inv1: "graph_inv (Some s) 0 st1" using inv by (simp add: st1_def graph_inv_eos_confirmed)
  have n: "dict_get (gr_pending_input_done st1) s = Some (copies st1 s + 1)" "s \<notin> set (settled st1)"
    using counted_copies [OF inv1, of s] copies_nonneg [of st1 s] by simp_all
  have other: "dict_get (gr_pending_input_done st1) s' = Some (copies st1 s')" "s' \<notin> set (settled st1)"
    if "s' \<noteq> s" "0 < copies st1 s'" for s'
    using counted_copies [OF inv1, of s'] that by simp_all
  show ?thesis
  proof (cases "copies st1 s = 0")
    case True
    let ?st2 = "st1\<lparr>gr_pending_input_done := dict_del s (gr_pending_input_done st1)\<rparr>"
    have "graph_inv None 0 ?st2"
      using True other by (intro graph_inv_pending [OF inv1]) (auto split: if_splits)
    moreover have "copies ?st2 s = 0" "settled ?st2 = settled st1" "gr_next_input ?st2 = gr_next_input st"
      using True copies_cong [of ?st2 st1] by (simp_all add: settled_def st1_def)
    ultimately have "graph_inv None 0 (?st2\<lparr>gr_drains := gr_drains ?st2 @ [(name, chunk)]\<rparr>)"
        and "graph_inv None 0 (snd (emit_graph_input_done packo name chunk ?st2))"
      using s n(2) graph_inv_confirmed(2) [of None 0 ?st2 s chunk name] graph_inv_emit [of None ?st2 chunk packo name]
      by simp_all
    then show ?thesis using True n s(1) by (auto simp: confirm_graph_input_def Let_def st1_def split: if_splits)
  next
    case False
    have "graph_inv None 0 (st1\<lparr>gr_pending_input_done := dict_set s (copies st1 s) (gr_pending_input_done st1)\<rparr>)"
      using other n(2) by (intro graph_inv_pending [OF inv1]) (auto split: if_splits)
    then show ?thesis using False n s(1) by (auto simp: confirm_graph_input_def Let_def st1_def split: if_splits)
  qed
qed


section \<open>Edges between nodes\<close>

lemma source_node: "graph_inv k d st \<Longrightarrow> source \<in> set (gr_nodes st) \<Longrightarrow> source \<noteq> GRAPH_INPUT"
  unfolding graph_inv_def names_ok_def by metis

lemma find_SomeD: "find P xs = Some x \<Longrightarrow> x \<in> set xs \<and> P x"
  by (induction xs) (auto split: if_splits)

lemma length_filter_twice: "length (filter P (filter Q xs)) \<le> length (filter P xs)"
  by (induction xs) auto

lemma list_ex_find: "list_ex P xs \<longleftrightarrow> (\<exists>x. find P xs = Some x)"
  by (induction xs) auto

lemma graph_inv_put:
  assumes inv: "graph_ok st" and target: "target \<in> set (gr_nodes st)" and source: "source \<in> set (gr_nodes st)"
  shows "graph_ok (snd (put_graph_inbox target source chunk st))"
proof -
  have src: "source \<noteq> GRAPH_INPUT" using source_node [OF inv source] .
  have queue: "graph_ok (queue_item target (source, chunk, None) st)"
    if "ib_counts (gr_inboxes st target) source < edge_capacity st target source"
    using graph_inv_queue_item [OF inv target src that] .
  have drop: "graph_ok (queue_item target (source, chunk, None) (drop_oldest target source st))"
    if full: "edge_capacity st target source \<le> ib_counts (gr_inboxes st target) source"
      and found: "list_ex (is_from source) (ib_queued (gr_inboxes st target))"
  proof -
    obtain s' c seq where f: "find (is_from source) (ib_queued (gr_inboxes st target)) = Some (s', c, seq)"
      using found unfolding list_ex_find by (metis prod.exhaust)
    have mem: "(s', c, seq) \<in> set (ib_queued (gr_inboxes st target))" "s' = source"
      using find_SomeD [OF f] by auto
    have "seq = None" using inbox_items [OF inv mem(1)] mem(2) src by (simp add: item_ok_def)
    then have inv': "graph_ok (drop_oldest target source st)" using graph_inv_drop_oldest [OF inv target f] by simp
    have "edge_capacity (drop_oldest target source st) = edge_capacity st"
      by (rule edge_capacity_cong) (simp_all add: drop_oldest_def Let_def)
    then show ?thesis
      using graph_inv_queue_item [OF inv' _ src, of target] target counts_le [OF inv, of target source]
      by (simp add: drop_oldest_def Let_def)
  qed
  have "de_overflow (node_bound (gr_graph st) target source) \<noteq> Block \<longleftrightarrow>
      de_overflow (node_bound (gr_graph st) target source) = DropOldest"
    by (cases "de_overflow (node_bound (gr_graph st) target source)") simp_all
  with inv queue drop show ?thesis
    by (auto simp: put_graph_inbox_def Let_def split: sum.splits bool.splits)
qed

lemma put_keeps: "gr_graph (snd (put_graph_inbox target source chunk st)) = gr_graph st"
    "gr_routers (snd (put_graph_inbox target source chunk st)) = gr_routers st"
    "gr_jobs (snd (put_graph_inbox target source chunk st)) = gr_jobs st"
    "gr_paced (snd (put_graph_inbox target source chunk st)) = gr_paced st"
    "gr_pacers (snd (put_graph_inbox target source chunk st)) = gr_pacers st"
  by (auto simp: put_graph_inbox_def Let_def queue_item_def drop_oldest_def split: sum.splits bool.splits)

section \<open>Fences\<close>

lemma filter_r_Inr: "filter_r p xs = Inr ys \<Longrightarrow> ys = filter (\<lambda>x. p x = Inr True) xs \<and> (\<forall>x \<in> set xs. \<exists>b. p x = Inr b)"
  by (induction xs arbitrary: ys) (auto simp: bind_r_Inr_iff)

lemma graph_inv_fence_inbox:
  assumes inv: "graph_inv k d st" and target: "target \<in> set (gr_nodes st)" and f: "fence_inbox target turn st = Inr st'"
  shows "graph_inv k d st'"
proof -
  let ?q = "ib_queued (gr_inboxes st target)"
  let ?p = "\<lambda>(source, chunk, _ :: int option). if source = GRAPH_INPUT then Inr True
     else bind_r (interrupted_reply chunk turn) (\<lambda>b. Inr (\<not> b))"
  let ?q' = "filter (\<lambda>x. ?p x = Inr True) ?q"
  from f have st': "st' = set_inbox target \<lparr>ib_queued = ?q', ib_counts = (\<lambda>source. int (length (filter (is_from source) ?q')))\<rparr> st"
    by (auto simp: fence_inbox_def bind_r_Inr_iff dest!: filter_r_Inr)
  have le: "int (length (filter (is_from source) ?q')) \<le> edge_capacity st target source" for source
    using counts_le [OF inv, of target source] counts_exact [OF inv, of target source]
      length_filter_twice [of "is_from source" "\<lambda>x. ?p x = Inr True" ?q] by simp
  have "client_items s ?q' = client_items s ?q" for s
  proof -
    have "filter (\<lambda>(_, _, seq). seq = Some s) ?q' = filter (\<lambda>(_, _, seq). seq = Some s) ?q"
      unfolding filter_filter using inbox_items [OF inv, of _ target] by (intro filter_cong) (auto simp: item_ok_def)
    then show ?thesis by simp
  qed
  then show ?thesis unfolding st' using le inbox_items [OF inv, of _ target]
    by (intro graph_inv_inbox [OF inv target]) auto
qed


lemma sum_list_filter_le:
  "(\<And>x. x \<in> set xs \<Longrightarrow> 0 \<le> f x) \<Longrightarrow> sum_list (map f (filter P xs)) \<le> (sum_list (map f xs) :: int)"
  by (induction xs) (auto simp: add_increasing)

text \<open>A node's session loses pending input; its own counters follow.\<close>

lemma graph_inv_fence_pending:
  assumes inv: "graph_inv k d st" and f: "fence_pending target turn st = Inr st'"
  shows "graph_inv k d st'"
proof -
  from f obtain node where node: "gr_sessions st target = Some node"
    by (auto simp: fence_pending_def split: option.splits)
  with f obtain P where P: "st' = st\<lparr>gr_sessions := (gr_sessions st)(target := Some (node\<lparr>
       se_pending_count := se_pending_count node - (int (length (se_pending node)) - int (length (filter P (se_pending node)))),
       se_pending_bytes := se_pending_bytes node -
         (sum_list (map pc_encoded_bytes (se_pending node)) - sum_list (map pc_encoded_bytes (filter P (se_pending node)))),
       se_pending := filter P (se_pending node)\<rparr>))\<rparr>"
    by (auto simp: fence_pending_def bind_r_Inr_iff dest!: filter_r_Inr)
  have ok: "slots_ok node" "output_ok node" using inv node by (auto simp: graph_inv_def nodes_ok_def)
  have nonneg: "0 \<le> pc_encoded_bytes p" if "p \<in> set (se_pending node)" for p using ok(1) that by (simp add: slots_ok_def)
  obtain ks where ks: "ks = filter P (se_pending node)" "length ks \<le> length (se_pending node)" "set ks \<subseteq> set (se_pending node)"
      "sum_list (map pc_encoded_bytes ks) \<le> sum_list (map pc_encoded_bytes (se_pending node))"
    using sum_list_filter_le [of "se_pending node" pc_encoded_bytes P] nonneg by auto
  show ?thesis unfolding P ks(1) [symmetric] using ok ks(2-)
    by (intro graph_inv_session [OF inv]) (auto simp: slots_ok_def output_ok_def)
qed

lemma lift_r_snd: "snd (lift_r f st) = st \<or> f st = Inr (snd (lift_r f st))"
  by (auto simp: lift_r_def split: sum.splits)

lemma graph_inv_interrupted: "graph_inv k d st \<Longrightarrow> graph_inv k d (st\<lparr>gr_interrupted_turns := x\<rparr>)"
  by (rule graph_inv_keeps [rotated]) (simp_all add: keeps_def)

lemma fence_keeps:
  "fence_inbox target turn st = Inr st' \<Longrightarrow> gr_graph st' = gr_graph st"
  "fence_pending target turn st = Inr st' \<Longrightarrow> gr_graph st' = gr_graph st"
  by (auto simp: fence_inbox_def fence_pending_def bind_r_Inr_iff split: option.splits)

lemma fence_turn_rule:
  assumes "P (st\<lparr>gr_interrupted_turns := (gr_interrupted_turns st)(target := insert turn (gr_interrupted_turns st target))\<rparr>)"
    and "\<And>st1 st2. P st1 \<Longrightarrow> fence_inbox target turn st1 = Inr st2 \<Longrightarrow> P st2"
    and "\<And>st1 st2. P st1 \<Longrightarrow> fence_pending target turn st1 = Inr st2 \<Longrightarrow> P st2"
  shows "P (snd (fence_turn target turn st))"
  unfolding fence_turn_def then_do_def modify_def lift_r_def
  using assms(1) assms(2) [OF assms(1)] assms(3) by (auto split: sum.splits)

lemma graph_inv_fence_turn:
  assumes "graph_inv k d st" and "target \<in> set (gr_nodes st)"
  shows "graph_inv k d (snd (fence_turn target turn st))"
proof -
  let ?P = "\<lambda>st'. graph_inv k d st' \<and> gr_graph st' = gr_graph st"
  have "?P (snd (fence_turn target turn st))"
  proof (rule fence_turn_rule [of ?P])
    fix st1 st2 assume "?P st1" and f: "fence_inbox target turn st1 = Inr st2"
    then show "?P st2" using graph_inv_fence_inbox [OF _ _ f, of k d] fence_keeps(1) [OF f] assms(2) by simp
  next
    fix st1 st2 assume "?P st1" and f: "fence_pending target turn st1 = Inr st2"
    then show "?P st2" using graph_inv_fence_pending [OF _ f, of k d] fence_keeps(2) [OF f] by simp
  qed (use assms(1) graph_inv_interrupted in simp)
  then show ?thesis by simp
qed

lemma sizes_ok_queue: "graph_inv k d st \<Longrightarrow> gr_pacers st name = Some p \<Longrightarrow> sizes_ok (dp_items p) \<and> sizes_ok (dp_unsent p)"
  unfolding graph_inv_def budget_but_def by (metis pacer_queue.simps(2) list_all_append)

lemma graph_inv_purge_pacer:
  assumes inv: "graph_inv k d st"
  shows "graph_inv k d (purge_pacer target turn st)"
proof (cases "gr_pacers st target")
  case (Some p)
  have "0 \<le> d" using inv by (simp add: graph_inv_def budget_but_def)
  obtain dropped q where q: "purge turn p = (dropped, q)" by (cases "purge turn p")
  have "queue_bytes (pacer_queue (Some q)) + dropped = queue_bytes (pacer_queue (Some p))"
      "sizes_ok (pacer_queue (Some q))" "0 \<le> dropped"
    using purge_queue [OF q] sizes_ok_queue [OF inv Some] by simp_all
  then show ?thesis
    using Some q graph_inv_pacer [OF inv Some, of q d "- dropped"] \<open>0 \<le> d\<close> by (simp add: purge_pacer_def)
qed (simp add: purge_pacer_def inv)


lemma output_sizes_partition:
  "output_sizes (filter P es) + output_sizes (filter (\<lambda>e. \<not> P e) es) = output_sizes es"
  by (induction es) (auto simp: output_sizes_def)

lemma graph_inv_drop_unread:
  assumes inv: "graph_inv k d st"
  shows "graph_inv k d (drop_unread target turn st)"
proof -
  let ?gone = "filter (is_unread_reply target turn) (gr_outputs st)"
  let ?kept = "filter (\<lambda>entry. \<not> is_unread_reply target turn entry) (gr_outputs st)"
  let ?n = "output_sizes ?gone"
  have d: "0 \<le> d" using inv by (simp add: graph_inv_def budget_but_def)
  have n: "0 \<le> ?n" using outputs_nonneg [OF inv] by (auto simp: output_sizes_def intro!: sum_list_nonneg)
  have len: "length ?kept \<le> length (gr_outputs st)" by (rule length_filter_le)
  have "graph_inv k (d + ?n) (st\<lparr>gr_outputs := ?kept\<rparr>)"
    using output_sizes_partition [of "is_unread_reply target turn" "gr_outputs st"] outputs_nonneg [OF inv] d n inv
    by (intro graph_inv_outputs [OF inv])
      (auto simp: graph_inv_def budget_but_def intro: order_trans [OF _ of_nat_mono [OF len]] dest: order_trans [OF of_nat_mono [OF len]])
  moreover have "drop_unread target turn st = (st\<lparr>gr_outputs := ?kept\<rparr>)\<lparr>gr_output_bytes := gr_output_bytes (st\<lparr>gr_outputs := ?kept\<rparr>) + (- ?n)\<rparr>"
    by (simp add: drop_unread_def)
  ultimately show ?thesis using graph_inv_bytes [OF _ d, of k "d + ?n" "st\<lparr>gr_outputs := ?kept\<rparr>" "- ?n"] n by simp
qed

lemma purge_pacer_keeps: "gr_graph (purge_pacer target turn st) = gr_graph st"
  by (simp add: purge_pacer_def split: option.splits prod.splits)

lemma graph_inv_fence_outputs:
  assumes "graph_inv k d st"
  shows "graph_inv k d (snd (fence_outputs target turn st))"
  using graph_inv_purge_pacer [OF assms, of target turn] graph_inv_drop_unread
  by (auto simp: fence_outputs_def Let_def split: option.splits)

lemma graph_inv_fence:
  assumes "graph_inv k d st" and "target \<in> set (gr_nodes st)"
  shows "graph_inv k d (snd (fence_control_edge target event st))"
proof -
  have turn: "graph_inv k d st1" if "fence_turn target t st = (r, st1)" for t r st1
    using graph_inv_fence_turn [OF assms, of t] that by simp
  show ?thesis using assms(1) turn graph_inv_fence_outputs
    by (auto simp: fence_control_edge_def then_do_def ret_def split: sum.splits prod.splits option.splits)
qed


section \<open>Input of the client\<close>

lemma emit_keeps:
  "gr_inboxes (snd (emit_graph_input_done packo name chunk st)) = gr_inboxes st"
  "gr_graph (snd (emit_graph_input_done packo name chunk st)) = gr_graph st"
  "gr_limits (snd (emit_graph_input_done packo name chunk st)) = gr_limits st"
  "gr_next_input (snd (emit_graph_input_done packo name chunk st)) = gr_next_input st"
  "gr_pending_input_done (snd (emit_graph_input_done packo name chunk st)) = gr_pending_input_done st"
  by (auto simp: emit_graph_input_done_def reserve_graph_output_def then_do_def modify_def Let_def)

lemma confirm_keeps:
  "gr_inboxes (snd (confirm_graph_input packo name chunk st)) = gr_inboxes st"
  "gr_graph (snd (confirm_graph_input packo name chunk st)) = gr_graph st"
  "gr_limits (snd (confirm_graph_input packo name chunk st)) = gr_limits st"
  "gr_next_input (snd (confirm_graph_input packo name chunk st)) = gr_next_input st"
  "s \<noteq> tc_seq chunk \<Longrightarrow>
   dict_get (gr_pending_input_done (snd (confirm_graph_input packo name chunk st))) s = dict_get (gr_pending_input_done st) s"
  by (auto simp: confirm_graph_input_def Let_def emit_keeps split: option.splits)

lemma drop_input_cases:
  assumes inv: "graph_ok st" and name: "name \<in> set (gr_nodes st)"
  obtains e where "drop_input packo name st = (Inl e, st)"
  | chunk s where "drop_input packo name st = confirm_graph_input packo name chunk (drop_oldest name GRAPH_INPUT st)"
    and "graph_inv (Some s) 0 (drop_oldest name GRAPH_INPUT st)" and "tc_seq chunk = s" and "s < int (gr_next_input st)"
proof (cases "find (is_from GRAPH_INPUT) (ib_queued (gr_inboxes st name))")
  case None
  then show ?thesis by (intro that(1)) (simp add: drop_input_def oldest_input_def)
next
  case (Some item)
  obtain source chunk seq where item: "item = (source, chunk, seq)" by (cases item) auto
  have "item \<in> set (ib_queued (gr_inboxes st name))" "source = GRAPH_INPUT" using find_SomeD [OF Some] item by auto
  from inbox_items [OF inv this(1)] this(2) item obtain s where "seq = Some s" "tc_seq chunk = s" "s < int (gr_next_input st)"
    by (auto simp: item_ok_def)
  with graph_inv_drop_oldest [OF inv name Some [unfolded item]] Some item show ?thesis
    by (intro that(2)) (simp_all add: drop_input_def oldest_input_def)
qed

lemma drop_input_ok:
  assumes inv: "graph_ok st" and name: "name \<in> set (gr_nodes st)"
  shows "graph_ok (snd (drop_input packo name st))"
    and "gr_graph (snd (drop_input packo name st)) = gr_graph st"
    and "gr_limits (snd (drop_input packo name st)) = gr_limits st"
    and "gr_next_input (snd (drop_input packo name st)) = gr_next_input st"
    and "dict_get (gr_pending_input_done (snd (drop_input packo name st))) (int (gr_next_input st)) =
         dict_get (gr_pending_input_done st) (int (gr_next_input st))"
    and "fst (drop_input packo name st) = Inr () \<Longrightarrow>
         gr_inboxes (snd (drop_input packo name st)) = gr_inboxes (drop_oldest name GRAPH_INPUT st)"
  by (cases rule: drop_input_cases [OF inv name, of packo];
      simp add: inv confirm_keeps graph_inv_confirm; simp add: drop_oldest_def Let_def)+

lemma drop_inputs_ok:
  assumes "graph_ok st" and "set names \<subseteq> set (gr_nodes st)" and "distinct names"
  shows "graph_ok (snd (drop_inputs packo names st)) \<and>
    gr_graph (snd (drop_inputs packo names st)) = gr_graph st \<and> gr_limits (snd (drop_inputs packo names st)) = gr_limits st \<and>
    gr_next_input (snd (drop_inputs packo names st)) = gr_next_input st \<and>
    dict_get (gr_pending_input_done (snd (drop_inputs packo names st))) (int (gr_next_input st)) =
      dict_get (gr_pending_input_done st) (int (gr_next_input st)) \<and>
    (fst (drop_inputs packo names st) = Inr () \<longrightarrow>
     (\<forall>name. ib_counts (gr_inboxes (snd (drop_inputs packo names st)) name) GRAPH_INPUT =
        ib_counts (gr_inboxes st name) GRAPH_INPUT - one_if (name \<in> set names)))"
  using assms
proof (induction names arbitrary: st)
  case (Cons name names)
  have name: "name \<in> set (gr_nodes st)" using Cons.prems by simp
  note one = drop_input_ok [OF Cons.prems(1) name, of packo]
  obtain r st1 where r: "drop_input packo name st = (r, st1)" by (cases "drop_input packo name st")
  show ?case
  proof (cases r)
    case (Inl e)
    then show ?thesis using r one by (simp add: then_do_def)
  next
    case (Inr u)
    have "set names \<subseteq> set (gr_nodes st1)" using Cons.prems(2) one(2) r by simp
    from Cons.IH [OF _ this] Cons.prems(3) one r Inr show ?thesis
      by (auto simp: then_do_def drop_oldest_def Let_def)
  qed
qed (simp add: ret_def)


lemma item_ok_more: "item_ok n item \<Longrightarrow> n \<le> m \<Longrightarrow> item_ok m item"
  by (cases item; cases "snd (snd item)") (auto simp: item_ok_def)

lemma graph_inv_finish_append:
  assumes inv: "graph_inv k d st"
  shows "graph_inv k d (finish_graph_append chunk st)"
proof -
  let ?st = "finish_graph_append chunk st"
  have q: "pacer_queue (gr_pacers ?st name) = pacer_queue (gr_pacers st name)" for name
    by (cases "gr_pacers st name") (simp_all add: finish_graph_append_def end_input_def)
  have parts: "edges_ok ?st = edges_ok st" "names_ok ?st = names_ok st" "counted_but k ?st = counted_but k st"
    "budget_but d ?st = budget_but d st"
    subgoal by (rule edges_ok_cong) (simp_all add: finish_graph_append_def)
    subgoal by (rule names_ok_cong) (simp_all add: finish_graph_append_def)
    subgoal by (rule counted_cong) (simp_all add: finish_graph_append_def settled_def)
    subgoal by (rule budget_cong [OF _ _ _ _ q]) (simp_all add: finish_graph_append_def)
    done
  have le: "int (gr_next_input st) \<le> int (gr_next_input ?st)" by (simp add: finish_graph_append_def)
  have fields: "gr_inboxes ?st = gr_inboxes st" "gr_client_sequences ?st = gr_client_sequences st" "gr_forwarders ?st = gr_forwarders st"
    by (simp_all add: finish_graph_append_def)
  have "items_ok ?st" using inv unfolding graph_inv_def items_ok_def fields
    by (blast intro: item_ok_more [OF _ le] less_le_trans [OF _ le])
  moreover have "settled ?st = settled st" by (simp add: settled_def finish_graph_append_def)
  then have "settled_ok ?st" using inv unfolding graph_inv_def settled_ok_def
    by (metis less_le_trans [OF _ le])
  moreover have "nodes_ok ?st" using inv by (simp add: graph_inv_def nodes_ok_def finish_graph_append_def)
  ultimately show ?thesis using inv parts by (simp add: graph_inv_def)
qed

lemma sequences_below: "graph_inv k d st \<Longrightarrow> (key, v) \<in> set (gr_client_sequences st name) \<Longrightarrow> v < int (gr_next_input st)"
  unfolding graph_inv_def items_ok_def by blast

lemma copies_fresh:
  assumes "graph_inv k d st"
  shows "copies st (int (gr_next_input st)) = 0"
proof -
  have "filter (\<lambda>(_, _, seq). seq = Some (int (gr_next_input st))) (ib_queued (gr_inboxes st name)) = []"
    "filter (\<lambda>(_, seq). seq = int (gr_next_input st)) (gr_client_sequences st name) = []" for name
    using inbox_items [OF assms, of _ name] sequences_below [OF assms, of _ _ name]
    by (fastforce simp: item_ok_def filter_empty_conv)+
  then have "node_copies st (int (gr_next_input st)) name = 0" for name unfolding node_copies_def by simp
  then show ?thesis by (simp add: copies_def node_sum_def comp_def)
qed

definition with_item :: "inbox_item \<Rightarrow> node_inbox \<Rightarrow> node_inbox" where
  "with_item item inbox =
     \<lparr>ib_queued = ib_queued inbox @ [item], ib_counts = (ib_counts inbox)(fst item := ib_counts inbox (fst item) + 1)\<rparr>"

lemma queue_items:
  "distinct names \<Longrightarrow>
   fold (\<lambda>name. queue_item name item) names st =
   st\<lparr>gr_inboxes := (\<lambda>name. if name \<in> set names then with_item item (gr_inboxes st name) else gr_inboxes st name)\<rparr>"
proof (induction names arbitrary: st)
  case (Cons name names)
  have "queue_item name item st = set_inbox name (with_item item (gr_inboxes st name)) st"
    by (simp add: queue_item_def with_item_def Let_def)
  moreover have "(\<lambda>m. if m \<in> set names then with_item item (((gr_inboxes st)(name := with_item item (gr_inboxes st name))) m)
        else ((gr_inboxes st)(name := with_item item (gr_inboxes st name))) m) =
      (\<lambda>m. if m \<in> set (name # names) then with_item item (gr_inboxes st m) else gr_inboxes st m)"
    using Cons.prems by (auto simp: fun_eq_iff)
  ultimately show ?case using Cons.IH Cons.prems by (simp cong: if_cong)
qed simp

lemma graph_inv_queue_input:
  assumes inv: "graph_ok st" and readers: "distinct readers" "set readers \<subseteq> set (gr_nodes st)"
    and room: "\<And>name. name \<in> set readers \<Longrightarrow> ib_counts (gr_inboxes st name) GRAPH_INPUT < edge_capacity st name GRAPH_INPUT"
    and n: "tc_seq chunk = n" "n < int (gr_next_input st)" "copies st n = 0" "n \<notin> set (settled st)"
    and pending: "readers \<noteq> [] \<Longrightarrow> dict_get (gr_pending_input_done st) n = Some (int (length readers))"
  shows "graph_ok (fold (\<lambda>name. queue_item name (GRAPH_INPUT, chunk, Some n)) readers st)"
proof -
  let ?item = "(GRAPH_INPUT, chunk, Some n)"
  let ?f = "\<lambda>name. if name \<in> set readers then with_item ?item (gr_inboxes st name) else gr_inboxes st name"
  let ?st = "st\<lparr>gr_inboxes := ?f\<rparr>"
  have parts: "edges_ok st" "names_ok st" "items_ok st" "counted_but None st" "settled_ok st" "budget_but 0 st" "nodes_ok st"
    using inv by (simp_all add: graph_inv_def)
  have cap: "edge_capacity ?st = edge_capacity st" by (rule edge_capacity_cong) simp_all
  have "ib_counts (?f target) source = int (length (filter (is_from source) (ib_queued (?f target)))) \<and>
      int (length (filter (is_from source) (ib_queued (?f target)))) \<le> edge_capacity st target source" for target source
    using counts_exact [OF inv, of target] counts_le [OF inv, of target source] room [of target] by (auto simp: with_item_def)
  then have e: "edges_ok ?st" using capacity_pos [OF inv] unfolding edges_ok_def cap by simp
  have "node_copies ?st s name = node_copies st s name + (if s = n then one_if (name \<in> set readers) else 0)" for s name
    by (simp add: node_copies_def with_item_def)
  then have "copies ?st s = copies st s + (if s = n then int (length readers) else 0)" for s
    using node_sum_plus [of "node_copies st s" "\<lambda>name. if s = n then one_if (name \<in> set readers) else 0" "gr_graph st"]
      sum_list_indicator [OF _ readers] parts(2)
    by (simp add: copies_def node_sum_def names_ok_def comp_def)
  then have c: "counted_but None ?st" using parts(4) n(3,4) pending
    by (auto simp: counted_but_def Let_def settled_def)
  have i: "items_ok ?st" using parts(3) n(1,2) by (auto simp: items_ok_def with_item_def item_ok_def split: if_splits)
  show ?thesis unfolding queue_items [OF readers(1)]
    using e c i parts names_ok_cong [of ?st st] budget_cong [of ?st st 0]
    by (auto simp: graph_inv_def settled_ok_def settled_def nodes_ok_def)
qed

lemma finish_graph_append_queue:
  "finish_graph_append chunk (fold (\<lambda>name. queue_item name item) names st) = fold (\<lambda>name. queue_item name item) names (finish_graph_append chunk st)"
proof -
  have "finish_graph_append chunk (queue_item name item st) = queue_item name item (finish_graph_append chunk st)" for name st
    by (simp add: finish_graph_append_def queue_item_def Let_def)
  then show ?thesis by (induction names arbitrary: st) simp_all
qed


lemma reading_nodes_distinct:
  assumes "dict_ok (sg_nodes g)"
  shows "distinct (reading_nodes g source fmt)" and "set (reading_nodes g source fmt) \<subseteq> set (dict_keys (sg_nodes g))"
  using assms by (auto simp: reading_nodes_def distinct_map_filter)

lemma known_reading_nodes [simp]: "known g (reading_nodes g source fmt)"
  by (auto simp: known_def reading_nodes_def)

lemma names_dict_ok: "graph_inv k d st \<Longrightarrow> dict_ok (sg_nodes (gr_graph st))"
  by (simp add: graph_inv_def names_ok_def)

lemma settled_fresh: "graph_inv k d st \<Longrightarrow> int (gr_next_input st) \<notin> set (settled st)"
  by (auto simp: graph_inv_def settled_ok_def)

text \<open>Input that no node reads is confirmed at once; the order of that and of the numbering does not matter.\<close>

lemma finish_graph_append_emit:
  assumes "emit_graph_input_done packo name chunk st = (Inr u, st1)"
  shows "finish_graph_append chunk' st1 = snd (emit_graph_input_done packo name chunk (finish_graph_append chunk' st))"
  using assms
  by (auto simp: emit_graph_input_done_def reserve_graph_output_def then_do_def modify_def Let_def finish_graph_append_def
      outputs_full_def input_done_output_def split: if_splits)

lemma accept_input_ok:
  assumes inv: "graph_ok st" and seq: "tc_seq chunk = int (gr_next_input st)" and full: "full = full_readers st chunk"
  shows "graph_ok (snd (accept_input packo chunk full st))"
proof (cases "input_readers st chunk = []")
  case True
  then have "full = []" by (simp add: full full_readers_def)
  obtain r st1 where r: "emit_graph_input_done packo GRAPH_INPUT chunk st = (r, st1)"
    by (cases "emit_graph_input_done packo GRAPH_INPUT chunk st")
  show ?thesis
  proof (cases r)
    case (Inl e)
    have "st1 = st" by (cases rule: emit_cases [of packo GRAPH_INPUT chunk st]) (use r Inl in auto)
    then show ?thesis using True r Inl inv by (simp add: accept_input_def then_do_def)
  next
    case (Inr u)
    let ?st = "finish_graph_append chunk st"
    have "gr_graph st1 = gr_graph st" using r emit_keeps(2) [of packo GRAPH_INPUT chunk st] by simp
    then have "snd (accept_input packo chunk full st) = finish_graph_append chunk st1"
      using True r Inr \<open>full = []\<close>
      by (simp add: accept_input_def then_do_def modify_def ret_def queue_input_def input_readers_def)
    also have "\<dots> = snd (emit_graph_input_done packo GRAPH_INPUT chunk ?st)"
      using finish_graph_append_emit r Inr by metis
    also have "graph_ok \<dots>"
    proof (rule graph_inv_emit)
      show "graph_ok ?st" by (rule graph_inv_finish_append [OF inv])
      have "copies ?st = copies st" "settled ?st = settled st"
        by (auto simp: finish_graph_append_def settled_def intro!: copies_cong)
      then show "tc_seq chunk \<notin> set (settled ?st)" "copies ?st (tc_seq chunk) = 0"
        using settled_fresh [OF inv] copies_fresh [OF inv] seq by simp_all
    qed (simp_all add: seq finish_graph_append_def)
    finally show ?thesis .
  qed
next
  case False
  let ?readers = "input_readers st chunk" and ?n = "int (gr_next_input st)"
  define st1 where "st1 = st\<lparr>gr_pending_input_done := dict_set ?n (int (length ?readers)) (gr_pending_input_done st)\<rparr>"
  have copies1: "copies st1 = copies st" by (rule copies_cong) (simp_all add: st1_def)
  have inv1: "graph_ok st1" unfolding st1_def
    using counted_copies [OF inv] copies_fresh [OF inv] by (intro graph_inv_pending [OF inv]) auto
  have readers: "distinct ?readers" "set ?readers \<subseteq> set (gr_nodes st)"
    using reading_nodes_distinct [OF names_dict_ok [OF inv]] by (auto simp: input_readers_def)
  have "set full \<subseteq> set (gr_nodes st1)" "distinct full" using readers by (auto simp: full full_readers_def st1_def)
  note drop = drop_inputs_ok [OF inv1 this, of packo]
  obtain r st2 where r: "drop_inputs packo full st1 = (r, st2)" by (cases "drop_inputs packo full st1")
  have acc: "accept_input packo chunk full st =
      (case r of Inl e \<Rightarrow> (Inl e, st2) | Inr _ \<Rightarrow> (Inr (tc_seq chunk), finish_graph_append chunk (queue_input chunk st2)))"
    using False r seq by (simp add: accept_input_def then_do_def modify_def ret_def st1_def split: sum.splits)
  show ?thesis
  proof (cases r)
    case (Inl e)
    then show ?thesis using acc drop r by simp
  next
    case (Inr u)
    let ?st = "finish_graph_append chunk st2"
    have same: "gr_graph st2 = gr_graph st" "gr_limits st2 = gr_limits st" "gr_next_input st2 = gr_next_input st"
        "graph_ok st2" "dict_get (gr_pending_input_done st2) ?n = Some (int (length ?readers))"
      using drop r by (simp_all add: st1_def)
    have room: "ib_counts (gr_inboxes st2 name) GRAPH_INPUT < edge_capacity st name GRAPH_INPUT" if "name \<in> set ?readers" for name
      using drop r Inr that counts_le [OF inv, of name GRAPH_INPUT]
      by (auto simp: st1_def full full_readers_def split: if_splits)
    have caps: "edge_capacity ?st = edge_capacity st" by (rule edge_capacity_cong) (simp_all add: same finish_graph_append_def)
    have cs: "copies ?st = copies st2" "settled ?st = settled st2"
      by (auto simp: finish_graph_append_def settled_def intro!: copies_cong)
    have fields: "gr_graph ?st = gr_graph st2" "gr_inboxes ?st = gr_inboxes st2" "gr_next_input ?st = Suc (gr_next_input st2)"
        "gr_pending_input_done ?st = gr_pending_input_done st2"
      by (simp_all add: finish_graph_append_def)
    have "input_readers st2 chunk = ?readers" by (simp add: input_readers_def same)
    then have "snd (accept_input packo chunk full st) =
        fold (\<lambda>name. queue_item name (GRAPH_INPUT, chunk, Some ?n)) ?readers ?st"
      using acc Inr seq by (simp add: queue_input_def finish_graph_append_queue)
    also have "graph_ok \<dots>"
      using graph_inv_finish_append [OF same(4)] readers room copies_fresh [OF same(4)] settled_fresh [OF same(4)] seq
      by (intro graph_inv_queue_input) (auto simp: caps cs fields same)
    finally show ?thesis .
  qed
qed

lemma append_graph_ok:
  assumes inv: "graph_ok st" and codec: "codec_ok packb unpackb"
  shows "graph_ok (snd (append_graph packb packo unpackb chunk t d st))"
proof -
  have "tc_seq c = int (gr_next_input st)" if "check_graph_input packb unpackb chunk t d st = Inr c" for c
    using that by (auto simp: check_graph_input_def bind_r_Inr_iff split: if_splits dest!: admit_input_ok [OF _ codec])
  then show ?thesis using inv accept_input_ok [OF inv]
    by (auto simp: append_graph_def bind_r_Inr_iff Let_def split: sum.splits if_splits)
qed


section \<open>Forwarding\<close>

lemma forwarder_facts:
  assumes "graph_inv k d st" and "gr_forwarders st name = Some fw"
  shows "name \<in> set (gr_nodes st)" and "dict_has (gr_client_sequences st name) key \<Longrightarrow> key < fw_seq fw"
    and "fw_fragments fw = Some (chunk, f, fs, e) \<Longrightarrow> g \<in> set (f # fs) \<Longrightarrow> fw_seq fw \<le> tc_seq (fst g)"
  using assms unfolding graph_inv_def names_ok_def items_ok_def by (metis option.distinct(1), metis, metis)

lemma graph_inv_ended: "graph_inv k d st \<Longrightarrow> graph_inv k d (st\<lparr>gr_ended := es\<rparr>)"
  by (rule graph_inv_keeps [rotated]) (simp_all add: keeps_def)

lemma graph_inv_fail_forwarder: "graph_inv k d st \<Longrightarrow> graph_inv k d (fail_forwarder name e st)"
  using graph_inv_ended [OF graph_inv_forwarder [of k d st None name]] by (simp add: fail_forwarder_def)

lemma graph_inv_set_forwarder:
  assumes "graph_inv k d st" and "gr_forwarders st name = Some fw" and "fw_seq fw \<le> fw_seq fw'"
    and "\<And>chunk f fs e g. fw_fragments fw' = Some (chunk, f, fs, e) \<Longrightarrow> g \<in> set (f # fs) \<Longrightarrow> fw_seq fw' \<le> tc_seq (fst g)"
  shows "graph_inv k d (set_forwarder name fw' st)"
  unfolding set_forwarder_def
  using assms(3,4) forwarder_facts(1) [OF assms(1,2)] forwarder_facts(2) [OF assms(1,2)]
  by (intro graph_inv_forwarder [OF assms(1)]) (auto dest!: forwarder_facts(2) [OF assms(1,2)])

lemma graph_inv_retry:
  assumes "graph_inv k d st" and "gr_forwarders st name = Some fw"
  shows "graph_inv k d (retry_or_fail now name fw e st)"
  using assms forwarder_facts(3) [OF assms]
  by (auto simp: retry_or_fail_def intro!: graph_inv_fail_forwarder graph_inv_set_forwarder [OF assms] split: sum.splits)

lemma fragment_seqs: "fragment_loop packb chunk mx seq rest = (fs, e) \<Longrightarrow> g \<in> set fs \<Longrightarrow> seq \<le> tc_seq (fst g)"
proof (induction "length rest" arbitrary: seq rest fs e rule: less_induct)
  case less
  then show ?case
  proof (cases "rest = []")
    case False
    let ?f = "chunk\<lparr>tc_seq := seq, tc_payload := PBytes []\<rparr>"
    let ?env = "wire_size packb ?f + int MSGPACK_BIN32_HEADER_GROWTH"
    show ?thesis
    proof (cases "mx \<le> ?env")
      case True
      with less.prems False show ?thesis by (subst (asm) fragment_loop.simps) (simp add: Let_def)
    next
      case room: False
      obtain gs e' where rest: "fragment_loop packb chunk mx (seq + 1) (drop (nat (mx - ?env)) rest) = (gs, e')" by fastforce
      with less.prems False room have "fs = (?f\<lparr>tc_payload := PBytes (take (nat (mx - ?env)) rest)\<rparr>, nat (mx - ?env) < length rest) # gs"
        by (subst (asm) fragment_loop.simps) (simp add: Let_def)
      moreover have "seq + 1 \<le> tc_seq (fst g)" if "g \<in> set gs"
        using less.hyps [OF _ rest that] False room by simp
      ultimately show ?thesis using less.prems(2) by auto
    qed
  qed (subst (asm) fragment_loop.simps, simp)
qed

lemma graph_inv_start_fragments:
  assumes "graph_inv k d st" and "gr_forwarders st name = Some fw"
  shows "graph_inv k d (start_fragments packb name fw chunk st)"
  using assms fragment_seqs
  by (auto simp: start_fragments_def fragment_chunk_def intro!: graph_inv_fail_forwarder graph_inv_set_forwarder [OF assms]
      split: option.splits list.splits prod.splits)

lemma append_node_ok:
  assumes "graph_inv k d st" and "append_node packb unpackb name chunk continues request_id st = Inr st'" and "codec_ok packb unpackb"
  shows "graph_inv k d st' \<and> (\<exists>node. st' = st\<lparr>gr_sessions := (gr_sessions st)(name := Some node)\<rparr>)"
proof -
  from assms(2) obtain s n s' where s: "gr_sessions st name = Some s" "st' = st\<lparr>gr_sessions := (gr_sessions st)(name := Some s')\<rparr>"
      "append_session packb unpackb chunk (Fin (tc_t_start_ms chunk)) (Fin (tc_duration_ms chunk)) continues request_id s = Inr (n, s')"
    by (auto simp: append_node_def bind_r_Inr_iff split: option.splits)
  have "slots_ok s" "output_ok s" using assms(1) s(1) by (auto simp: graph_inv_def nodes_ok_def)
  with slots_ok_append [OF s(3) assms(3)] output_ok_append [OF s(3) assms(3)]
  show ?thesis using s(2) graph_inv_session [OF assms(1)] by blast
qed

text \<open>The node's session has taken a copy: it is in \<open>client_sequences\<close> under the forwarder's number.\<close>

lemma graph_inv_hold_input:
  assumes inv: "graph_inv (Some cs) d st" and fw: "gr_forwarders st name = Some fw" and cs: "cs < int (gr_next_input st)"
    and fw': "fw_seq fw' = fw_seq fw + 1" "fw_fragments fw' = None"
  shows "graph_inv None d (set_forwarder name fw' (st\<lparr>gr_client_sequences := (gr_client_sequences st)
           (name := dict_set (fw_seq fw) cs (gr_client_sequences st name))\<rparr>))"
proof -
  let ?d = "gr_client_sequences st name"
  let ?st = "set_forwarder name fw' (st\<lparr>gr_client_sequences := (gr_client_sequences st)(name := dict_set (fw_seq fw) cs ?d)\<rparr>)"
  note facts = forwarder_facts [OF inv fw]
  have parts: "edges_ok st" "names_ok st" "items_ok st" "counted_but (Some cs) st" "settled_ok st" "budget_but d st" "nodes_ok st"
    using inv by (simp_all add: graph_inv_def)
  have new: "dict_set (fw_seq fw) cs ?d = ?d @ [(fw_seq fw, cs)]" 
    using facts(2) [of "fw_seq fw"] by (intro dict_set_new) auto
  have gr: "gr_graph ?st = gr_graph st" "gr_inboxes ?st = gr_inboxes st" by (simp_all add: set_forwarder_def)
  have "node_copies ?st s m = node_copies st s m + (if m = name then one_if (s = cs) else 0)" for s m
    by (simp add: node_copies_def set_forwarder_def new)
  then have "copies ?st s = copies st s + one_if (s = cs)" for s
    using node_sum_changed [of "gr_graph st" name "node_copies ?st s" "node_copies st s"] facts(1) parts(2)
    by (auto simp: copies_def gr names_ok_def)
  then have c: "counted_but None ?st" using parts(4)
    by (auto simp: counted_but_def Let_def settled_def set_forwarder_def split: if_splits)
  have i: "items_ok ?st" unfolding items_ok_def
  proof (intro conjI allI impI)
    fix m item assume "item \<in> set (ib_queued (gr_inboxes ?st m))"
    then show "item_ok (int (gr_next_input ?st)) item" using inbox_items [OF inv] by (simp add: set_forwarder_def)
  next
    fix m key v assume "(key, v) \<in> set (gr_client_sequences ?st m)"
    then show "v < int (gr_next_input ?st)" using sequences_below [OF inv] cs by (auto simp: set_forwarder_def new split: if_splits)
  next
    fix m show "dict_ok (gr_client_sequences ?st m)" using inv by (simp add: set_forwarder_def graph_inv_def items_ok_def)
  next
    fix m fw2 key assume "gr_forwarders ?st m = Some fw2" "dict_has (gr_client_sequences ?st m) key"
    then show "key < fw_seq fw2" using forwarder_facts(2) [OF inv, of m] facts(2) fw'(1)
      by (auto simp: set_forwarder_def dict_has_set split: if_splits) force
  next
    fix m fw2 chunk f fs e g assume "gr_forwarders ?st m = Some fw2" "fw_fragments fw2 = Some (chunk, f, fs, e)" "g \<in> set (f # fs)"
    then show "fw_seq fw2 \<le> tc_seq (fst g)" using forwarder_facts(3) [OF inv, of m] fw'(2)
      by (auto simp: set_forwarder_def split: if_splits)
  qed
  show ?thesis using parts c i edges_ok_cong [of ?st st] budget_cong [of ?st st d] facts(1)
    by (auto simp: graph_inv_def settled_ok_def settled_def nodes_ok_def set_forwarder_def names_ok_def)
qed


lemma pop_inbox_fields:
  "gr_forwarders (pop_inbox name st) = gr_forwarders st" "gr_client_sequences (pop_inbox name st) = gr_client_sequences st"
  "gr_next_input (pop_inbox name st) = gr_next_input st" "gr_sessions (pop_inbox name st) = gr_sessions st"
  by (simp_all add: pop_inbox_def Let_def)

lemma forward_input_ok:
  assumes inv: "graph_ok st" and fw: "gr_forwarders st name = Some fw" and idle: "fw_fragments fw = None"
    and codec: "codec_ok packb unpackb"
  shows "graph_ok (forward_input packb unpackb now request_id name fw st)"
proof (cases "ib_queued (gr_inboxes st name)")
  case (Cons item rest)
  obtain source chunk seq where item: "item = (source, chunk, seq)" by (cases item) auto
  note node = forwarder_facts(1) [OF inv fw]
  have popped: "graph_inv seq 0 (pop_inbox name st1)"
    if "graph_ok st1" "gr_inboxes st1 = gr_inboxes st" "gr_graph st1 = gr_graph st" for st1
    using graph_inv_pop_inbox [OF that(1), of name source chunk seq rest] that Cons item node by simp
  have below: "cs < int (gr_next_input st)" if "seq = Some cs" for cs
    using inbox_items [OF inv, of item name] Cons item that by (simp add: item_ok_def)
  have fragments: "graph_ok (start_fragments packb name fw chunk (pop_inbox name st))" if "seq = None"
    using graph_inv_start_fragments [of None 0 "pop_inbox name st" name fw] popped [OF inv] that fw
    by (simp add: pop_inbox_fields)
  have taken: "graph_ok (set_forwarder name (fw\<lparr>fw_seq := fw_seq fw + 1, fw_deadline := None\<rparr>)
      (case seq of None \<Rightarrow> pop_inbox name st1
       | Some cs \<Rightarrow> (pop_inbox name st1)\<lparr>gr_client_sequences := (gr_client_sequences (pop_inbox name st1))
           (name := dict_set (fw_seq fw) cs (gr_client_sequences (pop_inbox name st1) name))\<rparr>))"
    if "append_node packb unpackb name c False request_id st = Inr st1" for c st1
  proof -
    note app = append_node_ok [OF inv that codec]
    then obtain node where st1: "graph_ok st1" "st1 = st\<lparr>gr_sessions := (gr_sessions st)(name := Some node)\<rparr>" by blast
    have p: "graph_inv seq 0 (pop_inbox name st1)" using st1 by (intro popped) simp_all
    have f: "gr_forwarders (pop_inbox name st1) name = Some fw" using st1(2) fw by (simp add: pop_inbox_fields)
    show ?thesis
    proof (cases seq)
      case None
      then show ?thesis using p f idle by (auto intro!: graph_inv_set_forwarder [of None 0 _ name fw])
    next
      case (Some cs)
      have "cs < int (gr_next_input (pop_inbox name st1))" using below [OF Some] st1(2) by (simp add: pop_inbox_fields)
      from graph_inv_hold_input [OF p [unfolded Some] f this, of "fw\<lparr>fw_seq := fw_seq fw + 1, fw_deadline := None\<rparr>"] idle
      show ?thesis by (simp add: Some)
    qed
  qed
  show ?thesis using Cons item inv graph_inv_rotate [OF inv node] fragments taken graph_inv_retry [OF inv fw]
    by (auto simp: forward_input_def Let_def split: sum.splits if_splits)
qed (simp add: forward_input_def inv)

lemma forward_fragment_ok:
  assumes inv: "graph_ok st" and fw: "gr_forwarders st name = Some fw" and fr: "fw_fragments fw = Some (chunk, current, rest, e)"
    and codec: "codec_ok packb unpackb"
  shows "graph_ok (forward_fragment packb unpackb now request_id name fw chunk current rest e st)"
proof -
  obtain fragment continues where cur: "current = (fragment, continues)" by (cases current)
  have le: "fw_seq fw \<le> tc_seq fragment" using forwarder_facts(3) [OF inv fw fr, of current] cur by simp
  have finish: "graph_ok (set_forwarder name (fw\<lparr>fw_seq := s, fw_deadline := None, fw_fragments := None\<rparr>) st1)"
    if "graph_ok st1" "gr_forwarders st1 name = Some fw" "fw_seq fw \<le> s" for st1 s
    using that by (intro graph_inv_set_forwarder [OF that(1,2)]) simp_all
  have after: "graph_ok st1 \<and> gr_forwarders st1 name = Some fw"
    if "append_node packb unpackb name fragment continues request_id st = Inr st1" for st1
    using append_node_ok [OF inv that codec] fw by auto
  have go: "graph_ok (set_forwarder name (fw\<lparr>fw_deadline := None, fw_fragments := Some (chunk, f, fs, e)\<rparr>) st1)"
    if "graph_ok st1" "gr_forwarders st1 name = Some fw" "rest = f # fs" for st1 f fs
    using forwarder_facts(3) [OF inv fw fr] that by (intro graph_inv_set_forwarder [OF that(1,2)]) auto
  show ?thesis using inv finish [OF inv fw] after finish le go graph_inv_fail_forwarder graph_inv_retry [OF inv fw]
    by (auto simp: forward_fragment_def cur Let_def split: sum.splits bool.splits list.splits option.splits)
qed

lemma forward_ok:
  assumes "graph_ok st" and "codec_ok packb unpackb"
  shows "graph_ok (forward_graph_inputs packb unpackb now request_id name st)"
  using assms forward_input_ok [OF assms(1) _ _ assms(2)] forward_fragment_ok [OF assms(1) _ _ assms(2)]
  by (auto simp: forward_graph_inputs_def split: option.splits)


section \<open>Failure and controls\<close>

lemma graph_inv_error: "graph_inv k d st \<Longrightarrow> graph_inv k d (st\<lparr>gr_error := e\<rparr>)"
  by (rule graph_inv_keeps [rotated]) (simp_all add: keeps_def)

lemma graph_inv_begin_close: "graph_inv k d st \<Longrightarrow> graph_inv k d (begin_graph_close st)"
  by (simp add: begin_graph_close_def graph_inv_close)

lemma graph_inv_fail_graph: "graph_inv k d st \<Longrightarrow> graph_inv k d (fail_graph e st)"
  by (simp add: fail_graph_def graph_inv_begin_close graph_inv_error)

lemma task_done_ok: "graph_ok st \<Longrightarrow> graph_ok (task_done st)"
  by (auto simp: task_done_def Let_def intro!: graph_inv_ended graph_inv_fail_graph split: list.splits)

lemma set_dict_set: "set (dict_set k v d) \<subseteq> insert (k, v) (set d)"
  by (induction d) auto

lemma graph_inv_set_job:
  "graph_inv k d st \<Longrightarrow> known (gr_graph st) (job_names job) \<Longrightarrow> graph_inv k d (set_job i job st)"
  unfolding set_job_def using set_dict_set [of i job "gr_jobs st"]
  by (intro graph_inv_jobs) (auto simp: graph_inv_def names_ok_def)

lemma graph_inv_start_job:
  assumes "graph_inv k d st" and "known (gr_graph st) (job_names job)"
  shows "graph_inv k d (start_job job st)"
  by (rule graph_inv_keeps [OF _ graph_inv_set_job [OF assms, of "gr_next_job st"]]) (simp add: keeps_def start_job_def set_job_def)

lemma graph_inv_end_job: "graph_inv k d st \<Longrightarrow> graph_inv k d (end_job i st)"
  unfolding end_job_def by (rule graph_inv_jobs) (auto simp: graph_inv_def names_ok_def delete_filter)

lemma graph_inv_fail_job: "graph_inv k d st \<Longrightarrow> graph_inv k d (fail_job i job e st)"
  by (simp add: fail_job_def Let_def graph_inv_end_job graph_inv_fail_graph)

lemma job_names_at [simp]: "job_names (job\<lparr>jb_at := point\<rparr>) = map fst (jb_targets job) @ report_readers point"
  by (simp add: job_names_def)

lemma known_targets: "known g (job_names job) \<Longrightarrow> known g (map fst (jb_targets job))"
  by (simp add: job_names_def)

lemma graph_inv_next_target:
  assumes "graph_inv k d st" and "known (gr_graph st) (job_names job)"
  shows "graph_inv k d (next_target i job st)"
  using assms known_tl [OF known_targets [OF assms(2)]]
  by (auto simp: next_target_def intro!: graph_inv_end_job graph_inv_set_job)

lemma control_targets_nodes:
  assumes "graph_control_targets g source event = Inr targets"
  shows "known g (map fst targets)"
proof -
  from assms obtain order controls where c: "map_r (\<lambda>name. bind_r (dict_lookup (sg_nodes g) name) (\<lambda>n. Inr (name, sn_controls n))) order = Inr controls"
      "targets = control_targets controls source event"
    by (auto simp: graph_control_targets_def bind_r_Inr_iff)
  have "fst x \<in> set (dict_keys (sg_nodes g))" if "x \<in> set controls" for x
  proof -
    from that c(1) obtain name n where "dict_get (sg_nodes g) name = Some n" "x = (name, sn_controls n)"
      by (auto simp: map_r_Inr_iff bind_r_Inr_iff list_all2_conv_all_nth in_set_conv_nth)
    then show ?thesis using dict_get_has [of "sg_nodes g" name n] by (simp add: dict_has_def)
  qed
  then show ?thesis unfolding c(2) by (fastforce simp: control_targets_def known_def)
qed

lemma control_graph_ok:
  assumes "graph_ok st" and "control_graph event stages should_preempt st = Inr st'"
  shows "graph_ok st'"
  using assms control_targets_nodes
  by (auto simp: control_graph_def bind_r_Inr_iff job_names_def intro!: graph_inv_start_job split: if_splits)

lemma fence_rule:
  assumes "P st"
    and "\<And>turn. P (snd (fence_turn target turn st))"
    and "\<And>st turn. P st \<Longrightarrow> P (purge_pacer target turn st)"
    and "\<And>st turn. P st \<Longrightarrow> P (drop_unread target turn st)"
  shows "P (snd (fence_control_edge target event st))"
proof -
  have turn: "P st1" if "fence_turn target t st = (r, st1)" for t r st1 using assms(2) [of t] that by simp
  have out: "P (snd (fence_outputs target t st))" if "P st" for t st
    using assms(3,4) that by (auto simp: fence_outputs_def Let_def split: option.splits)
  show ?thesis using assms(1) turn out
    by (auto simp: fence_control_edge_def then_do_def ret_def split: sum.splits prod.splits option.splits)
qed

lemma fence_frame:
  "gr_graph (snd (fence_control_edge target event st)) = gr_graph st \<and>
   gr_routers (snd (fence_control_edge target event st)) = gr_routers st \<and>
   gr_jobs (snd (fence_control_edge target event st)) = gr_jobs st \<and>
   gr_next_job (snd (fence_control_edge target event st)) = gr_next_job st"
proof (rule fence_rule)
  fix turn
  show "gr_graph (snd (fence_turn target turn st)) = gr_graph st \<and> gr_routers (snd (fence_turn target turn st)) = gr_routers st \<and>
      gr_jobs (snd (fence_turn target turn st)) = gr_jobs st \<and> gr_next_job (snd (fence_turn target turn st)) = gr_next_job st"
    by (rule fence_turn_rule) (auto simp: fence_inbox_def fence_pending_def bind_r_Inr_iff split: option.splits)
qed (auto simp: purge_pacer_def drop_unread_def split: option.splits prod.splits)

lemma report_names:
  assumes "fence_control_edge target event st = (Inr (FReport readers report), st')"
  shows "known (gr_graph st) readers"
proof -
  have "gr_graph st' = gr_graph st" using fence_frame [of target event st] assms(1) by simp
  moreover from assms(1) have "readers = reading_nodes (gr_graph st') target (Some SESSION_CONTROL)"
    by (auto simp: fence_control_edge_def fence_outputs_def then_do_def Let_def drop_unread_def
        split: sum.splits prod.splits option.splits if_splits)
  ultimately show ?thesis by simp
qed

lemma job_fence_ok:
  assumes inv: "graph_ok st" and job: "known (gr_graph st) (job_names job)" and target: "target \<in> set (jb_targets job)"
  shows "graph_ok (job_fence i job target st)"
proof -
  obtain r st1 where r: "fence_control_edge (fst target) (jb_event job) st = (r, st1)"
    by (cases "fence_control_edge (fst target) (jb_event job) st")
  note targets = known_targets [OF job]
  have st1: "graph_ok st1" "gr_graph st1 = gr_graph st"
    using graph_inv_fence [OF inv known_fst [OF targets target], of "jb_event job"]
      fence_frame [of "fst target" "jb_event job" st] r by simp_all
  have "known (gr_graph st) readers" if "r = Inr (FReport readers report)" for readers report
    using report_names r that by blast
  with r st1 targets job show ?thesis
    by (auto simp: job_fence_def intro!: graph_inv_fail_job graph_inv_set_job graph_inv_next_target split: sum.splits fenced.splits)
qed

lemma job_report_ok:
  assumes inv: "graph_ok st" and job: "known (gr_graph st) (job_names job)" and target: "target \<in> set (jb_targets job)"
    and readers: "jb_at job = JReport readers report"
  shows "graph_ok (job_report i job target readers report st)"
proof (cases readers)
  case Nil
  then show ?thesis using known_targets [OF job] by (auto simp: job_report_def intro!: graph_inv_set_job [OF inv])
next
  case (Cons reader rest)
  obtain r st1 where r: "put_graph_inbox reader (fst target) report st = (r, st1)"
    by (cases "put_graph_inbox reader (fst target) report st")
  have names: "reader \<in> set (gr_nodes st)" "known (gr_graph st) rest" using job readers Cons by (auto simp: job_names_def dict_has_def)
  have "graph_ok st1" "gr_graph st1 = gr_graph st"
    using graph_inv_put [OF inv names(1) known_fst [OF known_targets [OF job] target], of report]
      put_keeps(1) [of reader "fst target" report st] r by simp_all
  with r Cons names known_targets [OF job] show ?thesis
    by (auto simp: job_report_def intro!: graph_inv_fail_job graph_inv_set_job split: sum.splits bool.splits)
qed

lemma control_arrive_ok:
  assumes "slots_ok node" and "output_ok node"
  shows "slots_ok (snd (control_arrive topology event stages node)) \<and> output_ok (snd (control_arrive topology event stages node))"
  using assms slots_ok_control output_ok_control by blast

lemma node_facts: "graph_inv k d st \<Longrightarrow> gr_sessions st name = Some node \<Longrightarrow> slots_ok node \<and> output_ok node"
  by (simp add: graph_inv_def nodes_ok_def)

lemma job_deliver_ok:
  assumes inv: "graph_ok st" and job: "known (gr_graph st) (job_names job)"
  shows "graph_ok (job_deliver topology i job target st)"
proof -
  have node: "graph_ok (st\<lparr>gr_sessions := (gr_sessions st)(fst target := Some node')\<rparr>)"
    if "gr_sessions st (fst target) = Some node" "control_arrive topology (jb_event job) None node = (r, node')" for node node' r
    using control_arrive_ok [of node topology "jb_event job" None] node_facts [OF inv that(1)] that(2)
    by (intro graph_inv_session [OF inv]) simp_all
  show ?thesis using inv node known_targets [OF job]
    by (auto simp: job_deliver_def Let_def intro!: graph_inv_fail_job graph_inv_set_job split: option.splits sum.splits prod.splits)
qed

lemma job_go_ok:
  assumes inv: "graph_ok st" and job: "known (gr_graph st) (job_names job)"
  shows "graph_ok (job_go i job target barrier ids st)"
proof -
  have "graph_ok (st\<lparr>gr_controls := x\<rparr>)" for x by (rule graph_inv_keeps [OF _ inv]) (simp add: keeps_def)
  then show ?thesis using inv known_targets [OF job]
    by (auto simp: job_go_def intro!: graph_inv_set_job split: option.splits)
qed

lemma control_end_ok: "slots_ok node \<Longrightarrow> output_ok node \<Longrightarrow> slots_ok (control_end b node) \<and> output_ok (control_end b node)"
  by (auto simp: control_end_def slots_ok_def output_ok_def)

lemma job_sent_ok:
  assumes inv: "graph_ok st" and job: "known (gr_graph st) (job_names job)"
  shows "graph_ok (job_sent i job target barrier failed st)"
proof -
  have "graph_ok (end_barrier (fst target) barrier st)"
  proof (cases "gr_sessions st (fst target)")
    case None
    then show ?thesis using graph_inv_session_gone [OF inv, of "fst target"] by (simp add: end_barrier_def)
  next
    case (Some node)
    then show ?thesis using node_facts [OF inv Some] control_end_ok [of node barrier] graph_inv_session [OF inv]
      by (simp add: end_barrier_def)
  qed
  then show ?thesis using job
    by (auto simp: job_sent_def Let_def end_barrier_def intro!: graph_inv_fail_job graph_inv_next_target split: option.splits)
qed

lemma job_round_ok:
  assumes inv: "graph_ok st"
  shows "graph_ok (job_round topology failed i st)"
proof (cases "dict_get (gr_jobs st) i")
  case (Some job)
  then have job: "known (gr_graph st) (job_names job)" using inv map_of_SomeD [OF Some] by (auto simp: graph_inv_def names_ok_def)
  show ?thesis
    using Some inv graph_inv_end_job [OF inv] job_fence_ok [OF inv job] job_report_ok [OF inv job] job_deliver_ok [OF inv job]
      job_go_ok [OF inv job] job_sent_ok [OF inv job]
    by (auto simp: job_round_def split: list.splits job_at.splits option.splits)
qed (simp add: job_round_def inv)


section \<open>Routing\<close>

definition held_at :: "router_at \<Rightarrow> int" where
  "held_at point = (case point_held point of None \<Rightarrow> 0 | Some sz \<Rightarrow> sz)"

lemma held_at_simps [simp]:
  "held_at RReady = 0" "held_at (RAwait out) = 0" "held_at (RFence out targets fenced) = 0"
  "held_at (RReport out target readers report targets fenced) = 0" "held_at (RRead out readers) = 0"
  "held_at (RPublish out published sz) = sz"
  by (simp_all add: held_at_def)

lemma router_facts:
  assumes "graph_inv k d st" and "gr_routers st name = Some rt"
  shows "name \<in> set (gr_nodes st)" and "known (gr_graph st) (point_names (rt_at rt))"
    and "point_held (rt_at rt) = Some sz \<Longrightarrow> gr_pacers st name = None \<and> 0 \<le> sz"
  using assms by (auto simp: graph_inv_def names_ok_def budget_but_def)

lemma graph_inv_set_router:
  assumes inv: "graph_inv k d st" and rt0: "gr_routers st name = Some rt0"
    and names: "known (gr_graph st) (point_names (rt_at rt))"
    and held: "\<And>sz. point_held (rt_at rt) = Some sz \<Longrightarrow> gr_pacers st name = None \<and> 0 \<le> sz"
    and d: "0 \<le> d'" "d' + held_at (rt_at rt) = d + held_at (rt_at rt0)"
  shows "graph_inv k d' (set_router name rt st)"
proof -
  let ?st = "set_router name rt st"
  have f: "gr_graph ?st = gr_graph st" "gr_pacers ?st = gr_pacers st" "gr_routers ?st = (gr_routers st)(name := Some rt)"
    by (simp_all add: set_router_def)
  have nm: "name \<in> set (gr_nodes st)" "dict_ok (sg_nodes (gr_graph st))"
    using router_facts(1) [OF inv rt0] names_dict_ok [OF inv] .
  have "node_sum (held_bytes ?st) (gr_graph st) = node_sum (held_bytes st) (gr_graph st) - held_bytes st name + held_bytes ?st name"
    using nm by (intro node_sum_changed) (auto simp: held_bytes_def f)
  moreover have "held_bytes ?st name = held_bytes st name - held_at (rt_at rt0) + held_at (rt_at rt)"
    by (simp add: held_bytes_def f rt0 held_at_def)
  ultimately have "budget_but d' ?st" using inv d held
    by (auto simp: graph_inv_def budget_but_def set_router_def)
  moreover have "names_ok ?st" using inv names held nm by (auto simp: graph_inv_def names_ok_def set_router_def)
  ultimately show ?thesis
    using inv edges_ok_cong [of ?st st] counted_cong [of ?st st k]
    by (auto simp: graph_inv_def items_ok_def settled_ok_def settled_def nodes_ok_def set_router_def)
qed

lemma set_router_ok:
  assumes "graph_ok st" and "gr_routers st name = Some rt0" and "point_held (rt_at rt0) = None"
    and "known (gr_graph st) (point_names (rt_at rt))" and "point_held (rt_at rt) = None"
  shows "graph_ok (set_router name rt st)"
  using assms(3,5) by (intro graph_inv_set_router [OF assms(1,2,4)]) (simp_all add: held_at_def)

lemma end_router_ok:
  assumes "graph_ok st" and "gr_routers st name = Some rt0" and "point_held (rt_at rt0) = None"
  shows "graph_ok (end_router name e st)"
  using graph_inv_ended [OF graph_inv_router [OF assms(1), of name None]] assms(2,3) by (simp add: end_router_def)

lemmas fail_router_ok = end_router_ok [where e = "Some e" for e, folded fail_router_def]

lemma plan_targets: "route_plan st name chunk = Inr (published, targets) \<Longrightarrow> known (gr_graph st) (map fst targets)"
  by (auto simp: route_plan_def bind_r_Inr_iff dest: control_targets_nodes)

lemma route_output_ok:
  assumes "graph_ok st" and "gr_routers st name = Some rt" and "point_held (rt_at rt) = None"
  shows "graph_ok (route_output name rt out st)"
  using assms fail_router_ok [OF assms] plan_targets [of st name "output_as_chunk out"]
  by (auto simp: route_output_def Let_def intro!: set_router_ok [OF assms] split: sum.splits bool.splits)

lemma confirm_routers: "gr_routers (snd (confirm_graph_input packo name chunk st)) = gr_routers st"
  by (auto simp: confirm_graph_input_def emit_graph_input_done_def reserve_graph_output_def then_do_def modify_def Let_def
      split: option.splits)

text \<open>The node's session confirms a copy: it leaves \<open>client_sequences\<close>.\<close>

lemma length_filter_del:
  "dict_ok d \<Longrightarrow> dict_get d k = Some v \<Longrightarrow>
   int (length (filter (\<lambda>(_, w). w = s) (dict_del k d))) = int (length (filter (\<lambda>(_, w). w = s) d)) - one_if (s = v)"
proof (induction d)
  case (Cons p d)
  obtain k' w where p: "p = (k', w)" by (cases p)
  show ?case
  proof (cases "k' = k")
    case True
    then have "dict_del k d = d" using Cons.prems p by (auto intro: delete_id)
    then show ?thesis using True Cons.prems p by auto
  qed (use Cons p in auto)
qed simp

lemma graph_inv_give_up:
  assumes inv: "graph_inv None d st" and name: "name \<in> set (gr_nodes st)"
    and get: "dict_get (gr_client_sequences st name) key = Some cs"
  shows "graph_inv (Some cs) d (st\<lparr>gr_client_sequences := (gr_client_sequences st)(name := dict_del key (gr_client_sequences st name))\<rparr>)"
proof -
  let ?d = "gr_client_sequences st name"
  let ?st = "st\<lparr>gr_client_sequences := (gr_client_sequences st)(name := dict_del key ?d)\<rparr>"
  have parts: "edges_ok st" "names_ok st" "items_ok st" "counted_but None st" "settled_ok st" "budget_but d st" "nodes_ok st"
    using inv by (simp_all add: graph_inv_def)
  have "dict_ok ?d" using parts(3) by (simp add: items_ok_def)
  then have "node_copies ?st s m = node_copies st s m - (if m = name then one_if (s = cs) else 0)" for s m
    using length_filter_del [OF _ get, of s] by (auto simp: node_copies_def)
  then have cp: "copies ?st s = copies st s - one_if (s = cs)" for s
    using node_sum_changed [of "gr_graph st" name "node_copies ?st s" "node_copies st s"] name parts(2)
    by (auto simp: copies_def names_ok_def)
  have "copies st s = copies ?st s + one_if (Some cs = Some s)" for s using cp by auto
  then have c: "counted_but (Some cs) ?st" using parts(4) by (simp add: counted_but_def Let_def settled_def)
  have del: "x \<in> set (dict_del key ?d) \<Longrightarrow> x \<in> set ?d" for x by (auto simp: delete_filter)
  have i: "items_ok ?st" using parts(3)
    by (auto simp: items_ok_def dict_has_del dict_ok_del dest: del split: if_splits)
  show ?thesis using parts c i edges_ok_cong [of ?st st] names_ok_cong [of ?st st] budget_cong [of ?st st d]
    by (auto simp: graph_inv_def settled_ok_def settled_def nodes_ok_def)
qed

lemma route_input_done_ok:
  assumes inv: "graph_ok st" and rt: "gr_routers st name = Some rt" "point_held (rt_at rt) = None"
  shows "graph_ok (route_input_done packo name out st)"
proof (cases "dict_get (gr_client_sequences st name) (oc_input_seq out)")
  case (Some cs)
  let ?st = "st\<lparr>gr_client_sequences := (gr_client_sequences st)(name := dict_del (oc_input_seq out) (gr_client_sequences st name))\<rparr>"
  obtain r st1 where r: "confirm_graph_input packo name (confirmation out cs) ?st = (r, st1)"
    by (cases "confirm_graph_input packo name (confirmation out cs) ?st")
  have "graph_inv (Some cs) 0 ?st" by (rule graph_inv_give_up [OF inv router_facts(1) [OF inv rt(1)] Some])
  moreover have "cs < int (gr_next_input ?st)" using sequences_below [OF inv map_of_SomeD [OF Some]] by simp
  ultimately have "graph_ok st1" using graph_inv_confirm [of cs ?st "confirmation out cs" packo name] r by (simp add: confirmation_def)
  moreover have "gr_routers st1 name = Some rt" using confirm_routers [of packo name "confirmation out cs" ?st] r rt by simp
  ultimately show ?thesis using Some r fail_router_ok [of st1 name rt] rt(2) by (simp add: route_input_done_def split: sum.splits)
qed (simp add: route_input_done_def inv)


lemma take_output_ok: "slots_ok node \<Longrightarrow> output_ok node \<Longrightarrow> slots_ok (take_output node) \<and> output_ok (take_output node)"
  by (auto simp: output_ok_take intro: slots_ok_same [OF same_input_take])

lemma route_take_ok:
  assumes inv: "graph_ok st" and rt: "gr_routers st name = Some rt" "point_held (rt_at rt) = None"
  shows "graph_ok (route_take packo name rt st)"
proof -
  have "graph_ok (st\<lparr>gr_sessions := (gr_sessions st)(name := Some (take_output node))\<rparr>)"
    if "gr_sessions st name = Some node" for node
    using node_facts [OF inv that] take_output_ok [of node] by (intro graph_inv_session [OF inv]) auto
  then show ?thesis using inv rt route_input_done_ok route_output_ok
    by (auto simp: route_take_def Let_def split: option.splits list.splits)
qed

lemma route_await_ok:
  assumes "graph_ok st" and "gr_routers st name = Some rt" and "point_held (rt_at rt) = None"
  shows "graph_ok (route_await name rt out st)"
  using assms fail_router_ok [OF assms] plan_targets [of st name "output_as_chunk out"]
  by (auto simp: route_await_def intro!: set_router_ok [OF assms] split: sum.splits)

lemma start_job_fields: "gr_graph (start_job job st) = gr_graph st" "gr_routers (start_job job st) = gr_routers st"
  by (simp_all add: start_job_def)

lemma time_graph_output_keeps: "keeps st (snd (time_graph_output out st))"
  by (simp add: time_graph_output_def Let_def keeps_def)

lemma route_fenced_ok:
  assumes inv: "graph_ok st" and rt: "gr_routers st name = Some rt" "point_held (rt_at rt) = None"
    and fenced: "known (gr_graph st) (map fst fenced)"
  shows "graph_ok (route_fenced name rt out fenced st)"
proof -
  define st1 where "st1 = (if fenced = [] then st else start_job \<lparr>jb_source = name, jb_event = output_as_chunk out,
     jb_preempt = False, jb_targets = fenced, jb_at = JDeliver\<rparr> st)"
  have 1: "graph_ok st1" "gr_graph st1 = gr_graph st" "gr_routers st1 name = Some rt"
    using inv rt fenced by (auto simp: st1_def start_job_fields job_names_def intro!: graph_inv_start_job)
  note next_point = set_router_ok [OF 1(1,3) rt(2)]
  have timed: "graph_ok st2 \<and> gr_graph st2 = gr_graph st1 \<and> gr_routers st2 name = Some rt"
    if "time_graph_output out st1 = (out2, st2)" for out2 st2
    using time_graph_output_keeps [of st1 out] that 1 graph_inv_keeps [of st1 st2 None 0] by (simp add: keeps_def)
  have read: "graph_ok (set_router name (rt'\<lparr>rt_at := RRead out2 readers\<rparr>) st2)"
    if "time_graph_output out st1 = (out2, st2)" "known (gr_graph st1) readers" for rt' out2 st2 readers
    using timed [OF that(1)] that(2) rt(2) by (intro set_router_ok [of st2 name rt]) auto
  show ?thesis using fail_router_ok [OF 1(1,3) rt(2)] next_point read timed
    unfolding route_fenced_def Let_def st1_def [symmetric]
    by (auto split: sum.splits prod.splits)
qed

lemma route_fence_ok:
  assumes inv: "graph_ok st" and rt: "gr_routers st name = Some rt" "rt_at rt = RFence out targets fenced"
  shows "graph_ok (route_fence name rt out targets fenced st)"
proof -
  have names: "known (gr_graph st) (map fst targets)" "known (gr_graph st) (map fst fenced)"
    using router_facts(2) [OF inv rt(1)] rt(2) by simp_all
  show ?thesis
  proof (cases targets)
    case Nil
    then show ?thesis using route_fenced_ok [OF inv rt(1) _ names(2)] rt(2) by (simp add: route_fence_def)
  next
    case (Cons target rest)
    obtain r st1 where r: "fence_control_edge (fst target) (output_as_chunk out) st = (r, st1)"
      by (cases "fence_control_edge (fst target) (output_as_chunk out) st")
    have 1: "graph_ok st1" "gr_graph st1 = gr_graph st" "gr_routers st1 name = Some rt"
      using graph_inv_fence [OF inv, of "fst target" "output_as_chunk out"] names(1) Cons
        fence_frame [of "fst target" "output_as_chunk out" st] r rt(1) by (simp_all add: dict_has_def)
    have "known (gr_graph st) readers" if "r = Inr (FReport readers report)" for readers report
      using report_names r that by blast
    then show ?thesis using r 1 Cons names rt(2) fail_router_ok [OF 1(1,3)]
      by (auto simp: route_fence_def intro!: set_router_ok [OF 1(1,3)] split: sum.splits fenced.splits)
  qed
qed

lemma route_report_ok:
  assumes inv: "graph_ok st" and rt: "gr_routers st name = Some rt" "rt_at rt = RReport out target readers report rest fenced"
  shows "graph_ok (route_report name rt out target readers report rest fenced st)"
proof -
  note names = router_facts(2) [OF inv rt(1), unfolded rt(2), simplified]
  show ?thesis
  proof (cases readers)
    case Nil
    then show ?thesis using names rt(2) by (auto simp: route_report_def intro!: set_router_ok [OF inv rt(1)])
  next
    case (Cons reader readers')
    obtain r st1 where r: "put_graph_inbox reader (fst target) report st = (r, st1)"
      by (cases "put_graph_inbox reader (fst target) report st")
    have 1: "graph_ok st1" "gr_graph st1 = gr_graph st" "gr_routers st1 name = Some rt"
      using graph_inv_put [OF inv, of reader "fst target" report] names Cons put_keeps [of reader "fst target" report st] r rt(1)
      by (simp_all add: dict_has_def)
    show ?thesis using r 1 Cons names rt(2) fail_router_ok [OF 1(1,3)]
      by (auto simp: route_report_def intro!: set_router_ok [OF 1(1,3)] split: sum.splits bool.splits)
  qed
qed


lemma return_turn_end_ok:
  assumes "return_turn_end out node = Inr node'" and "slots_ok node" and "output_ok node"
  shows "slots_ok node' \<and> output_ok node'"
proof -
  have "node' = node \<or> node' = node\<lparr>se_returned := se_returned node @ [output_as_chunk out]\<rparr>"
    using assms(1) by (auto simp: return_turn_end_def bind_r_Inr_iff split: if_splits)
  with assms(2,3) show ?thesis by (elim disjE) (simp_all add: slots_ok_def output_ok_def)
qed

lemma graph_inv_return_turn_end:
  assumes inv: "graph_inv k d st"
  shows "graph_inv k d (return_node_turn_end name out st)"
proof -
  have "graph_inv k d (st\<lparr>gr_sessions := (gr_sessions st)(name := Some node')\<rparr>)"
    if "gr_sessions st name = Some node" "return_turn_end out node = Inr node'" for node node'
    using return_turn_end_ok [OF that(2)] node_facts [OF inv that(1)] by (intro graph_inv_session [OF inv]) auto
  then show ?thesis using inv by (auto simp: return_node_turn_end_def split: option.splits sum.splits)
qed

lemma return_node_fields: "gr_graph (return_node_turn_end name out st) = gr_graph st"
    "gr_routers (return_node_turn_end name out st) = gr_routers st" "gr_paced (return_node_turn_end name out st) = gr_paced st"
  by (auto simp: return_node_turn_end_def split: option.splits sum.splits)

lemma number_output_keeps:
  assumes "number_output out st = (published, st')"
  shows "keeps st st'"
  using assms by (auto simp: number_output_def track_turn_def Let_def keeps_def)

lemma put_output_fields: "gr_graph (put_output out sz name st) = gr_graph st" "gr_routers (put_output out sz name st) = gr_routers st"
    "gr_paced (put_output out sz name st) = gr_paced st" "gr_pacers (put_output out sz name st) = gr_pacers st"
  by (simp_all add: put_output_def)

lemma offer_queue:
  assumes "offer out sz p = Inr (dropped, q)" and "sizes_ok (dp_items p @ dp_unsent p)" and "0 \<le> sz"
  shows "queue_bytes (dp_items q @ dp_unsent q) + dropped = queue_bytes (dp_items p @ dp_unsent p) + sz"
    and "sizes_ok (dp_items q @ dp_unsent q)" and "0 \<le> dropped"
proof -
  from assms(1) obtain ctl where "oc_control_type out = Inr ctl"
    and o: "(let (dropped, p) = (if ctl = Some TURN_INTERRUPTED then purge (oc_turn out) p else (0, p))
          in Inr (dropped, p\<lparr>dp_items := dp_items p @ [(out, sz)], dp_wake := True\<rparr>)) = (Inr (dropped, q) :: (int \<times> pacer) result)"
    by (auto simp: offer_def bind_r_Inr_iff)
  then show "queue_bytes (dp_items q @ dp_unsent q) + dropped = queue_bytes (dp_items p @ dp_unsent p) + sz"
    "sizes_ok (dp_items q @ dp_unsent q)" "0 \<le> dropped"
    using assms(2,3) purge_queue [of "oc_turn out" p] by (auto split: if_splits prod.splits)
qed

lemma offer_known: "oc_control_type out = Inr ctl \<Longrightarrow> \<exists>dropped q. offer out sz p = Inr (dropped, q)"
  by (simp add: offer_def Let_def split_beta)

lemma route_publish_ok:
  assumes inv: "graph_ok st" and rt: "gr_routers st name = Some rt" "point_held (rt_at rt) = None"
    and ctl: "oc_control_type out = Inr ctl"
  shows "graph_ok (route_publish packo name rt out st)"
proof -
  obtain r st1 where r: "reserve_graph_output packo out st = (r, st1)" by (cases "reserve_graph_output packo out st")
  show ?thesis
  proof (cases r)
    case (Inl e)
    then show ?thesis using r reserve_error [of packo out st e st1] fail_router_ok [OF inv rt] by (simp add: route_publish_def)
  next
    case (Inr sz)
    have 1: "graph_inv None sz st1" "0 \<le> sz" using graph_inv_reserve [OF inv] r Inr by auto
    have st1: "gr_routers st1 = gr_routers st" "gr_pacers st1 = gr_pacers st" "gr_graph st1 = gr_graph st"
      using r Inr by (auto simp: reserve_graph_output_def Let_def split: if_splits)
    have h: "held_at (rt_at rt) = 0" using rt(2) by (simp add: held_at_def)
    show ?thesis
    proof (cases "gr_pacers st1 name")
      case None
      obtain published st2 where n: "number_output out st1 = (published, st2)" by (cases "number_output out st1")
      have 2: "graph_inv None sz st2" "gr_routers st2 name = Some rt" "gr_graph st2 = gr_graph st1" "gr_pacers st2 name = None"
        using graph_inv_keeps [OF number_output_keeps [OF n] 1(1)] number_output_keeps [OF n] st1 rt None by (simp_all add: keeps_def)
      have wait: "graph_ok (set_router name (rt\<lparr>rt_at := RPublish out published sz\<rparr>) st2)"
        using 2 1(2) h by (intro graph_inv_set_router [OF 2(1,2)]) auto
      have put: "graph_ok (set_router name (rt\<lparr>rt_at := RReady\<rparr>) (return_node_turn_end name out (put_output published sz name st2)))"
        if "\<not> outputs_full st2"
        using graph_inv_return_turn_end [OF graph_inv_put_output [OF 2(1) that]] 2(2) rt(2)
        by (intro set_router_ok [where ?rt0.0 = rt]) (auto simp: return_node_fields put_output_fields)
      show ?thesis using r Inr None n wait put by (simp add: route_publish_def)
    next
      case (Some p)
      have p: "sizes_ok (dp_items p @ dp_unsent p)" using sizes_ok_queue [OF 1(1) Some] by simp
      obtain dropped q where q: "offer out sz p = Inr (dropped, q)" using offer_known [OF ctl] by blast
      have "graph_inv None 0 (st1\<lparr>gr_output_bytes := gr_output_bytes st1 - dropped, gr_pacers := (gr_pacers st1)(name := Some q)\<rparr>)"
        using graph_inv_pacer [OF 1(1) Some, of q 0 "- dropped"] offer_queue [OF q p 1(2)] by simp
      then show ?thesis using r Inr Some q rt st1
        by (auto simp: route_publish_def intro!: set_router_ok [where ?rt0.0 = rt])
    qed
  qed
qed


lemma route_put_ok:
  assumes inv: "graph_ok st" and rt: "gr_routers st name = Some rt" "rt_at rt = RPublish out published sz"
  shows "graph_ok (route_put name rt out published sz st)"
proof (cases "outputs_full st")
  case False
  let ?st = "set_router name (rt\<lparr>rt_at := RReady\<rparr>) st"
  have "0 \<le> sz" using router_facts(3) [OF inv rt(1), of sz] rt(2) by simp
  then have "graph_inv None sz ?st" using rt(2) by (intro graph_inv_set_router [OF inv rt(1)]) auto
  then have "graph_ok (put_output published sz name ?st)" using False
    by (intro graph_inv_put_output) (simp_all add: outputs_full_def set_router_def)
  moreover have "set_router name (rt\<lparr>rt_at := RReady\<rparr>) (return_node_turn_end name out (put_output published sz name st)) =
      return_node_turn_end name out (put_output published sz name ?st)"
    by (simp add: return_node_turn_end_def set_router_def put_output_def split: option.splits sum.splits)
  ultimately show ?thesis using False graph_inv_return_turn_end by (simp add: route_put_def)
qed (simp add: route_put_def inv)

lemma chunk_control: "tc_control_type (output_as_chunk out) = oc_control_type out"
  by (simp add: output_as_chunk_def)

lemma route_read_ok:
  assumes inv: "graph_ok st" and rt: "gr_routers st name = Some rt" "rt_at rt = RRead out readers"
  shows "graph_ok (route_read packo name rt out readers st)"
proof -
  have h: "point_held (rt_at rt) = None" using rt(2) by simp
  show ?thesis
  proof (cases readers)
    case Nil
    have "graph_ok (route_publish packo name rt out st)" if "is_client_output st name (output_as_chunk out) = Inr b" for b
    proof -
      from that obtain ctl where "oc_control_type out = Inr ctl" by (auto simp: is_client_output_def bind_r_Inr_iff chunk_control)
      then show ?thesis by (rule route_publish_ok [OF inv rt(1) h])
    qed
    with Nil fail_router_ok [OF inv rt(1) h] show ?thesis
      by (auto simp: route_read_def Let_def intro!: set_router_ok [OF inv rt(1) h] split: sum.splits bool.splits)
  next
    case (Cons reader readers')
    have names: "reader \<in> set (gr_nodes st)" "known (gr_graph st) readers'"
      using router_facts(2) [OF inv rt(1)] rt(2) Cons by (auto simp: dict_has_def)
    obtain r st1 where r: "put_graph_inbox reader name (output_as_chunk out) st = (r, st1)"
      by (cases "put_graph_inbox reader name (output_as_chunk out) st")
    have 1: "graph_ok st1" "gr_graph st1 = gr_graph st" "gr_routers st1 name = Some rt"
      using graph_inv_put [OF inv names(1) router_facts(1) [OF inv rt(1)], of "output_as_chunk out"]
        put_keeps [of reader name "output_as_chunk out" st] r rt(1) by simp_all
    show ?thesis using r 1 Cons names fail_router_ok [OF 1(1,3) h]
      by (auto simp: route_read_def Let_def intro!: set_router_ok [OF 1(1,3) h] split: sum.splits bool.splits)
  qed
qed

lemma route_ok:
  assumes inv: "graph_ok st"
  shows "graph_ok (route_graph_outputs packo name st)"
proof (cases "gr_routers st name")
  case (Some rt)
  show ?thesis
  proof (cases "rt_at rt")
    case RReady
    then show ?thesis using Some route_take_ok [OF inv Some] by (simp add: route_graph_outputs_def)
  next
    case (RAwait out)
    then show ?thesis using Some route_await_ok [OF inv Some] by (simp add: route_graph_outputs_def)
  qed (use Some route_fence_ok [OF inv Some] route_report_ok [OF inv Some] route_read_ok [OF inv Some] route_put_ok [OF inv Some]
      in \<open>simp_all add: route_graph_outputs_def\<close>)
qed (simp add: route_graph_outputs_def inv)

lemma route_end_ok: "graph_ok st \<Longrightarrow> graph_ok (route_end name st)"
  by (auto simp: route_end_def intro!: end_router_ok split: option.splits)

section \<open>Paced publication\<close>

lemma fail_paced_ok: "graph_ok st \<Longrightarrow> graph_ok (fail_paced name e st)"
  using graph_inv_ended [OF graph_inv_paced [of None 0 st None name]] by (simp add: fail_paced_def)

lemma set_paced_ok:
  "graph_ok st \<Longrightarrow> dict_has (sg_nodes (gr_graph st)) name \<Longrightarrow> known (gr_graph st) (told_readers point) \<Longrightarrow> graph_ok (set_paced name point st)"
  unfolding set_paced_def by (rule graph_inv_paced) (auto simp: dict_has_def)

lemma graph_inv_pacer_only:
  assumes "graph_inv k d st" and "gr_pacers st name = Some p" and "sizes_ok (pacer_queue (Some q))" and "0 \<le> d'"
    and "queue_bytes (pacer_queue (Some q)) + d' = queue_bytes (pacer_queue (Some p)) + d"
  shows "graph_inv k d' (st\<lparr>gr_pacers := (gr_pacers st)(name := Some q)\<rparr>)"
  using graph_inv_pacer [OF assms(1-4), of 0] assms(5) by simp

lemma paced_release_ok:
  assumes inv: "graph_ok st" and p: "gr_pacers st name = Some p" and name: "dict_has (sg_nodes (gr_graph st)) name"
  shows "graph_ok (paced_release packo now name p st)"
proof -
  have ok: "sizes_ok (dp_items p)" "sizes_ok (dp_unsent p)" using sizes_ok_queue [OF inv p] by simp_all
  have "graph_ok (st\<lparr>gr_pacers := (gr_pacers st)(name := Some (q\<lparr>dp_unsent := dp_unsent q @ released\<rparr>))\<rparr>)"
    if "release packo now p = Inr (q, released)" for q released
    using release_bytes [OF that ok(1)] ok by (intro graph_inv_pacer_only [OF inv p]) auto
  then show ?thesis using fail_paced_ok [OF inv] name
    by (auto simp: paced_release_def intro!: set_paced_ok split: sum.splits)
qed

lemma paced_send_ok:
  assumes inv: "graph_ok st" and p: "gr_pacers st name = Some p" and name: "dict_has (sg_nodes (gr_graph st)) name"
  shows "graph_ok (paced_send name p st)"
proof (cases "dp_unsent p")
  case Nil
  then show ?thesis using name by (auto simp: paced_send_def intro!: set_paced_ok [OF inv])
next
  case (Cons item rest)
  obtain out sz where item: "item = (out, sz)" by (cases item)
  let ?st = "st\<lparr>gr_pacers := (gr_pacers st)(name := Some (p\<lparr>dp_unsent := rest\<rparr>))\<rparr>"
  have sz: "0 \<le> sz" "sizes_ok (dp_items p @ rest)" using sizes_ok_queue [OF inv p] Cons item by auto
  have 1: "graph_inv None sz ?st" using sz Cons item by (intro graph_inv_pacer_only [OF inv p]) auto
  have drop: "graph_ok (?st\<lparr>gr_output_bytes := gr_output_bytes ?st - sz\<rparr>)"
    using graph_inv_bytes [OF 1, of 0 "- sz"] sz(1) by simp
  obtain published st2 where n: "number_output out ?st = (published, st2)" by (cases "number_output out ?st")
  note k = number_output_keeps [OF n]
  have put: "graph_ok (put_output published sz name st2)" if "\<not> outputs_full st"
    using that k by (intro graph_inv_put_output graph_inv_keeps [OF k 1]) (simp add: keeps_def outputs_full_def)
  have "graph_ok (set_paced name (PTell out (output_readers (put_output published sz name st2) name out)) (put_output published sz name st2))"
    if "\<not> outputs_full st"
    using name k by (intro set_paced_ok [OF put [OF that]]) (simp_all add: put_output_fields keeps_def)
  then show ?thesis using inv drop put Cons item n by (auto simp: paced_send_def Let_def)
qed

lemma paced_tell_ok:
  assumes inv: "graph_ok st" and name: "dict_has (sg_nodes (gr_graph st)) name" and readers: "known (gr_graph st) readers"
  shows "graph_ok (paced_tell name out readers st)"
proof (cases readers)
  case Nil
  then show ?thesis using graph_inv_return_turn_end [OF inv] name
    by (auto simp: paced_tell_def return_node_fields intro!: set_paced_ok)
next
  case (Cons reader readers')
  obtain r st1 where r: "put_graph_inbox reader name (output_as_chunk out) st = (r, st1)"
    by (cases "put_graph_inbox reader name (output_as_chunk out) st")
  have 1: "graph_ok st1" "gr_graph st1 = gr_graph st"
    using graph_inv_put [OF inv, of reader name "output_as_chunk out"] readers name Cons
      put_keeps [of reader name "output_as_chunk out" st] r by (simp_all add: dict_has_def)
  show ?thesis using r 1 Cons readers name fail_paced_ok [OF 1(1)]
    by (auto simp: paced_tell_def intro!: set_paced_ok [OF 1(1)] split: sum.splits bool.splits)
qed

lemma paced_ok:
  assumes inv: "graph_ok st"
  shows "graph_ok (deliver_paced_outputs packo now name st)"
proof -
  have "dict_has (sg_nodes (gr_graph st)) name" "known (gr_graph st) (told_readers point)" if "gr_paced st name = Some point" for point
    using inv that by (simp_all add: graph_inv_def names_ok_def dict_has_def)
  then show ?thesis using inv paced_release_ok [OF inv] paced_send_ok [OF inv] paced_tell_ok [OF inv]
    by (fastforce simp: deliver_paced_outputs_def split: option.splits pacer_at.splits)
qed


section \<open>Draining and closing\<close>

lemma remove1_distinct:
  assumes "distinct (map f xs)" and "x \<in> set xs"
  shows "distinct (map f (remove1 x xs))" and "f x \<notin> f ` set (remove1 x xs)" and "set (remove1 x xs) \<subseteq> set xs"
proof -
  obtain ys zs where "xs = ys @ x # zs" "remove1 x xs = ys @ zs"
    using assms(2) by (metis remove1_append remove1.simps(2) split_list_first)
  with assms(1) show "distinct (map f (remove1 x xs))" "f x \<notin> f ` set (remove1 x xs)" "set (remove1 x xs) \<subseteq> set xs" by auto
qed

lemma distinct_append_sub:
  assumes "distinct (xs @ map f ys)" and "distinct (map f zs)" and "set zs \<subseteq> set ys"
  shows "distinct (xs @ map f zs)"
proof -
  have "f ` set zs \<subseteq> f ` set ys" using assms(3) by (rule image_mono)
  with assms(1,2) show ?thesis by (simp add: disjoint_iff) blast
qed

lemma drain_ended:
  assumes inv: "graph_ok st" and drain: "drain \<in> set (gr_drains st)"
  defines "ended \<equiv> st\<lparr>gr_drains := remove1 drain (gr_drains st)\<rparr>"
  shows "graph_ok ended" and "tc_seq (snd drain) \<notin> set (settled ended)" and "copies ended (tc_seq (snd drain)) = 0"
    and "tc_seq (snd drain) < int (gr_next_input ended)"
proof -
  let ?s = "tc_seq (snd drain)"
  have settled: "distinct (settled st)" "\<forall>s \<in> set (settled st). s < int (gr_next_input st)"
    using inv by (auto simp: graph_inv_def settled_ok_def)
  have drains: "distinct (map (tc_seq \<circ> snd) (gr_drains st))" using settled(1) by (simp add: settled_def)
  note r = remove1_distinct [OF drains drain]
  have sub: "set (settled ended) \<subseteq> set (settled st)" using r(3) by (auto simp: settled_def ended_def)
  have "distinct (settled ended)" 
    using distinct_append_sub [OF settled(1) [unfolded settled_def] r(1,3)] by (simp add: settled_def ended_def)
  moreover have "s < int (gr_next_input ended)" if "s \<in> set (settled ended)" for s
    using settled(2) subsetD [OF sub that] by (simp add: ended_def)
  ultimately have ok: "settled_ok ended" by (simp add: settled_ok_def)
  have c: "copies ended = copies st" by (rule copies_cong) (simp_all add: ended_def)
  then have "counted_but None ended" using inv sub by (auto simp: graph_inv_def counted_but_def Let_def ended_def)
  then show "graph_ok ended" using inv ok edges_ok_cong [of ended st] names_ok_cong [of ended st] budget_cong [of ended st 0]
    by (auto simp: graph_inv_def items_ok_def nodes_ok_def ended_def)
  have mem: "?s \<in> set (settled st)" using drain by (auto simp: settled_def)
  show "?s < int (gr_next_input ended)" using settled(2) mem by (simp add: ended_def)
  show "copies ended ?s = 0" using counted_copies(2) [OF inv, of ?s] mem copies_nonneg [of st ?s] c by force
  show "?s \<notin> set (settled ended)" using settled(1) r(2) drain by (auto simp: settled_def ended_def)
qed

lemma drain_ok:
  assumes "graph_ok st" and "drain \<in> set (gr_drains st)"
  shows "graph_ok (drain_graph packo expired drain st)"
proof -
  note ended = drain_ended [OF assms]
  let ?ended = "st\<lparr>gr_drains := remove1 drain (gr_drains st)\<rparr>"
  obtain r st1 where r: "emit_graph_input_done packo (fst drain) (snd drain) ?ended = (r, st1)"
    by (cases "emit_graph_input_done packo (fst drain) (snd drain) ?ended")
  have "graph_ok st1" using graph_inv_emit [OF ended(1,2,4,3), of packo "fst drain"] r by simp
  then show ?thesis using assms(1) ended(1) graph_inv_fail_graph r
    by (auto simp: drain_graph_def Let_def split: sum.splits bool.splits)
qed

lemma close_start_ok: "graph_ok st \<Longrightarrow> graph_ok (close_start st)"
proof -
  assume inv: "graph_ok st"
  have "graph_ok (st\<lparr>gr_is_closing := True\<rparr>)" by (rule graph_inv_keeps [OF _ inv]) (simp add: keeps_def)
  from graph_inv_close [OF this, of CForwarders] show ?thesis using inv by (auto simp: close_start_def)
qed

lemma stop_forwarders_ok:
  assumes inv: "graph_ok st"
  shows "graph_ok (stop_forwarders st)"
proof -
  let ?a = "st\<lparr>gr_forwarders := (\<lambda>_. None)\<rparr>"
  have "names_ok ?a" "items_ok ?a" using inv by (auto simp: graph_inv_def names_ok_def items_ok_def)
  then have "graph_ok ?a" using inv edges_ok_cong [of ?a st] counted_cong [of ?a st None] budget_cong [of ?a st 0]
    by (auto simp: graph_inv_def settled_ok_def settled_def nodes_ok_def)
  from graph_inv_close [OF graph_inv_error [OF this], of _ "CNodes (rev (node_order (gr_graph st))) []"]
  show ?thesis using inv by (simp add: stop_forwarders_def)
qed

lemma close_node_ok:
  assumes inv: "graph_ok st"
  shows "graph_ok (close_node outcome st)"
proof -
  have "graph_ok (st\<lparr>gr_error := e, gr_close := CNodes ns us\<rparr>)" if "gr_close st \<noteq> CClosed" for e ns us
    using that graph_inv_close [OF graph_inv_error [OF inv]] by simp
  moreover have "graph_ok (st\<lparr>gr_close := CNodes ns us\<rparr>)" if "gr_close st \<noteq> CClosed" for ns us
    using that graph_inv_close [OF inv] by simp
  moreover have "graph_ok (st\<lparr>gr_sessions := (gr_sessions st)(name := None), gr_close := CNodes ns us\<rparr>)"
    if "gr_close st \<noteq> CClosed" for ns us name
    using that graph_inv_close [OF graph_inv_session_gone [OF inv, of name]] by simp
  moreover have "graph_ok (st\<lparr>gr_error := e, gr_sessions := (gr_sessions st)(name := None), gr_close := CNodes ns us\<rparr>)"
    if "gr_close st \<noteq> CClosed" for e ns us name
    using that graph_inv_close [OF graph_inv_session_gone [OF graph_inv_error [OF inv], of _ name]] by simp
  ultimately show ?thesis using inv
    by (auto simp: close_node_def Let_def split: close_at.splits list.splits option.splits)
qed

lemma graph_inv_closed:
  assumes inv: "graph_ok st"
  shows "graph_ok (st\<lparr>gr_routers := (\<lambda>_. None), gr_paced := (\<lambda>_. None), gr_drains := [], gr_jobs := filter P (gr_jobs st),
    gr_error := e, gr_outputs := [], gr_output_bytes := 0, gr_close := CClosed\<rparr>)" (is "graph_ok ?st")
proof -
  have c: "copies ?st = copies st" by (rule copies_cong) simp_all
  have "edges_ok ?st = edges_ok st" by (rule edges_ok_cong) simp_all
  moreover have "counted_but None ?st" using inv c by (auto simp: graph_inv_def counted_but_def Let_def settled_def)
  ultimately show ?thesis using inv
    by (auto simp: graph_inv_def names_ok_def items_ok_def settled_ok_def settled_def nodes_ok_def budget_but_def)
qed

lemma finish_close_ok:
  assumes inv: "graph_ok st"
  shows "graph_ok (finish_close st)"
proof (cases "\<exists>unclosed. gr_close st = CNodes [] unclosed")
  case True
  then obtain unclosed where close: "gr_close st = CNodes [] unclosed" by blast
  show ?thesis
  proof (cases unclosed)
    case Nil
    then show ?thesis using graph_inv_closed [OF inv] close by (simp add: finish_close_def Let_def)
  next
    case (Cons u us)
    have "graph_ok (st\<lparr>gr_cleanup_error := c, gr_error := e\<rparr>)" for c e
      by (rule graph_inv_keeps [OF _ inv]) (simp add: keeps_def)
    from graph_inv_closed [OF this] Cons close show ?thesis by (cases u) (simp add: finish_close_def Let_def)
  qed
qed (use inv in \<open>auto simp: finish_close_def split: close_at.splits list.splits\<close>)

lemma take_graph_output_ok:
  assumes inv: "graph_ok st"
  shows "graph_ok (take_graph_output st)"
proof (cases "gr_outputs st")
  case (Cons entry rest)
  obtain out sz name where e: "entry = (out, sz, name)" by (cases entry) auto
  have sz: "0 \<le> sz" using outputs_nonneg [OF inv, of out sz name] Cons e by simp
  have len: "0 < max_output_chunks (gr_limits st) \<Longrightarrow> int (length rest) \<le> max_output_chunks (gr_limits st)"
    using inv Cons by (simp add: graph_inv_def budget_but_def)
  have 1: "graph_inv None sz (st\<lparr>gr_outputs := rest\<rparr>)"
    using outputs_nonneg [OF inv] Cons e sz len by (intro graph_inv_outputs [OF inv]) auto
  let ?st = "st\<lparr>gr_outputs := rest, gr_output_bytes := gr_output_bytes st - sz\<rparr>"
  have 2: "graph_ok ?st" using graph_inv_bytes [OF 1, of 0 "- sz"] sz by simp
  have q: "pacer_queue (map_option (sent out) p) = pacer_queue p" for p
    by (cases p) (simp_all add: sent_def Let_def)
  let ?st' = "?st\<lparr>gr_pacers := (gr_pacers st)(name := map_option (sent out) (gr_pacers st name))\<rparr>"
  have "names_ok ?st' = names_ok ?st" by (rule names_ok_cong) simp_all
  moreover have "budget_but 0 ?st' = budget_but 0 ?st" by (rule budget_cong) (simp_all add: q)
  ultimately have "graph_ok ?st'" using 2 edges_ok_cong [of ?st' ?st] counted_cong [of ?st' ?st None]
    by (auto simp: graph_inv_def items_ok_def settled_ok_def settled_def nodes_ok_def)
  then have "graph_ok (?st'\<lparr>gr_taken := gr_taken st @ [out]\<rparr>)" by (rule graph_inv_keeps [rotated]) (simp add: keeps_def)
  then show ?thesis by (simp add: take_graph_output_def Cons e)
qed (simp add: take_graph_output_def inv)

end
