(* ===== verification/Graph_Properties.thy ===== *)
theory Graph_Properties
  imports Graph_Invariants
begin

text \<open>
  The reachable states of a graph session: the invariant of the initial state and of every step, and what
  follows from it for the client.
\<close>

section \<open>Reachable states\<close>

lemma graph_step_ok:
  assumes "graph_step packb packo unpackb st st'" and codec: "codec_ok packb unpackb" and inv: "graph_ok st"
  shows "graph_ok st'"
  using assms(1)
proof cases
  case (consumer)
  then show ?thesis using graph_inv_keeps [OF _ inv]
    by (auto simp: graph_consumer_start_def keeps_def split: if_splits)
next
  case consumer_end
  have "graph_ok (st\<lparr>gr_has_output_consumer := False\<rparr>)" by (rule graph_inv_keeps [OF _ inv]) (simp add: keeps_def)
  then show ?thesis unfolding consumer_end graph_consumer_end_def by (rule graph_inv_begin_close)
next
  case (node name node node')
  then show ?thesis unfolding node(1) using node_facts [OF inv node(2)] codec
    by (blast intro: graph_inv_session [OF inv] slots_ok_step output_ok_step)
qed (use inv codec in \<open>auto intro: append_graph_ok take_graph_output_ok control_graph_ok job_round_ok forward_ok route_ok
    route_end_ok paced_ok drain_ok task_done_ok graph_inv_begin_close close_start_ok stop_forwarders_ok close_node_ok
    finish_close_ok\<close>)

lemma fold_r_all:
  "fold_r f xs () = Inr () \<Longrightarrow> x \<in> set xs \<Longrightarrow> f x () = Inr ()"
  by (induction xs) (auto simp: bind_r_Inr_iff)

text \<open>A checked graph bounds every edge by at least one chunk.\<close>

lemma node_edges_sources:
  "dict_has (node_edges node) source \<longleftrightarrow> source \<in> (fst \<circ> parse_input \<circ> entry_source) ` set (sn_inputs node)"
proof -
  have "dict_has (fold (\<lambda>entry edges.
         let (source, fmt) = parse_input (entry_source entry);
             formats = (case dict_get edges source of None \<Rightarrow> Some {} | Some f \<Rightarrow> f)
         in dict_set source
              (case (fmt, formats) of (Some f, Some fs) \<Rightarrow> Some (insert f fs) | _ \<Rightarrow> None) edges) entries edges) source \<longleftrightarrow>
      source \<in> (fst \<circ> parse_input \<circ> entry_source) ` set entries \<or> dict_has edges source" for entries edges
    by (induction entries arbitrary: edges) (auto simp: split_beta Let_def)
  from this [of "sn_inputs node" "[]"] show ?thesis unfolding node_edges_def by simp
qed

lemma is_edge_source: "is_edge_from source entry \<Longrightarrow> fst (parse_input (entry_source entry)) = source"
  by (cases entry) auto

lemma capacity_positive:
  assumes "check_session_graph g = Inr g" and "1 \<le> max_pending_chunks (gr_limits st)" and "gr_graph st = g"
  shows "1 \<le> edge_capacity st target source"
proof (cases "dict_get (sg_nodes g) target")
  case (Some node)
  have "fold_r (\<lambda>(name, node) _. check_node (sg_nodes g) name node) (sg_nodes g) () = Inr ()"
    using assms(1) by (auto simp: check_session_graph_def bind_r_Inr_iff split: if_splits)
  then have "check_node (sg_nodes g) target node = Inr ()"
    using fold_r_all dict_get_mem [OF Some] by fastforce
  then have checked: "case de_capacity (bound node s) of None \<Rightarrow> True | Some c \<Rightarrow> 1 \<le> c" if "dict_has (node_edges node) s" for s
    using that fold_r_all [where xs = "dict_keys (node_edges node)" and x = s]
    by (fastforce simp: check_node_def Let_def dict_has_def split: if_splits option.splits)
  show ?thesis
  proof (cases "find (is_edge_from source) (sn_inputs node)")
    case None
    then show ?thesis using Some assms(2,3) by (simp add: edge_capacity_def node_bound_def bound_def default_edge_def)
  next
    case (Some entry)
    then have "entry \<in> set (sn_inputs node)" "is_edge_from source entry" by (auto simp: find_Some_iff)
    then have "dict_has (node_edges node) source" unfolding node_edges_sources using is_edge_source by force
    from checked [OF this] \<open>dict_get (sg_nodes g) target = Some node\<close> assms(2,3) show ?thesis
      by (simp add: edge_capacity_def node_bound_def split: option.splits)
  qed
qed (use assms in \<open>simp add: edge_capacity_def node_bound_def default_edge_def\<close>)

lemma graph_initial_ok:
  assumes "graph_initial st"
  shows "graph_ok st"
proof -
  obtain identity g limits timeout lead_ms route where g: "check_session_graph g = Inr g" "dict_ok (sg_nodes g)"
      "1 \<le> max_pending_chunks limits" "0 \<le> max_pending_bytes limits" "0 \<le> max_output_chunks limits" "0 \<le> max_output_bytes limits"
    and st: "st = graph_init identity g limits timeout lead_ms route"
    using assms by (auto simp: graph_initial_def)
  have fields: "gr_graph st = g" "gr_limits st = limits" "gr_inboxes st = (\<lambda>_. empty_inbox)" "gr_drains st = []" "gr_confirmed st = []"
    "gr_client_sequences st = (\<lambda>_. [])" "gr_jobs st = []" "gr_outputs st = []" "gr_output_bytes st = 0"
    by (simp_all add: st graph_init_def Let_def)
  have g': "GRAPH_INPUT \<notin> set (dict_keys (sg_nodes g))" "set (dict_keys (sg_publish g)) \<subseteq> set (dict_keys (sg_nodes g))"
    using g(1) by (auto simp: check_session_graph_def bind_r_Inr_iff dict_has_def split: if_splits)
  have publishes: "name \<in> set (dict_keys (sg_nodes g))" if "publishes_audio g name" for name
    using that g'(2) dict_has_iff [of "sg_publish g" name] by (auto simp: publishes_audio_def dict_has_def split: option.splits)
  have pacers: "pacer_queue (gr_pacers st name) = []" for name by (simp add: st graph_init_def Let_def pacer_init_def)
  have capacity: "1 \<le> edge_capacity st target source" for target source
    by (rule capacity_positive [OF g(1)]) (simp_all add: fields g(3))
  have "edges_ok st" using capacity order_trans [OF zero_le_one capacity] by (simp add: edges_ok_def fields empty_inbox_def)
  moreover have "names_ok st" using g(2) g'(1) publishes
    by (auto simp: names_ok_def st graph_init_def Let_def dict_has_def split: if_splits)
  moreover have "items_ok st" using fields by (auto simp: items_ok_def empty_inbox_def st graph_init_def Let_def split: if_splits)
  moreover have "node_copies st s name = 0" for s name by (simp add: node_copies_def fields empty_inbox_def)
  then have "copies st s = 0" for s by (simp add: copies_def node_sum_def comp_def)
  then have "counted_but None st" by (simp add: counted_but_def)
  moreover have "settled_ok st" by (simp add: settled_ok_def settled_def fields)
  moreover have "held_bytes st name = 0" for name by (simp add: held_bytes_def pacers) (simp add: st graph_init_def Let_def)
  then have "budget_but 0 st" using g(5,6) pacers
    by (auto simp: budget_but_def fields node_sum_def output_sizes_def comp_def) (auto simp: st graph_init_def Let_def split: if_splits)
  moreover have "nodes_ok st"
    using g session_initial_ok [unfolded session_ok_def session_initial_def]
    by (fastforce simp: nodes_ok_def st graph_init_def Let_def split: if_splits)
  ultimately show ?thesis by (simp add: graph_inv_def)
qed

interpretation graph_sys: step_system "\<lambda>st. codec_ok packb unpackb \<and> graph_initial st"
  "graph_step packb packo unpackb" "\<lambda>st. codec_ok packb unpackb \<and> graph_ok st" for packb packo unpackb
  by unfold_locales (auto intro: graph_initial_ok graph_step_ok)

lemma graph_reachable:
  assumes "codec_ok packb unpackb" and "graph_initial st0" and "(graph_step packb packo unpackb)\<^sup>*\<^sup>* st0 st"
  shows "graph_ok st"
  using graph_sys.inv_reachable assms by blast

section \<open>Opening and closing\<close>

lemma open_nodes_result:
  "open_nodes opens names nodes =
     (case dropWhile (\<lambda>name. opens name = None) names of
        [] \<Rightarrow> Inr (nodes @ names)
      | name # _ \<Rightarrow> Inl (the (opens name), rev (nodes @ takeWhile (\<lambda>name. opens name = None) names)))"
proof (induction names arbitrary: nodes)
  case (Cons name names)
  show ?case by (cases "opens name") (simp_all add: Cons cong: list.case_cong)
qed simp

lemma close_node_round:
  assumes "gr_close st = CNodes (name # names) unclosed"
  shows "gr_close (close_node outcome st) =
      CNodes names (unclosed @ (case outcome of None \<Rightarrow> [] | Some e \<Rightarrow> [(name, e)]))"
    and "gr_sessions (close_node outcome st) = (if outcome = None then (gr_sessions st)(name := None) else gr_sessions st)"
    and "gr_error st \<noteq> None \<longrightarrow> gr_error (close_node outcome st) = gr_error st"
    and "gr_cleanup_error (close_node outcome st) = gr_cleanup_error st"
  using assms by (auto simp: close_node_def Let_def or_error_def split: option.splits)

lemma close_nodes_all:
  assumes "gr_close st = CNodes (map fst outcomes) unclosed" and "distinct (map fst outcomes)"
  shows "gr_close (fold (\<lambda>(_, outcome). close_node outcome) outcomes st) =
      CNodes [] (unclosed @ [(name, e). (name, Some e) \<leftarrow> outcomes]) \<and>
    gr_sessions (fold (\<lambda>(_, outcome). close_node outcome) outcomes st) =
      (\<lambda>name. if (name, None) \<in> set outcomes then None else gr_sessions st name) \<and>
    (gr_error st \<noteq> None \<longrightarrow> gr_error (fold (\<lambda>(_, outcome). close_node outcome) outcomes st) = gr_error st) \<and>
    gr_cleanup_error (fold (\<lambda>(_, outcome). close_node outcome) outcomes st) = gr_cleanup_error st"
  using assms
proof (induction outcomes arbitrary: st unclosed)
  case (Cons x xs)
  obtain name outcome where x: "x = (name, outcome)" by (cases x)
  have st: "gr_close st = CNodes (name # map fst xs) unclosed" and fresh: "name \<notin> fst ` set xs" "distinct (map fst xs)"
    using Cons.prems x by simp_all
  note round = close_node_round [OF st, of outcome]
  from Cons.IH [OF round(1) fresh(2)] show ?case using round(2,3,4) x fresh(1)
    by (cases outcome) (force simp: fun_eq_iff)+
qed simp

lemma first_error_kept: "first \<noteq> None \<Longrightarrow> first_error first es = first"
  by (induction es arbitrary: first) (auto simp: first_error_def or_error_def)

section \<open>Properties\<close>

text \<open>A graph of two nodes, and a client that appends twice to an edge of one chunk.\<close>

definition demo_dialogue :: session_graph where
  "demo_dialogue =
     \<lparr>sg_nodes =
        [(''asr'', \<lparr>sn_stages = [''a''],
            sn_inputs = [Edge \<lparr>de_source = ''input'', de_capacity = Some 1, de_overflow = DropOldest, de_feedback = False\<rparr>],
            sn_controls = []\<rparr>),
         (''tts'', \<lparr>sn_stages = [''t''], sn_inputs = [Plain ''asr''],
            sn_controls = [\<lparr>ce_source = ''input'', ce_event = ''interrupt'', ce_should_preempt = False\<rparr>]\<rparr>)],
      sg_publish = [(''tts'', AUDIO_FORMATS)], sg_shared_timeline = False\<rparr>"

definition demo_graph0 :: graph where
  "demo_graph0 = graph_init \<lparr>sid_id = ''g'', sid_open_index = 1\<rparr> demo_dialogue demo_limits 1 100
     (\<lambda>name. (\<lparr>sid_id = name, sid_open_index = 1\<rparr>, []))"

definition demo_append_graph :: "int \<Rightarrow> graph \<Rightarrow> (error + int) \<times> graph" where
  "demo_append_graph seq = append_graph demo_encode (\<lambda>_. [0]) demo_decode (demo_input seq) (Fin (of_int seq)) (Fin 1)"

definition demo_graph2 :: graph where
  "demo_graph2 = snd (demo_append_graph 1 (snd (demo_append_graph 0 demo_graph0)))"

abbreviation demo_graph_step :: "graph \<Rightarrow> graph \<Rightarrow> bool" where
  "demo_graph_step \<equiv> graph_step demo_encode (\<lambda>_. [0]) demo_decode"

lemma demo_graph_initial: "graph_initial demo_graph0"
proof -
  have "isl (check_session_graph demo_dialogue) = False" by code_simp
  moreover have "check_session_graph g = Inr g' \<Longrightarrow> g' = g" for g g'
    by (auto simp: check_session_graph_def bind_r_Inr_iff split: if_splits)
  ultimately have "check_session_graph demo_dialogue = Inr demo_dialogue" by (cases "check_session_graph demo_dialogue") auto
  moreover have "dict_ok (sg_nodes demo_dialogue)" by (simp add: demo_dialogue_def)
  moreover have "1 \<le> max_pending_chunks demo_limits" "0 \<le> max_pending_bytes demo_limits"
    "0 \<le> max_output_chunks demo_limits" "0 \<le> max_output_bytes demo_limits" by (simp_all add: demo_limits_def)
  ultimately show ?thesis unfolding graph_initial_def demo_graph0_def by blast
qed

lemma demo_graph2_reach: "demo_graph_step\<^sup>*\<^sup>* demo_graph0 demo_graph2"
proof -
  have "demo_graph_step st (snd (demo_append_graph seq st))" for seq st
    unfolding demo_append_graph_def by (rule graph_step.append)
  then show ?thesis unfolding demo_graph2_def by (meson rtranclp.rtrancl_into_rtrancl rtranclp.rtrancl_refl)
qed

text \<open>
  C22. The edges of a session graph are bounded: whatever the client, the nodes, the controls and the failures
  interleave, the counter of an edge is the number of chunks from its source in the inbox of its target, and it
  never exceeds the edge's capacity, which is at least one.
\<close>

theorem graph_edges_bounded:
  assumes "\<And>c c'. unpackb (packb c) = Inr c' \<Longrightarrow> tc_seq c' = tc_seq c" and "graph_initial st0"
    and "(graph_step packb packo unpackb)\<^sup>*\<^sup>* st0 st"
  shows "ib_counts (gr_inboxes st target) source =
      int (length (filter (\<lambda>item. fst item = source) (ib_queued (gr_inboxes st target)))) \<and>
    ib_counts (gr_inboxes st target) source \<le> edge_capacity st target source \<and> 1 \<le> edge_capacity st target source"
proof -
  have "graph_ok st" using graph_reachable [OF _ assms(2,3)] assms(1) by (auto simp: codec_ok_def)
  then show ?thesis by (simp add: graph_inv_def edges_ok_def)
qed

theorem graph_edges_bounded_witness:
  "length (filter (\<lambda>item. fst item = ''input'') (ib_queued (gr_inboxes demo_graph2 ''asr''))) = 1 \<and>
   edge_capacity demo_graph2 ''asr'' ''input'' = 1 \<and> gr_next_input demo_graph2 = 2"
proof -
  have "ib_counts (gr_inboxes demo_graph2 ''asr'') ''input'' = 1 \<and> edge_capacity demo_graph2 ''asr'' ''input'' = 1 \<and>
      gr_next_input demo_graph2 = 2" by code_simp
  then show ?thesis using graph_edges_bounded [OF demo_codec demo_graph_initial demo_graph2_reach, of "''asr''" "''input''"] by simp
qed

text \<open>
  C21. A client's input is confirmed at most once, and only after every node that reads it is done with it: while
  a copy of an accepted input waits in an inbox or is with a node's session, the counter of its pending
  confirmations is exactly the number of its copies, so that none of the nodes' confirmations can miss its
  counter, and the input is not yet confirmed to the client.
\<close>

theorem graph_inputs_confirmed_once:
  assumes "\<And>c c'. unpackb (packb c) = Inr c' \<Longrightarrow> tc_seq c' = tc_seq c" and "graph_initial st0"
    and "(graph_step packb packo unpackb)\<^sup>*\<^sup>* st0 st"
  shows "distinct (gr_confirmed st) \<and> (\<forall>s. s \<in> set (gr_confirmed st) \<longrightarrow> s < int (gr_next_input st)) \<and>
    (\<forall>s. 0 < copies st s \<longrightarrow> dict_get (gr_pending_input_done st) s = Some (copies st s) \<and> s \<notin> set (gr_confirmed st))"
proof -
  have "graph_ok st" using graph_reachable [OF _ assms(2,3)] assms(1) by (auto simp: codec_ok_def)
  then show ?thesis by (auto simp: graph_inv_def counted_but_def settled_ok_def settled_def Let_def)
qed

theorem graph_inputs_confirmed_once_witness:
  "gr_confirmed demo_graph2 = [0] \<and> copies demo_graph2 1 = 1 \<and> dict_get (gr_pending_input_done demo_graph2) 1 = Some 1 \<and>
   1 \<notin> set (gr_confirmed demo_graph2)"
proof -
  have "gr_confirmed demo_graph2 = [0] \<and> copies demo_graph2 1 = 1" by code_simp
  then show ?thesis using graph_inputs_confirmed_once [OF demo_codec demo_graph_initial demo_graph2_reach] by simp
qed

text \<open>
  C23. The output budget of a graph is exact: until the graph is closed, its bytes are those of the outputs in the
  client's queue, of the outputs its pacers hold, split, joined or purged as they may be, and of the outputs with
  which a router waits in the client's full queue; they never exceed the limit, and neither does the queue.
\<close>

theorem graph_output_budget_exact:
  assumes "\<And>c c'. unpackb (packb c) = Inr c' \<Longrightarrow> tc_seq c' = tc_seq c" and "graph_initial st0"
    and "(graph_step packb packo unpackb)\<^sup>*\<^sup>* st0 st" and "gr_close st \<noteq> CClosed"
  shows "gr_output_bytes st = output_sizes (gr_outputs st) + node_sum (held_bytes st) (gr_graph st) \<and>
    gr_output_bytes st \<le> max_output_bytes (gr_limits st) \<and>
    (0 < max_output_chunks (gr_limits st) \<longrightarrow> int (length (gr_outputs st)) \<le> max_output_chunks (gr_limits st))"
proof -
  have "graph_ok st" using graph_reachable [OF _ assms(2,3)] assms(1) by (auto simp: codec_ok_def)
  then show ?thesis using assms(4) by (simp add: graph_inv_def budget_but_def)
qed

theorem graph_output_budget_exact_witness:
  "gr_output_bytes demo_graph2 = 1 \<and>
   output_sizes (gr_outputs demo_graph2) + node_sum (held_bytes demo_graph2) (gr_graph demo_graph2) = 1"
proof -
  have "gr_output_bytes demo_graph2 = 1" "case gr_close demo_graph2 of CClosed \<Rightarrow> False | _ \<Rightarrow> True" by code_simp+
  then show ?thesis using graph_output_budget_exact [OF demo_codec demo_graph_initial demo_graph2_reach]
    by (cases "gr_close demo_graph2") simp_all
qed

text \<open>
  C24. The sessions of the nodes keep their own budgets within a graph, although a fence of the graph takes
  pending input out of them: the slots and bytes of a node's accepted input are those of its pending chunks and
  the one in flight, its output bytes those of its outputs, and all stay within the limits.
\<close>

theorem graph_nodes_keep_budgets:
  assumes "\<And>c c'. unpackb (packb c) = Inr c' \<Longrightarrow> tc_seq c' = tc_seq c" and "graph_initial st0"
    and "(graph_step packb packo unpackb)\<^sup>*\<^sup>* st0 st" and "gr_sessions st name = Some node"
  shows "se_pending_count node = int (length (se_pending node)) + (if se_in_flight node = None then 0 else 1) \<and>
    se_pending_bytes node = sum_list (map pc_encoded_bytes (se_pending node)) + flight_bytes (se_in_flight node) \<and>
    se_pending_count node \<le> max_pending_chunks (se_limits node) \<and> se_pending_bytes node \<le> max_pending_bytes (se_limits node) \<and>
    se_output_bytes node = queue_bytes (se_outputs node) + queue_bytes (pacer_queue (se_pacer node)) \<and>
    se_output_bytes node \<le> max_output_bytes (se_limits node)"
proof -
  have "graph_ok st" using graph_reachable [OF _ assms(2,3)] assms(1) by (auto simp: codec_ok_def)
  then have "slots_ok node" "output_ok node" using node_facts assms(4) by blast+
  then show ?thesis by (simp add: slots_ok_def output_ok_def)
qed

definition demo_graph3 :: graph where
  "demo_graph3 = forward_graph_inputs demo_encode demo_decode 0 ''r'' ''asr'' demo_graph2"

lemma demo_graph3_reach: "demo_graph_step\<^sup>*\<^sup>* demo_graph0 demo_graph3"
  unfolding demo_graph3_def by (rule rtranclp.rtrancl_into_rtrancl [OF demo_graph2_reach graph_step.forward])

theorem graph_nodes_keep_budgets_witness:
  "let node = the (gr_sessions demo_graph3 ''asr'') in
   se_pending_count node = 1 \<and> se_pending_bytes node = sum_list (map pc_encoded_bytes (se_pending node)) \<and>
   se_pending_bytes node \<le> max_pending_bytes (se_limits node)"
proof -
  have "case gr_sessions demo_graph3 ''asr'' of None \<Rightarrow> False | Some node \<Rightarrow> se_in_flight node = None \<and> length (se_pending node) = 1"
    by code_simp
  then obtain node where node: "gr_sessions demo_graph3 ''asr'' = Some node" "se_in_flight node = None" "length (se_pending node) = 1"
    by (auto split: option.splits)
  then show ?thesis using graph_nodes_keep_budgets [OF demo_codec demo_graph_initial demo_graph3_reach node(1)] by simp
qed

text \<open>
  A graph opens as a whole or not at all: its nodes are opened in the graph's order until one does not open,
  and then exactly those that did are closed, the last first, and the error is that of the first node that did
  not open.
\<close>

theorem graph_opens_whole_or_not_at_all:
  assumes "graph_order g = Inr order"
  shows "open_graph_nodes opens g =
     (case dropWhile (\<lambda>name. opens name = None) order of
        [] \<Rightarrow> Inr order
      | name # _ \<Rightarrow> Inl (the (opens name), rev (takeWhile (\<lambda>name. opens name = None) order)))"
  using open_nodes_result [of opens order "[]"] by (simp only: open_graph_nodes_def assms sum.case append_Nil)

theorem graph_opens_whole_or_not_at_all_witness:
  "open_graph_nodes (\<lambda>name. if name = ''tts'' then Some QueueFullError else None) demo_dialogue = Inl (QueueFullError, [''asr''])"
proof -
  have "graph_order demo_dialogue = Inr [''asr'', ''tts'']" by code_simp
  from graph_opens_whole_or_not_at_all [OF this] show ?thesis by simp
qed

text \<open>
  C25. The close of a graph reaches every node: whichever nodes fail to close, each is tried, last first; those
  that closed lose their sessions and the others keep them; the graph ends closed, with nothing left for the
  client, the error that closed it is kept, and a node that did not close is an error of the cleanup.
\<close>

theorem graph_close_reaches_every_node:
  assumes "gr_close st = CForwarders" and "map fst outcomes = rev order" and "graph_order (gr_graph st) = Inr order"
    and "dict_ok (sg_nodes (gr_graph st))"
  shows "let st' = finish_close (fold (\<lambda>(_, outcome). close_node outcome) outcomes (stop_forwarders st)) in
    gr_close st' = CClosed \<and> gr_outputs st' = [] \<and> gr_output_bytes st' = 0 \<and>
    gr_sessions st' = (\<lambda>name. if (name, None) \<in> set outcomes then None else gr_sessions st name) \<and>
    (gr_error st \<noteq> None \<longrightarrow> gr_error st' = gr_error st) \<and>
    gr_cleanup_error st' = (if \<forall>(_, outcome) \<in> set outcomes. outcome = None then gr_cleanup_error st
                            else Some (RuntimeError ''graph nodes did not close''))"
proof -
  define st1 where "st1 = fold (\<lambda>(_, outcome). close_node outcome) outcomes (stop_forwarders st)"
  define left where "left = [(name, e). (name, Some e) \<leftarrow> outcomes]"
  have stopped: "gr_close (stop_forwarders st) = CNodes (map fst outcomes) []" "gr_sessions (stop_forwarders st) = gr_sessions st"
    "gr_error st \<noteq> None \<longrightarrow> gr_error (stop_forwarders st) = gr_error st" "gr_cleanup_error (stop_forwarders st) = gr_cleanup_error st"
    using assms(1-3) by (auto simp: stop_forwarders_def node_order_def intro!: first_error_kept)
  have "distinct (map fst outcomes)" using order_loop_cases [OF assms(4), of "[]"] assms(2,3) by (auto simp: graph_order_def)
  from close_nodes_all [OF stopped(1) this] have 1: "gr_close st1 = CNodes [] left"
    "gr_sessions st1 = (\<lambda>name. if (name, None) \<in> set outcomes then None else gr_sessions st name)"
    "gr_error st \<noteq> None \<longrightarrow> gr_error st1 = gr_error st" "gr_cleanup_error st1 = gr_cleanup_error st"
    using stopped(2-4) by (auto simp: st1_def left_def)
  have none: "left = [] \<longleftrightarrow> (\<forall>(_, outcome) \<in> set outcomes. outcome = None)"
    by (force simp: left_def split: option.splits)
  have kept: "first_error (gr_error st1) es = gr_error st1" "first_error (or_error (gr_error st1) e) es = gr_error st1"
    if "gr_error st1 \<noteq> None" for e es
    using that first_error_kept by (auto simp: or_error_def)
  show ?thesis unfolding Let_def st1_def [symmetric]
    using 1 none kept by (cases left) (auto simp: finish_close_def Let_def)
qed

theorem graph_close_reaches_every_node_witness:
  "let st = close_start (begin_graph_close demo_graph2);
       st' = finish_close (close_node None (close_node (Some QueueFullError) (stop_forwarders st))) in
   gr_close st' = CClosed \<and> gr_sessions st' ''tts'' \<noteq> None \<and> gr_sessions st' ''asr'' = None \<and>
   gr_cleanup_error st' = Some (RuntimeError ''graph nodes did not close'')"
proof -
  let ?st = "close_start (begin_graph_close demo_graph2)"
  let ?outcomes = "[(''tts'', Some QueueFullError), (''asr'', None)] :: (string \<times> error option) list"
  have "case gr_close ?st of CForwarders \<Rightarrow> True | _ \<Rightarrow> False" by code_simp
  then have 1: "gr_close ?st = CForwarders" by (cases "gr_close ?st") simp_all
  have 2: "map fst ?outcomes = rev [''asr'', ''tts'']" by simp
  have 3: "graph_order (gr_graph ?st) = Inr [''asr'', ''tts'']" "dict_ok (sg_nodes (gr_graph ?st))" by code_simp+
  have "case gr_sessions ?st ''tts'' of None \<Rightarrow> False | Some _ \<Rightarrow> True" by code_simp
  then show ?thesis using graph_close_reaches_every_node [OF 1 2 3] by (auto simp: Let_def split: option.splits)
qed

text \<open>A graph whose client may not have a byte of output waiting.\<close>

definition demo_tight :: graph where
  "demo_tight = graph_init \<lparr>sid_id = ''g'', sid_open_index = 1\<rparr> demo_dialogue (demo_limits\<lparr>max_output_bytes := 0\<rparr>) 1 100
     (\<lambda>name. (\<lparr>sid_id = name, sid_open_index = 1\<rparr>, []))"


end
