(* ===== verification/Graph_Fences.thy ===== *)
theory Graph_Fences
  imports Graph_Properties
begin

text \<open>
  The fence of an interrupt in \<^verbatim>\<open>pipeline/session_graph.py\<close>: once a node has been fenced for a turn, no reply of
  that turn waits for the node, in its pacer or, when its outputs are paced, in the client's queue, in any state
  that follows.
\<close>

section \<open>What a pacer holds\<close>

text \<open>
  A release changes no output but reply audio, which it cuts and joins within its turn and format. So whatever
  depends on the turn and the format of audio alone carries over to what is released and what is held.
\<close>

definition of_audio :: "(output_chunk \<Rightarrow> bool) \<Rightarrow> bool" where
  "of_audio P \<longleftrightarrow>
     (\<forall>out out'. is_reply_audio out \<longrightarrow> oc_turn out' = oc_turn out \<longrightarrow> oc_format out' = oc_format out \<longrightarrow>
        oc_kind out' = oc_kind out \<longrightarrow> P out \<longrightarrow> P out')"

definition all_outputs :: "(output_chunk \<Rightarrow> bool) \<Rightarrow> budgeted list \<Rightarrow> bool" where
  "all_outputs P items \<longleftrightarrow> (\<forall>item \<in> set items. P (fst item))"

lemma all_outputs_simps [simp]:
  "all_outputs P []" "all_outputs P (item # items) \<longleftrightarrow> P (fst item) \<and> all_outputs P items"
  "all_outputs P (items @ items') \<longleftrightarrow> all_outputs P items \<and> all_outputs P items'"
  by (auto simp: all_outputs_def)

lemma all_outputs_filter: "all_outputs P items \<Longrightarrow> all_outputs P (filter Q items)"
  by (auto simp: all_outputs_def)

lemma split_audio_of:
  assumes "of_audio P" and "is_reply_audio out" and "P out" and "split_audio packo out sz ms = Inr (Some (head, tail))"
  shows "P (fst head) \<and> P (fst tail)"
proof -
  have "P (out\<lparr>oc_duration_ms := d, oc_payload := b, oc_eos := False\<rparr>)"
    "P (out\<lparr>oc_t_start_ms := s, oc_duration_ms := d, oc_payload := b\<rparr>)" for d b s
    using assms(1-3) by (auto simp: of_audio_def)
  then show ?thesis using assms(4) by (auto simp: split_audio_def Let_def split: payload.splits if_splits)
qed

fun release_of_state :: "(output_chunk \<Rightarrow> bool) \<Rightarrow> budgeted list \<Rightarrow> release_state \<Rightarrow> bool" where
  "release_of_state P unsent (p, released, held) \<longleftrightarrow> all_outputs P released \<and> all_outputs P held \<and> dp_unsent p = unsent"

lemma take_audio_of: "P (fst item) \<Longrightarrow> release_of_state P u rs \<Longrightarrow> release_of_state P u (take_audio item rs)"
  by (cases rs) (simp add: take_audio_def)

lemma hold_of: "P (fst item) \<Longrightarrow> release_of_state P u rs \<Longrightarrow> release_of_state P u (hold item rs)"
  by (cases rs) (simp add: hold_def)

lemma start_clock_unsent [simp]: "dp_unsent (start_clock out now p) = dp_unsent p"
  by (simp add: start_clock_def)

lemma release_audio_of:
  assumes P: "of_audio P" "is_reply_audio out" "P out" and rs: "release_of_state P u rs"
    and r: "release_audio packo now (out, sz) rs = Inr rs'"
  shows "release_of_state P u rs'"
proof -
  obtain p released held where s: "rs = (p, released, held)" by (cases rs)
  show ?thesis using r P(3) rs unfolding release_audio_def s
    by (auto simp: Let_def bind_r_Inr_iff intro!: take_audio_of hold_of dest: split_audio_of [OF P]
        split: option.splits if_splits)
qed

lemma release_item_of:
  assumes P: "of_audio P" and item: "P (fst item)" and rs: "release_of_state P u rs"
    and r: "release_item packo now item rs = Inr rs'"
  shows "release_of_state P u rs'"
proof -
  obtain out sz p released held where i: "item = (out, sz)" "rs = (p, released, held)" by (cases item, cases rs)
  show ?thesis using r rs item hold_of [of P item, OF item rs] release_audio_of [OF P, of out u rs packo now sz rs']
    by (simp add: release_item_def i bind_r_Inr_iff split: if_splits) auto
qed

lemma coalesce_item_of:
  assumes P: "of_audio P" and item: "P (fst item)" and "all_outputs P items"
    and r: "coalesce_item lead item items = Inr items'"
  shows "all_outputs P items'"
proof (cases "items \<noteq> [] \<and> joins lead (fst (last items)) (fst item)")
  case True
  then obtain before previous sz where items: "items = before @ [(previous, sz)]"
    by (metis append_butlast_last_id surj_pair)
  have "is_reply_audio previous" using True items by (auto simp: joins_def is_reply_audio_def)
  then have "P (previous\<lparr>oc_duration_ms := d, oc_payload := b, oc_eos := e\<rparr>)" for d b e
    using P assms(3) items by (auto simp: of_audio_def)
  then show ?thesis using True r assms(3) items
    by (auto simp: coalesce_item_def bind_r_Inr_iff split: prod.splits)
qed (use assms in \<open>auto simp: coalesce_item_def split: prod.splits\<close>)

lemma release_of:
  assumes P: "of_audio P" and items: "all_outputs P (dp_items p)" and r: "release packo now p = Inr (q, released)"
  shows "all_outputs P (dp_items q) \<and> all_outputs P released \<and> dp_unsent q = dp_unsent p"
proof -
  obtain p' loop held where fold: "fold_r (release_item packo now) (dp_items p) (p\<lparr>dp_wake := False\<rparr>, [], []) = Inr (p', loop, held)"
    and q: "q = p'\<lparr>dp_items := held\<rparr>" and c: "fold_r (coalesce_item (dp_lead_ms q)) loop [] = Inr released"
    using r by (auto simp: release_def release_loop_def bind_r_Inr_iff)
  have item: "P (fst item)" if "item \<in> set (dp_items p)" for item using items that by (simp add: all_outputs_def)
  have "release_of_state P (dp_unsent p) (p', loop, held)"
  proof (rule fold_r_rule [OF fold])
    fix x s t
    assume "x \<in> set (dp_items p)" "release_of_state P (dp_unsent p) s" "release_item packo now x s = Inr t"
    then show "release_of_state P (dp_unsent p) t" using release_item_of [OF P item] by blast
  qed simp
  then have 1: "all_outputs P loop" "all_outputs P held" "dp_unsent p' = dp_unsent p" by simp_all
  have "all_outputs P released"
  proof (rule fold_r_rule [OF c])
    fix x s t
    assume "x \<in> set loop" "all_outputs P s" "coalesce_item (dp_lead_ms q) x s = Inr t"
    then show "all_outputs P t" using coalesce_item_of [OF P _ _, of x s "dp_lead_ms q" t] 1(1) by (simp add: all_outputs_def)
  qed simp
  with 1 show ?thesis using q by simp
qed

section \<open>A fenced node\<close>

text \<open>No reply of the turn waits for the node, in its pacer or, when its outputs are paced, in the client's queue.\<close>

definition fenced_item :: "int \<Rightarrow> inbox_item \<Rightarrow> bool" where
  "fenced_item turn item \<longleftrightarrow> fst item = GRAPH_INPUT \<or> interrupted_reply (fst (snd item)) turn \<noteq> Inr True"

definition silent :: "string \<Rightarrow> int \<Rightarrow> graph \<Rightarrow> bool" where
  "silent target turn st \<longleftrightarrow>
     turn \<in> gr_interrupted_turns st target \<and>
     (\<forall>item \<in> set (ib_queued (gr_inboxes st target)). fenced_item turn item) \<and>
     all_outputs (\<lambda>out. \<not> oc_interrupted out (Some turn)) (pacer_queue (gr_pacers st target)) \<and>
     (gr_pacers st target \<noteq> None \<longrightarrow> (\<forall>entry \<in> set (gr_outputs st). \<not> is_unread_reply target turn entry))"

text \<open>Updates that add nothing to an inbox, a pacer or the client's queue.\<close>

definition adds_none :: "graph \<Rightarrow> graph \<Rightarrow> bool" where
  "adds_none st st' \<longleftrightarrow>
     (\<forall>name. gr_interrupted_turns st name \<subseteq> gr_interrupted_turns st' name) \<and>
     (\<forall>name. set (ib_queued (gr_inboxes st' name)) \<subseteq> set (ib_queued (gr_inboxes st name))) \<and>
     (\<forall>name. gr_pacers st' name = None \<longleftrightarrow> gr_pacers st name = None) \<and>
     (\<forall>name. set (pacer_queue (gr_pacers st' name)) \<subseteq> set (pacer_queue (gr_pacers st name))) \<and>
     set (gr_outputs st') \<subseteq> set (gr_outputs st)"

lemma silent_adds_none: "adds_none st st' \<Longrightarrow> silent target turn st \<Longrightarrow> silent target turn st'"
  unfolding adds_none_def silent_def all_outputs_def by (metis subsetD)

lemma adds_none_refl [simp]: "adds_none st st"
  by (simp add: adds_none_def)

lemma adds_none_trans: "adds_none st st' \<Longrightarrow> adds_none st' st'' \<Longrightarrow> adds_none st st''"
  unfolding adds_none_def by (meson order_trans)

lemma adds_none_fields:
  assumes "gr_interrupted_turns st' = gr_interrupted_turns st" and "gr_inboxes st' = gr_inboxes st"
    and "gr_pacers st' = gr_pacers st" and "gr_outputs st' = gr_outputs st"
  shows "adds_none st st'"
  using assms by (simp add: adds_none_def)

lemma interrupted_of_audio: "of_audio (\<lambda>out. \<not> oc_interrupted out turn)"
  unfolding of_audio_def
proof (intro allI impI)
  fix out out' :: output_chunk
  assume "is_reply_audio out" "oc_turn out' = oc_turn out" "oc_format out' = oc_format out" "oc_kind out' = oc_kind out"
    and not: "\<not> oc_interrupted out turn"
  then have "is_reply_audio out'" by (simp add: is_reply_audio_def)
  with not \<open>is_reply_audio out\<close> \<open>oc_turn out' = oc_turn out\<close> show "\<not> oc_interrupted out' turn"
    by (simp add: is_interrupted_reply_def)
qed

subsection \<open>Inboxes\<close>

lemma silent_inbox:
  assumes "silent target turn st" and "\<And>item. item \<in> set (ib_queued inbox) \<Longrightarrow> name = target \<Longrightarrow>
    item \<in> set (ib_queued (gr_inboxes st target)) \<or> fenced_item turn item"
  shows "silent target turn (set_inbox name inbox st)"
  using assms by (auto simp: silent_def)

lemma silent_drop_oldest: "silent target turn st \<Longrightarrow> silent target turn (drop_oldest name source st)"
  unfolding drop_oldest_def Let_def by (rule silent_inbox) (auto dest: subsetD [OF set_remove_first])

lemma silent_queue_item:
  "silent target turn st \<Longrightarrow> (name = target \<Longrightarrow> fenced_item turn item) \<Longrightarrow> silent target turn (queue_item name item st)"
  unfolding queue_item_def Let_def by (rule silent_inbox) auto

lemma silent_put: "silent target turn st \<Longrightarrow> silent target turn (snd (put_graph_inbox name source chunk st))"
proof -
  assume silent: "silent target turn st"
  have "fenced_item turn (source, chunk, None)" if "is_interrupted st target chunk = Inr False"
    using that silent by (auto simp: fenced_item_def is_interrupted_def interrupted_reply_def silent_def split: option.splits)
  then show ?thesis using silent
    by (auto simp: put_graph_inbox_def Let_def intro!: silent_queue_item silent_drop_oldest split: sum.splits bool.splits)
qed

subsection \<open>The client's input\<close>

lemma silent_emit: "silent target turn st \<Longrightarrow> silent target turn (snd (emit_graph_input_done packo name chunk st))"
  by (auto simp: emit_graph_input_done_def reserve_graph_output_def then_do_def modify_def Let_def silent_def
      is_unread_reply_def input_done_output_def)

lemma silent_confirm: "silent target turn st \<Longrightarrow> silent target turn (snd (confirm_graph_input packo name chunk st))"
proof -
  assume silent: "silent target turn st"
  have "silent target turn (st\<lparr>gr_eos_confirmed := e, gr_pending_input_done := d, gr_drains := r\<rparr>)"
    "silent target turn (st\<lparr>gr_pending_input_done := d\<rparr>)" "silent target turn (st\<lparr>gr_eos_confirmed := e\<rparr>)"
    "silent target turn (st\<lparr>gr_eos_confirmed := e, gr_pending_input_done := d\<rparr>)" for e d r
    by (rule silent_adds_none [OF adds_none_fields silent]; simp)+
  then show ?thesis using silent silent_emit by (auto simp: confirm_graph_input_def Let_def split: option.splits)
qed

lemma silent_drop_inputs: "spec (silent target turn) (drop_inputs packo names) (silent target turn)"
proof (induction names)
  case (Cons name names)
  have "spec (silent target turn) (drop_input packo name) (silent target turn)"
    unfolding spec_def drop_input_def using silent_confirm [OF silent_drop_oldest] by (auto split: sum.splits)
  then show ?case unfolding drop_inputs.simps using Cons by (intro spec_then_do)
qed (simp add: spec_ret)

lemma silent_queue_input: "silent target turn st \<Longrightarrow> silent target turn (queue_input chunk st)"
proof -
  have "silent target turn st \<Longrightarrow> silent target turn (fold (\<lambda>name. queue_item name (GRAPH_INPUT, chunk, seq)) names st)" for names seq st
    by (induction names arbitrary: st) (simp_all add: silent_queue_item fenced_item_def)
  then show "silent target turn st \<Longrightarrow> ?thesis" by (simp add: queue_input_def)
qed

lemma silent_finish_append: "silent target turn st \<Longrightarrow> silent target turn (finish_graph_append chunk st)"
proof (erule silent_adds_none [rotated])
  have "pacer_queue (map_option end_input p) = pacer_queue p" for p by (cases p) (simp_all add: end_input_def)
  then show "adds_none st (finish_graph_append chunk st)" by (simp add: adds_none_def finish_graph_append_def)
qed

lemma silent_append: "silent target turn st \<Longrightarrow> silent target turn (snd (append_graph packb packo unpackb chunk t d st))"
proof -
  have "spec (silent target turn) (if b then modify (\<lambda>st. st\<lparr>gr_pending_input_done := f st\<rparr>)
      else emit_graph_input_done packo GRAPH_INPUT chunk) (silent target turn)" for b f chunk
    using silent_emit by (auto simp: spec_def modify_def intro: silent_adds_none [OF adds_none_fields])
  moreover have "spec (silent target turn) (modify (\<lambda>st. finish_graph_append chunk (queue_input chunk st))) (silent target turn)" for chunk
    by (intro spec_modify silent_finish_append silent_queue_input)
  ultimately have "spec (silent target turn) (then_do (if b then modify (\<lambda>st. st\<lparr>gr_pending_input_done := f st\<rparr>)
      else emit_graph_input_done packo GRAPH_INPUT chunk) (\<lambda>_. then_do (drop_inputs packo full) (\<lambda>_.
      then_do (modify (\<lambda>st. finish_graph_append chunk (queue_input chunk st))) (\<lambda>_. ret (tc_seq chunk))))) (silent target turn)"
    for b f chunk full by (intro spec_then_do silent_drop_inputs spec_ret)
  then have "silent target turn st \<Longrightarrow> silent target turn (snd (accept_input packo chunk full st))" for chunk full st
    unfolding accept_input_def by (rule specD)
  then show "silent target turn st \<Longrightarrow> ?thesis" by (simp add: append_graph_def split: sum.splits)
qed

subsection \<open>Forwarders\<close>

lemma set_tl: "set (tl xs) \<subseteq> set xs"
  by (cases xs) auto

lemma adds_none_pop: "adds_none st (pop_inbox name st)"
  by (auto simp: adds_none_def pop_inbox_def Let_def dest: subsetD [OF set_tl])

lemma adds_none_rotate: "adds_none st (rotate_inbox name st)"
  by (auto simp: adds_none_def rotate_inbox_def Let_def)

lemma adds_none_append_node: "append_node packb unpackb name chunk continues request_id st = Inr st' \<Longrightarrow> adds_none st st'"
  by (auto simp: append_node_def bind_r_Inr_iff adds_none_def split: option.splits)

lemma adds_none_forwarder: "adds_none st (set_forwarder name fw st)" "adds_none st (fail_forwarder name e st)"
  by (simp_all add: adds_none_def set_forwarder_def fail_forwarder_def)

lemma adds_none_retry: "adds_none st (retry_or_fail now name fw e st)"
  using adds_none_forwarder by (auto simp: retry_or_fail_def split: sum.splits)

lemma adds_none_start_fragments: "adds_none st (start_fragments packb name fw chunk st)"
  using adds_none_forwarder by (auto simp: start_fragments_def split: option.splits list.splits prod.splits)

lemma adds_none_sequences: "adds_none st (st\<lparr>gr_client_sequences := cs\<rparr>)"
  by (simp add: adds_none_def)

lemma adds_none_forward_input: "adds_none st (forward_input packb unpackb now request_id name fw st)"
  by (auto simp: forward_input_def Let_def split: list.splits sum.splits option.splits
      intro: adds_none_rotate adds_none_trans [OF adds_none_pop adds_none_start_fragments] adds_none_retry
        adds_none_trans [OF adds_none_trans [OF adds_none_append_node adds_none_pop] adds_none_forwarder(1)]
        adds_none_trans [OF adds_none_trans [OF adds_none_trans [OF adds_none_append_node adds_none_pop] adds_none_sequences]
          adds_none_forwarder(1)])

lemma adds_none_forward: "adds_none st (forward_graph_inputs packb unpackb now request_id name st)"
proof -
  have "adds_none st (forward_fragment packb unpackb now request_id name fw chunk current rest e st)" for fw chunk current rest e
    using adds_none_forwarder adds_none_retry
    by (auto simp: forward_fragment_def Let_def split: prod.splits sum.splits bool.splits list.splits option.splits
        intro: adds_none_trans [OF adds_none_append_node adds_none_forwarder(1)]
          adds_none_trans [OF adds_none_append_node adds_none_forwarder(2)])
  then show ?thesis using adds_none_forward_input by (auto simp: forward_graph_inputs_def split: option.splits)
qed

subsection \<open>Fences\<close>

lemma adds_none_fence_inbox: "fence_inbox name turn st = Inr st' \<Longrightarrow> adds_none st st'"
  by (auto simp: fence_inbox_def bind_r_Inr_iff adds_none_def dest!: filter_r_Inr split: if_splits)

lemma adds_none_fence_pending: "fence_pending name turn st = Inr st' \<Longrightarrow> adds_none st st'"
  by (auto simp: fence_pending_def bind_r_Inr_iff adds_none_def split: option.splits)

lemma spec_lift_r: "(\<And>st st'. P st \<Longrightarrow> f st = Inr st' \<Longrightarrow> P st') \<Longrightarrow> spec P (lift_r f) P"
  by (auto simp: spec_def lift_r_def split: sum.splits)

lemma spec_fence_turn: "spec (adds_none st0) (fence_turn name turn) (adds_none st0)"
proof -
  have "adds_none st (st\<lparr>gr_interrupted_turns := (gr_interrupted_turns st)(name := insert turn (gr_interrupted_turns st name))\<rparr>)" for st
    by (auto simp: adds_none_def)
  then show ?thesis unfolding fence_turn_def
    by (intro spec_then_do spec_modify spec_lift_r)
      (blast intro: adds_none_trans adds_none_fence_inbox adds_none_fence_pending)+
qed

lemma adds_none_purge_pacer: "adds_none st (purge_pacer name turn st)"
  by (auto simp: purge_pacer_def purge_def adds_none_def Let_def split: option.splits)

lemma adds_none_drop_unread: "adds_none st (drop_unread name turn st)"
  by (auto simp: drop_unread_def adds_none_def)

lemma adds_none_fence: "adds_none st (snd (fence_control_edge name event st))"
proof (cases "tc_control_type event")
  case (Inr ctl)
  have out: "spec (adds_none st) (fence_outputs name turn) (adds_none st)" for turn
    by (auto simp: spec_def fence_outputs_def Let_def split: option.splits
        intro: adds_none_trans [OF adds_none_trans [OF _ adds_none_purge_pacer] adds_none_drop_unread]
          adds_none_trans [OF _ adds_none_purge_pacer])
  have "spec (adds_none st) (case tc_turn event of Some turn \<Rightarrow> if ctl = Some INTERRUPT then fence_turn name turn else ret ()
      | None \<Rightarrow> ret ()) (adds_none st)"
    by (auto intro: spec_fence_turn spec_ret split: option.split)
  moreover have "spec (adds_none st) (\<lambda>st. if ctl = Some INTERRUPT \<and> gr_pacers st name \<noteq> None then fence_outputs name (tc_turn event) st
      else if ctl = None then (case is_interrupted st name event of
        Inl e \<Rightarrow> (Inl e, st) | Inr b \<Rightarrow> (Inr (if b then FStop else FPass), st)) else (Inr FPass, st)) (adds_none st)"
    using out by (auto simp: spec_def split: sum.split)
  ultimately have "spec (adds_none st) (then_do (case tc_turn event of
      Some turn \<Rightarrow> if ctl = Some INTERRUPT then fence_turn name turn else ret () | None \<Rightarrow> ret ()) (\<lambda>_ st.
      if ctl = Some INTERRUPT \<and> gr_pacers st name \<noteq> None then fence_outputs name (tc_turn event) st
      else if ctl = None then (case is_interrupted st name event of
        Inl e \<Rightarrow> (Inl e, st) | Inr b \<Rightarrow> (Inr (if b then FStop else FPass), st)) else (Inr FPass, st))) (adds_none st)"
    by (rule spec_then_do)
  from specD [OF this adds_none_refl] show ?thesis unfolding fence_control_edge_def Inr sum.case .
qed (simp add: fence_control_edge_def)

lemma fence_turn_clean:
  assumes "fence_turn target turn st = (Inr u, st')"
  shows "turn \<in> gr_interrupted_turns st' target" and "\<forall>item \<in> set (ib_queued (gr_inboxes st' target)). fenced_item turn item"
  using assms
  by (auto simp: fence_turn_def then_do_def modify_def lift_r_def fence_inbox_def fence_pending_def bind_r_Inr_iff fenced_item_def
      split: sum.splits option.splits if_splits dest!: filter_r_Inr)

lemma purge_pacer_clean:
  "all_outputs (\<lambda>out. \<not> oc_interrupted out (Some turn)) (pacer_queue (gr_pacers (purge_pacer target (Some turn) st) target))"
  by (auto simp: purge_pacer_def purge_def Let_def all_outputs_def split: option.splits)

lemma fence_silent:
  assumes fence: "fence_control_edge target event st = (Inr r, st')" and ctl: "tc_control_type event = Inr (Some INTERRUPT)"
    and turn: "tc_turn event = Some turn"
  shows "silent target turn st'"
proof -
  obtain u st1 where f: "fence_turn target turn st = (Inr u, st1)" and
    r: "(if gr_pacers st1 target \<noteq> None then fence_outputs target (Some turn) st1 else (Inr FPass, st1)) = (Inr r, st')"
    using fence by (cases "fence_turn target turn st") (auto simp: fence_control_edge_def ctl turn then_do_def split: sum.splits if_splits)
  note clean = fence_turn_clean [OF f]
  show ?thesis
  proof (cases "gr_pacers st1 target")
    case None
    then show ?thesis using clean r by (simp add: silent_def)
  next
    case (Some p)
    then have "st' = drop_unread target turn (purge_pacer target (Some turn) st1)"
      using r by (simp add: fence_outputs_def Let_def)
    moreover have "gr_interrupted_turns (purge_pacer target (Some turn) st1) = gr_interrupted_turns st1"
      "gr_inboxes (purge_pacer target (Some turn) st1) = gr_inboxes st1"
      by (simp_all add: purge_pacer_def split: option.splits prod.splits)
    ultimately show ?thesis using clean purge_pacer_clean [of turn target st1] by (simp add: silent_def drop_unread_def)
  qed
qed

subsection \<open>Controls\<close>

lemma adds_none_jobs: "adds_none st (set_job i job st)" "adds_none st (end_job i st)" "adds_none st (start_job job st)"
  by (simp_all add: adds_none_def set_job_def end_job_def start_job_def)

lemma adds_none_fail_graph: "adds_none st (fail_graph e st)" "adds_none st (begin_graph_close st)"
  by (simp_all add: adds_none_def fail_graph_def begin_graph_close_def)

lemma adds_none_fail_job: "adds_none st (fail_job i job e st)"
  using adds_none_jobs(2) adds_none_trans [OF adds_none_jobs(2) adds_none_fail_graph(1)] by (simp add: fail_job_def Let_def)

lemma adds_none_next_target: "adds_none st (next_target i job st)"
  using adds_none_jobs by (simp add: next_target_def)

lemma adds_none_sessions: "adds_none st (st\<lparr>gr_sessions := s\<rparr>)" "adds_none st (st\<lparr>gr_controls := c\<rparr>)"
  by (simp_all add: adds_none_def)

lemma adds_none_job_fence: "adds_none st (job_fence i job target st)"
proof -
  obtain r st1 where f: "fence_control_edge (fst target) (jb_event job) st = (r, st1)" by (meson surj_pair)
  then have "adds_none st st1" using adds_none_fence [of st "fst target" "jb_event job"] by simp
  from adds_none_trans [OF this adds_none_jobs(1)] adds_none_trans [OF this adds_none_fail_job]
    adds_none_trans [OF this adds_none_next_target]
  show ?thesis using f by (simp add: job_fence_def split: sum.split fenced.split)
qed

lemma adds_none_job_deliver: "adds_none st (job_deliver topology i job target st)"
  using adds_none_fail_job adds_none_trans [OF adds_none_sessions(1) adds_none_jobs(1)]
    adds_none_trans [OF adds_none_sessions(1) adds_none_fail_job]
  by (simp add: job_deliver_def Let_def split: option.split sum.split prod.split)

lemma adds_none_job_go: "adds_none st (job_go i job target barrier ids st)"
  using adds_none_trans [OF adds_none_sessions(2) adds_none_jobs(1)] by (simp add: job_go_def split: option.split)

lemma adds_none_job_sent: "adds_none st (job_sent i job target barrier failed st)"
  using adds_none_trans [OF adds_none_sessions(1) adds_none_next_target] adds_none_trans [OF adds_none_sessions(1) adds_none_fail_job]
  by (simp add: job_sent_def end_barrier_def Let_def split: option.split)

lemma silent_put_then:
  assumes "silent target turn st" and "put_graph_inbox reader source chunk st = (r, st1)" and "adds_none st1 st'"
  shows "silent target turn st'"
  using silent_adds_none [OF assms(3)] silent_put [OF assms(1), of reader source chunk] assms(2) by simp

lemma silent_job_report:
  assumes "silent target turn st"
  shows "silent target turn (job_report i job tgt readers report st)"
proof (cases readers)
  case (Cons reader rest)
  obtain r st1 where p: "put_graph_inbox reader (fst tgt) report st = (r, st1)" by (meson surj_pair)
  note silent_put_then [OF assms p]
  from this [OF adds_none_fail_job] this [OF adds_none_jobs(1)] this [OF adds_none_refl]
  show ?thesis using Cons p by (simp add: job_report_def split: sum.split bool.split)
qed (use silent_adds_none [OF adds_none_jobs(1) assms] in \<open>simp add: job_report_def\<close>)

lemma silent_job: "silent target turn st \<Longrightarrow> silent target turn (job_round topology failed i st)"
  using silent_adds_none [OF adds_none_job_fence] silent_adds_none [OF adds_none_job_deliver] silent_adds_none [OF adds_none_job_go]
    silent_adds_none [OF adds_none_job_sent] silent_adds_none [OF adds_none_jobs(2)] silent_job_report
  by (simp add: job_round_def split: option.split list.split job_at.split)

subsection \<open>Routers\<close>

lemma adds_none_router: "adds_none st (set_router name rt st)" "adds_none st (fail_router name e st)"
  by (simp_all add: adds_none_def set_router_def fail_router_def end_router_def)

lemma adds_none_time: "adds_none st (snd (time_graph_output out st))"
  by (simp add: adds_none_def time_graph_output_def Let_def)

lemma adds_none_return: "adds_none st (return_node_turn_end name out st)"
  by (auto simp: adds_none_def return_node_turn_end_def split: option.splits sum.splits)

lemma adds_none_route_output: "adds_none st (route_output name rt out st)"
  using adds_none_router by (auto simp: route_output_def Let_def split: sum.splits bool.splits)

lemma adds_none_route_await: "adds_none st (route_await name rt out st)"
  using adds_none_router by (auto simp: route_await_def split: sum.splits option.splits)

lemma adds_none_route_fenced: "adds_none st (route_fenced name rt out fenced st)"
proof -
  define started where "started = (if fenced = [] then st else start_job
     \<lparr>jb_source = name, jb_event = output_as_chunk out, jb_preempt = False, jb_targets = fenced, jb_at = JDeliver\<rparr> st)"
  have 1: "adds_none st started" using adds_none_jobs(3) by (simp add: started_def)
  note r = adds_none_trans [OF 1 adds_none_router(1)] adds_none_trans [OF 1 adds_none_router(2)]
    adds_none_trans [OF adds_none_trans [OF 1 adds_none_time] adds_none_router(1)]
  show ?thesis using r unfolding route_fenced_def Let_def started_def [symmetric]
    by (auto split: sum.split prod.split) (metis snd_conv)+
qed

lemma adds_none_route_fence: "adds_none st (route_fence name rt out targets fenced st)"
proof (cases targets)
  case (Cons target rest)
  obtain r st1 where f: "fence_control_edge (fst target) (output_as_chunk out) st = (r, st1)" by (meson surj_pair)
  then have "adds_none st st1" using adds_none_fence [of st "fst target" "output_as_chunk out"] by simp
  from adds_none_trans [OF this adds_none_router(1)] adds_none_trans [OF this adds_none_router(2)]
  show ?thesis using f Cons by (simp add: route_fence_def split: sum.split fenced.split)
qed (use adds_none_route_fenced in \<open>simp add: route_fence_def\<close>)

lemma silent_route_report:
  assumes "silent target turn st"
  shows "silent target turn (route_report name rt out tgt readers report rest fenced st)"
proof (cases readers)
  case (Cons reader readers')
  obtain r st1 where p: "put_graph_inbox reader (fst tgt) report st = (r, st1)" by (meson surj_pair)
  note silent_put_then [OF assms p]
  from this [OF adds_none_router(2)] this [OF adds_none_router(1)] this [OF adds_none_refl]
  show ?thesis using Cons p by (simp add: route_report_def split: sum.split bool.split)
qed (use silent_adds_none [OF adds_none_router(1) assms] in \<open>simp add: route_report_def\<close>)

lemma silent_route_input_done: "silent target turn st \<Longrightarrow> silent target turn (route_input_done packo name out st)"
proof -
  assume silent: "silent target turn st"
  have "silent target turn (snd (confirm_graph_input packo name chunk (st\<lparr>gr_client_sequences := cs\<rparr>)))" for chunk cs
    by (rule silent_confirm [OF silent_adds_none [OF adds_none_sequences silent]])
  then have "silent target turn st1" if "confirm_graph_input packo name chunk (st\<lparr>gr_client_sequences := cs\<rparr>) = (r, st1)" for chunk cs r st1
    using that by (metis snd_conv)
  then show ?thesis using silent
    by (auto simp: route_input_done_def split: option.split sum.split prod.split intro: silent_adds_none [OF adds_none_router(2)])
qed

lemma silent_route_take: "silent target turn st \<Longrightarrow> silent target turn (route_take packo name rt st)"
  using silent_adds_none [OF adds_none_sessions(1)] silent_route_input_done
    silent_adds_none [OF adds_none_trans [OF adds_none_sessions(1) adds_none_route_output]]
  by (auto simp: route_take_def Let_def split: option.split list.split)

lemma not_interrupted_output:
  assumes "is_interrupted st name (output_as_chunk out) = Inr False" and "turn \<in> gr_interrupted_turns st name"
  shows "\<not> oc_interrupted out (Some turn)"
  using assms by (auto simp: is_interrupted_def interrupted_reply_def output_as_chunk_def is_interrupted_reply_def control_of_def
      bind_r_def split: option.splits sum.splits if_splits)

lemma offer_items:
  assumes "offer out sz p = Inr (dropped, q)"
  shows "set (pacer_queue (Some q)) \<subseteq> insert (out, sz) (set (pacer_queue (Some p)))"
  using assms by (auto simp: offer_def bind_r_Inr_iff purge_def Let_def split: if_splits)

lemma silent_put_output:
  assumes "silent target turn st" and "name = target \<Longrightarrow> gr_pacers st target \<noteq> None \<Longrightarrow> \<not> is_unread_reply target turn (out, sz, name)"
  shows "silent target turn (put_output out sz name st)"
  using assms by (auto simp: silent_def put_output_def is_unread_reply_def)

lemma adds_none_reserve: "adds_none st (snd (reserve_graph_output packo out st))"
  by (simp add: adds_none_def reserve_graph_output_def Let_def)

lemma adds_none_number: "adds_none st (snd (number_output out st))"
  by (simp add: adds_none_def number_output_def track_turn_def Let_def)

lemma silent_pacer:
  assumes "silent target turn st" and "gr_pacers st name = Some p"
    and "name = target \<Longrightarrow> all_outputs (\<lambda>out. \<not> oc_interrupted out (Some turn)) (pacer_queue (Some q))"
  shows "silent target turn (st\<lparr>gr_pacers := (gr_pacers st)(name := Some q)\<rparr>)"
  using assms by (auto simp: silent_def)

lemma silent_route_publish:
  assumes silent: "silent target turn st" and not: "is_interrupted st name (output_as_chunk out) = Inr False"
  shows "silent target turn (route_publish packo name rt out st)"
proof -
  obtain r st1 where r: "reserve_graph_output packo out st = (r, st1)" by (meson surj_pair)
  then have 1: "silent target turn st1" and same: "gr_interrupted_turns st1 = gr_interrupted_turns st" "gr_pacers st1 = gr_pacers st"
    using silent_adds_none [OF adds_none_reserve silent, of packo out] by (auto simp: reserve_graph_output_def Let_def split: if_splits)
  have out: "name = target \<Longrightarrow> \<not> oc_interrupted out (Some turn)"
    using not_interrupted_output [OF not] silent by (auto simp: silent_def)
  have paced: "silent target turn (st1\<lparr>gr_output_bytes := b, gr_pacers := (gr_pacers st1)(name := Some q)\<rparr>)"
    if "gr_pacers st1 name = Some p" "offer out sz p = Inr (dropped, q)" for p q b sz dropped
  proof -
    have "silent target turn (st1\<lparr>gr_output_bytes := b\<rparr>)" by (rule silent_adds_none [OF adds_none_fields 1]) simp_all
    from silent_pacer [OF this, of name p q] that out show ?thesis
      using 1 subsetD [OF offer_items [OF that(2)]] unfolding silent_def all_outputs_def by fastforce
  qed
  obtain published st2 where n: "number_output out st1 = (published, st2)" by (meson surj_pair)
  have 2: "silent target turn st2" "gr_pacers st2 = gr_pacers st1"
    using silent_adds_none [OF adds_none_number 1, of out] n by (auto simp: number_output_def Let_def track_turn_def)
  have "silent target turn (put_output published sz name st2)" if "gr_pacers st1 name = None" for sz
    using that 2 by (intro silent_put_output) auto
  then show ?thesis using r n 1 2 paced
    by (auto simp: route_publish_def split: sum.split option.split
        intro: silent_adds_none [OF adds_none_router(1)] silent_adds_none [OF adds_none_router(2)] silent_adds_none [OF adds_none_return])
qed

lemma silent_route_read: "silent target turn st \<Longrightarrow> silent target turn (route_read packo name rt out readers st)"
proof (cases readers)
  case Nil
  assume silent: "silent target turn st"
  show ?thesis using Nil silent_route_publish [OF silent] silent_adds_none [OF adds_none_router(1) silent]
      silent_adds_none [OF adds_none_router(2) silent]
    by (simp add: route_read_def Let_def split: sum.split bool.split)
next
  case (Cons reader readers')
  assume silent: "silent target turn st"
  obtain r st1 where p: "put_graph_inbox reader name (output_as_chunk out) st = (r, st1)" by (meson surj_pair)
  note silent_put_then [OF silent p]
  from this [OF adds_none_router(2)] this [OF adds_none_router(1)] this [OF adds_none_refl]
  show ?thesis using Cons p by (simp add: route_read_def Let_def split: sum.split bool.split)
qed

lemma silent_route_put:
  assumes "silent target turn st" and "gr_pacers st name = None"
  shows "silent target turn (route_put name rt out published sz st)"
proof -
  have "silent target turn (put_output published sz name st)" using assms by (intro silent_put_output) auto
  then show ?thesis using assms(1)
    by (auto simp: route_put_def intro: silent_adds_none [OF adds_none_router(1)] silent_adds_none [OF adds_none_return])
qed

lemma silent_route:
  assumes "silent target turn st" and "graph_ok st"
  shows "silent target turn (route_graph_outputs packo name st)"
proof -
  have "gr_pacers st name = None" if "gr_routers st name = Some rt" "rt_at rt = RPublish out published sz" for rt out published sz
    using that assms(2) unfolding graph_inv_def names_ok_def by force
  then show ?thesis using assms(1) silent_route_take silent_route_put silent_route_report silent_route_read
      silent_adds_none [OF adds_none_route_await] silent_adds_none [OF adds_none_route_fence]
    by (simp add: route_graph_outputs_def split: option.split router_at.split)
qed

subsection \<open>Pacers and the close\<close>

lemma adds_none_paced: "adds_none st (set_paced name point st)" "adds_none st (fail_paced name e st)"
  by (simp_all add: adds_none_def set_paced_def fail_paced_def)

lemma silent_pacer_queue:
  "silent target turn st \<Longrightarrow> gr_pacers st target = Some p \<Longrightarrow>
   all_outputs (\<lambda>out. \<not> oc_interrupted out (Some turn)) (dp_items p) \<and> all_outputs (\<lambda>out. \<not> oc_interrupted out (Some turn)) (dp_unsent p)"
  by (auto simp: silent_def)

lemma silent_paced_release:
  assumes "silent target turn st" and "gr_pacers st name = Some p"
  shows "silent target turn (paced_release packo now name p st)"
proof -
  have "silent target turn (st\<lparr>gr_pacers := (gr_pacers st)(name := Some (q\<lparr>dp_unsent := dp_unsent q @ released\<rparr>))\<rparr>)"
    if "release packo now p = Inr (q, released)" for q released
    using silent_pacer_queue [OF assms(1)] assms(2) release_of [OF interrupted_of_audio _ that, of "Some turn"]
    by (intro silent_pacer [OF assms]) simp
  then show ?thesis using assms(1)
    by (auto simp: paced_release_def split: sum.split intro: silent_adds_none [OF adds_none_paced(1)] silent_adds_none [OF adds_none_paced(2)])
qed

lemma silent_paced_send:
  assumes silent: "silent target turn st" and p: "gr_pacers st name = Some p"
  shows "silent target turn (paced_send name p st)"
proof (cases "dp_unsent p")
  case (Cons item rest)
  obtain out sz where item: "item = (out, sz)" by (cases item)
  let ?st = "st\<lparr>gr_pacers := (gr_pacers st)(name := Some (p\<lparr>dp_unsent := rest\<rparr>))\<rparr>"
  have 1: "silent target turn ?st" and out: "name = target \<Longrightarrow> \<not> oc_interrupted out (Some turn)"
    using silent_pacer_queue [OF silent] p Cons item by (auto intro: silent_pacer [OF assms])
  obtain published st2 where n: "number_output out ?st = (published, st2)" by (meson surj_pair)
  have 2: "silent target turn st2" "oc_turn published = oc_turn out" "oc_control published = oc_control out"
    using silent_adds_none [OF adds_none_number 1, of out] n by (auto simp: number_output_def Let_def)
  have 3: "silent target turn (put_output published sz name st2)"
    using out 2(2,3) by (intro silent_put_output [OF 2(1)]) (auto simp: is_unread_reply_def is_interrupted_reply_def)
  have "silent target turn (?st\<lparr>gr_output_bytes := b\<rparr>)" for b by (rule silent_adds_none [OF adds_none_fields 1]) simp_all
  with 3 show ?thesis using silent Cons item n
    by (auto simp: paced_send_def Let_def intro: silent_adds_none [OF adds_none_paced(1)])
qed (use silent_adds_none [OF adds_none_paced(1) silent] in \<open>simp add: paced_send_def\<close>)

lemma silent_paced_tell:
  assumes "silent target turn st"
  shows "silent target turn (paced_tell name out readers st)"
proof (cases readers)
  case (Cons reader readers')
  obtain r st1 where p: "put_graph_inbox reader name (output_as_chunk out) st = (r, st1)" by (meson surj_pair)
  note silent_put_then [OF assms p]
  from this [OF adds_none_paced(2)] this [OF adds_none_paced(1)] this [OF adds_none_refl]
  show ?thesis using Cons p by (simp add: paced_tell_def split: sum.split bool.split)
qed (use silent_adds_none [OF adds_none_trans [OF adds_none_return adds_none_paced(1)] assms] in \<open>simp add: paced_tell_def\<close>)

lemma silent_paced: "silent target turn st \<Longrightarrow> silent target turn (deliver_paced_outputs packo now name st)"
  using silent_paced_release silent_paced_send silent_paced_tell
  by (simp add: deliver_paced_outputs_def split: option.split pacer_at.split)

lemma adds_none_take: "adds_none st (take_graph_output st)"
proof -
  have "pacer_queue (map_option (sent out) p) = pacer_queue p" for out p by (cases p) (simp_all add: sent_def Let_def)
  then show ?thesis by (auto simp: adds_none_def take_graph_output_def split: list.split)
qed

lemma silent_drain: "silent target turn st \<Longrightarrow> silent target turn (drain_graph packo expired drain st)"
proof -
  assume silent: "silent target turn st"
  let ?ended = "st\<lparr>gr_drains := remove1 drain (gr_drains st)\<rparr>"
  have ended: "silent target turn ?ended" by (rule silent_adds_none [OF adds_none_fields silent]) simp_all
  obtain r st1 where e: "emit_graph_input_done packo (fst drain) (snd drain) ?ended = (r, st1)" by (meson surj_pair)
  with silent_emit [OF ended, of packo "fst drain" "snd drain"] have "silent target turn st1" by simp
  with ended silent e show ?thesis
    by (auto simp: drain_graph_def Let_def split: sum.split bool.split intro: silent_adds_none [OF adds_none_fail_graph(1)])
qed

lemma adds_none_close:
  "adds_none st (task_done st)" "adds_none st (close_start st)" "adds_none st (stop_forwarders st)" "adds_none st (route_end name st)"
  "adds_none st (graph_consumer_end st)" "adds_none st (close_node outcome st)" "adds_none st (finish_close st)"
  by (auto simp: adds_none_def task_done_def close_start_def stop_forwarders_def route_end_def fail_router_def end_router_def fail_graph_def
      begin_graph_close_def graph_consumer_end_def close_node_def finish_close_def Let_def
      split: option.split list.split close_at.split)

lemma silent_step:
  assumes "graph_step packb packo unpackb st st'" and silent: "silent target turn st" and ok: "graph_ok st"
  shows "silent target turn st'"
  using assms(1)
proof cases
  case consumer
  then have "adds_none st st'" by (auto simp: graph_consumer_start_def adds_none_def split: if_splits)
  then show ?thesis using silent by (rule silent_adds_none)
next
  case (control event stages should_preempt)
  then have "adds_none st st'" using adds_none_jobs(3) by (auto simp: control_graph_def bind_r_Inr_iff split: if_splits)
  then show ?thesis using silent by (rule silent_adds_none)
next
  case forward
  then show ?thesis using silent_adds_none [OF adds_none_forward silent] by simp
next
  case (node name node node')
  then show ?thesis using silent_adds_none [OF adds_none_sessions(1) silent] by simp
qed (use silent ok silent_append silent_job silent_route silent_paced silent_drain silent_adds_none [OF adds_none_take silent]
    silent_adds_none [OF adds_none_fail_graph(2) silent] adds_none_close [THEN silent_adds_none, OF silent] in \<open>simp_all\<close>)

section \<open>Property\<close>

text \<open>
  A step that fences a target for a control without raising: a round of a control of the client, or of the router
  of the node that sent it.
\<close>

definition fences :: "(output_chunk \<Rightarrow> byte list) \<Rightarrow> string \<Rightarrow> timed_chunk \<Rightarrow> graph \<Rightarrow> graph \<Rightarrow> bool" where
  "fences packo target event st st' \<longleftrightarrow>
     (\<exists>r. fst (fence_control_edge target event st) = Inr r) \<and>
     ((\<exists>topology failed i job edge rest. dict_get (gr_jobs st) i = Some job \<and> jb_at job = JFence \<and>
         jb_targets job = (target, edge) # rest \<and> jb_event job = event \<and> st' = job_round topology failed i st) \<or>
      (\<exists>name rt out edge rest earlier. gr_routers st name = Some rt \<and> rt_at rt = RFence out ((target, edge) # rest) earlier \<and>
         output_as_chunk out = event \<and> st' = route_graph_outputs packo name st))"

lemma fences_adds_none:
  assumes "fences packo target event st st'"
  shows "adds_none (snd (fence_control_edge target event st)) st'"
proof -
  obtain r where r: "fence_control_edge target event st = (Inr r, snd (fence_control_edge target event st))"
    using assms by (auto simp: fences_def prod_eq_iff)
  show ?thesis
  proof (cases rule: disjE [OF conjunct2 [OF assms [unfolded fences_def]]])
    case 1
    then show ?thesis using r adds_none_jobs(1) adds_none_next_target
      by (auto simp: job_round_def job_fence_def split: prod.split sum.split fenced.split)
  next
    case 2
    then show ?thesis using r adds_none_router(1)
      by (auto simp: route_graph_outputs_def route_fence_def split: prod.split sum.split fenced.split)
  qed
qed

text \<open>
  C20. An interrupt silences its turn for good. Once a node has been fenced for an interrupt of a turn, the client's
  or another node's, then in every state that follows no chunk of that turn from another node waits for it
  (other than the controls about the interruption), its pacer holds none, and when its outputs are paced the
  client's queue holds no reply data of that turn from it, whatever the nodes still produce.
\<close>

theorem interrupt_silences_turn:
  assumes "\<And>c c'. unpackb (packb c) = Inr c' \<Longrightarrow> tc_seq c' = tc_seq c" and "graph_initial st0"
    and "(graph_step packb packo unpackb)\<^sup>*\<^sup>* st0 st"
    and "tc_control_type event = Inr (Some INTERRUPT)" and "tc_turn event = Some turn"
    and "fences packo target event st st1" and "(graph_step packb packo unpackb)\<^sup>*\<^sup>* st1 st2"
  shows "(\<forall>(source, chunk, _) \<in> set (ib_queued (gr_inboxes st2 target)).
      source \<noteq> GRAPH_INPUT \<longrightarrow> interrupted_reply chunk turn \<noteq> Inr True) \<and>
    (\<forall>p. gr_pacers st2 target = Some p \<longrightarrow>
      (\<forall>(out, _) \<in> set (dp_items p @ dp_unsent p). \<not> oc_interrupted out (Some turn)) \<and>
      (\<forall>(out, _, name) \<in> set (gr_outputs st2). \<not> (name = target \<and> oc_turn out = Some turn \<and> oc_control out = None)))"
proof -
  have codec: "codec_ok packb unpackb" using assms(1) by (auto simp: codec_ok_def)
  have ok: "graph_ok st" by (rule graph_reachable [OF codec assms(2,3)])
  obtain r where "fence_control_edge target event st = (Inr r, snd (fence_control_edge target event st))"
    using assms(6) by (auto simp: fences_def prod_eq_iff)
  from fence_silent [OF this assms(4,5)] have "silent target turn st1"
    by (rule silent_adds_none [OF fences_adds_none [OF assms(6)]])
  moreover have "graph_ok st1" using assms(6) job_round_ok [OF ok] route_ok [OF ok] by (auto simp: fences_def)
  ultimately have "silent target turn st2 \<and> graph_ok st2"
    using assms(7) by (induction rule: rtranclp_induct [OF assms(7)]) (blast intro: silent_step graph_step_ok [OF _ codec])+
  then have "silent target turn st2" ..
  then show ?thesis unfolding silent_def fenced_item_def all_outputs_def is_unread_reply_def
    by (simp add: split_beta) blast
qed

text \<open>The node that speaks has a chunk of turn 1 in its pacer when the client interrupts that turn.\<close>

definition demo_voice :: timed_chunk where
  "demo_voice = (demo_input 0)\<lparr>tc_format := Some PCM16, tc_duration_ms := 40, tc_turn := Some 1\<rparr>"

definition demo_barge :: timed_chunk where
  "demo_barge = demo_interrupt\<lparr>tc_turn := Some 1\<rparr>"

definition demo_tts :: session where
  "demo_tts = (case gr_sessions demo_graph0 ''tts'' of Some node \<Rightarrow> node)"

definition demo_speaks :: session where
  "demo_speaks = (case emit_session_output (\<lambda>_. [0]) 0 demo_voice KData demo_tts of Inr node \<Rightarrow> node)"

definition demo_paced :: graph where
  "demo_paced = (let route = route_graph_outputs (\<lambda>_. [0]) ''tts''
     in route (route (route (demo_graph0\<lparr>gr_sessions := (gr_sessions demo_graph0)(''tts'' := Some demo_speaks)\<rparr>))))"

definition demo_asked :: graph where
  "demo_asked = (case control_graph demo_barge None False demo_paced of Inr st \<Rightarrow> st)"

lemma demo_asked_reach: "demo_graph_step\<^sup>*\<^sup>* demo_graph0 demo_asked"
proof -
  have "case emit_session_output (\<lambda>_. [0]) 0 demo_voice KData demo_tts of Inl _ \<Rightarrow> False | Inr node \<Rightarrow>
      se_next_input node = se_next_input demo_tts \<and> se_delivered node = se_delivered demo_tts" by code_simp
  then have speaks: "session_step demo_encode (\<lambda>_. [0]) demo_decode demo_tts demo_speaks"
    "se_next_input demo_speaks = se_next_input demo_tts" "se_delivered demo_speaks = se_delivered demo_tts"
    by (auto simp: demo_speaks_def intro: session_step.emit split: sum.splits)
  have "case gr_sessions demo_graph0 ''tts'' of None \<Rightarrow> False | Some _ \<Rightarrow> True" by code_simp
  then have "gr_sessions demo_graph0 ''tts'' = Some demo_tts" by (auto simp: demo_tts_def split: option.splits)
  from graph_step.node [OF this speaks]
  have "demo_graph_step\<^sup>*\<^sup>* demo_graph0 (demo_graph0\<lparr>gr_sessions := (gr_sessions demo_graph0)(''tts'' := Some demo_speaks)\<rparr>)" by simp
  then have "demo_graph_step\<^sup>*\<^sup>* demo_graph0 demo_paced" unfolding demo_paced_def Let_def
    by (meson graph_step.route rtranclp.rtrancl_into_rtrancl)
  moreover have "case control_graph demo_barge None False demo_paced of Inl _ \<Rightarrow> False | Inr _ \<Rightarrow> True" by code_simp
  then have "control_graph demo_barge None False demo_paced = Inr demo_asked" by (auto simp: demo_asked_def split: sum.splits)
  ultimately show ?thesis by (meson graph_step.control rtranclp.rtrancl_into_rtrancl)
qed

theorem interrupt_silences_turn_witness:
  "length (filter (\<lambda>(out, _). oc_interrupted out (Some 1)) (pacer_queue (gr_pacers demo_asked ''tts''))) = 1 \<and>
   filter (\<lambda>(out, _). oc_interrupted out (Some 1)) (pacer_queue (gr_pacers (job_round [] None 0 demo_asked) ''tts'')) = []"
proof -
  let ?fenced = "job_round [] None 0 demo_asked"
  have fence: "case fst (fence_control_edge ''tts'' demo_barge demo_asked) of Inl _ \<Rightarrow> False | Inr _ \<Rightarrow> True" by code_simp
  have "case dict_get (gr_jobs demo_asked) 0 of None \<Rightarrow> False | Some job \<Rightarrow> jb_at job = JFence \<and>
      map fst (jb_targets job) = [''tts''] \<and> jb_event job = demo_barge" by code_simp
  then have "fences (\<lambda>_. [0]) ''tts'' demo_barge demo_asked ?fenced"
    using fence by (fastforce simp: fences_def split: option.splits sum.splits)
  moreover have "tc_control_type demo_barge = Inr (Some INTERRUPT)" "tc_turn demo_barge = Some 1" by code_simp+
  ultimately have "\<forall>p. gr_pacers ?fenced ''tts'' = Some p \<longrightarrow> (\<forall>(out, _) \<in> set (dp_items p @ dp_unsent p). \<not> oc_interrupted out (Some 1))"
    using interrupt_silences_turn [OF demo_codec demo_graph_initial demo_asked_reach _ _ _ rtranclp.rtrancl_refl] by blast
  then have "filter (\<lambda>(out, _). oc_interrupted out (Some 1)) (pacer_queue (gr_pacers ?fenced ''tts'')) = []"
    by (cases "gr_pacers ?fenced ''tts''") (auto simp: filter_empty_conv)
  moreover have "length (filter (\<lambda>(out, _). oc_interrupted out (Some 1)) (pacer_queue (gr_pacers demo_asked ''tts''))) = 1" by code_simp
  ultimately show ?thesis by blast
qed

end
