(* ===== verification/Stage_Receive.thy ===== *)
theory Stage_Receive
  imports Stream_Queue Fan_In Topology
begin

text \<open>
  The receiving half of a stage, \<^verbatim>\<open>sglang_omni/pipeline/stage/runtime.py\<close>: payloads, stream chunks and stream
  signals arrive over several transports, are read concurrently and reach the scheduler's inbox; aborts, failures
  and session controls come in between.

  A receive task is its program point: \<open>receive_round\<close> runs it from one \<open>await\<close> to the next. What an await
  brings back (a transport's read, the error of a send) is an argument. The futures that chain the tasks of a
  lane are named by the number of the arrival that made them. A set whose iteration order matters is a list
  without repetitions, and the order is an argument. Trace events and log messages are left out.
\<close>

section \<open>Messages\<close>

datatype stage_role = Single | Leader | Follower

record session_op =
  so_operation :: string
  so_stages :: "string list"
  so_preempted_request_ids :: "string list"

record 'd stage_payload_of =
  pl_request_id :: string
  pl_session :: "session_op option"
  pl_data :: 'd

type_synonym 'd chunk_data = "'d \<times> (string, 'd) dict option"

text \<open>
  Where the data of a message is: nowhere, behind a reference that does not parse, in the message itself for a
  direct CUDA IPC transfer (with what deserialising it gives), or behind a relay: whether it holds KV pages, and
  the error of finding the relay, if any.
\<close>

datatype 'd data_ref =
    NoRef | BadRef error | IpcPayload "'d stage_payload_of result" | IpcChunk "'d chunk_data result"
  | RelayRef bool "error option"

type_synonym bindings = "(string, int) dict"

record 'd data_ready =
  dr_request_id :: string
  dr_from_stage :: string
  dr_data_ref :: "'d data_ref"
  dr_chunk_id :: "int option"
  dr_is_done :: bool
  dr_error :: "string option"
  dr_replica_bindings :: "bindings option"

record 'd batched_chunk =
  bc_request_id :: string
  bc_chunk_id :: int
  bc_data :: "'d chunk_data"

text \<open>A batch of chunks as it is unpacked, or the error of unpacking it with the requests it names.\<close>

record 'd chunk_batch =
  cb_from_stage :: string
  cb_request_ids :: "string list"
  cb_chunks :: "'d batched_chunk list result"
  cb_replica_bindings :: "(string, bindings) dict"

datatype 'd incoming = NewRequest "'d stage_payload_of" | StreamChunk "'d stream_item" | StreamDone

section \<open>Receive tasks\<close>

type_synonym lane = "string \<times> string"

datatype 'd receive_job =
    OnData "'d data_ready"
  | OnChunk "'d data_ready"
  | OnSignal "'d data_ready"
  | OnBatched string "'d batched_chunk"
  | OnBatchFailed string string error

text \<open>What a task brings to its turn in the lane.\<close>

datatype 'd in_hand =
    HPayload "'d stage_payload_of option"
  | HChunk "'d chunk_data"
  | HSignal
  | HFailure string
  | HError error

text \<open>
  Where a task is: not begun; reading from a relay (to discard it, when the request is aborted); sending the
  acknowledgement of a read (with the cleanup that follows it, if any); behind its predecessor; sending a failure; forwarding a session's payload; ending,
  with the error it raised if any.
\<close>

datatype 'd receive_at =
    AtStart
  | AtRead bool
  | AtAck bool "'d in_hand option"
  | AtTurn "'d in_hand"
  | AtFailure
  | AtForward "'d stage_payload_of"
  | AtEnd "error option"

record 'd receive_task =
  rv_lane :: lane
  rv_job :: "'d receive_job"
  rv_predecessor :: "nat option"
  rv_arrival :: nat
  rv_at :: "'d receive_at"

section \<open>The stage\<close>

text \<open>What the constructor fixes, with the input handler's operations.\<close>

record ('d, 'h) stage_config_of =
  sv_name :: string
  sv_role :: stage_role
  sv_stream_targets :: "string list"
  sv_same_process_targets :: "string list"
  sv_endpoints :: "string list"
  sv_topology :: replica_topology
  sv_can_accept_stream_before_payload :: bool
  sv_has_tp_fanout :: bool
  sv_requires_tp_work_fanout :: bool
  sv_receive :: "string \<Rightarrow> string \<Rightarrow> 'd stage_payload_of \<Rightarrow> 'h \<Rightarrow> 'd stage_payload_of option result \<times> 'h"
  sv_cancel :: "string \<Rightarrow> 'h \<Rightarrow> 'h"
  sv_set_order :: "string list \<Rightarrow> string list"

text \<open>
  A call into the stage that is not a receive task of a lane: the main loop's, or that of a stage in the same
  process, which hands over chunks one after the other.
\<close>

record 'd call =
  cl_request_id :: string
  cl_at :: "'d receive_at"
  cl_from_stage :: string
  cl_rest :: "'d batched_chunk list"

text \<open>
  The last fields record what the stage did: the messages put into the scheduler's inbox, with the lane and
  arrival that brought them, the requests it aborted in the scheduler, the cleanups of its transports, the
  acknowledgements, the failures it reported, the session payloads it forwarded and the work it handed to its TP followers.
\<close>

record 'd inbox_entry =
  ie_origin :: "(lane \<times> nat) option"
  ie_request_id :: string
  ie_message :: "'d incoming"

record ('d, 'h) stage =
  sr_running :: bool
  sr_aborted :: "string list"
  sr_active_requests :: "string set"
  sr_stream_queue :: "'d stream_queue option"
  sr_stream_chunk_counters :: "(string \<times> string, int) dict"
  sr_first_stream_chunk_seen :: "string set"
  sr_local_stream_targets :: "string \<Rightarrow> string set"
  sr_nonlocal_stream_targets :: "string \<Rightarrow> string set"
  sr_replica_bindings :: "(string, bindings) dict"
  sr_handler :: 'h
  sr_lane_tails :: "(lane, nat) dict"
  sr_tasks :: "'d receive_task list"
  sr_done :: "nat set"
  sr_calls :: "'d call list"
  sr_next_arrival :: nat
  sr_background_task_error :: "error option"
  sr_inbox :: "'d inbox_entry list"
  sr_scheduler_aborts :: "string list"
  sr_cleanups :: "string list"
  sr_acks :: "(string \<times> string \<times> bool) list"
  sr_failures :: "(string \<times> string) list"
  sr_forwarded :: "(string \<times> 'd stage_payload_of) list"
  sr_fanned_out :: "'d stage_payload_of list"

abbreviation owns_external_io :: "('d, 'h) stage_config_of \<Rightarrow> bool" where
  "owns_external_io sv \<equiv> sv_role sv \<noteq> Follower"

definition stage_init :: "'h \<Rightarrow> bool \<Rightarrow> ('d, 'h) stage" where
  "stage_init handler has_stream_queue =
     \<lparr>sr_running = True, sr_aborted = [], sr_active_requests = {},
      sr_stream_queue = (if has_stream_queue then Some stream_queue_init else None),
      sr_stream_chunk_counters = [], sr_first_stream_chunk_seen = {}, sr_local_stream_targets = (\<lambda>_. {}),
      sr_nonlocal_stream_targets = (\<lambda>_. {}), sr_replica_bindings = [], sr_handler = handler, sr_lane_tails = [],
      sr_tasks = [], sr_done = {}, sr_calls = [], sr_next_arrival = 0, sr_background_task_error = None, sr_inbox = [],
      sr_scheduler_aborts = [], sr_cleanups = [], sr_acks = [], sr_failures = [], sr_forwarded = [], sr_fanned_out = []\<rparr>"

section \<open>Request state\<close>

definition record_replica_bindings :: "string \<Rightarrow> bindings option \<Rightarrow> ('d, 'h) stage \<Rightarrow> ('d, 'h) stage" where
  "record_replica_bindings r bindings st =
     (case bindings of
        None \<Rightarrow> st
      | Some b \<Rightarrow>
          if b = [] \<or> r \<in> set (sr_aborted st) \<or> dict_has (sr_replica_bindings st) r then st
          else st\<lparr>sr_replica_bindings := dict_set r b (sr_replica_bindings st)\<rparr>)"

definition logical_source :: "('d, 'h) stage_config_of \<Rightarrow> string \<Rightarrow> string" where
  "logical_source sv from_stage = rt_logical_name (sv_topology sv) from_stage"

definition resolve_target_instance :: "('d, 'h) stage_config_of \<Rightarrow> string \<Rightarrow> string \<Rightarrow> ('d, 'h) stage \<Rightarrow> string result" where
  "resolve_target_instance sv r target st =
     (if \<not> rt_is_replicated (sv_topology sv) target then Inr target
      else case dict_get (sr_replica_bindings st) r of
             None \<Rightarrow> Inl (RuntimeError ''no replica binding for target'')
           | Some b \<Rightarrow>
               (case dict_get b target of
                  None \<Rightarrow> Inl (RuntimeError ''no replica binding for target'')
                | Some replica_id \<Rightarrow> rt_resolve (sv_topology sv) target replica_id))"

definition record_bounded_request_id :: "(string list \<Rightarrow> string list) \<Rightarrow> string list \<Rightarrow> string \<Rightarrow> string list" where
  "record_bounded_request_id set_order ids r =
     (let ids = List.insert r ids
      in if length ids > 10000
         then let excess = length ids - 5000; to_remove = take excess (set_order ids)
              in filter (\<lambda>x. x \<notin> set to_remove) ids
         else ids)"

definition record_aborted_request_id :: "('d, 'h) stage_config_of \<Rightarrow> string \<Rightarrow> ('d, 'h) stage \<Rightarrow> ('d, 'h) stage" where
  "record_aborted_request_id sv r st =
     st\<lparr>sr_aborted := record_bounded_request_id (sv_set_order sv) (sr_aborted st) r\<rparr>"

definition clear_request_state :: "('d, 'h) stage_config_of \<Rightarrow> bool \<Rightarrow> string \<Rightarrow> ('d, 'h) stage \<Rightarrow> ('d, 'h) stage" where
  "clear_request_state sv keep_replica_bindings r st =
     st\<lparr>sr_active_requests := sr_active_requests st - {r},
        sr_handler := sv_cancel sv r (sr_handler st),
        sr_stream_queue := map_option (sq_close (sv_set_order sv) r) (sr_stream_queue st),
        sr_stream_chunk_counters := filter (\<lambda>((r', _), _). r' \<noteq> r) (sr_stream_chunk_counters st),
        sr_first_stream_chunk_seen := sr_first_stream_chunk_seen st - {r},
        sr_local_stream_targets := (sr_local_stream_targets st)(r := {}),
        sr_nonlocal_stream_targets := (sr_nonlocal_stream_targets st)(r := {}),
        sr_replica_bindings := (if keep_replica_bindings then sr_replica_bindings st
                                else dict_del r (sr_replica_bindings st))\<rparr>"

definition scheduler_abort :: "string \<Rightarrow> ('d, 'h) stage \<Rightarrow> ('d, 'h) stage" where
  "scheduler_abort r st = st\<lparr>sr_scheduler_aborts := sr_scheduler_aborts st @ [r]\<rparr>"

definition comm_cleanup :: "string \<Rightarrow> ('d, 'h) stage \<Rightarrow> ('d, 'h) stage" where
  "comm_cleanup r st = st\<lparr>sr_cleanups := sr_cleanups st @ [r]\<rparr>"

definition on_abort :: "('d, 'h) stage_config_of \<Rightarrow> string \<Rightarrow> ('d, 'h) stage \<Rightarrow> ('d, 'h) stage" where
  "on_abort sv r st =
     (let st = clear_request_state sv False r (comm_cleanup r (record_aborted_request_id sv r st))
      in if sv_role sv = Single \<or> \<not> sv_requires_tp_work_fanout sv then scheduler_abort r st else st)"

text \<open>\<open>send_failure\<close> up to its send; a follower raises instead. The end of the send clears the request's state.\<close>

definition send_failure ::
  "('d, 'h) stage_config_of \<Rightarrow> string \<Rightarrow> string \<Rightarrow> ('d, 'h) stage \<Rightarrow> 'd receive_at \<times> ('d, 'h) stage" where
  "send_failure sv r failure st =
     (let st = record_aborted_request_id sv r st
      in if owns_external_io sv then (AtFailure, st\<lparr>sr_failures := sr_failures st @ [(r, failure)]\<rparr>)
         else (AtEnd (Some (RuntimeError ''Follower stage failed'')), clear_request_state sv False r st))"

section \<open>Streams\<close>

definition open_pre_payload_stream_if_allowed ::
  "('d, 'h) stage_config_of \<Rightarrow> string \<Rightarrow> ('d, 'h) stage \<Rightarrow> bool \<times> ('d, 'h) stage" where
  "open_pre_payload_stream_if_allowed sv r st =
     (case sr_stream_queue st of
        None \<Rightarrow> (False, st)
      | Some q \<Rightarrow>
          if sq_has r q then (True, st)
          else if \<not> sv_can_accept_stream_before_payload sv then (False, st)
          else (True, st\<lparr>sr_active_requests := insert r (sr_active_requests st), sr_stream_queue := Some (sq_open r q)\<rparr>))"

definition put_inbox :: "(lane \<times> nat) option \<Rightarrow> string \<Rightarrow> 'd incoming \<Rightarrow> ('d, 'h) stage \<Rightarrow> ('d, 'h) stage" where
  "put_inbox origin r message st =
     st\<lparr>sr_inbox := sr_inbox st @ [\<lparr>ie_origin = origin, ie_request_id = r, ie_message = message\<rparr>]\<rparr>"

definition stream_item_from :: "string \<Rightarrow> int \<Rightarrow> 'd chunk_data \<Rightarrow> 'd stream_item" where
  "stream_item_from from_stage chunk_id data =
     \<lparr>si_chunk_id = chunk_id, si_data = fst data, si_from_stage = from_stage, si_metadata = snd data\<rparr>"

definition received_stream_item :: "('d, 'h) stage_config_of \<Rightarrow> string \<Rightarrow> 'd batched_chunk \<Rightarrow> 'd stream_item" where
  "received_stream_item sv from_stage chunk =
     stream_item_from (logical_source sv from_stage) (bc_chunk_id chunk) (bc_data chunk)"

definition route_stream_item :: "(lane \<times> nat) option \<Rightarrow> string \<Rightarrow> 'd stream_item \<Rightarrow> ('d, 'h) stage \<Rightarrow> ('d, 'h) stage" where
  "route_stream_item origin r item st = put_inbox origin r (StreamChunk item) st"

definition route_stream_item_or_fail ::
  "('d, 'h) stage_config_of \<Rightarrow> (lane \<times> nat) option \<Rightarrow> string \<Rightarrow> 'd stream_item \<Rightarrow> ('d, 'h) stage \<Rightarrow>
   'd receive_at \<times> ('d, 'h) stage" where
  "route_stream_item_or_fail sv origin r item st =
     (let item = item\<lparr>si_from_stage := logical_source sv (si_from_stage item)\<rparr>
      in case open_pre_payload_stream_if_allowed sv r st of
           (True, st) \<Rightarrow> (AtEnd None, route_stream_item origin r item st)
         | (False, st) \<Rightarrow> send_failure sv r ''stream chunk arrived before the request payload'' (scheduler_abort r st))"

definition queue_stream_error ::
  "('d, 'h) stage_config_of \<Rightarrow> string \<Rightarrow> string \<Rightarrow> ('d, 'h) stage \<Rightarrow> 'd receive_at \<times> ('d, 'h) stage" where
  "queue_stream_error sv r failure st =
     (if r \<in> set (sr_aborted st) then (AtEnd None, st) else send_failure sv r failure (scheduler_abort r st))"

definition receive_stream_signal ::
  "('d, 'h) stage_config_of \<Rightarrow> (lane \<times> nat) option \<Rightarrow> string \<Rightarrow> string \<Rightarrow> bool \<Rightarrow> string option \<Rightarrow> ('d, 'h) stage \<Rightarrow>
   'd receive_at \<times> ('d, 'h) stage" where
  "receive_stream_signal sv origin r from_stage is_done failure st =
     (if r \<in> set (sr_aborted st) then (AtEnd None, st)
      else
        let st = st\<lparr>sr_active_requests := insert r (sr_active_requests st)\<rparr>
        in case failure of
             Some (c # cs) \<Rightarrow> queue_stream_error sv r (c # cs) st
           | _ \<Rightarrow>
               if is_done then
                 (case open_pre_payload_stream_if_allowed sv r st of
                    (False, st) \<Rightarrow> send_failure sv r ''stream_done arrived before the request payload'' (scheduler_abort r st)
                  | (True, st) \<Rightarrow>
                      (AtEnd None, put_inbox origin r StreamDone
                         (st\<lparr>sr_stream_queue := map_option (put_done r (Some (logical_source sv from_stage))) (sr_stream_queue st)\<rparr>)))
               else (AtEnd None, st))"

section \<open>Payloads\<close>

definition open_stream :: "string \<Rightarrow> ('d, 'h) stage \<Rightarrow> ('d, 'h) stage" where
  "open_stream r st =
     st\<lparr>sr_stream_queue := map_option (\<lambda>q. if sq_has r q then q else sq_open r q) (sr_stream_queue st)\<rparr>"

text \<open>
  The owner after this stage in a session's route, when this stage streams to it: a session's unit goes there before
  its stream. The send itself is the transports'.
\<close>

definition forward_target :: "('d, 'h) stage_config_of \<Rightarrow> session_op \<Rightarrow> string option" where
  "forward_target sv op =
     (case dropWhile (\<lambda>owner. owner \<noteq> sv_name sv) (so_stages op) of
        _ # next_owner # _ \<Rightarrow> if next_owner \<in> set (sv_stream_targets sv) then Some next_owner else None
      | _ \<Rightarrow> None)"

definition forward_session_append ::
  "('d, 'h) stage_config_of \<Rightarrow> 'd stage_payload_of \<Rightarrow> session_op \<Rightarrow> ('d, 'h) stage \<Rightarrow> (string option) result" where
  "forward_session_append sv payload op st =
     (case forward_target sv op of
        None \<Rightarrow> Inr None
      | Some target \<Rightarrow>
          bind_r (resolve_target_instance sv (pl_request_id payload) target st) (\<lambda>target.
            if target \<in> set (sv_endpoints sv) then Inr (Some target)
            else Inl (RuntimeError ''no endpoint configured for target'')))"

definition enqueue_request ::
  "('d, 'h) stage_config_of \<Rightarrow> (lane \<times> nat) option \<Rightarrow> 'd stage_payload_of \<Rightarrow> ('d, 'h) stage \<Rightarrow> 'd receive_at \<times> ('d, 'h) stage" where
  "enqueue_request sv origin payload st =
     (let st = (if sv_role sv = Leader \<and> sv_has_tp_fanout sv \<and> sv_requires_tp_work_fanout sv
                then st\<lparr>sr_fanned_out := sr_fanned_out st @ [payload]\<rparr> else st)
      in (AtEnd None, put_inbox origin (pl_request_id payload) (NewRequest payload) st))"

definition execute ::
  "('d, 'h) stage_config_of \<Rightarrow> (lane \<times> nat) option \<Rightarrow> 'd stage_payload_of \<Rightarrow> ('d, 'h) stage \<Rightarrow> 'd receive_at \<times> ('d, 'h) stage" where
  "execute sv origin payload st =
     (if pl_request_id payload \<in> set (sr_aborted st) \<and> sv_role sv \<noteq> Follower then (AtEnd None, st)
      else case pl_session payload of
             None \<Rightarrow> enqueue_request sv origin payload st
           | Some op \<Rightarrow>
               (let st = fold (on_abort sv) (so_preempted_request_ids op) st
                in if so_operation op = ''append'' \<and> owns_external_io sv then
                     (case forward_session_append sv payload op st of
                        Inl e \<Rightarrow> (AtEnd (Some e), st)
                      | Inr None \<Rightarrow> enqueue_request sv origin payload st
                      | Inr (Some target) \<Rightarrow> (AtForward payload, st\<lparr>sr_forwarded := sr_forwarded st @ [(target, payload)]\<rparr>))
                   else enqueue_request sv origin payload st))"

definition receive_payload_from_stage ::
  "('d, 'h) stage_config_of \<Rightarrow> (lane \<times> nat) option \<Rightarrow> string \<Rightarrow> string \<Rightarrow> 'd stage_payload_of \<Rightarrow> ('d, 'h) stage \<Rightarrow>
   'd receive_at \<times> ('d, 'h) stage" where
  "receive_payload_from_stage sv origin r from_stage payload st =
     (if r \<in> set (sr_aborted st) then (AtEnd None, st)
      else
        let st = open_stream r (st\<lparr>sr_active_requests := insert r (sr_active_requests st)\<rparr>)
        in case sv_receive sv r (logical_source sv from_stage) payload (sr_handler st) of
             (outcome, handler) \<Rightarrow>
               let st = st\<lparr>sr_handler := handler\<rparr>
               in case outcome of
                    Inl e \<Rightarrow> (AtEnd (Some e), st)
                  | Inr None \<Rightarrow> (AtEnd None, st)
                  | Inr (Some merged) \<Rightarrow> execute sv origin merged st)"

definition on_submit ::
  "('d, 'h) stage_config_of \<Rightarrow> string \<Rightarrow> bindings option \<Rightarrow> 'd stage_payload_of \<Rightarrow> ('d, 'h) stage \<Rightarrow> 'd receive_at \<times> ('d, 'h) stage" where
  "on_submit sv r bindings payload st =
     (if r \<in> set (sr_aborted st) then send_failure sv r ''request already exists'' st
      else
        let st = record_replica_bindings r bindings st;
            st = open_stream r (st\<lparr>sr_active_requests := insert r (sr_active_requests st)\<rparr>)
        in execute sv None payload st)"

section \<open>Receive tasks, from await to await\<close>

fun job_request :: "'d receive_job \<Rightarrow> string" where
  "job_request (OnData msg) = dr_request_id msg"
| "job_request (OnChunk msg) = dr_request_id msg"
| "job_request (OnSignal msg) = dr_request_id msg"
| "job_request (OnBatched from_stage chunk) = bc_request_id chunk"
| "job_request (OnBatchFailed r from_stage e) = r"

fun job_source :: "'d receive_job \<Rightarrow> string" where
  "job_source (OnData msg) = dr_from_stage msg"
| "job_source (OnChunk msg) = dr_from_stage msg"
| "job_source (OnSignal msg) = dr_from_stage msg"
| "job_source (OnBatched from_stage chunk) = from_stage"
| "job_source (OnBatchFailed r from_stage e) = from_stage"

text \<open>A message is a chunk because it has a chunk id, so the number of a chunk that arrives alone is there.\<close>

fun job_item :: "('d, 'h) stage_config_of \<Rightarrow> 'd receive_job \<Rightarrow> 'd chunk_data \<Rightarrow> 'd stream_item" where
  "job_item sv (OnBatched from_stage chunk) data = received_stream_item sv from_stage chunk"
| "job_item sv (OnChunk msg) data =
     stream_item_from (dr_from_stage msg) (case dr_chunk_id msg of None \<Rightarrow> 0 | Some i \<Rightarrow> i) data"
| "job_item sv job data = stream_item_from (job_source job) 0 data"

definition send_data_ack ::
  "('d, 'h) stage_config_of \<Rightarrow> 'd data_ready \<Rightarrow> bool \<Rightarrow> bool \<Rightarrow> 'd in_hand option \<Rightarrow> ('d, 'h) stage \<Rightarrow>
   'd receive_at \<times> ('d, 'h) stage" where
  "send_data_ack sv msg success cleanup next_up st =
     (if dr_from_stage msg \<in> set (sv_endpoints sv)
      then (AtAck cleanup next_up, st\<lparr>sr_acks := sr_acks st @ [(dr_from_stage msg, dr_request_id msg, success)]\<rparr>)
      else (AtEnd (Some (RuntimeError ''no endpoint configured for ack target'')), st))"

definition missing_ref :: error where
  "missing_ref = ValueError ''data_ready message is missing transfer data_ref''"

fun data_ref_from_message :: "'d data_ref \<Rightarrow> (bool \<times> error option) result" where
  "data_ref_from_message NoRef = Inl missing_ref"
| "data_ref_from_message (BadRef e) = Inl e"
| "data_ref_from_message (RelayRef kv_pages relay) = Inr (kv_pages, relay)"
| "data_ref_from_message _ = Inl (ValueError ''data_ref must have _type=DataRef'')"

text \<open>A read of the relay that the message names.\<close>

definition read_relay :: "bool \<Rightarrow> 'd data_ref \<Rightarrow> 'd receive_at" where
  "read_relay discards ref =
     (case data_ref_from_message ref of
        Inl e \<Rightarrow> AtEnd (Some e)
      | Inr (_, Some e) \<Rightarrow> AtEnd (Some e)
      | Inr (_, None) \<Rightarrow> AtRead discards)"

text \<open>A payload of an aborted request is read and dropped, so that its sender can let go of it.\<close>

definition discard_data :: "('d, 'h) stage_config_of \<Rightarrow> 'd data_ready \<Rightarrow> ('d, 'h) stage \<Rightarrow> 'd receive_at \<times> ('d, 'h) stage" where
  "discard_data sv msg st =
     (case dr_data_ref msg of
        IpcPayload (Inl e) \<Rightarrow> (AtEnd (Some e), st)
      | IpcPayload (Inr _) \<Rightarrow> (AtEnd None, st)
      | RelayRef True _ \<Rightarrow> send_data_ack sv msg False False None (comm_cleanup (dr_request_id msg) st)
      | ref \<Rightarrow> (read_relay True ref, st))"

definition on_data_ready :: "('d, 'h) stage_config_of \<Rightarrow> 'd data_ready \<Rightarrow> ('d, 'h) stage \<Rightarrow> 'd receive_at \<times> ('d, 'h) stage" where
  "on_data_ready sv msg st =
     (if dr_request_id msg \<in> set (sr_aborted st) then discard_data sv msg st
      else case dr_data_ref msg of
             IpcPayload (Inl e) \<Rightarrow> (AtTurn (HFailure ''direct IPC payload deserialize failed''), st)
           | IpcPayload (Inr payload) \<Rightarrow> (AtTurn (HPayload (Some payload)), st)
           | ref \<Rightarrow> (read_relay False ref, st))"

definition discard_stream_chunk_data :: "('d, 'h) stage_config_of \<Rightarrow> 'd data_ready \<Rightarrow> ('d, 'h) stage \<Rightarrow> 'd receive_at \<times> ('d, 'h) stage" where
  "discard_stream_chunk_data sv msg st =
     (case dr_data_ref msg of
        IpcChunk (Inl e) \<Rightarrow> (AtEnd (Some e), st)
      | IpcChunk (Inr _) \<Rightarrow> (AtEnd None, st)
      | ref \<Rightarrow>
          if dr_chunk_id msg = None then (AtEnd (Some (ValueError ''stream chunk discard requires chunk_id'')), st)
          else (read_relay True ref, st))"

definition on_stream_chunk :: "('d, 'h) stage_config_of \<Rightarrow> 'd data_ready \<Rightarrow> ('d, 'h) stage \<Rightarrow> 'd receive_at \<times> ('d, 'h) stage" where
  "on_stream_chunk sv msg st =
     (if dr_request_id msg \<in> set (sr_aborted st) then discard_stream_chunk_data sv msg st
      else
        let st = st\<lparr>sr_active_requests := insert (dr_request_id msg) (sr_active_requests st)\<rparr>
        in case dr_data_ref msg of
             IpcChunk (Inl e) \<Rightarrow> (AtTurn (HError e), st)
           | IpcChunk (Inr data) \<Rightarrow> (AtTurn (HChunk data), st)
           | ref \<Rightarrow> (read_relay False ref, st))"

definition start_receive :: "('d, 'h) stage_config_of \<Rightarrow> 'd receive_job \<Rightarrow> ('d, 'h) stage \<Rightarrow> 'd receive_at \<times> ('d, 'h) stage" where
  "start_receive sv job st =
     (case job of
        OnData msg \<Rightarrow> on_data_ready sv msg st
      | OnChunk msg \<Rightarrow> on_stream_chunk sv msg st
      | OnSignal msg \<Rightarrow> (AtTurn HSignal, st)
      | OnBatched from_stage chunk \<Rightarrow> (AtTurn (HChunk (bc_data chunk)), st)
      | OnBatchFailed r from_stage e \<Rightarrow> (AtTurn (HError e), st))"

text \<open>What a read of a relay brings: what the message announced, or an error; the last line is never reached.\<close>

datatype 'd relay_read = ReadFailed error | ReadPayload "'d stage_payload_of option" | ReadChunk "'d chunk_data"

definition read_done ::
  "('d, 'h) stage_config_of \<Rightarrow> 'd receive_job \<Rightarrow> bool \<Rightarrow> 'd relay_read \<Rightarrow> ('d, 'h) stage \<Rightarrow> 'd receive_at \<times> ('d, 'h) stage" where
  "read_done sv job discards outcome st =
     (case (job, outcome) of
        (OnData msg, ReadFailed e) \<Rightarrow>
          send_data_ack sv msg False True (if discards then None else Some (HFailure ''relay read failed'')) st
      | (OnData msg, ReadPayload payload) \<Rightarrow>
          send_data_ack sv msg True False (if discards then None else Some (HPayload payload)) st
      | (OnChunk msg, ReadFailed e) \<Rightarrow> send_data_ack sv msg False False (if discards then None else Some (HError e)) st
      | (OnChunk msg, ReadChunk data) \<Rightarrow>
          send_data_ack sv msg True False (if discards then None else Some (HChunk data)) st
      | _ \<Rightarrow> (AtEnd None, st))"

definition ack_done ::
  "'d receive_job \<Rightarrow> bool \<Rightarrow> 'd in_hand option \<Rightarrow> error option \<Rightarrow> ('d, 'h) stage \<Rightarrow> 'd receive_at \<times> ('d, 'h) stage" where
  "ack_done job cleanup next_up failed st =
     (case failed of
        Some e \<Rightarrow> (AtEnd (Some e), st)
      | None \<Rightarrow>
          (case next_up of None \<Rightarrow> AtEnd None | Some h \<Rightarrow> AtTurn h,
           if cleanup then comm_cleanup (job_request job) st else st))"

text \<open>The turn of a task in its lane.\<close>

definition take_turn ::
  "('d, 'h) stage_config_of \<Rightarrow> lane \<times> nat \<Rightarrow> 'd receive_job \<Rightarrow> 'd in_hand \<Rightarrow> ('d, 'h) stage \<Rightarrow> 'd receive_at \<times> ('d, 'h) stage" where
  "take_turn sv origin job h st =
     (let r = job_request job; from_stage = job_source job
      in case h of
           HPayload None \<Rightarrow> (AtEnd None, st)
         | HPayload (Some payload) \<Rightarrow> receive_payload_from_stage sv (Some origin) r from_stage payload st
         | HChunk data \<Rightarrow>
             if r \<in> set (sr_aborted st) then (AtEnd None, st)
             else route_stream_item_or_fail sv (Some origin) r (job_item sv job data) st
         | HSignal \<Rightarrow>
             (case job of
                OnSignal msg \<Rightarrow> receive_stream_signal sv (Some origin) r from_stage (dr_is_done msg) (dr_error msg) st
              | _ \<Rightarrow> (AtEnd None, st))
         | HFailure failure \<Rightarrow> send_failure sv r failure st
         | HError e \<Rightarrow> queue_stream_error sv r ''stream error'' st)"

definition on_background_task_done :: "error option \<Rightarrow> ('d, 'h) stage \<Rightarrow> ('d, 'h) stage" where
  "on_background_task_done e st =
     (case e of
        None \<Rightarrow> st
      | Some e \<Rightarrow> st\<lparr>sr_background_task_error := (case sr_background_task_error st of None \<Rightarrow> Some e | Some e' \<Rightarrow> Some e'),
                     sr_running := False\<rparr>)"

text \<open>The end of \<open>run_receive_task\<close>, behind the predecessor: the completion wakes the successor, and the lane is dropped with its last task.\<close>

definition finish_receive :: "'d receive_task \<Rightarrow> error option \<Rightarrow> ('d, 'h) stage \<Rightarrow> ('d, 'h) stage" where
  "finish_receive task e st =
     on_background_task_done e
       (st\<lparr>sr_done := insert (rv_arrival task) (sr_done st),
           sr_tasks := filter (\<lambda>t. rv_arrival t \<noteq> rv_arrival task) (sr_tasks st),
           sr_lane_tails := (if dict_get (sr_lane_tails st) (rv_lane task) = Some (rv_arrival task)
                             then dict_del (rv_lane task) (sr_lane_tails st) else sr_lane_tails st)\<rparr>)"

definition predecessor_done :: "'d receive_task \<Rightarrow> ('d, 'h) stage \<Rightarrow> bool" where
  "predecessor_done task st \<longleftrightarrow> (case rv_predecessor task of None \<Rightarrow> True | Some f \<Rightarrow> f \<in> sr_done st)"

definition set_task_at :: "nat \<Rightarrow> 'd receive_at \<Rightarrow> ('d, 'h) stage \<Rightarrow> ('d, 'h) stage" where
  "set_task_at i point st =
     st\<lparr>sr_tasks := map (\<lambda>t. if rv_arrival t = i then t\<lparr>rv_at := point\<rparr> else t) (sr_tasks st)\<rparr>"

definition receive_round ::
  "('d, 'h) stage_config_of \<Rightarrow> 'd relay_read \<Rightarrow> error option \<Rightarrow> nat \<Rightarrow> ('d, 'h) stage \<Rightarrow> ('d, 'h) stage" where
  "receive_round sv outcome failed i st =
     (case find (\<lambda>t. rv_arrival t = i) (sr_tasks st) of
        None \<Rightarrow> st
      | Some task \<Rightarrow>
          (let job = rv_job task; origin = (rv_lane task, i);
               go = (\<lambda>(point, st). set_task_at i point st)
           in case rv_at task of
                AtStart \<Rightarrow> go (start_receive sv job st)
              | AtRead discards \<Rightarrow> go (read_done sv job discards outcome st)
              | AtAck cleanup next_up \<Rightarrow> go (ack_done job cleanup next_up failed st)
              | AtTurn h \<Rightarrow> if predecessor_done task st then go (take_turn sv origin job h st) else st
              | AtFailure \<Rightarrow> go (AtEnd failed, clear_request_state sv False (job_request job) st)
              | AtForward payload \<Rightarrow>
                  (case failed of Some e \<Rightarrow> go (AtEnd (Some e), st) | None \<Rightarrow> go (enqueue_request sv (Some origin) payload st))
              | AtEnd e \<Rightarrow> if predecessor_done task st then finish_receive task e st else st))"

section \<open>Arrivals\<close>

definition schedule_lane_task :: "lane \<Rightarrow> 'd receive_job \<Rightarrow> ('d, 'h) stage \<Rightarrow> ('d, 'h) stage" where
  "schedule_lane_task lane job st =
     st\<lparr>sr_tasks := sr_tasks st @ [\<lparr>rv_lane = lane, rv_job = job, rv_predecessor = dict_get (sr_lane_tails st) lane,
                                   rv_arrival = sr_next_arrival st, rv_at = AtStart\<rparr>],
        sr_lane_tails := dict_set lane (sr_next_arrival st) (sr_lane_tails st),
        sr_next_arrival := Suc (sr_next_arrival st)\<rparr>"

definition schedule_receive_task :: "'d data_ready \<Rightarrow> ('d, 'h) stage \<Rightarrow> ('d, 'h) stage" where
  "schedule_receive_task msg st =
     (let st = record_replica_bindings (dr_request_id msg) (dr_replica_bindings msg) st;
          job = (if dr_is_done msg \<or> dr_error msg \<noteq> None then OnSignal msg
                 else if dr_chunk_id msg \<noteq> None then OnChunk msg else OnData msg)
      in schedule_lane_task (dr_request_id msg, dr_from_stage msg) job st)"

definition schedule_chunk :: "('d, 'h) stage_config_of \<Rightarrow> 'd chunk_batch \<Rightarrow> 'd batched_chunk \<Rightarrow> ('d, 'h) stage \<Rightarrow> ('d, 'h) stage" where
  "schedule_chunk sv batch chunk st =
     (let r = bc_request_id chunk; from_stage = cb_from_stage batch; lane = (r, from_stage);
          st = record_replica_bindings r (dict_get (cb_replica_bindings batch) r) st
      in if r \<in> set (sr_aborted st) then st
         else
           let st = st\<lparr>sr_active_requests := insert r (sr_active_requests st)\<rparr>;
               (direct, st) = (if dict_has (sr_lane_tails st) lane then (False, st)
                               else open_pre_payload_stream_if_allowed sv r st)
           in if direct then
                route_stream_item (Some (lane, sr_next_arrival st)) r (received_stream_item sv from_stage chunk)
                  (st\<lparr>sr_next_arrival := Suc (sr_next_arrival st)\<rparr>)
              else schedule_lane_task lane (OnBatched from_stage chunk) st)"

definition schedule_stream_chunk_batch :: "('d, 'h) stage_config_of \<Rightarrow> 'd chunk_batch \<Rightarrow> ('d, 'h) stage \<Rightarrow> ('d, 'h) stage" where
  "schedule_stream_chunk_batch sv batch st =
     (case cb_chunks batch of
        Inl e \<Rightarrow> fold (\<lambda>r. schedule_lane_task (r, cb_from_stage batch) (OnBatchFailed r (cb_from_stage batch) e))
                   (rev (remdups (rev (cb_request_ids batch)))) st
      | Inr chunks \<Rightarrow> fold (schedule_chunk sv batch) chunks st)"

text \<open>Calls from the main loop and from stages of the same process.\<close>

definition add_call :: "string \<Rightarrow> string \<Rightarrow> 'd batched_chunk list \<Rightarrow> 'd receive_at \<times> ('d, 'h) stage \<Rightarrow> ('d, 'h) stage" where
  "add_call r from_stage rest result =
     (case result of
        (AtEnd _, st) \<Rightarrow> st
      | (point, st) \<Rightarrow> st\<lparr>sr_calls := sr_calls st @ [\<lparr>cl_request_id = r, cl_at = point, cl_from_stage = from_stage, cl_rest = rest\<rparr>]\<rparr>)"

definition receive_local_payload ::
  "('d, 'h) stage_config_of \<Rightarrow> string \<Rightarrow> string \<Rightarrow> 'd stage_payload_of \<Rightarrow> bindings option \<Rightarrow> ('d, 'h) stage \<Rightarrow> ('d, 'h) stage" where
  "receive_local_payload sv r from_stage payload bindings st =
     add_call r from_stage [] (receive_payload_from_stage sv None r from_stage payload (record_replica_bindings r bindings st))"

definition receive_local_stream_signal ::
  "('d, 'h) stage_config_of \<Rightarrow> string \<Rightarrow> string \<Rightarrow> bool \<Rightarrow> string option \<Rightarrow> bindings option \<Rightarrow> ('d, 'h) stage \<Rightarrow> ('d, 'h) stage" where
  "receive_local_stream_signal sv r from_stage is_done failure bindings st =
     add_call r from_stage [] (receive_stream_signal sv None r from_stage is_done failure (record_replica_bindings r bindings st))"

fun receive_local_stream_chunks ::
  "('d, 'h) stage_config_of \<Rightarrow> (string \<Rightarrow> bindings option) \<Rightarrow> string \<Rightarrow> 'd batched_chunk list \<Rightarrow> ('d, 'h) stage \<Rightarrow> ('d, 'h) stage" where
  "receive_local_stream_chunks sv bindings from_stage [] st = st"
| "receive_local_stream_chunks sv bindings from_stage (chunk # chunks) st =
     (let r = bc_request_id chunk
      in if r \<in> set (sr_aborted st) then receive_local_stream_chunks sv bindings from_stage chunks st
         else
           let st = record_replica_bindings r (bindings r) st;
               st = st\<lparr>sr_active_requests := insert r (sr_active_requests st)\<rparr>
           in case route_stream_item_or_fail sv None r (stream_item_from from_stage (bc_chunk_id chunk) (bc_data chunk)) st of
                (AtEnd None, st) \<Rightarrow> receive_local_stream_chunks sv bindings from_stage chunks st
              | result \<Rightarrow> add_call r from_stage chunks result)"

definition call_round ::
  "('d, 'h) stage_config_of \<Rightarrow> (string \<Rightarrow> bindings option) \<Rightarrow> error option \<Rightarrow> nat \<Rightarrow> ('d, 'h) stage \<Rightarrow> ('d, 'h) stage" where
  "call_round sv bindings failed k st =
     (if k < length (sr_calls st) then
        let call = sr_calls st ! k; r = cl_request_id call;
            st = st\<lparr>sr_calls := take k (sr_calls st) @ drop (Suc k) (sr_calls st)\<rparr>
        in case cl_at call of
             AtFailure \<Rightarrow>
               (let st = clear_request_state sv False r st
                in if failed = None then receive_local_stream_chunks sv bindings (cl_from_stage call) (cl_rest call) st else st)
           | AtForward payload \<Rightarrow> if failed = None then snd (enqueue_request sv None payload st) else st
           | _ \<Rightarrow> st
      else st)"

text \<open>\<open>stop\<close> cancels the receive tasks; one that is sending a failure still clears its request's state.\<close>

definition cancel_receive :: "('d, 'h) stage_config_of \<Rightarrow> 'd receive_task \<Rightarrow> ('d, 'h) stage \<Rightarrow> ('d, 'h) stage" where
  "cancel_receive sv task st =
     (case rv_at task of AtFailure \<Rightarrow> clear_request_state sv False (job_request (rv_job task)) st | _ \<Rightarrow> st)"

definition stop_receive :: "('d, 'h) stage_config_of \<Rightarrow> ('d, 'h) stage \<Rightarrow> ('d, 'h) stage" where
  "stop_receive sv st =
     (fold (cancel_receive sv) (sr_tasks st) st)\<lparr>sr_running := False, sr_tasks := [], sr_lane_tails := []\<rparr>"

text \<open>The events of the receiving half.\<close>

inductive receive_step :: "('d, 'h) stage_config_of \<Rightarrow> ('d, 'h) stage \<Rightarrow> ('d, 'h) stage \<Rightarrow> bool" for sv where
  data: "receive_step sv st (schedule_receive_task msg st)"
| batch: "receive_step sv st (schedule_stream_chunk_batch sv batch st)"
| round: "receive_step sv st (receive_round sv outcome failed i st)"
| submit: "receive_step sv st (add_call r [] [] (on_submit sv r bindings payload st))"
| work: "receive_step sv st (add_call (pl_request_id payload) [] [] (execute sv None payload st))"
| local_payload: "receive_step sv st (receive_local_payload sv r from_stage payload bindings st)"
| local_chunks: "receive_step sv st (receive_local_stream_chunks sv bound from_stage chunks st)"
| local_signal: "receive_step sv st (receive_local_stream_signal sv r from_stage is_done failure bindings st)"
| call: "receive_step sv st (call_round sv bound failed k st)"
| abort: "receive_step sv st (on_abort sv r st)"
| stop: "receive_step sv st (stop_receive sv st)"

end
