(* ===== verification/Stage_Lanes.thy ===== *)
theory Stage_Lanes
  imports Stage_Receive
begin

text \<open>
  The order of what a stage receives, and what an abort leaves behind. The messages of a lane, which is a request
  and the stage it comes from, are read concurrently and reach the scheduler in the order they arrived; nothing of
  an aborted request does, and its state is gone once the failure is out.
\<close>

section \<open>Lanes\<close>

definition same_lanes :: "('d, 'h) stage \<Rightarrow> ('d, 'h) stage \<Rightarrow> bool" where
  "same_lanes st st' \<longleftrightarrow>
     sr_tasks st' = sr_tasks st \<and> sr_lane_tails st' = sr_lane_tails st \<and> sr_done st' = sr_done st \<and>
     sr_next_arrival st' = sr_next_arrival st"

lemma same_lanes_refl [simp]: "same_lanes st st"
  by (simp add: same_lanes_def)

lemma same_lanes_trans: "same_lanes st st' \<Longrightarrow> same_lanes st' st'' \<Longrightarrow> same_lanes st st''"
  by (simp add: same_lanes_def)

text \<open>
  What an operation of a task brings into the inbox: nothing, or one message with its origin, and then the task
  ends.
\<close>

definition delivers :: "(lane \<times> nat) option \<Rightarrow> ('d, 'h) stage \<Rightarrow> 'd receive_at \<times> ('d, 'h) stage \<Rightarrow> bool" where
  "delivers origin st result \<longleftrightarrow>
     same_lanes st (snd result) \<and>
     (sr_inbox (snd result) = sr_inbox st \<or>
      (\<exists>r message. fst result = AtEnd None \<and>
         sr_inbox (snd result) = sr_inbox st @ [\<lparr>ie_origin = origin, ie_request_id = r, ie_message = message\<rparr>]))"

definition keeps_lanes :: "('d, 'h) stage \<Rightarrow> ('d, 'h) stage \<Rightarrow> bool" where
  "keeps_lanes st st' \<longleftrightarrow> same_lanes st st' \<and> sr_inbox st' = sr_inbox st"

named_theorems lane_keepers \<open>operations that leave lanes and inbox alone\<close>

lemma keeps_lanes_refl [simp]: "keeps_lanes st st"
  by (simp add: keeps_lanes_def)

lemma keeps_lanes_trans: "keeps_lanes st st' \<Longrightarrow> keeps_lanes st' st'' \<Longrightarrow> keeps_lanes st st''"
  by (auto simp: keeps_lanes_def intro: same_lanes_trans)

lemma keeps_lanes_delivers: "keeps_lanes st st' \<Longrightarrow> delivers origin st (point, st')"
  by (simp add: keeps_lanes_def delivers_def)

lemma delivers_after: "keeps_lanes st st' \<Longrightarrow> delivers origin st' result \<Longrightarrow> delivers origin st result"
  by (auto simp: keeps_lanes_def delivers_def intro: same_lanes_trans)

lemma keeps_lanes_fields:
  assumes "sr_tasks st' = sr_tasks st" and "sr_lane_tails st' = sr_lane_tails st" and "sr_done st' = sr_done st"
    and "sr_next_arrival st' = sr_next_arrival st" and "sr_inbox st' = sr_inbox st"
  shows "keeps_lanes st st'"
  using assms by (simp add: keeps_lanes_def same_lanes_def)

lemma keeps_lanes_record_bindings [lane_keepers]: "keeps_lanes st (record_replica_bindings r b st)"
  by (rule keeps_lanes_fields) (simp_all add: record_replica_bindings_def split: option.splits)

lemma keeps_lanes_clear [lane_keepers]: "keeps_lanes st (clear_request_state sv keep r st)"
  by (rule keeps_lanes_fields) (simp_all add: clear_request_state_def)

lemma keeps_lanes_record_aborted [lane_keepers]: "keeps_lanes st (record_aborted_request_id sv r st)"
  by (rule keeps_lanes_fields) (simp_all add: record_aborted_request_id_def)

lemma keeps_lanes_scheduler_abort [lane_keepers]: "keeps_lanes st (scheduler_abort r st)"
  by (rule keeps_lanes_fields) (simp_all add: scheduler_abort_def)

lemma keeps_lanes_cleanup [lane_keepers]: "keeps_lanes st (comm_cleanup r st)"
  by (rule keeps_lanes_fields) (simp_all add: comm_cleanup_def)

lemma keeps_lanes_active [lane_keepers]: "keeps_lanes st (st\<lparr>sr_active_requests := a\<rparr>)"
  by (rule keeps_lanes_fields) simp_all

lemma keeps_lanes_open_stream [lane_keepers]: "keeps_lanes st (open_stream r st)"
  by (rule keeps_lanes_fields) (simp_all add: open_stream_def)

lemma keeps_lanes_on_abort [lane_keepers]: "keeps_lanes st (on_abort sv r st)"
  unfolding on_abort_def Let_def by (auto intro!: lane_keepers intro: keeps_lanes_trans)

lemma keeps_lanes_aborts [lane_keepers]: "keeps_lanes st (fold (on_abort sv) rs st)"
  by (induction rs arbitrary: st) (auto intro: keeps_lanes_trans [OF keeps_lanes_on_abort])

lemma keeps_lanes_open [lane_keepers]: "keeps_lanes st (snd (open_pre_payload_stream_if_allowed sv r st))"
  by (rule keeps_lanes_fields) (simp_all add: open_pre_payload_stream_if_allowed_def split: option.splits)

lemma keeps_lanes_send_failure [lane_keepers]: "keeps_lanes st (snd (send_failure sv r failure st))"
proof -
  have "keeps_lanes st' (st'\<lparr>sr_failures := f\<rparr>)" for st' :: "('d, 'h) stage" and f by (rule keeps_lanes_fields) simp_all
  then show ?thesis unfolding send_failure_def Let_def
    by (auto intro: keeps_lanes_trans [OF keeps_lanes_record_aborted] keeps_lanes_clear)
qed

lemma delivers_keeps: "keeps_lanes st (snd result) \<Longrightarrow> delivers origin st result"
  by (simp add: keeps_lanes_def delivers_def)

lemma delivers_put: "keeps_lanes st st' \<Longrightarrow> delivers origin st (AtEnd None, put_inbox origin r message st')"
  by (auto simp: keeps_lanes_def delivers_def put_inbox_def same_lanes_def)

lemma delivers_route: "delivers origin st (route_stream_item_or_fail sv origin r item st)"
proof -
  obtain b st1 where o: "open_pre_payload_stream_if_allowed sv r st = (b, st1)" by (meson surj_pair)
  with keeps_lanes_open [of st sv r] have 1: "keeps_lanes st st1" by simp
  have "keeps_lanes st (snd (send_failure sv r failure (scheduler_abort r st1)))" for failure
    using 1 by (blast intro: keeps_lanes_trans lane_keepers)
  then show ?thesis using o 1 by (auto simp: route_stream_item_or_fail_def route_stream_item_def Let_def intro: delivers_put delivers_keeps split: bool.split)
qed

lemma delivers_stream_error: "delivers origin st (queue_stream_error sv r failure st)"
proof -
  have "keeps_lanes st (snd (send_failure sv r failure (scheduler_abort r st)))" by (blast intro: keeps_lanes_trans lane_keepers)
  then show ?thesis by (auto simp: queue_stream_error_def intro: delivers_keeps)
qed

lemma keeps_lanes_queue [lane_keepers]: "keeps_lanes st (st\<lparr>sr_stream_queue := q\<rparr>)" "keeps_lanes st (st\<lparr>sr_handler := h\<rparr>)"
  "keeps_lanes st (st\<lparr>sr_forwarded := f\<rparr>)" "keeps_lanes st (st\<lparr>sr_fanned_out := w\<rparr>)" "keeps_lanes st (st\<lparr>sr_acks := a\<rparr>)"
  "keeps_lanes st (st\<lparr>sr_calls := c\<rparr>)"
  by (rule keeps_lanes_fields; simp)+

lemma delivers_signal: "delivers origin st (receive_stream_signal sv origin r from_stage is_done failure st)"
proof (cases "r \<in> set (sr_aborted st)")
  case False
  let ?st = "st\<lparr>sr_active_requests := insert r (sr_active_requests st)\<rparr>"
  obtain b st1 where o: "open_pre_payload_stream_if_allowed sv r ?st = (b, st1)" by (meson surj_pair)
  with keeps_lanes_trans [OF keeps_lanes_active keeps_lanes_open [of ?st sv r]] have 1: "keeps_lanes st st1" by simp
  have "delivers origin st (queue_stream_error sv r why ?st)" for why
    by (rule delivers_after [OF keeps_lanes_active delivers_stream_error])
  moreover have "keeps_lanes st (snd (send_failure sv r why (scheduler_abort r st1)))" for why
    by (rule keeps_lanes_trans [OF 1 keeps_lanes_trans [OF keeps_lanes_scheduler_abort keeps_lanes_send_failure]])
  moreover have "delivers origin st (AtEnd None, put_inbox origin r StreamDone (st1\<lparr>sr_stream_queue := q\<rparr>))" for q
    by (rule delivers_put [OF keeps_lanes_trans [OF 1 keeps_lanes_queue(1)]])
  moreover have "delivers origin st (AtEnd None, ?st)" by (simp add: delivers_keeps keeps_lanes_active)
  ultimately show ?thesis using False o
    by (cases b) (simp_all add: receive_stream_signal_def Let_def delivers_keeps split: option.split list.split)
qed (simp add: receive_stream_signal_def delivers_keeps)

lemma delivers_enqueue: "delivers origin st (enqueue_request sv origin payload st)"
  unfolding enqueue_request_def Let_def by (rule delivers_put) (simp add: keeps_lanes_queue)

lemma delivers_execute: "delivers origin st (execute sv origin payload st)"
proof -
  have aborts: "keeps_lanes st (fold (on_abort sv) rs st)" for rs by (rule keeps_lanes_aborts)
  note after = delivers_after [OF aborts delivers_enqueue] keeps_lanes_trans [OF aborts keeps_lanes_queue(3)]
  show ?thesis using after aborts delivers_enqueue
    by (auto simp: execute_def Let_def intro: delivers_keeps split: option.split sum.split)
qed

lemma delivers_payload: "delivers origin st (receive_payload_from_stage sv origin r from_stage payload st)"
proof (cases "r \<in> set (sr_aborted st)")
  case False
  let ?st = "open_stream r (st\<lparr>sr_active_requests := insert r (sr_active_requests st)\<rparr>)"
  obtain outcome handler where
    o: "sv_receive sv r (logical_source sv from_stage) payload (sr_handler ?st) = (outcome, handler)" by (meson surj_pair)
  have 1: "keeps_lanes st (?st\<lparr>sr_handler := handler\<rparr>)"
    by (rule keeps_lanes_trans [OF keeps_lanes_active keeps_lanes_trans [OF keeps_lanes_open_stream keeps_lanes_queue(2)]])
  have "delivers origin st
    (case outcome of Inl e \<Rightarrow> (AtEnd (Some e), ?st\<lparr>sr_handler := handler\<rparr>)
     | Inr None \<Rightarrow> (AtEnd None, ?st\<lparr>sr_handler := handler\<rparr>)
     | Inr (Some merged) \<Rightarrow> execute sv origin merged (?st\<lparr>sr_handler := handler\<rparr>))"
    using delivers_after [OF 1 delivers_execute] keeps_lanes_delivers [OF 1] by (simp split: sum.split option.split)
  then show ?thesis using False o by (simp add: receive_payload_from_stage_def Let_def)
qed (simp add: receive_payload_from_stage_def delivers_keeps)

lemma delivers_turn: "delivers (Some origin) st (take_turn sv origin job h st)"
  by (cases h) (simp_all add: take_turn_def Let_def delivers_route delivers_payload delivers_signal delivers_stream_error
      delivers_keeps keeps_lanes_send_failure split: option.split receive_job.split)

lemma keeps_lanes_ack: "keeps_lanes st (snd (send_data_ack sv msg success cleanup next_up st))"
  by (simp add: send_data_ack_def keeps_lanes_queue)

lemma keeps_lanes_on_data: "keeps_lanes st (snd (on_data_ready sv msg st))"
  by (simp add: on_data_ready_def discard_data_def keeps_lanes_trans [OF keeps_lanes_cleanup keeps_lanes_ack]
      split: data_ref.split sum.split bool.split)

lemma keeps_lanes_on_chunk: "keeps_lanes st (snd (on_stream_chunk sv msg st))"
  by (simp add: on_stream_chunk_def discard_stream_chunk_data_def Let_def keeps_lanes_active split: data_ref.split sum.split)

lemma keeps_lanes_start: "keeps_lanes st (snd (start_receive sv job st))"
  by (simp add: start_receive_def keeps_lanes_on_data keeps_lanes_on_chunk split: receive_job.split)

lemma keeps_lanes_read: "keeps_lanes st (snd (read_done sv job discards outcome st))"
  by (simp add: read_done_def keeps_lanes_ack split: receive_job.split relay_read.split)

lemma keeps_lanes_ack_done: "keeps_lanes st (snd (ack_done job cleanup next_up failed st))"
  by (simp add: ack_done_def keeps_lanes_cleanup split: option.split)

text \<open>Only a task at its turn forwards.\<close>

lemma ack_no_forward: "fst (send_data_ack sv msg success cleanup next_up st) \<noteq> AtForward p"
  by (simp add: send_data_ack_def)

lemma read_relay_no_forward: "read_relay discards ref \<noteq> AtForward p"
  by (simp add: read_relay_def split: sum.split prod.split option.split)

lemma start_no_forward: "fst (start_receive sv job st) \<noteq> AtForward p"
  by (cases job) (simp_all add: ack_no_forward read_relay_no_forward start_receive_def on_data_ready_def on_stream_chunk_def discard_data_def
      discard_stream_chunk_data_def Let_def split: data_ref.split sum.split bool.split)

lemma read_no_forward: "fst (read_done sv job discards outcome st) \<noteq> AtForward p"
  by (simp add: ack_no_forward read_done_def split: receive_job.split relay_read.split)

lemma ack_done_no_forward: "fst (ack_done job cleanup next_up failed st) \<noteq> AtForward p"
  by (simp add: ack_done_def split: option.split)

end
