(* ===== verification/Stage_Order.thy ===== *)
theory Stage_Order
  imports Stage_Lanes
begin

section \<open>The invariant of the lanes\<close>

lemma predecessor_done_iff: "predecessor_done t st \<longleftrightarrow> set_option (rv_predecessor t) \<subseteq> sr_done st"
  by (simp add: predecessor_done_def split: option.split)

definition lane_tasks :: "lane \<Rightarrow> ('d, 'h) stage \<Rightarrow> 'd receive_task list" where
  "lane_tasks lane st = filter (\<lambda>t. rv_lane t = lane) (sr_tasks st)"

fun arrivals_of :: "lane \<Rightarrow> 'd inbox_entry list \<Rightarrow> nat list" where
  "arrivals_of lane [] = []"
| "arrivals_of lane (e # es) =
     (case ie_origin e of
        None \<Rightarrow> arrivals_of lane es
      | Some (lane', i) \<Rightarrow> if lane' = lane then i # arrivals_of lane es else arrivals_of lane es)"

lemma arrivals_of_append [simp]: "arrivals_of lane (es @ es') = arrivals_of lane es @ arrivals_of lane es'"
  by (induction es) (auto split: option.split)

fun linked :: "nat \<Rightarrow> 'd receive_task list \<Rightarrow> bool" where
  "linked f [] \<longleftrightarrow> True"
| "linked f (t # ts) \<longleftrightarrow> rv_predecessor t = Some f \<and> linked (rv_arrival t) ts"

fun chain_ok :: "'d receive_task list \<Rightarrow> nat option \<Rightarrow> nat set \<Rightarrow> bool" where
  "chain_ok [] tail done \<longleftrightarrow> tail = None"
| "chain_ok (t # ts) tail done \<longleftrightarrow>
     set_option (rv_predecessor t) \<subseteq> done \<and> linked (rv_arrival t) ts \<and>
     tail = Some (rv_arrival (last (t # ts)))"

definition behind :: "nat list \<Rightarrow> 'd receive_task list \<Rightarrow> bool" where
  "behind is ts \<longleftrightarrow> (\<forall>i \<in> set is. \<forall>t \<in> set ts. i \<le> rv_arrival t \<and> (i = rv_arrival t \<longrightarrow> (\<exists>e. rv_at t = AtEnd e)))"

definition lane_inv :: "('d, 'h) stage \<Rightarrow> lane \<Rightarrow> bool" where
  "lane_inv st lane \<longleftrightarrow>
     chain_ok (lane_tasks lane st) (dict_get (sr_lane_tails st) lane) (sr_done st) \<and>
     sorted_wrt (<) (arrivals_of lane (sr_inbox st)) \<and>
     (\<forall>i \<in> set (arrivals_of lane (sr_inbox st)). i < sr_next_arrival st) \<and>
     behind (arrivals_of lane (sr_inbox st)) (lane_tasks lane st)"

definition tasks_inv :: "('d, 'h) stage \<Rightarrow> bool" where
  "tasks_inv st \<longleftrightarrow>
     sorted_wrt (<) (map rv_arrival (sr_tasks st)) \<and>
     (\<forall>t \<in> set (sr_tasks st). rv_arrival t < sr_next_arrival st \<and> rv_arrival t \<notin> sr_done st \<and>
        (\<forall>p. rv_at t = AtForward p \<longrightarrow> predecessor_done t st)) \<and>
     (\<forall>i \<in> sr_done st. i < sr_next_arrival st)"

definition order_inv :: "('d, 'h) stage \<Rightarrow> bool" where
  "order_inv st \<longleftrightarrow> tasks_inv st \<and> (\<forall>lane. lane_inv st lane)"

lemma order_inv_lane: "order_inv st \<Longrightarrow> lane_inv st lane"
  unfolding order_inv_def by blast

lemma order_inv_init: "order_inv (stage_init handler has_stream_queue)"
  by (simp add: order_inv_def tasks_inv_def lane_inv_def stage_init_def lane_tasks_def behind_def)

lemma order_inv_keeps: "keeps_lanes st st' \<Longrightarrow> order_inv st \<Longrightarrow> order_inv st'"
  by (simp add: keeps_lanes_def same_lanes_def order_inv_def tasks_inv_def lane_inv_def lane_tasks_def predecessor_done_iff)

lemma order_inv_put_outside:
  assumes "same_lanes st st'" and "\<And>lane. arrivals_of lane (sr_inbox st') = arrivals_of lane (sr_inbox st)" and "order_inv st"
  shows "order_inv st'"
  using assms by (simp add: same_lanes_def order_inv_def tasks_inv_def lane_inv_def lane_tasks_def predecessor_done_iff)

lemma order_inv_delivers_outside:
  assumes "delivers None st result" and "order_inv st"
  shows "order_inv (snd result)"
  using assms(1) by (intro order_inv_put_outside [OF _ _ assms(2)]) (auto simp: delivers_def)

text \<open>A task whose predecessor is done is the first of its lane.\<close>

lemma linked_append: "linked f (ts @ [t]) \<longleftrightarrow> linked f ts \<and> rv_predecessor t = Some (last (f # map rv_arrival ts))"
  by (induction ts arbitrary: f) auto

lemma linked_predecessor: "linked f ts \<Longrightarrow> t \<in> set ts \<Longrightarrow> \<exists>i \<in> set (f # map rv_arrival ts). rv_predecessor t = Some i"
  by (induction ts arbitrary: f) auto

lemma head_of_lane:
  assumes "order_inv st" and "t \<in> set (sr_tasks st)" and "predecessor_done t st"
  shows "\<exists>ts. lane_tasks (rv_lane t) st = t # ts"
proof -
  have t: "t \<in> set (lane_tasks (rv_lane t) st)" using assms(2) by (simp add: lane_tasks_def)
  then obtain h ts where l: "lane_tasks (rv_lane t) st = h # ts" by (cases "lane_tasks (rv_lane t) st") auto
  have live: "rv_arrival t' \<notin> sr_done st" if "t' \<in> set (h # ts)" for t'
    using assms(1) that unfolding l [symmetric] by (auto simp: order_inv_def tasks_inv_def lane_tasks_def)
  have "linked (rv_arrival h) ts" using assms(1) l by (metis order_inv_def lane_inv_def chain_ok.simps(2))
  then have "t \<notin> set ts" using assms(3) live linked_predecessor [of "rv_arrival h" ts t] by (auto simp: predecessor_done_iff)
  then show ?thesis using t l by auto
qed


text \<open>Moving a task on, and what it brings into the inbox.\<close>

abbreviation move_task :: "nat \<Rightarrow> 'd receive_at \<Rightarrow> 'd receive_task \<Rightarrow> 'd receive_task" where
  "move_task i point \<equiv> \<lambda>t. if rv_arrival t = i then t\<lparr>rv_at := point\<rparr> else t"

lemma move_task_fields [simp]:
  "rv_arrival (move_task i point t) = rv_arrival t" "rv_lane (move_task i point t) = rv_lane t"
  "rv_predecessor (move_task i point t) = rv_predecessor t"
  by simp_all

lemma lane_tasks_set [simp]: "lane_tasks lane (set_task_at i point st) = map (move_task i point) (lane_tasks lane st)"
  by (simp add: lane_tasks_def set_task_at_def filter_map o_def cong: filter_cong)

lemma linked_map: "linked f (map (move_task i point) ts) \<longleftrightarrow> linked f ts"
  by (induction ts arbitrary: f) auto

lemma chain_ok_map: "chain_ok (map (move_task i point) ts) tail done \<longleftrightarrow> chain_ok ts tail done"
proof (cases ts)
  case (Cons t ts')
  have "rv_arrival (last (map (move_task i point) ts)) = rv_arrival (last ts)" using Cons by (simp add: last_map del: list.map)
  then show ?thesis using Cons by (simp add: linked_map split del: if_split)
qed simp

lemma behind_map:
  assumes "behind js ts" and "\<And>t. t \<in> set ts \<Longrightarrow> rv_arrival t = i \<Longrightarrow> \<not> (\<exists>e. rv_at t = AtEnd e)"
  shows "behind js (map (move_task i point) ts)"
  using assms unfolding behind_def by fastforce

lemma set_task_fields [simp]:
  "sr_done (set_task_at i point st) = sr_done st" "sr_next_arrival (set_task_at i point st) = sr_next_arrival st"
  "sr_lane_tails (set_task_at i point st) = sr_lane_tails st" "sr_inbox (set_task_at i point st) = sr_inbox st"
  "sr_tasks (set_task_at i point st) = map (move_task i point) (sr_tasks st)"
  by (simp_all add: set_task_at_def)

lemma arrival_unique:
  assumes "order_inv st" and "t \<in> set (sr_tasks st)" and "t' \<in> set (sr_tasks st)" and "rv_arrival t' = rv_arrival t"
  shows "t' = t"
proof -
  have "distinct (map rv_arrival (sr_tasks st))" using assms(1) by (simp add: order_inv_def tasks_inv_def strict_sorted_iff)
  then show ?thesis using assms(2-) by (auto simp: distinct_map inj_on_def)
qed

lemma order_inv_set_task:
  fixes st :: "('a, 'h) stage"
  assumes "order_inv st" and "t \<in> set (sr_tasks st)" and "rv_arrival t = i" and "\<not> (\<exists>e. rv_at t = AtEnd e)"
    and "(\<exists>p. point = AtForward p) \<Longrightarrow> predecessor_done t st"
  shows "order_inv (set_task_at i point st)"
proof -
  have one: "t' = t" if "t' \<in> set (sr_tasks st)" "rv_arrival t' = i" for t' using arrival_unique assms that by metis
  have "lane_inv (set_task_at i point st) lane" for lane
  proof -
    have "lane_inv st lane" using assms(1) by (blast dest: order_inv_lane)
    moreover have "\<not> (\<exists>e. rv_at t' = AtEnd e)" if "t' \<in> set (lane_tasks lane st)" "rv_arrival t' = i" for t'
      using one [of t'] that assms(4) by (simp add: lane_tasks_def)
    ultimately show ?thesis unfolding lane_inv_def by (auto simp: chain_ok_map intro!: behind_map)
  qed
  moreover have "tasks_inv (set_task_at i point st)"
  proof -
    have old: "tasks_inv st" using assms(1) by (simp add: order_inv_def)
    have "map rv_arrival (map (move_task i point) ts) = map rv_arrival ts" for ts :: "'a receive_task list"
      by (induction ts) simp_all
    moreover have "rv_arrival u < sr_next_arrival st \<and> rv_arrival u \<notin> sr_done st \<and>
        (\<forall>p. rv_at u = AtForward p \<longrightarrow> set_option (rv_predecessor u) \<subseteq> sr_done st)"
      if "u \<in> set (map (move_task i point) (sr_tasks st))" for u
    proof -
      obtain t' where t': "t' \<in> set (sr_tasks st)" "u = move_task i point t'" using \<open>u \<in> _\<close> unfolding set_map by blast
      show ?thesis
      proof (cases "rv_arrival t' = i")
        case True
        then show ?thesis using one [OF t'(1)] t' old assms(5) unfolding tasks_inv_def predecessor_done_iff by auto
      qed (use t' old in \<open>simp add: tasks_inv_def predecessor_done_iff\<close>)
    qed
    ultimately show ?thesis using old unfolding tasks_inv_def by (simp only: set_task_fields predecessor_done_iff) blast
  qed
  ultimately show ?thesis by (simp add: order_inv_def)
qed

lemma order_inv_put_lane:
  assumes "order_inv st" and "lane_tasks lane st = t # ts" and "rv_at t = AtEnd e"
    and "\<forall>j \<in> set (arrivals_of lane (sr_inbox st)). j < rv_arrival t"
    and "same_lanes st st'" and "sr_inbox st' = sr_inbox st @ [entry]" and "ie_origin entry = Some (lane, rv_arrival t)"
  shows "order_inv st'"
proof -
  have t: "t \<in> set (sr_tasks st)" and sorted: "sorted_wrt (<) (map rv_arrival (t # ts))"
    using assms(1,2) unfolding order_inv_def tasks_inv_def lane_tasks_def
    by (metis filter_is_subset list.set_intros(1) subsetD, metis sorted_wrt_map sorted_wrt_filter)
  have "lane_inv st' l" for l
  proof -
    have old: "lane_inv st l" using assms(1) by (blast dest: order_inv_lane)
    have tasks: "lane_tasks l st' = lane_tasks l st" using assms(5) by (simp add: lane_tasks_def same_lanes_def)
    show ?thesis
    proof (cases "l = lane")
      case True
      have "behind [rv_arrival t] (t # ts)" using sorted assms(3) by (auto simp: behind_def)
      then show ?thesis using old tasks True assms t
        by (auto simp: lane_inv_def same_lanes_def sorted_wrt_append behind_def order_inv_def tasks_inv_def)
    next
      case False
      then show ?thesis using old tasks assms(5-7) by (simp add: lane_inv_def same_lanes_def)
    qed
  qed
  moreover have "tasks_inv st'"
    using assms(1,5) by (simp add: order_inv_def tasks_inv_def same_lanes_def predecessor_done_iff)
  ultimately show ?thesis by (simp add: order_inv_def)
qed


text \<open>A handler that runs for a task and then moves it on.\<close>

lemma set_task_same_lanes: "same_lanes st st' \<Longrightarrow> same_lanes (set_task_at i point st) (set_task_at i point st')"
  by (simp add: same_lanes_def)

lemma order_inv_handler:
  assumes inv: "order_inv st" and t: "t \<in> set (sr_tasks st)" "rv_arrival t = i" "\<not> (\<exists>e. rv_at t = AtEnd e)"
    and d: "delivers (Some (rv_lane t, i)) st (point, st')"
    and turn: "sr_inbox st' \<noteq> sr_inbox st \<or> (\<exists>p. point = AtForward p) \<Longrightarrow> predecessor_done t st"
  shows "order_inv (set_task_at i point st')"
proof -
  let ?moved = "set_task_at i point st"
  have moved: "order_inv ?moved" using order_inv_set_task [OF inv t] turn by blast
  have same: "same_lanes ?moved (set_task_at i point st')" using d by (simp add: delivers_def set_task_same_lanes)
  show ?thesis
  proof (cases "sr_inbox st' = sr_inbox st")
    case True
    then have "keeps_lanes ?moved (set_task_at i point st')" using same by (simp add: keeps_lanes_def)
    then show ?thesis by (rule order_inv_keeps [OF _ moved])
  next
    case False
    then obtain entry where e: "sr_inbox st' = sr_inbox st @ [entry]" "ie_origin entry = Some (rv_lane t, i)" "point = AtEnd None"
      using d unfolding delivers_def by auto
    obtain ts where head: "lane_tasks (rv_lane t) st = t # ts" using head_of_lane [OF inv t(1)] turn False by blast
    have "j < rv_arrival t" if "j \<in> set (arrivals_of (rv_lane t) (sr_inbox st))" for j
      using order_inv_lane [OF inv, of "rv_lane t"] that head t(3) unfolding lane_inv_def behind_def
      by (metis le_neq_implies_less list.set_intros(1))
    then show ?thesis
      using order_inv_put_lane [OF moved, of "rv_lane t" "t\<lparr>rv_at := point\<rparr>" "map (move_task i point) ts" None "set_task_at i point st'" entry]
        head t(2) e same by simp
  qed
qed

text \<open>A new task, and the end of one.\<close>

lemma chain_ok_snoc:
  assumes "chain_ok ts tail done" and "rv_predecessor t = tail"
  shows "chain_ok (ts @ [t]) (Some (rv_arrival t)) done"
  using assms by (cases ts) (auto simp: linked_append last_map)

lemma order_inv_schedule: "order_inv st \<Longrightarrow> order_inv (schedule_lane_task lane job st)"
proof -
  assume inv: "order_inv st"
  let ?t = "\<lparr>rv_lane = lane, rv_job = job, rv_predecessor = dict_get (sr_lane_tails st) lane,
     rv_arrival = sr_next_arrival st, rv_at = AtStart\<rparr>"
  let ?st = "schedule_lane_task lane job st"
  have tasks: "lane_tasks l ?st = (if l = lane then lane_tasks l st @ [?t] else lane_tasks l st)" for l
    by (simp add: lane_tasks_def schedule_lane_task_def)
  have "lane_inv ?st l" for l
  proof -
    have old: "lane_inv st l" by (rule order_inv_lane [OF inv])
    then have "behind (arrivals_of l (sr_inbox st)) (lane_tasks l st @ [?t])" by (auto simp: lane_inv_def behind_def)
    moreover have "chain_ok (lane_tasks lane st @ [?t]) (Some (sr_next_arrival st)) (sr_done st)"
      using chain_ok_snoc [of "lane_tasks lane st" _ _ ?t] order_inv_lane [OF inv, of lane] by (simp add: lane_inv_def)
    ultimately show ?thesis using old tasks unfolding lane_inv_def by (auto simp: schedule_lane_task_def less_Suc_eq)
  qed
  moreover have "tasks_inv ?st"
    using inv by (auto simp: order_inv_def tasks_inv_def schedule_lane_task_def sorted_wrt_append less_Suc_eq predecessor_done_iff)
  ultimately show ?thesis by (simp add: order_inv_def)
qed


lemma chain_ok_finish:
  assumes "chain_ok (t # ts) tail done"
  shows "chain_ok ts (if tail = Some (rv_arrival t) then None else tail) (insert (rv_arrival t) done)
    \<or> (\<exists>t' \<in> set ts. rv_arrival t' = rv_arrival t)"
  using assms by (cases ts) (auto split: if_splits)

lemma chain_ok_mono: "chain_ok ts tail done \<Longrightarrow> done \<subseteq> done' \<Longrightarrow> chain_ok ts tail done'"
  by (cases ts) auto

lemma lane_head:
  assumes inv: "order_inv st" and head: "lane_tasks lane st = t # ts"
  shows "t \<in> set (sr_tasks st)" and "rv_lane t = lane" and "predecessor_done t st"
    and "\<And>t'. t' \<in> set ts \<Longrightarrow> rv_arrival t < rv_arrival t'"
proof -
  have "t \<in> set (lane_tasks lane st)" by (simp add: head)
  then show "t \<in> set (sr_tasks st)" "rv_lane t = lane" by (simp_all add: lane_tasks_def)
  show "predecessor_done t st" using order_inv_lane [OF inv, of lane] head by (simp add: lane_inv_def predecessor_done_iff)
  have "sorted_wrt (<) (map rv_arrival (sr_tasks st))" using inv by (simp add: order_inv_def tasks_inv_def)
  then have "sorted_wrt (<) (map rv_arrival (t # ts))"
    unfolding head [symmetric] lane_tasks_def by (metis sorted_wrt_map sorted_wrt_filter)
  then show "\<And>t'. t' \<in> set ts \<Longrightarrow> rv_arrival t < rv_arrival t'" by simp
qed

lemma lane_tasks_finish:
  assumes inv: "order_inv st" and head: "lane_tasks (rv_lane t) st = t # ts"
  shows "lane_tasks l (finish_receive t e st) = (if l = rv_lane t then ts else lane_tasks l st)"
proof -
  note h = lane_head [OF inv head]
  let ?rest = "\<lambda>t'. rv_arrival t' \<noteq> rv_arrival t"
  have "lane_tasks l (finish_receive t e st) = filter ?rest (lane_tasks l st)"
    by (simp add: lane_tasks_def finish_receive_def on_background_task_done_def conj_commute split: option.split)
  moreover have "filter ?rest (lane_tasks l st) = lane_tasks l st" if "l \<noteq> rv_lane t"
    using that by (subst filter_id_conv) (auto simp: lane_tasks_def dest: arrival_unique [OF inv h(1)])
  moreover have "filter ?rest ts = ts" using h(4) by (force simp: filter_id_conv)
  ultimately show ?thesis using head by simp
qed

lemma order_inv_finish:
  assumes inv: "order_inv st" and t: "t \<in> set (sr_tasks st)" and turn: "predecessor_done t st"
  shows "order_inv (finish_receive t e st)"
proof -
  let ?st = "finish_receive t e st" and ?rest = "\<lambda>t'. rv_arrival t' \<noteq> rv_arrival t"
  obtain ts where head: "lane_tasks (rv_lane t) st = t # ts" using head_of_lane [OF inv t turn] by blast
  have fields: "sr_tasks ?st = filter ?rest (sr_tasks st)" "sr_done ?st = insert (rv_arrival t) (sr_done st)"
    "sr_next_arrival ?st = sr_next_arrival st" "sr_inbox ?st = sr_inbox st"
    "sr_lane_tails ?st = (if dict_get (sr_lane_tails st) (rv_lane t) = Some (rv_arrival t)
       then dict_del (rv_lane t) (sr_lane_tails st) else sr_lane_tails st)"
    by (simp_all add: finish_receive_def on_background_task_done_def split: option.split)
  have ts: "?rest t'" if "t' \<in> set ts" for t' using lane_head(4) [OF inv head that] by simp
  note tasks = lane_tasks_finish [OF inv head, of _ e]
  have "lane_inv ?st l" for l
  proof -
    have old: "lane_inv st l" by (rule order_inv_lane [OF inv])
    have "chain_ok (lane_tasks l ?st) (dict_get (sr_lane_tails ?st) l) (sr_done ?st)"
    proof (cases "l = rv_lane t")
      case True
      then show ?thesis using old head ts chain_ok_finish [of t ts] tasks by (auto simp: lane_inv_def fields)
    next
      case False
      then show ?thesis using old tasks by (auto simp: lane_inv_def fields elim: chain_ok_mono)
    qed
    moreover have "set (lane_tasks l ?st) \<subseteq> set (lane_tasks l st)" using tasks head by auto
    ultimately show ?thesis using old unfolding lane_inv_def behind_def by (auto simp: fields)
  qed
  moreover have "tasks_inv ?st"
    using inv t unfolding order_inv_def tasks_inv_def
    by (auto simp: fields predecessor_done_iff sorted_wrt_map intro!: sorted_wrt_filter)
  ultimately show ?thesis by (simp add: order_inv_def)
qed

lemma find_task: "find (\<lambda>t. rv_arrival t = i) ts = Some t \<Longrightarrow> t \<in> set ts \<and> rv_arrival t = i"
  by (auto simp: find_Some_iff)

lemma order_inv_round:
  assumes inv: "order_inv st"
  shows "order_inv (receive_round sv outcome failed i st)"
proof (cases "find (\<lambda>t. rv_arrival t = i) (sr_tasks st)")
  case None
  then show ?thesis using inv by (simp add: receive_round_def)
next
  case (Some t)
  then have t: "t \<in> set (sr_tasks st)" "rv_arrival t = i" using find_task by blast+
  let ?go = "\<lambda>(point, st). set_task_at i point st" and ?origin = "Some (rv_lane t, i)"
  have quiet: "order_inv (?go result)"
    if "keeps_lanes st (snd result)" "\<And>p. fst result \<noteq> AtForward p" "\<not> (\<exists>e. rv_at t = AtEnd e)"
    for result :: "'a receive_at \<times> ('a, 'b) stage"
    using order_inv_handler [OF inv t that(3), of "fst result" "snd result"] that(1,2) delivers_keeps [of st result ?origin]
    by (auto simp: keeps_lanes_def split: prod.split)
  have turn: "order_inv (?go result)"
    if "delivers ?origin st result" "predecessor_done t st" "\<not> (\<exists>e. rv_at t = AtEnd e)"
    for result :: "'a receive_at \<times> ('a, 'b) stage"
    using order_inv_handler [OF inv t that(3), of "fst result" "snd result"] that(1,2) by (auto split: prod.split)
  have forward: "predecessor_done t st" if "rv_at t = AtForward p" for p
    using inv t that by (simp add: order_inv_def tasks_inv_def)
  show ?thesis
  proof (cases "rv_at t")
    case AtStart
    then show ?thesis using Some quiet [of "start_receive sv (rv_job t) st"]
      by (simp add: receive_round_def Let_def start_no_forward keeps_lanes_start)
  next
    case (AtRead discards)
    then show ?thesis using Some quiet [of "read_done sv (rv_job t) discards outcome st"]
      by (simp add: receive_round_def Let_def keeps_lanes_read read_no_forward)
  next
    case (AtAck cleanup next_up)
    then show ?thesis using Some quiet [of "ack_done (rv_job t) cleanup next_up failed st"]
      by (simp add: receive_round_def Let_def keeps_lanes_ack_done ack_done_no_forward)
  next
    case (AtTurn h)
    then show ?thesis using Some inv turn [of "take_turn sv (rv_lane t, i) (rv_job t) h st"]
      by (simp add: receive_round_def Let_def delivers_turn)
  next
    case AtFailure
    then show ?thesis using Some quiet [of "(AtEnd failed, clear_request_state sv False (job_request (rv_job t)) st)"]
      by (simp add: receive_round_def Let_def keeps_lanes_clear)
  next
    case (AtForward payload)
    then show ?thesis using Some forward turn [of "enqueue_request sv ?origin payload st"] turn [of "(AtEnd failed, st)"]
      by (cases failed) (simp_all add: receive_round_def Let_def delivers_enqueue delivers_keeps)
  next
    case (AtEnd e)
    then show ?thesis using Some inv order_inv_finish [OF inv t(1)] by (simp add: receive_round_def Let_def)
  qed
qed


text \<open>A chunk of a batch goes straight into the inbox when its lane is idle.\<close>

lemma order_inv_put_direct:
  assumes inv: "order_inv st" and idle: "dict_get (sr_lane_tails st) lane = None"
  shows "order_inv (put_inbox (Some (lane, sr_next_arrival st)) r message (st\<lparr>sr_next_arrival := Suc (sr_next_arrival st)\<rparr>))"
    (is "order_inv ?st")
proof -
  have fields: "sr_tasks ?st = sr_tasks st" "sr_done ?st = sr_done st" "sr_lane_tails ?st = sr_lane_tails st"
    "sr_next_arrival ?st = Suc (sr_next_arrival st)"
    "arrivals_of l (sr_inbox ?st) = arrivals_of l (sr_inbox st) @ (if l = lane then [sr_next_arrival st] else [])" for l
    by (simp_all add: put_inbox_def)
  have "lane_inv ?st l" for l
  proof -
    have old: "lane_inv st l" by (rule order_inv_lane [OF inv])
    moreover have "lane_tasks lane st = []"
      using order_inv_lane [OF inv, of lane] idle by (cases "lane_tasks lane st") (auto simp: lane_inv_def)
    moreover have "lane_tasks l ?st = lane_tasks l st" by (simp add: lane_tasks_def fields)
    ultimately show ?thesis unfolding lane_inv_def
      by (auto simp: fields sorted_wrt_append behind_def less_Suc_eq)
  qed
  moreover have "tasks_inv ?st"
    using inv by (auto simp: order_inv_def tasks_inv_def fields predecessor_done_iff less_Suc_eq)
  ultimately show ?thesis by (simp add: order_inv_def)
qed

lemma order_inv_schedule_chunk: "order_inv st \<Longrightarrow> order_inv (schedule_chunk sv batch chunk st)"
proof -
  assume inv: "order_inv st"
  let ?r = "bc_request_id chunk" and ?lane = "(bc_request_id chunk, cb_from_stage batch)"
  let ?bound = "record_replica_bindings ?r (dict_get (cb_replica_bindings batch) ?r) st"
  let ?st = "?bound\<lparr>sr_active_requests := insert ?r (sr_active_requests ?bound)\<rparr>"
  obtain b st1 where o: "open_pre_payload_stream_if_allowed sv ?r ?st = (b, st1)" by (meson surj_pair)
  have bound: "order_inv ?bound" by (rule order_inv_keeps [OF keeps_lanes_record_bindings inv])
  have 1: "order_inv ?st" by (rule order_inv_keeps [OF keeps_lanes_active bound])
  have k: "keeps_lanes ?st st1" using keeps_lanes_open [of ?st sv ?r] o by simp
  have 2: "order_inv st1" by (rule order_inv_keeps [OF k 1])
  have tails: "dict_get (sr_lane_tails st1) ?lane = dict_get (sr_lane_tails ?st) ?lane"
    using k by (simp add: keeps_lanes_def same_lanes_def)
  show ?thesis
  proof (cases "?r \<in> set (sr_aborted ?bound)")
    case True
    then show ?thesis using bound by (simp add: schedule_chunk_def route_stream_item_def Let_def)
  next
    case live: False
    show ?thesis
    proof (cases "dict_has (sr_lane_tails ?st) ?lane")
      case True
      then show ?thesis using live order_inv_schedule [OF 1] by (simp add: schedule_chunk_def route_stream_item_def Let_def)
    next
      case False
      then have "dict_get (sr_lane_tails st1) ?lane = None" using tails by (simp add: dict_has_iff)
      then show ?thesis using live False o order_inv_put_direct [OF 2] order_inv_schedule [OF 2]
        by (simp add: schedule_chunk_def route_stream_item_def Let_def split: prod.split)
    qed
  qed
qed

lemma order_inv_fold:
  assumes "\<And>x st. order_inv st \<Longrightarrow> order_inv (f x st)"
  shows "order_inv st \<Longrightarrow> order_inv (fold f xs st)"
  by (induction xs arbitrary: st) (simp_all add: assms)

lemma order_inv_batch: "order_inv st \<Longrightarrow> order_inv (schedule_stream_chunk_batch sv batch st)"
  unfolding schedule_stream_chunk_batch_def
  by (cases "cb_chunks batch") (auto intro!: order_inv_fold order_inv_schedule order_inv_schedule_chunk)

lemma order_inv_data: "order_inv st \<Longrightarrow> order_inv (schedule_receive_task msg st)"
  unfolding schedule_receive_task_def Let_def
  by (intro order_inv_schedule) (rule order_inv_keeps [OF keeps_lanes_record_bindings])

text \<open>Calls from outside the lanes.\<close>

lemma order_inv_add_call: "order_inv (snd result) \<Longrightarrow> order_inv (add_call r from_stage rest result)"
  by (cases result; cases "fst result") (auto simp: add_call_def intro: order_inv_keeps [OF keeps_lanes_queue(6)])

lemma order_inv_call: "delivers None st result \<Longrightarrow> order_inv st \<Longrightarrow> order_inv (add_call r from_stage rest result)"
  by (blast intro: order_inv_add_call order_inv_delivers_outside)

lemma order_inv_submit: "order_inv st \<Longrightarrow> order_inv (add_call r from_stage rest (on_submit sv r bindings payload st))"
proof -
  assume inv: "order_inv st"
  let ?bound = "record_replica_bindings r bindings st"
  have "keeps_lanes st (open_stream r (?bound\<lparr>sr_active_requests := insert r (sr_active_requests ?bound)\<rparr>))"
    by (rule keeps_lanes_trans [OF keeps_lanes_record_bindings keeps_lanes_trans [OF keeps_lanes_active keeps_lanes_open_stream]])
  then have "delivers None st (on_submit sv r bindings payload st)"
    using delivers_after [OF _ delivers_execute] by (auto simp: on_submit_def Let_def delivers_keeps keeps_lanes_send_failure)
  then show ?thesis using inv by (rule order_inv_call)
qed

lemma order_inv_local_payload: "order_inv st \<Longrightarrow> order_inv (receive_local_payload sv r from_stage payload bindings st)"
  unfolding receive_local_payload_def
  by (rule order_inv_call [OF delivers_after [OF keeps_lanes_record_bindings delivers_payload]])

lemma order_inv_local_signal:
  "order_inv st \<Longrightarrow> order_inv (receive_local_stream_signal sv r from_stage is_done failure bindings st)"
  unfolding receive_local_stream_signal_def
  by (rule order_inv_call [OF delivers_after [OF keeps_lanes_record_bindings delivers_signal]])

lemma order_inv_local_chunks: "order_inv st \<Longrightarrow> order_inv (receive_local_stream_chunks sv bindings from_stage chunks st)"
proof (induction chunks arbitrary: st)
  case (Cons chunk chunks)
  let ?r = "bc_request_id chunk" and ?item = "stream_item_from from_stage (bc_chunk_id chunk) (bc_data chunk)"
  let ?bound = "record_replica_bindings ?r (bindings ?r) st"
  let ?st = "?bound\<lparr>sr_active_requests := insert ?r (sr_active_requests ?bound)\<rparr>"
  obtain point st1 where routed: "route_stream_item_or_fail sv None ?r ?item ?st = (point, st1)" by (meson surj_pair)
  have k: "keeps_lanes st ?st" by (rule keeps_lanes_trans [OF keeps_lanes_record_bindings keeps_lanes_active])
  have "delivers None st (point, st1)"
    using delivers_after [OF k delivers_route [of None ?st sv ?r ?item]] routed by simp
  then have 1: "order_inv st1" using order_inv_delivers_outside [OF _ Cons.prems] by fastforce
  have "order_inv (add_call r f rest (point, st1))" for r f rest using 1 by (simp add: order_inv_add_call)
  then have 2: "order_inv (case (point, st1) of (AtEnd None, st) \<Rightarrow> receive_local_stream_chunks sv bindings from_stage chunks st
      | result \<Rightarrow> add_call ?r from_stage chunks result)"
    using Cons.IH [OF 1] by (simp split: receive_at.split option.split) blast?
  show ?case using Cons.IH [OF Cons.prems] 2 routed by (simp add: Let_def)
qed simp

lemma order_inv_call_round: "order_inv st \<Longrightarrow> order_inv (call_round sv bindings failed k st)"
proof -
  assume inv: "order_inv st"
  have 1: "order_inv (st\<lparr>sr_calls := c\<rparr>)" for c by (rule order_inv_keeps [OF keeps_lanes_queue(6) inv])
  have 2: "order_inv (clear_request_state sv False r (st\<lparr>sr_calls := c\<rparr>))" for c r by (rule order_inv_keeps [OF keeps_lanes_clear 1])
  have 3: "order_inv (snd (enqueue_request sv None payload (st\<lparr>sr_calls := c\<rparr>)))" for c payload
    by (rule order_inv_delivers_outside [OF delivers_enqueue 1])
  show ?thesis
    by (cases "cl_at (sr_calls st ! k)") (simp_all add: call_round_def Let_def inv 1 2 3 order_inv_local_chunks)
qed

lemma keeps_lanes_cancel: "keeps_lanes st (cancel_receive sv t st)"
  by (simp add: cancel_receive_def keeps_lanes_clear split: receive_at.split)

lemma order_inv_stop:
  assumes "order_inv st"
  shows "order_inv (stop_receive sv st)"
proof -
  have "order_inv (fold (cancel_receive sv) (sr_tasks st) st)"
    by (rule order_inv_fold [OF order_inv_keeps [OF keeps_lanes_cancel] assms])
  then have "order_inv (st'\<lparr>sr_running := False, sr_tasks := [], sr_lane_tails := []\<rparr>)"
    if "st' = fold (cancel_receive sv) (sr_tasks st) st" for st'
    using that by (simp add: order_inv_def tasks_inv_def lane_inv_def lane_tasks_def behind_def)
  then show ?thesis by (simp add: stop_receive_def)
qed

theorem order_inv_step: "receive_step sv st st' \<Longrightarrow> order_inv st \<Longrightarrow> order_inv st'"
  by (induction rule: receive_step.induct)
    (blast intro: order_inv_data order_inv_batch order_inv_round order_inv_submit order_inv_local_payload
      order_inv_local_chunks order_inv_local_signal order_inv_call_round order_inv_stop
      order_inv_call [OF delivers_execute] order_inv_keeps [OF keeps_lanes_on_abort])+

interpretation receive: step_system "\<lambda>st. \<exists>handler b. st = stage_init handler b" "receive_step sv" order_inv
  by unfold_locales (auto intro: order_inv_init order_inv_step)

end
