(* ===== verification/Stage_Aborts.thy ===== *)
theory Stage_Aborts
  imports Stage_Order
begin

section \<open>What an abort leaves behind\<close>

text \<open>Nothing of the request is left in the stage's own tables.\<close>

definition request_clear :: "string \<Rightarrow> ('d, 'h) stage \<Rightarrow> bool" where
  "request_clear r st \<longleftrightarrow>
     r \<notin> sr_active_requests st \<and> (\<forall>q. sr_stream_queue st = Some q \<longrightarrow> \<not> sq_has r q) \<and>
     (\<forall>target. dict_get (sr_stream_chunk_counters st) (r, target) = None) \<and> r \<notin> sr_first_stream_chunk_seen st \<and>
     sr_local_stream_targets st r = {} \<and> sr_nonlocal_stream_targets st r = {} \<and>
     dict_get (sr_replica_bindings st) r = None"

text \<open>The failure of the request is on its way; its end clears the tables.\<close>

definition failing :: "string \<Rightarrow> ('d, 'h) stage \<Rightarrow> bool" where
  "failing r st \<longleftrightarrow>
     (\<exists>t \<in> set (sr_tasks st). rv_at t = AtFailure \<and> job_request (rv_job t) = r) \<or>
     (\<exists>c \<in> set (sr_calls st). cl_at c = AtFailure \<and> cl_request_id c = r)"

definition abort_inv :: "('d, 'h) stage \<Rightarrow> bool" where
  "abort_inv st \<longleftrightarrow> (\<forall>r \<in> set (sr_aborted st). request_clear r st \<or> failing r st)"

text \<open>
  From the first state to the second, every request that is aborted there is clear or was aborted before and is no
  worse off, but for those of \<open>R\<close>; tasks and calls stay.
\<close>

definition tidies :: "string set \<Rightarrow> ('d, 'h) stage \<Rightarrow> ('d, 'h) stage \<Rightarrow> bool" where
  "tidies R st st' \<longleftrightarrow>
     (\<forall>r \<in> set (sr_aborted st') - R. request_clear r st' \<or> r \<in> set (sr_aborted st) \<and> (request_clear r st \<longrightarrow> request_clear r st'))
     \<and> sr_tasks st' = sr_tasks st \<and> sr_calls st' = sr_calls st"

lemma tidies_refl [simp]: "tidies R st st"
  by (simp add: tidies_def)

lemma tidies_trans: "tidies R st st' \<Longrightarrow> tidies R st' st'' \<Longrightarrow> tidies R st st''"
  unfolding tidies_def by (metis DiffE DiffI)

lemma tidies_mono: "tidies R st st' \<Longrightarrow> R \<subseteq> R' \<Longrightarrow> tidies R' st st'"
  unfolding tidies_def by blast

named_theorems tidying \<open>operations that leave no trace of an aborted request\<close>

lemma tidies_same:
  assumes "sr_aborted st' = sr_aborted st" and "\<And>r. r \<in> set (sr_aborted st) \<Longrightarrow> request_clear r st \<Longrightarrow> request_clear r st'"
    and "sr_tasks st' = sr_tasks st" and "sr_calls st' = sr_calls st"
  shows "tidies R st st'"
  using assms by (simp add: tidies_def)

lemma tidies_outputs [tidying]:
  "tidies R st (st\<lparr>sr_handler := h\<rparr>)" "tidies R st (st\<lparr>sr_forwarded := f\<rparr>)" "tidies R st (st\<lparr>sr_fanned_out := w\<rparr>)"
  "tidies R st (st\<lparr>sr_acks := a\<rparr>)" "tidies R st (st\<lparr>sr_failures := fs\<rparr>)" "tidies R st (scheduler_abort r st)"
  "tidies R st (comm_cleanup r st)" "tidies R st (put_inbox origin r message st)"
  by (rule tidies_same; simp add: request_clear_def scheduler_abort_def comm_cleanup_def put_inbox_def)+

lemma tidies_active: "r \<notin> set (sr_aborted st) \<Longrightarrow> tidies R st (st\<lparr>sr_active_requests := insert r (sr_active_requests st)\<rparr>)"
  by (rule tidies_same) (auto simp: request_clear_def)

lemma sq_has_open: "sq_has r' (sq_open r q) \<longleftrightarrow> r' = r \<or> sq_has r' q"
  by (auto simp: sq_has_def sq_open_def Let_def)

lemma sq_has_close: "sq_has r' (sq_close order r q) \<longleftrightarrow> r' \<noteq> r \<and> sq_has r' q"
  by (simp add: sq_has_def sq_close_def Let_def put_nowait_def split: option.split)

lemma sq_has_put_done: "sq_has r' (put_done r source q) \<longleftrightarrow> sq_has r' q"
  by (simp add: sq_has_def put_done_def put_event_def put_nowait_def Let_def split: option.split)


lemma tidies_bindings [tidying]: "tidies R st (record_replica_bindings r b st)"
  by (rule tidies_same) (auto simp: record_replica_bindings_def request_clear_def split: option.split)

lemma tidies_open_stream: "r \<notin> set (sr_aborted st) \<Longrightarrow> tidies R st (open_stream r st)"
  by (rule tidies_same) (auto simp: open_stream_def request_clear_def sq_has_open split: if_splits)

lemma tidies_open: "r \<notin> set (sr_aborted st) \<Longrightarrow> tidies R st (snd (open_pre_payload_stream_if_allowed sv r st))"
  by (rule tidies_same) (auto simp: open_pre_payload_stream_if_allowed_def request_clear_def sq_has_open split: option.split)

lemma tidies_stream_done [tidying]:
  "tidies R st (st\<lparr>sr_stream_queue := map_option (put_done r source) (sr_stream_queue st)\<rparr>)"
  by (rule tidies_same) (auto simp: request_clear_def sq_has_put_done)

lemma clear_filter_none: "dict_get (filter (\<lambda>((r', _), _). r' \<noteq> r) d) (r, target) = None"
  by (auto simp: map_of_eq_None_iff)

lemma clear_filter_keeps: "dict_get d (r', target) = None \<Longrightarrow> dict_get (filter (\<lambda>((r', _), _). r' \<noteq> r) d) (r', target) = None"
  by (auto simp: map_of_eq_None_iff)

lemma request_clear_clears: "request_clear r (clear_request_state sv False r st)"
  by (auto simp: request_clear_def clear_request_state_def sq_has_close clear_filter_none)

lemma clear_keeps_clear: "request_clear r' st \<Longrightarrow> request_clear r' (clear_request_state sv False r st)"
  by (auto simp: request_clear_def clear_request_state_def sq_has_close clear_filter_keeps)

lemma clear_fields [simp]:
  "sr_aborted (clear_request_state sv keep r st) = sr_aborted st" "sr_tasks (clear_request_state sv keep r st) = sr_tasks st"
  "sr_calls (clear_request_state sv keep r st) = sr_calls st"
  by (simp_all add: clear_request_state_def)

lemma tidies_clear [tidying]: "tidies R st (clear_request_state sv False r st)"
  by (rule tidies_same) (simp_all add: clear_keeps_clear)

text \<open>A request is recorded as aborted and its state is cleared at once, or when its failure is out.\<close>

lemma set_record_bounded: "set (record_bounded_request_id order ids r) \<subseteq> insert r (set ids)"
  by (auto simp: record_bounded_request_id_def Let_def)

lemma tidies_record: "tidies {r} st (record_aborted_request_id sv r st)"
  using set_record_bounded [of "sv_set_order sv" "sr_aborted st" r]
  by (auto simp: tidies_def record_aborted_request_id_def request_clear_def)

lemma tidies_settle: "tidies {r} st st' \<Longrightarrow> tidies {} st (clear_request_state sv False r st')"
  unfolding tidies_def using request_clear_clears clear_keeps_clear by (metis DiffE DiffI clear_fields empty_iff singletonD)

lemma tidies_on_abort [tidying]: "tidies R st (on_abort sv r st)"
proof -
  have "tidies {r} st (comm_cleanup r (record_aborted_request_id sv r st))"
    by (rule tidies_trans [OF tidies_record tidies_outputs(7)])
  then have "tidies {} st (clear_request_state sv False r (comm_cleanup r (record_aborted_request_id sv r st)))"
    by (rule tidies_settle)
  then have "tidies {} st (on_abort sv r st)"
    unfolding on_abort_def Let_def by (auto intro: tidies_trans tidies_outputs(6))
  then show ?thesis by (rule tidies_mono) simp
qed

lemma tidies_aborts [tidying]: "tidies R st (fold (on_abort sv) rs st)"
  by (induction rs arbitrary: st) (auto intro: tidies_trans [OF tidies_on_abort])

text \<open>The handlers: what is left over is the request whose failure the task is about to send.\<close>

definition leaves :: "string \<Rightarrow> ('d, 'h) stage \<Rightarrow> 'd receive_at \<times> ('d, 'h) stage \<Rightarrow> bool" where
  "leaves r st result \<longleftrightarrow> tidies (if fst result = AtFailure then {r} else {}) st (snd result)"

lemma leaves_tidies: "tidies {} st (snd result) \<Longrightarrow> leaves r st result"
  by (auto simp: leaves_def intro: tidies_mono)

lemma leaves_after: "tidies {} st st' \<Longrightarrow> leaves r st' result \<Longrightarrow> leaves r st result"
  unfolding leaves_def by (meson empty_subsetI tidies_mono tidies_trans)

lemma leaves_failure: "leaves r st (send_failure sv r failure st)"
proof -
  let ?st = "record_aborted_request_id sv r st"
  have "tidies {r} st (?st\<lparr>sr_failures := f\<rparr>)" for f by (rule tidies_trans [OF tidies_record tidies_outputs(5)])
  then show ?thesis by (simp add: send_failure_def Let_def leaves_def tidies_settle tidies_record)
qed

lemma leaves_abort_failure: "leaves r st (send_failure sv r failure (scheduler_abort r st))"
  by (rule leaves_after [OF tidies_outputs(6) leaves_failure])

lemma leaves_route:
  assumes "r \<notin> set (sr_aborted st)"
  shows "leaves r st (route_stream_item_or_fail sv origin r item st)"
proof -
  obtain b st1 where o: "open_pre_payload_stream_if_allowed sv r st = (b, st1)" by (meson surj_pair)
  with tidies_open [OF assms, of "{}" sv] have 1: "tidies {} st st1" by simp
  have "leaves r st (AtEnd None, put_inbox origin r (StreamChunk i) st1)" for i
    by (rule leaves_tidies) (simp add: tidies_trans [OF 1 tidies_outputs(8)])
  then show ?thesis using o leaves_after [OF 1 leaves_abort_failure]
    by (cases b) (simp_all add: route_stream_item_or_fail_def route_stream_item_def Let_def)
qed

lemma leaves_stream_error: "leaves r st (queue_stream_error sv r failure st)"
  by (simp add: queue_stream_error_def leaves_abort_failure leaves_tidies)

lemma leaves_signal: "leaves r st (receive_stream_signal sv origin r from_stage is_done failure st)"
proof (cases "r \<in> set (sr_aborted st)")
  case False
  let ?st = "st\<lparr>sr_active_requests := insert r (sr_active_requests st)\<rparr>"
  have 0: "tidies {} st ?st" by (rule tidies_active [OF False])
  obtain b st1 where o: "open_pre_payload_stream_if_allowed sv r ?st = (b, st1)" by (meson surj_pair)
  have "tidies {} ?st st1" using tidies_open [of r ?st "{}" sv] False o by simp
  with 0 have 1: "tidies {} st st1" by (rule tidies_trans)
  have "leaves r st (queue_stream_error sv r why ?st)" for why by (rule leaves_after [OF 0 leaves_stream_error])
  moreover have "leaves r st (send_failure sv r why (scheduler_abort r st1))" for why
    by (rule leaves_after [OF 1 leaves_abort_failure])
  moreover have "leaves r st (AtEnd None, put_inbox origin r StreamDone
      (st1\<lparr>sr_stream_queue := map_option (put_done r source) (sr_stream_queue st1)\<rparr>))" for source
    using tidies_trans [OF 1 tidies_trans [OF tidies_stream_done tidies_outputs(8)]] by (simp add: leaves_tidies)
  moreover have "leaves r st (AtEnd None, ?st)" using 0 by (simp add: leaves_tidies)
  ultimately show ?thesis using False o
    by (cases b) (simp_all add: receive_stream_signal_def Let_def split: option.split list.split)
qed (simp add: receive_stream_signal_def leaves_tidies)


lemma tidies_enqueue: "tidies R st (snd (enqueue_request sv origin payload st))"
  by (simp add: enqueue_request_def Let_def tidies_outputs(8) tidies_trans [OF tidies_outputs(3) tidies_outputs(8)])

lemma tidies_execute: "tidies R st (snd (execute sv origin payload st))"
proof -
  let ?aborted = "\<lambda>rs. fold (on_abort sv) rs st"
  have "tidies R st (snd (enqueue_request sv origin payload (?aborted rs)))" for rs
    by (rule tidies_trans [OF tidies_aborts tidies_enqueue])
  moreover have "tidies R st (?aborted rs\<lparr>sr_forwarded := f\<rparr>)" for rs f by (rule tidies_trans [OF tidies_aborts tidies_outputs(2)])
  ultimately show ?thesis
    by (simp add: execute_def Let_def tidies_enqueue tidies_aborts split: option.split sum.split)
qed

lemma leaves_payload: "leaves r' st (receive_payload_from_stage sv origin r from_stage payload st)"
proof (cases "r \<in> set (sr_aborted st)")
  case False
  let ?active = "st\<lparr>sr_active_requests := insert r (sr_active_requests st)\<rparr>"
  let ?st = "open_stream r ?active"
  obtain outcome handler where
    o: "sv_receive sv r (logical_source sv from_stage) payload (sr_handler ?st) = (outcome, handler)" by (meson surj_pair)
  let ?received = "?st\<lparr>sr_handler := handler\<rparr>"
  have "tidies {} ?active ?received" using False by (intro tidies_trans [OF tidies_open_stream tidies_outputs(1)]) simp
  with tidies_active [OF False] have 1: "tidies {} st ?received" by (rule tidies_trans)
  have "tidies {} st (snd (case outcome of Inl e \<Rightarrow> (AtEnd (Some e), ?received) | Inr None \<Rightarrow> (AtEnd None, ?received)
      | Inr (Some merged) \<Rightarrow> execute sv origin merged ?received))"
    using 1 tidies_trans [OF 1 tidies_execute] by (simp split: sum.split option.split)
  then show ?thesis using False o by (simp add: receive_payload_from_stage_def Let_def leaves_tidies)
qed (simp add: receive_payload_from_stage_def leaves_tidies)

lemma leaves_submit: "leaves r st (on_submit sv r bindings payload st)"
proof (cases "r \<in> set (sr_aborted st)")
  case False
  let ?bound = "record_replica_bindings r bindings st"
  let ?active = "?bound\<lparr>sr_active_requests := insert r (sr_active_requests ?bound)\<rparr>"
  have live: "r \<notin> set (sr_aborted ?bound)" using False by (simp add: record_replica_bindings_def split: option.split)
  then have "tidies {} ?active (open_stream r ?active)" by (intro tidies_open_stream) simp
  with tidies_trans [OF tidies_bindings tidies_active [OF live]] have "tidies {} st (open_stream r ?active)" by (rule tidies_trans)
  then have "tidies {} st (snd (execute sv None payload (open_stream r ?active)))" by (rule tidies_trans [OF _ tidies_execute])
  then show ?thesis using False by (simp add: on_submit_def Let_def leaves_tidies)
qed (simp add: on_submit_def leaves_failure)

lemma leaves_turn: "leaves (job_request job) st (take_turn sv origin job h st)"
  by (cases h) (simp_all add: take_turn_def Let_def leaves_route leaves_payload leaves_signal leaves_stream_error leaves_failure
      leaves_tidies split: option.split receive_job.split)

lemma tidies_ack: "tidies R st (snd (send_data_ack sv msg success cleanup next_up st))"
  by (simp add: send_data_ack_def tidies_outputs)

lemma tidies_start: "tidies R st (snd (start_receive sv job st))"
proof -
  have "tidies R st (snd (on_data_ready sv msg st))" for msg
    by (simp add: on_data_ready_def discard_data_def tidies_trans [OF tidies_outputs(7) tidies_ack]
        split: data_ref.split sum.split bool.split)
  moreover have "tidies R st (snd (on_stream_chunk sv msg st))" for msg
    by (simp add: on_stream_chunk_def discard_stream_chunk_data_def Let_def tidies_active split: data_ref.split sum.split)
  ultimately show ?thesis by (simp add: start_receive_def split: receive_job.split)
qed

lemma tidies_read: "tidies R st (snd (read_done sv job discards outcome st))"
  by (simp add: read_done_def tidies_ack split: receive_job.split relay_read.split)

lemma tidies_ack_done: "tidies R st (snd (ack_done job cleanup next_up failed st))"
  by (simp add: ack_done_def tidies_outputs split: option.split)

text \<open>From handlers to steps.\<close>

lemma abort_inv_tidies: "tidies {} st st' \<Longrightarrow> abort_inv st \<Longrightarrow> abort_inv st'"
  unfolding abort_inv_def tidies_def failing_def by (metis DiffI empty_iff)

lemma request_clear_more [simp]:
  "request_clear r (set_task_at i point st) \<longleftrightarrow> request_clear r st"
  "request_clear r (st\<lparr>sr_calls := c\<rparr>) \<longleftrightarrow> request_clear r st"
  "request_clear r (schedule_lane_task lane job st) \<longleftrightarrow> request_clear r st"
  "request_clear r (finish_receive t e st) \<longleftrightarrow> request_clear r st"
  by (simp_all add: request_clear_def set_task_at_def schedule_lane_task_def finish_receive_def on_background_task_done_def
      split: option.split)

lemma aborted_more [simp]:
  "sr_aborted (set_task_at i point st) = sr_aborted st" "sr_aborted (schedule_lane_task lane job st) = sr_aborted st"
  "sr_aborted (finish_receive t e st) = sr_aborted st"
  by (simp_all add: set_task_at_def schedule_lane_task_def finish_receive_def on_background_task_done_def split: option.split)

lemma calls_more [simp]:
  "sr_calls (set_task_at i point st) = sr_calls st" "sr_calls (schedule_lane_task lane job st) = sr_calls st"
  "sr_calls (finish_receive t e st) = sr_calls st"
  by (simp_all add: set_task_at_def schedule_lane_task_def finish_receive_def on_background_task_done_def split: option.split)

lemma failing_set_task:
  assumes "order_inv st" and "t \<in> set (sr_tasks st)" and "rv_arrival t = i" and "failing r st"
    and "rv_at t = AtFailure \<Longrightarrow> job_request (rv_job t) \<noteq> r"
  shows "failing r (set_task_at i point st)"
proof -
  have "t' \<in> set (sr_tasks (set_task_at i point st))"
    if "t' \<in> set (sr_tasks st)" "rv_at t' = AtFailure" "job_request (rv_job t') = r" for t'
  proof -
    have "rv_arrival t' \<noteq> i" using arrival_unique [OF assms(1,2) that(1)] assms(3,5) that by auto
    then show ?thesis using that(1) by force
  qed
  then show ?thesis using assms(4) unfolding failing_def calls_more by blast
qed

lemma failing_moved:
  assumes "t \<in> set (sr_tasks st)" and "rv_arrival t = i"
  shows "failing (job_request (rv_job t)) (set_task_at i AtFailure st)"
proof -
  have "move_task i AtFailure t \<in> set (sr_tasks (set_task_at i AtFailure st))" using assms(1) unfolding set_task_fields set_map by blast
  then have "t\<lparr>rv_at := AtFailure\<rparr> \<in> set (sr_tasks (set_task_at i AtFailure st))" using assms(2) by (simp del: set_task_fields)
  then show ?thesis unfolding failing_def by (intro disjI1 bexI [of _ "t\<lparr>rv_at := AtFailure\<rparr>"]) simp_all
qed


lemma abort_inv_handler:
  assumes inv: "order_inv st" "abort_inv st" and t: "t \<in> set (sr_tasks st)" "rv_arrival t = i"
    and at: "rv_at t \<noteq> AtFailure" and l: "leaves (job_request (rv_job t)) st (point, st')"
  shows "abort_inv (set_task_at i point st')"
  unfolding abort_inv_def
proof
  fix r assume "r \<in> set (sr_aborted (set_task_at i point st'))"
  then have r: "r \<in> set (sr_aborted st')" by simp
  have same: "sr_tasks st' = sr_tasks st" "sr_calls st' = sr_calls st" using l by (simp_all add: leaves_def tidies_def)
  have moved: "failing r (set_task_at i point st')" if "failing r st"
    using failing_set_task [OF inv(1) t that] at same by (simp add: failing_def)
  show "request_clear r (set_task_at i point st') \<or> failing r (set_task_at i point st')"
  proof (cases "point = AtFailure \<and> r = job_request (rv_job t)")
    case True
    then show ?thesis using failing_moved [of t st' i] t same by simp
  next
    case False
    then have "request_clear r st' \<or> r \<in> set (sr_aborted st) \<and> (request_clear r st \<longrightarrow> request_clear r st')"
      using l r by (simp add: leaves_def tidies_def split: if_splits)
    then show ?thesis using inv(2) moved unfolding abort_inv_def request_clear_more by blast
  qed
qed

lemma abort_inv_failure_sent:
  assumes inv: "order_inv st" "abort_inv st" and t: "t \<in> set (sr_tasks st)" "rv_arrival t = i"
  shows "abort_inv (set_task_at i point (clear_request_state sv False (job_request (rv_job t)) st))"
    (is "abort_inv (set_task_at i point ?st)")
  unfolding abort_inv_def
proof
  fix r assume "r \<in> set (sr_aborted (set_task_at i point ?st))"
  then have "request_clear r st \<or> failing r st" using inv(2) by (simp add: abort_inv_def)
  moreover have "failing r (set_task_at i point ?st)" if "failing r st" "r \<noteq> job_request (rv_job t)"
    using failing_set_task [OF inv(1) t that(1)] that(2) by (simp add: failing_def)
  ultimately show "request_clear r (set_task_at i point ?st) \<or> failing r (set_task_at i point ?st)"
    unfolding request_clear_more by (metis clear_keeps_clear request_clear_clears)
qed

lemma abort_inv_finish:
  assumes inv: "order_inv st" "abort_inv st" and t: "t \<in> set (sr_tasks st)" and at: "rv_at t = AtEnd e"
  shows "abort_inv (finish_receive t e st)"
proof -
  have "failing r (finish_receive t e st)" if "failing r st" for r
  proof -
    have "t' \<in> set (sr_tasks (finish_receive t e st))" if "t' \<in> set (sr_tasks st)" "rv_at t' = AtFailure" for t'
      using arrival_unique [OF inv(1) t that(1)] at that
      by (auto simp: finish_receive_def on_background_task_done_def split: option.split)
    then show ?thesis using that unfolding failing_def calls_more by blast
  qed
  then show ?thesis using inv(2) by (auto simp: abort_inv_def)
qed

lemma abort_inv_schedule: "abort_inv st \<Longrightarrow> abort_inv (schedule_lane_task lane job st)"
  unfolding abort_inv_def failing_def request_clear_more aborted_more calls_more by (auto simp: schedule_lane_task_def)

lemma abort_inv_round:
  assumes inv: "order_inv st" "abort_inv st"
  shows "abort_inv (receive_round sv outcome failed i st)"
proof (cases "find (\<lambda>t. rv_arrival t = i) (sr_tasks st)")
  case None
  then show ?thesis using inv by (simp add: receive_round_def)
next
  case (Some t)
  then have t: "t \<in> set (sr_tasks st)" "rv_arrival t = i" using find_task by blast+
  let ?go = "\<lambda>(point, st). set_task_at i point st"
  have move: "abort_inv (?go result)" if "leaves (job_request (rv_job t)) st result" "rv_at t \<noteq> AtFailure" for result
    using abort_inv_handler [OF inv t that(2), of "fst result" "snd result"] that(1) by (cases result) simp
  show ?thesis
  proof (cases "rv_at t")
    case AtStart
    then show ?thesis using Some move [of "start_receive sv (rv_job t) st"]
      by (simp add: receive_round_def Let_def leaves_tidies tidies_start)
  next
    case (AtRead discards)
    then show ?thesis using Some move [of "read_done sv (rv_job t) discards outcome st"]
      by (simp add: receive_round_def Let_def leaves_tidies tidies_read)
  next
    case (AtAck cleanup next_up)
    then show ?thesis using Some move [of "ack_done (rv_job t) cleanup next_up failed st"]
      by (simp add: receive_round_def Let_def leaves_tidies tidies_ack_done)
  next
    case (AtTurn h)
    then show ?thesis using Some inv move [of "take_turn sv (rv_lane t, i) (rv_job t) h st"]
      by (simp add: receive_round_def Let_def leaves_turn)
  next
    case AtFailure
    then show ?thesis using Some abort_inv_failure_sent [OF inv t] by (simp add: receive_round_def Let_def)
  next
    case (AtForward payload)
    then show ?thesis
      using Some move [of "enqueue_request sv (Some (rv_lane t, i)) payload st"] move [of "(AtEnd failed, st)"]
      by (cases failed) (simp_all add: receive_round_def Let_def leaves_tidies tidies_enqueue)
  next
    case (AtEnd e)
    then show ?thesis using Some inv abort_inv_finish [OF inv t(1)] by (simp add: receive_round_def Let_def)
  qed
qed


lemma aborted_open: "sr_aborted (snd (open_pre_payload_stream_if_allowed sv r st)) = sr_aborted st"
  by (simp add: open_pre_payload_stream_if_allowed_def split: option.split)

lemma aborted_bindings [simp]: "sr_aborted (record_replica_bindings r b st) = sr_aborted st"
  by (simp add: record_replica_bindings_def split: option.split)

lemma abort_inv_next: "abort_inv st \<Longrightarrow> abort_inv (st\<lparr>sr_next_arrival := n\<rparr>)"
  by (rule abort_inv_tidies, rule tidies_same) (simp_all add: request_clear_def)

lemma abort_inv_schedule_chunk:
  assumes inv: "abort_inv st"
  shows "abort_inv (schedule_chunk sv batch chunk st)"
proof -
  let ?r = "bc_request_id chunk" and ?lane = "(bc_request_id chunk, cb_from_stage batch)"
  let ?bound = "record_replica_bindings ?r (dict_get (cb_replica_bindings batch) ?r) st"
  let ?st = "?bound\<lparr>sr_active_requests := insert ?r (sr_active_requests ?bound)\<rparr>"
  obtain b st1 where o: "open_pre_payload_stream_if_allowed sv ?r ?st = (b, st1)" by (meson surj_pair)
  have bound: "abort_inv ?bound" by (rule abort_inv_tidies [OF tidies_bindings inv])
  show ?thesis
  proof (cases "?r \<in> set (sr_aborted ?bound)")
    case False
    then have 1: "abort_inv ?st" by (rule abort_inv_tidies [OF tidies_active bound])
    have "tidies {} ?st st1" using tidies_open [of ?r ?st "{}" sv] False o by simp
    then have 2: "abort_inv st1" using 1 by (rule abort_inv_tidies)
    have "abort_inv (put_inbox origin r message (st1\<lparr>sr_next_arrival := n\<rparr>))" for origin r message n
      by (rule abort_inv_tidies [OF tidies_outputs(8) abort_inv_next [OF 2]])
    then show ?thesis using False 1 2 o by (simp add: schedule_chunk_def route_stream_item_def Let_def abort_inv_schedule split: prod.split)
  qed (simp add: schedule_chunk_def route_stream_item_def Let_def bound)
qed

lemma abort_inv_fold:
  assumes "\<And>x st. abort_inv st \<Longrightarrow> abort_inv (f x st)"
  shows "abort_inv st \<Longrightarrow> abort_inv (fold f xs st)"
  by (induction xs arbitrary: st) (simp_all add: assms)

lemma abort_inv_batch: "abort_inv st \<Longrightarrow> abort_inv (schedule_stream_chunk_batch sv batch st)"
  unfolding schedule_stream_chunk_batch_def
  by (cases "cb_chunks batch") (auto intro!: abort_inv_fold abort_inv_schedule abort_inv_schedule_chunk)

lemma abort_inv_data: "abort_inv st \<Longrightarrow> abort_inv (schedule_receive_task msg st)"
  unfolding schedule_receive_task_def Let_def
  by (intro abort_inv_schedule) (rule abort_inv_tidies [OF tidies_bindings])

lemma abort_inv_call:
  assumes inv: "abort_inv st" and l: "leaves r st result"
  shows "abort_inv (add_call r from_stage rest result)"
proof (cases "fst result = AtFailure")
  case True
  let ?st = "snd result" and ?call = "\<lparr>cl_request_id = r, cl_at = AtFailure, cl_from_stage = from_stage, cl_rest = rest\<rparr>"
  have call: "add_call r from_stage rest result = ?st\<lparr>sr_calls := sr_calls ?st @ [?call]\<rparr>"
    using True by (cases result) (simp add: add_call_def)
  have t: "tidies {r} st ?st" using l True by (simp add: leaves_def)
  show ?thesis unfolding abort_inv_def call
  proof
    fix r' assume "r' \<in> set (sr_aborted (?st\<lparr>sr_calls := sr_calls ?st @ [?call]\<rparr>))"
    then show "request_clear r' (?st\<lparr>sr_calls := sr_calls ?st @ [?call]\<rparr>) \<or> failing r' (?st\<lparr>sr_calls := sr_calls ?st @ [?call]\<rparr>)"
      using inv t unfolding abort_inv_def tidies_def failing_def by (cases "r' = r") (auto simp: request_clear_more)
  qed
next
  case False
  then have "abort_inv (snd result)" using l inv by (auto simp: leaves_def intro: abort_inv_tidies)
  then have "abort_inv (snd result\<lparr>sr_calls := sr_calls (snd result) @ [call]\<rparr>)" for call
    unfolding abort_inv_def failing_def by auto
  then show ?thesis using \<open>abort_inv (snd result)\<close> by (cases result) (simp add: add_call_def split: receive_at.split)
qed

lemma abort_inv_local_payload: "abort_inv st \<Longrightarrow> abort_inv (receive_local_payload sv r from_stage payload bindings st)"
  unfolding receive_local_payload_def by (rule abort_inv_call [OF _ leaves_after [OF tidies_bindings leaves_payload]])

lemma abort_inv_local_signal:
  "abort_inv st \<Longrightarrow> abort_inv (receive_local_stream_signal sv r from_stage is_done failure bindings st)"
  unfolding receive_local_stream_signal_def by (rule abort_inv_call [OF _ leaves_after [OF tidies_bindings leaves_signal]])

lemma abort_inv_local_chunks: "abort_inv st \<Longrightarrow> abort_inv (receive_local_stream_chunks sv bindings from_stage chunks st)"
proof (induction chunks arbitrary: st)
  case (Cons chunk chunks)
  let ?r = "bc_request_id chunk" and ?item = "stream_item_from from_stage (bc_chunk_id chunk) (bc_data chunk)"
  let ?bound = "record_replica_bindings ?r (bindings ?r) st"
  let ?st = "?bound\<lparr>sr_active_requests := insert ?r (sr_active_requests ?bound)\<rparr>"
  obtain point st1 where routed: "route_stream_item_or_fail sv None ?r ?item ?st = (point, st1)" by (meson surj_pair)
  show ?case
  proof (cases "?r \<in> set (sr_aborted st)")
    case False
    have "tidies {} st ?st" using False by (intro tidies_trans [OF tidies_bindings tidies_active]) simp
    moreover have "leaves ?r ?st (point, st1)" using leaves_route [of ?r ?st sv None ?item] False routed by simp
    ultimately have l: "leaves ?r st (point, st1)" by (rule leaves_after)
    have "abort_inv (receive_local_stream_chunks sv bindings from_stage chunks st1)" if "point = AtEnd None"
      using Cons.IH abort_inv_tidies [OF _ Cons.prems, of st1] l that by (simp add: leaves_def)
    moreover have "abort_inv (add_call ?r from_stage chunks (point, st1))" by (rule abort_inv_call [OF Cons.prems l])
    ultimately show ?thesis using False routed by (cases point) (auto simp: Let_def split: option.split)
  qed (simp add: Let_def Cons)
qed simp

lemma abort_inv_call_round:
  assumes inv: "abort_inv st"
  shows "abort_inv (call_round sv bindings failed k st)"
proof (cases "k < length (sr_calls st)")
  case True
  let ?call = "sr_calls st ! k" and ?st = "st\<lparr>sr_calls := take k (sr_calls st) @ drop (Suc k) (sr_calls st)\<rparr>"
  have rest: "c \<in> set (sr_calls ?st)" if "c \<in> set (sr_calls st)" "c \<noteq> ?call" for c
    using that True by (subst (asm) id_take_nth_drop [OF True]) auto
  have 1: "abort_inv ?st" if "cl_at ?call \<noteq> AtFailure"
    using inv rest that unfolding abort_inv_def failing_def by fastforce
  have "abort_inv (clear_request_state sv False (cl_request_id ?call) ?st)"
    unfolding abort_inv_def
  proof
    fix r assume "r \<in> set (sr_aborted (clear_request_state sv False (cl_request_id ?call) ?st))"
    then have "request_clear r st \<or> failing r st" using inv by (simp add: abort_inv_def)
    moreover have "failing r (clear_request_state sv False (cl_request_id ?call) ?st)"
      if "failing r st" "r \<noteq> cl_request_id ?call" using that rest unfolding failing_def clear_fields by auto
    ultimately show "request_clear r (clear_request_state sv False (cl_request_id ?call) ?st)
        \<or> failing r (clear_request_state sv False (cl_request_id ?call) ?st)"
      by (metis clear_keeps_clear request_clear_clears request_clear_more(2))
  qed
  then show ?thesis using True 1 abort_inv_tidies [OF tidies_enqueue]
    by (cases "cl_at ?call") (auto simp: call_round_def Let_def abort_inv_local_chunks)
qed (simp add: call_round_def inv)


lemma cancel_clear: "request_clear r st \<Longrightarrow> request_clear r (cancel_receive sv t st)"
  by (simp add: cancel_receive_def clear_keeps_clear split: receive_at.split)

lemma cancel_all_clear: "request_clear r st \<Longrightarrow> request_clear r (fold (cancel_receive sv) ts st)"
  by (induction ts arbitrary: st) (simp_all add: cancel_clear)

lemma cancel_failing:
  "t \<in> set ts \<Longrightarrow> rv_at t = AtFailure \<Longrightarrow> request_clear (job_request (rv_job t)) (fold (cancel_receive sv) ts st)"
  by (induction ts arbitrary: st) (auto simp: cancel_receive_def cancel_all_clear [OF request_clear_clears])

lemma cancel_fields:
  "sr_aborted (fold (cancel_receive sv) ts st) = sr_aborted st \<and> sr_calls (fold (cancel_receive sv) ts st) = sr_calls st"
  by (induction ts arbitrary: st) (simp_all add: cancel_receive_def split: receive_at.split)

lemma abort_inv_stop:
  assumes "abort_inv st"
  shows "abort_inv (stop_receive sv st)"
  unfolding abort_inv_def
proof
  let ?st = "fold (cancel_receive sv) (sr_tasks st) st"
  fix r assume "r \<in> set (sr_aborted (stop_receive sv st))"
  then have "request_clear r st \<or> failing r st" using assms cancel_fields [of sv "sr_tasks st" st] by (simp add: stop_receive_def abort_inv_def)
  then have "request_clear r ?st \<or> (\<exists>c \<in> set (sr_calls st). cl_at c = AtFailure \<and> cl_request_id c = r)"
    using cancel_failing [of _ "sr_tasks st" sv st] cancel_all_clear [of r st sv "sr_tasks st"] unfolding failing_def by blast
  moreover have "request_clear r (stop_receive sv st) \<longleftrightarrow> request_clear r ?st" by (simp add: stop_receive_def request_clear_def)
  ultimately show "request_clear r (stop_receive sv st) \<or> failing r (stop_receive sv st)"
    using cancel_fields [of sv "sr_tasks st" st] by (simp add: failing_def stop_receive_def)
qed

lemma abort_inv_step: "receive_step sv st st' \<Longrightarrow> order_inv st \<Longrightarrow> abort_inv st \<Longrightarrow> abort_inv st'"
proof (induction rule: receive_step.induct)
  case (work st payload)
  then show ?case by (blast intro: abort_inv_call leaves_tidies tidies_execute)
next
  case (submit st r bindings payload)
  then show ?case by (blast intro: abort_inv_call leaves_submit)
qed (blast intro: abort_inv_data abort_inv_batch abort_inv_round abort_inv_local_payload abort_inv_local_chunks
    abort_inv_local_signal abort_inv_call_round abort_inv_stop abort_inv_tidies [OF tidies_on_abort])+

lemma abort_inv_init: "abort_inv (stage_init handler b)"
  by (simp add: abort_inv_def stage_init_def)

interpretation receive_aborts: step_system "\<lambda>st. \<exists>handler b. st = stage_init handler b" "receive_step sv"
  "\<lambda>st. order_inv st \<and> abort_inv st"
  by unfold_locales (auto intro: order_inv_init order_inv_step abort_inv_init abort_inv_step)

section \<open>What reaches the scheduler of an aborted request\<close>

fun of_stream :: "'d incoming \<Rightarrow> bool" where
  "of_stream (NewRequest payload) \<longleftrightarrow> False"
| "of_stream _ \<longleftrightarrow> True"

definition brings_live :: "string list \<Rightarrow> ('d, 'h) stage \<Rightarrow> ('d, 'h) stage \<Rightarrow> bool" where
  "brings_live aborted st st' \<longleftrightarrow>
     (\<exists>new. sr_inbox st' = sr_inbox st @ new \<and> (\<forall>e \<in> set new. of_stream (ie_message e) \<longrightarrow> ie_request_id e \<notin> set aborted))"

lemma brings_keeps: "sr_inbox st' = sr_inbox st \<Longrightarrow> brings_live aborted st st'"
  by (simp add: brings_live_def)

lemma brings_trans: "brings_live aborted st st' \<Longrightarrow> brings_live aborted st' st'' \<Longrightarrow> brings_live aborted st st''"
  unfolding brings_live_def by force

lemma brings_after: "sr_inbox st' = sr_inbox st \<Longrightarrow> brings_live aborted st' st'' \<Longrightarrow> brings_live aborted st st''"
  by (simp add: brings_live_def)

lemma keeps_inbox: "keeps_lanes st st' \<Longrightarrow> sr_inbox st' = sr_inbox st"
  by (simp add: keeps_lanes_def)

lemma brings_put: "of_stream message \<longrightarrow> r \<notin> set aborted \<Longrightarrow> brings_live aborted st (put_inbox origin r message st)"
  by (simp add: brings_live_def put_inbox_def)

lemma brings_route:
  assumes "r \<notin> set aborted"
  shows "brings_live aborted st (snd (route_stream_item_or_fail sv origin r item st))"
proof -
  obtain b st1 where o: "open_pre_payload_stream_if_allowed sv r st = (b, st1)" by (meson surj_pair)
  have 1: "keeps_lanes st st1" using keeps_lanes_open [of st sv r] o by simp
  have "keeps_lanes st (snd (send_failure sv r why (scheduler_abort r st1)))" for why
    by (rule keeps_lanes_trans [OF 1 keeps_lanes_trans [OF keeps_lanes_scheduler_abort keeps_lanes_send_failure]])
  then show ?thesis using o brings_after [OF keeps_inbox [OF 1] brings_put [of "StreamChunk i" for i]] assms
    by (cases b) (simp_all add: route_stream_item_or_fail_def route_stream_item_def Let_def brings_keeps keeps_inbox)
qed

lemma brings_signal: "brings_live (sr_aborted st) st (snd (receive_stream_signal sv origin r from_stage is_done failure st))"
proof (cases "r \<in> set (sr_aborted st)")
  case False
  let ?st = "st\<lparr>sr_active_requests := insert r (sr_active_requests st)\<rparr>"
  obtain b st1 where o: "open_pre_payload_stream_if_allowed sv r ?st = (b, st1)" by (meson surj_pair)
  have 1: "keeps_lanes st st1" using keeps_lanes_trans [OF keeps_lanes_active keeps_lanes_open [of ?st sv r]] o by simp
  have fails: "keeps_lanes st (snd (send_failure sv r why (scheduler_abort r st')))" if "keeps_lanes st st'" for why st'
    by (rule keeps_lanes_trans [OF that keeps_lanes_trans [OF keeps_lanes_scheduler_abort keeps_lanes_send_failure]])
  have "brings_live (sr_aborted st) st (snd (queue_stream_error sv r why ?st))" for why
    using fails [OF keeps_lanes_active] by (simp add: queue_stream_error_def brings_keeps keeps_inbox)
  moreover have "brings_live (sr_aborted st) st (put_inbox origin r StreamDone (st1\<lparr>sr_stream_queue := q\<rparr>))" for q
    using keeps_inbox [OF keeps_lanes_trans [OF 1 keeps_lanes_queue(1)]] False by (intro brings_after [OF _ brings_put]) simp_all
  ultimately show ?thesis using False o fails [OF 1]
    by (cases b) (simp_all add: receive_stream_signal_def Let_def brings_keeps keeps_inbox split: option.split list.split)
qed (simp add: receive_stream_signal_def brings_keeps)

lemma brings_enqueue: "brings_live aborted st (snd (enqueue_request sv origin payload st))"
proof -
  have "brings_live aborted st (put_inbox origin r (NewRequest payload) (st\<lparr>sr_fanned_out := w\<rparr>))" for r w
    by (rule brings_after [OF _ brings_put]) simp_all
  then show ?thesis by (simp add: enqueue_request_def Let_def brings_put)
qed

lemma brings_execute: "brings_live aborted st (snd (execute sv origin payload st))"
proof -
  let ?st = "\<lambda>rs. fold (on_abort sv) rs st"
  have "brings_live aborted st (snd (enqueue_request sv origin payload (?st rs)))" for rs
    by (rule brings_after [OF keeps_inbox [OF keeps_lanes_aborts] brings_enqueue])
  then show ?thesis
    by (simp add: execute_def Let_def brings_enqueue brings_keeps keeps_inbox keeps_lanes_aborts split: option.split sum.split)
qed

lemma brings_payload: "brings_live aborted st (snd (receive_payload_from_stage sv origin r from_stage payload st))"
proof -
  let ?st = "open_stream r (st\<lparr>sr_active_requests := insert r (sr_active_requests st)\<rparr>)"
  obtain outcome handler where
    o: "sv_receive sv r (logical_source sv from_stage) payload (sr_handler ?st) = (outcome, handler)" by (meson surj_pair)
  have 1: "sr_inbox (?st\<lparr>sr_handler := handler\<rparr>) = sr_inbox st" by (simp add: open_stream_def)
  have "brings_live aborted st (snd (execute sv origin merged (?st\<lparr>sr_handler := handler\<rparr>)))" for merged
    by (rule brings_after [OF 1 brings_execute])
  then show ?thesis using o 1
    by (cases outcome) (simp_all add: receive_payload_from_stage_def Let_def brings_keeps split: option.split)
qed

lemma brings_turn: "brings_live (sr_aborted st) st (snd (take_turn sv origin job h st))"
  by (cases h) (simp_all add: take_turn_def Let_def brings_route brings_payload brings_signal brings_keeps queue_stream_error_def
      keeps_inbox keeps_lanes_send_failure keeps_lanes_trans [OF keeps_lanes_scheduler_abort keeps_lanes_send_failure]
      split: option.split receive_job.split)

lemma brings_go: "brings_live aborted st (snd result) \<Longrightarrow> brings_live aborted st (case result of (point, st) \<Rightarrow> set_task_at i point st)"
  by (cases result) (simp add: brings_live_def)

lemma brings_round: "brings_live (sr_aborted st) st (receive_round sv outcome failed i st)"
proof -
  have finish: "sr_inbox (finish_receive t e st) = sr_inbox st" for t e
    by (simp add: finish_receive_def on_background_task_done_def split: option.split)
  note quiet = brings_keeps [OF keeps_inbox]
  show ?thesis
    by (simp add: receive_round_def Let_def brings_go brings_turn brings_enqueue quiet keeps_lanes_start keeps_lanes_read
        keeps_lanes_ack_done brings_keeps finish keeps_inbox [OF keeps_lanes_clear] split: option.split receive_at.split)
qed


lemma brings_add_call: "brings_live aborted st (snd result) \<Longrightarrow> brings_live aborted st (add_call r from_stage rest result)"
  by (cases result; cases "fst result") (simp_all add: add_call_def brings_live_def)

lemma brings_schedule: "brings_live aborted st (schedule_lane_task lane job st)"
  by (simp add: brings_keeps schedule_lane_task_def)

lemma brings_schedules: "brings_live aborted st (fold (\<lambda>r. schedule_lane_task (lane r) (job r)) rs st)"
  by (induction rs arbitrary: st) (auto intro: brings_keeps brings_trans [OF brings_schedule])

lemma brings_schedule_chunk: "brings_live (sr_aborted st) st (schedule_chunk sv batch chunk st)"
proof -
  let ?r = "bc_request_id chunk" and ?lane = "(bc_request_id chunk, cb_from_stage batch)"
  let ?bound = "record_replica_bindings ?r (dict_get (cb_replica_bindings batch) ?r) st"
  let ?st = "?bound\<lparr>sr_active_requests := insert ?r (sr_active_requests ?bound)\<rparr>"
  obtain b st1 where o: "open_pre_payload_stream_if_allowed sv ?r ?st = (b, st1)" by (meson surj_pair)
  have 0: "sr_inbox ?st = sr_inbox st" using keeps_inbox [OF keeps_lanes_record_bindings [of st ?r]] by simp
  have 1: "sr_inbox st1 = sr_inbox st" using keeps_inbox [OF keeps_lanes_open [of ?st sv ?r]] o 0 by simp
  have "brings_live (sr_aborted st) st (put_inbox origin ?r message (st1\<lparr>sr_next_arrival := n\<rparr>))"
    if "?r \<notin> set (sr_aborted st)" for origin message n using that 1 by (intro brings_after [OF _ brings_put]) simp_all
  then show ?thesis using o brings_after [OF 0 brings_schedule] brings_after [OF 1 brings_schedule] 0
    by (simp add: schedule_chunk_def route_stream_item_def Let_def brings_keeps split: prod.split)
qed

lemma aborted_schedule_chunk: "sr_aborted (schedule_chunk sv batch chunk st) = sr_aborted st"
proof -
  let ?r = "bc_request_id chunk"
  let ?bound = "record_replica_bindings ?r (dict_get (cb_replica_bindings batch) ?r) st"
  let ?st = "?bound\<lparr>sr_active_requests := insert ?r (sr_active_requests ?bound)\<rparr>"
  obtain b st1 where o: "open_pre_payload_stream_if_allowed sv ?r ?st = (b, st1)" by (meson surj_pair)
  then have "sr_aborted st1 = sr_aborted st" using aborted_open [of sv ?r ?st] by simp
  then show ?thesis using o by (simp add: schedule_chunk_def route_stream_item_def Let_def put_inbox_def split: prod.split)
qed

lemma brings_batch: "brings_live (sr_aborted st) st (schedule_stream_chunk_batch sv batch st)"
proof -
  have "brings_live (sr_aborted st) st (fold (schedule_chunk sv batch) chunks st) " for chunks
  proof (induction chunks arbitrary: st)
    case (Cons chunk chunks)
    show ?case using brings_trans [OF brings_schedule_chunk Cons.IH [of "schedule_chunk sv batch chunk st", unfolded aborted_schedule_chunk]] by simp
  qed (simp add: brings_keeps)
  then show ?thesis by (simp add: schedule_stream_chunk_batch_def brings_schedules split: sum.split)
qed

lemma route_ends: "fst (route_stream_item_or_fail sv origin r item st) = AtEnd None \<Longrightarrow>
    sr_aborted (snd (route_stream_item_or_fail sv origin r item st)) = sr_aborted st"
  using aborted_open [of sv r st]
  by (auto simp: route_stream_item_or_fail_def route_stream_item_def send_failure_def Let_def put_inbox_def split: prod.split bool.split if_splits)

lemma brings_local_chunks: "brings_live (sr_aborted st) st (receive_local_stream_chunks sv bindings from_stage chunks st)"
proof (induction chunks arbitrary: st)
  case (Cons chunk chunks)
  let ?r = "bc_request_id chunk" and ?item = "stream_item_from from_stage (bc_chunk_id chunk) (bc_data chunk)"
  let ?bound = "record_replica_bindings ?r (bindings ?r) st"
  let ?st = "?bound\<lparr>sr_active_requests := insert ?r (sr_active_requests ?bound)\<rparr>"
  obtain point st1 where routed: "route_stream_item_or_fail sv None ?r ?item ?st = (point, st1)" by (meson surj_pair)
  show ?case
  proof (cases "?r \<in> set (sr_aborted st)")
    case False
    have "sr_inbox ?st = sr_inbox st" using keeps_inbox [OF keeps_lanes_record_bindings [of st ?r]] by simp
    from brings_after [OF this brings_route [OF False, of ?st sv None ?item]] routed
    have 1: "brings_live (sr_aborted st) st st1" by simp
    have "brings_live (sr_aborted st) st (receive_local_stream_chunks sv bindings from_stage chunks st1)" if "point = AtEnd None"
    proof -
      have "sr_aborted st1 = sr_aborted st" using route_ends [of sv None ?r ?item ?st] routed that by simp
      then show ?thesis using brings_trans [OF 1] Cons.IH [of st1] by simp
    qed
    moreover have "brings_live (sr_aborted st) st (add_call ?r from_stage chunks (point, st1))" using 1 by (simp add: brings_add_call)
    ultimately show ?thesis using False routed by (cases point) (auto simp: Let_def split: option.split)
  qed (simp add: Let_def Cons)
qed (simp add: brings_keeps)

lemma brings_call_round: "brings_live (sr_aborted st) st (call_round sv bindings failed k st)"
proof -
  let ?st = "st\<lparr>sr_calls := take k (sr_calls st) @ drop (Suc k) (sr_calls st)\<rparr>"
  have clear: "sr_inbox (clear_request_state sv False r ?st) = sr_inbox st" for r
    using keeps_inbox [OF keeps_lanes_clear [of ?st]] by simp
  have chunks: "brings_live (sr_aborted st) st (receive_local_stream_chunks sv bindings from_stage rest (clear_request_state sv False r ?st))"
    for from_stage rest r
    using brings_after [OF clear brings_local_chunks [of "clear_request_state sv False r ?st"]] by simp
  have "brings_live (sr_aborted st) st (snd (enqueue_request sv None payload ?st))" for payload
    by (rule brings_after [OF _ brings_enqueue]) simp
  then show ?thesis
    by (cases "cl_at (sr_calls st ! k)") (simp_all add: call_round_def Let_def chunks brings_keeps clear)
qed

lemma brings_step: "receive_step sv st st' \<Longrightarrow> brings_live (sr_aborted st) st st'"
proof (induction rule: receive_step.induct)
  case (data st msg)
  show ?case
    by (simp add: schedule_receive_task_def Let_def brings_after [OF keeps_inbox [OF keeps_lanes_record_bindings] brings_schedule])
next
  case (submit st r bindings payload)
  let ?bound = "record_replica_bindings r bindings st"
  have "keeps_lanes st (open_stream r (?bound\<lparr>sr_active_requests := insert r (sr_active_requests ?bound)\<rparr>))"
    by (rule keeps_lanes_trans [OF keeps_lanes_record_bindings keeps_lanes_trans [OF keeps_lanes_active keeps_lanes_open_stream]])
  from brings_after [OF keeps_inbox [OF this] brings_execute] show ?case
    by (simp add: on_submit_def Let_def brings_add_call brings_keeps keeps_inbox keeps_lanes_send_failure)
next
  case (local_payload st r from_stage payload bindings)
  show ?case unfolding receive_local_payload_def
    by (rule brings_add_call [OF brings_after [OF keeps_inbox [OF keeps_lanes_record_bindings] brings_payload]])
next
  case (local_signal st r from_stage is_done failure bindings)
  show ?case unfolding receive_local_stream_signal_def
    using brings_signal [of "record_replica_bindings r bindings st"]
    by (intro brings_add_call [OF brings_after [OF keeps_inbox [OF keeps_lanes_record_bindings]]]) simp
next
  case (stop st)
  have "keeps_lanes st (fold (cancel_receive sv) ts st)" for ts and st :: "('a, 'b) stage"
    by (induction ts arbitrary: st) (auto intro: keeps_lanes_trans [OF keeps_lanes_cancel])
  from keeps_inbox [OF this] show ?case by (simp add: stop_receive_def brings_keeps)
qed (auto intro: brings_batch brings_round brings_add_call brings_execute brings_local_chunks brings_call_round
    brings_keeps keeps_inbox [OF keeps_lanes_on_abort])

end
