(* ===== verification/Stage_Drain.thy ===== *)
theory Stage_Drain
  imports Stage_Order
begin

section \<open>A lane drains\<close>

text \<open>How many rounds a task has before it at most.\<close>

fun rounds_left :: "'d receive_at \<Rightarrow> nat" where
  "rounds_left AtStart = 6"
| "rounds_left (AtRead discards) = 5"
| "rounds_left (AtAck cleanup next_up) = 4"
| "rounds_left (AtTurn h) = 3"
| "rounds_left AtFailure = 2"
| "rounds_left (AtForward payload) = 2"
| "rounds_left (AtEnd e) = 1"

lemma read_relay_left: "rounds_left (read_relay discards ref) \<le> 5"
  by (simp add: read_relay_def split: sum.split prod.split option.split)

lemma start_left: "rounds_left (fst (start_receive sv job st)) \<le> 5"
  by (cases job) (simp_all add: read_relay_left start_receive_def on_data_ready_def on_stream_chunk_def discard_data_def
      discard_stream_chunk_data_def send_data_ack_def Let_def split: data_ref.split sum.split bool.split)

lemma read_left: "rounds_left (fst (read_done sv job discards outcome st)) \<le> 4"
  by (simp add: read_done_def send_data_ack_def split: receive_job.split relay_read.split)

lemma ack_left: "rounds_left (fst (ack_done job cleanup next_up failed st)) \<le> 3"
  by (simp add: ack_done_def split: option.split)

lemma failure_left: "rounds_left (fst (send_failure sv r failure st)) \<le> 2"
  by (simp add: send_failure_def Let_def)

lemma execute_left: "rounds_left (fst (execute sv origin payload st)) \<le> 2"
  by (simp add: execute_def enqueue_request_def Let_def split: option.split sum.split)

lemma payload_left: "rounds_left (fst (receive_payload_from_stage sv origin r from_stage payload st)) \<le> 2"
  by (simp add: receive_payload_from_stage_def Let_def execute_left split: prod.split sum.split option.split)

lemma route_left: "rounds_left (fst (route_stream_item_or_fail sv origin r item st)) \<le> 2"
  by (simp add: route_stream_item_or_fail_def Let_def failure_left split: prod.split bool.split)

lemma signal_left: "rounds_left (fst (receive_stream_signal sv origin r from_stage is_done failure st)) \<le> 2"
  by (simp add: receive_stream_signal_def queue_stream_error_def Let_def failure_left
      split: prod.split bool.split option.split list.split)

lemma turn_left: "rounds_left (fst (take_turn sv origin job h st)) \<le> 2"
  by (cases h) (simp_all add: take_turn_def Let_def payload_left route_left signal_left queue_stream_error_def failure_left
      split: option.split receive_job.split)

text \<open>One round of the first task of a lane: it ends, or it is closer to its end.\<close>

lemma round_head:
  assumes inv: "order_inv st" and head: "lane_tasks lane st = t # ts"
  shows "(rounds_left (rv_at t) = 1 \<and> lane_tasks lane (receive_round sv outcome failed (rv_arrival t) st) = ts \<and>
      (\<forall>t' \<in> set (sr_tasks (receive_round sv outcome failed (rv_arrival t) st)). rv_arrival t' \<noteq> rv_arrival t)) \<or>
    (\<exists>t'. lane_tasks lane (receive_round sv outcome failed (rv_arrival t) st) = t' # ts \<and> rv_arrival t' = rv_arrival t \<and>
       rounds_left (rv_at t') < rounds_left (rv_at t))" (is "_ \<or> ?closer (receive_round sv outcome failed (rv_arrival t) st)")
proof -
  note h = lane_head [OF inv head]
  let ?i = "rv_arrival t" and ?origin = "(rv_lane t, rv_arrival t)"
  have found: "find (\<lambda>t'. rv_arrival t' = ?i) (sr_tasks st) = Some t"
  proof (cases "find (\<lambda>t'. rv_arrival t' = ?i) (sr_tasks st)")
    case None
    then show ?thesis using h(1) by (auto simp: find_None_iff)
  next
    case (Some t')
    then show ?thesis using find_task [of ?i "sr_tasks st" t'] arrival_unique [OF inv h(1), of t'] by simp
  qed
  have rest: "map (move_task ?i point) ts = ts" for point
    using h(4) by (intro map_idI) fastforce
  have go: "?closer (case result of (point, st) \<Rightarrow> set_task_at ?i point st)"
    if "same_lanes st (snd result)" "rounds_left (fst result) < rounds_left (rv_at t)" for result
  proof -
    obtain point st' where r: "result = (point, st')" by (meson surj_pair)
    have "lane_tasks lane st' = t # ts" using that(1) head r by (simp add: same_lanes_def lane_tasks_def)
    then show ?thesis using r that(2) rest by simp
  qed
  have same: "same_lanes st (snd result)" if "keeps_lanes st (snd result)" for result :: "'a receive_at \<times> ('a, 'b) stage"
    using that by (simp add: keeps_lanes_def)
  have delivered: "same_lanes st (snd result)" if "delivers (Some ?origin) st result" for result :: "'a receive_at \<times> ('a, 'b) stage"
    using that by (simp add: delivers_def)
  show ?thesis
  proof (cases "rv_at t")
    case AtStart
    then show ?thesis using found go [OF same [OF keeps_lanes_start], of sv "rv_job t"] start_left [of sv "rv_job t" st]
      by (simp add: receive_round_def Let_def)
  next
    case (AtRead discards)
    then show ?thesis
      using found go [OF same [OF keeps_lanes_read], of sv "rv_job t" discards outcome] read_left [of sv "rv_job t" discards outcome st]
      by (simp add: receive_round_def Let_def)
  next
    case (AtAck cleanup next_up)
    then show ?thesis
      using found go [OF same [OF keeps_lanes_ack_done], of "rv_job t" cleanup next_up failed] ack_left [of "rv_job t" cleanup next_up failed st]
      by (simp add: receive_round_def Let_def)
  next
    case (AtTurn hand)
    then show ?thesis
      using found h(3) go [OF delivered [OF delivers_turn], of sv "rv_job t" hand] turn_left [of sv ?origin "rv_job t" hand st]
      by (simp add: receive_round_def Let_def)
  next
    case AtFailure
    then show ?thesis
      using found go [OF same, of "(AtEnd failed, clear_request_state sv False (job_request (rv_job t)) st)"] keeps_lanes_clear [of st sv False]
      by (simp add: receive_round_def Let_def)
  next
    case (AtForward payload)
    then show ?thesis
      using found go [OF delivered [OF delivers_enqueue], of sv payload] go [of "(AtEnd failed, st)"]
      by (cases failed) (simp_all add: receive_round_def Let_def enqueue_request_def)
  next
    case (AtEnd e)
    then show ?thesis using found h(2,3) head lane_tasks_finish [OF inv, of t ts lane e]
      by (simp add: receive_round_def Let_def) (simp add: finish_receive_def on_background_task_done_def split: option.split)
  qed
qed

text \<open>Rounds of a task, each with what its await brings back.\<close>

definition rounds_of :: "('d, 'h) stage_config_of \<Rightarrow> ('d relay_read \<times> error option) list \<Rightarrow> nat \<Rightarrow> ('d, 'h) stage \<Rightarrow> ('d, 'h) stage" where
  "rounds_of sv rounds i st = fold (\<lambda>(outcome, failed). receive_round sv outcome failed i) rounds st"

lemma order_inv_rounds: "order_inv st \<Longrightarrow> order_inv (rounds_of sv rounds i st)"
  unfolding rounds_of_def by (rule order_inv_fold) (auto intro: order_inv_round)

lemma round_gone:
  assumes "\<forall>t \<in> set (sr_tasks st). rv_arrival t \<noteq> i"
  shows "receive_round sv outcome failed i st = st"
proof -
  have "find (\<lambda>t. rv_arrival t = i) (sr_tasks st) = None" using assms by (simp add: find_None_iff)
  then show ?thesis by (simp add: receive_round_def)
qed

lemma rounds_gone: "\<forall>t \<in> set (sr_tasks st). rv_arrival t \<noteq> i \<Longrightarrow> rounds_of sv rounds i st = st"
  unfolding rounds_of_def by (induction rounds) (auto simp: round_gone)

lemma rounds_head:
  assumes "order_inv st" and "lane_tasks lane st = t # ts" and "rounds_left (rv_at t) \<le> length rounds"
  shows "lane_tasks lane (rounds_of sv rounds (rv_arrival t) st) = ts"
  using assms
proof (induction rounds arbitrary: st t)
  case Nil
  then show ?case by (cases "rv_at t") simp_all
next
  case (Cons r rounds)
  obtain outcome failed where r: "r = (outcome, failed)" by (meson surj_pair)
  let ?st = "receive_round sv outcome failed (rv_arrival t) st"
  have inv: "order_inv ?st" by (rule order_inv_round [OF Cons.prems(1)])
  have split: "rounds_of sv (r # rounds) (rv_arrival t) st = rounds_of sv rounds (rv_arrival t) ?st" by (simp add: rounds_of_def r)
  from round_head [OF Cons.prems(1,2), of sv outcome failed] show ?case
  proof (elim disjE conjE exE)
    assume gone: "lane_tasks lane ?st = ts" "\<forall>t' \<in> set (sr_tasks ?st). rv_arrival t' \<noteq> rv_arrival t"
    then show ?thesis using split rounds_gone [OF gone(2)] by simp
  next
    fix t' assume t': "lane_tasks lane ?st = t' # ts" "rv_arrival t' = rv_arrival t" "rounds_left (rv_at t') < rounds_left (rv_at t)"
    then show ?thesis using Cons.IH [OF inv t'(1)] Cons.prems(3) split by simp
  qed
qed


definition drain :: "('d, 'h) stage_config_of \<Rightarrow> (nat \<Rightarrow> ('d relay_read \<times> error option) list) \<Rightarrow> nat list \<Rightarrow> ('d, 'h) stage \<Rightarrow> ('d, 'h) stage" where
  "drain sv rounds = fold (\<lambda>i. rounds_of sv (rounds i) i)"

lemma rounds_left_most: "rounds_left point \<le> 6"
  by (cases point) simp_all

lemma drain_empties:
  assumes "order_inv st" and "\<And>i. 6 \<le> length (rounds i)"
  shows "order_inv (drain sv rounds (map rv_arrival (lane_tasks lane st)) st) \<and>
    lane_tasks lane (drain sv rounds (map rv_arrival (lane_tasks lane st)) st) = []"
  using assms(1)
proof (induction "lane_tasks lane st" arbitrary: st)
  case (Cons t ts)
  let ?st = "rounds_of sv (rounds (rv_arrival t)) (rv_arrival t) st"
  have inv: "order_inv ?st" by (rule order_inv_rounds [OF Cons.prems])
  have "rounds_left (rv_at t) \<le> length (rounds (rv_arrival t))" using rounds_left_most assms(2) le_trans by blast
  then have rest: "lane_tasks lane ?st = ts" by (rule rounds_head [OF Cons.prems Cons.hyps(2) [symmetric]])
  have "drain sv rounds (map rv_arrival (lane_tasks lane st)) st = drain sv rounds (map rv_arrival (lane_tasks lane ?st)) ?st"
    using rest by (simp add: Cons.hyps(2) [symmetric] drain_def)
  then show ?case using Cons.hyps(1) [OF rest [symmetric] inv] by simp
qed (simp add: drain_def)

end
