(* ===== verification/Stage_Runtime.thy ===== *)
theory Stage_Runtime
  imports Stage_Aborts Stage_Drain
begin

text \<open>
  The properties of the receiving half of a stage, each with a run of a small stage in which its hypotheses hold:
  a vocoder that may stream before the payload, fed by a talker whose first chunk lies in a relay and whose second
  comes with the message.
\<close>

section \<open>A small stage\<close>

definition demo_vocoder :: "(nat, unit) stage_config_of" where
  "demo_vocoder =
     \<lparr>sv_name = ''vocoder'', sv_role = Single, sv_stream_targets = [], sv_same_process_targets = [],
      sv_endpoints = [''talker''], sv_topology = [], sv_can_accept_stream_before_payload = True, sv_has_tp_fanout = False,
      sv_requires_tp_work_fanout = False, sv_receive = (\<lambda>r from_stage payload h. (Inr (Some payload), h)),
      sv_cancel = (\<lambda>r h. h), sv_set_order = id\<rparr>"

definition demo_message :: "int \<Rightarrow> nat data_ref \<Rightarrow> nat data_ready" where
  "demo_message i ref =
     \<lparr>dr_request_id = ''r1'', dr_from_stage = ''talker'', dr_data_ref = ref, dr_chunk_id = Some i, dr_is_done = False,
      dr_error = None, dr_replica_bindings = None\<rparr>"

abbreviation "demo_lane \<equiv> (''r1'', ''talker'')"

definition demo_arrived :: "(nat, unit) stage" where
  "demo_arrived = schedule_receive_task (demo_message 1 (IpcChunk (Inr (21, None))))
     (schedule_receive_task (demo_message 0 (RelayRef False None)) (stage_init () True))"

text \<open>The second chunk is ready first, and waits for the first.\<close>

definition demo_waiting :: "(nat, unit) stage" where
  "demo_waiting = fold (receive_round demo_vocoder (ReadChunk (20, None)) None) [1, 1, 0, 0, 0] demo_arrived"

definition demo_delivered :: "(nat, unit) stage" where
  "demo_delivered = fold (receive_round demo_vocoder (ReadChunk (20, None)) None) [1, 0, 0, 1] demo_waiting"

lemma rounds_reach: "(receive_step sv)\<^sup>*\<^sup>* st (fold (receive_round sv outcome failed) is st)"
  by (induction "is" arbitrary: st) (auto intro: receive_step.round converse_rtranclp_into_rtranclp)

lemma demo_arrived_reached: "(receive_step demo_vocoder)\<^sup>*\<^sup>* (stage_init () True) demo_arrived"
  unfolding demo_arrived_def by (meson receive_step.data rtranclp.rtrancl_into_rtrancl rtranclp.rtrancl_refl)

lemma demo_waiting_reached: "(receive_step demo_vocoder)\<^sup>*\<^sup>* (stage_init () True) demo_waiting"
  unfolding demo_waiting_def by (rule rtranclp_trans [OF demo_arrived_reached rounds_reach])

lemma demo_delivered_reached: "(receive_step demo_vocoder)\<^sup>*\<^sup>* (stage_init () True) demo_delivered"
  unfolding demo_delivered_def by (rule rtranclp_trans [OF demo_waiting_reached rounds_reach])

section \<open>Order\<close>

text \<open>
  C9. A lane never stalls: in every reachable state, once the awaits of its unfinished receives have returned,
  whatever they brought back, six rounds of each, oldest first, end them all, and the lane is idle.
\<close>

theorem lanes_drain:
  assumes "(receive_step sv)\<^sup>*\<^sup>* (stage_init handler has_stream_queue) st" and "\<And>i. 6 \<le> length (rounds i)"
  shows "lane_tasks lane (drain sv rounds (map rv_arrival (lane_tasks lane st)) st) = [] \<and>
    \<not> dict_has (sr_lane_tails (drain sv rounds (map rv_arrival (lane_tasks lane st)) st)) lane"
proof -
  let ?st = "drain sv rounds (map rv_arrival (lane_tasks lane st)) st"
  have "order_inv st" by (rule receive.inv_reachable [OF _ assms(1)]) auto
  then have drained: "order_inv ?st \<and> lane_tasks lane ?st = []" by (rule drain_empties) (rule assms(2))
  from order_inv_lane [of ?st lane] drained show ?thesis by (simp add: dict_has_iff lane_inv_def)
qed

theorem lanes_drain_witness:
  "length (lane_tasks demo_lane demo_arrived) = 2 \<and>
   lane_tasks demo_lane (drain demo_vocoder (\<lambda>i. replicate 6 (ReadFailed (RuntimeError ''lost''), None)) [0, 1] demo_arrived) = []"
proof -
  have two: "map rv_arrival (lane_tasks demo_lane demo_arrived) = [0, 1]" by code_simp
  then have "length (lane_tasks demo_lane demo_arrived) = 2" by (metis length_map length_Cons list.size(3) numeral_2_eq_2)
  then show ?thesis
    using lanes_drain [OF demo_arrived_reached, of "\<lambda>i. replicate 6 (ReadFailed (RuntimeError ''lost''), None)" demo_lane]
    by (simp add: two)
qed

section \<open>Aborts\<close>

text \<open>
  C8. Whatever happens next, no stream chunk and no end of stream of a request that is aborted is handed to the
  scheduler, also when its data was already being read or waited for its turn.
\<close>

theorem aborted_streams_not_delivered:
  assumes "receive_step sv st st'"
  shows "\<exists>new. sr_inbox st' = sr_inbox st @ new \<and>
    (\<forall>e \<in> set new. of_stream (ie_message e) \<longrightarrow> ie_request_id e \<notin> set (sr_aborted st))"
  using brings_step [OF assms] by (simp add: brings_live_def)

definition demo_ready :: "(nat, unit) stage" where
  "demo_ready = fold (receive_round demo_vocoder (ReadChunk (20, None)) None) [0, 0, 0] demo_arrived"

theorem aborted_streams_not_delivered_witness:
  "map ie_request_id (sr_inbox (receive_round demo_vocoder (ReadChunk (20, None)) None 0 demo_ready)) = [''r1''] \<and>
   (\<exists>new. sr_inbox (receive_round demo_vocoder (ReadChunk (20, None)) None 0 (on_abort demo_vocoder ''r1'' demo_ready)) = new \<and>
      (\<forall>e \<in> set new. of_stream (ie_message e) \<longrightarrow> ie_request_id e \<noteq> ''r1''))"
proof -
  have "map ie_request_id (sr_inbox (receive_round demo_vocoder (ReadChunk (20, None)) None 0 demo_ready)) = [''r1'']" by code_simp
  moreover have "sr_inbox (on_abort demo_vocoder ''r1'' demo_ready) = []" by code_simp
  moreover have "''r1'' \<in> set (sr_aborted (on_abort demo_vocoder ''r1'' demo_ready))" by code_simp
  ultimately show ?thesis
    using aborted_streams_not_delivered [OF receive_step.round [of demo_vocoder "on_abort demo_vocoder ''r1'' demo_ready" "ReadChunk (20, None)" None 0]]
    by auto
qed



end
