(* ===== verification/Payload_Isolation.thy ===== *)
theory Payload_Isolation
  imports Omni_Prelude
begin

text \<open>
  When a projected payload may be handed over by reference, \<^verbatim>\<open>sglang_omni/pipeline/stage/runtime.py\<close>: the check walks the
  containers of the original and of the projected data and looks for one that both reach and that can be changed.

  Objects are identities in a heap, which holds the containers; every other object is a leaf. Containers may share
  parts and be cyclic, so the walks remember what they have seen. Python's limit on the depth of recursion is left out.
\<close>

section \<open>Objects\<close>

datatype container = Dict "nat list" | List "nat list" | Set "nat list" | Tuple "nat list" | Frozenset "nat list" | Bytearray

type_synonym heap = "(nat, container) dict"

text \<open>The children of an object; of a dict, the values.\<close>

definition iter_container_children :: "heap \<Rightarrow> nat \<Rightarrow> nat list" where
  "iter_container_children h x =
     (case dict_get h x of
        Some (Dict vs) \<Rightarrow> vs
      | Some (List vs) \<Rightarrow> vs
      | Some (Set vs) \<Rightarrow> vs
      | Some (Tuple vs) \<Rightarrow> vs
      | Some (Frozenset vs) \<Rightarrow> vs
      | _ \<Rightarrow> [])"

definition is_mutable :: "heap \<Rightarrow> nat \<Rightarrow> bool" where
  "is_mutable h x =
     (case dict_get h x of
        Some (Dict vs) \<Rightarrow> True
      | Some (List vs) \<Rightarrow> True
      | Some (Set vs) \<Rightarrow> True
      | Some Bytearray \<Rightarrow> True
      | _ \<Rightarrow> False)"

section \<open>The walks\<close>

text \<open>Each walk goes over a list of objects, the children of one, with the set of the identities seen so far.\<close>

function collect_mutable_container_ids :: "heap \<Rightarrow> nat list \<Rightarrow> nat set \<Rightarrow> nat set \<times> nat set" where
  "collect_mutable_container_ids h [] seen = ({}, seen)"
| "collect_mutable_container_ids h (x # xs) seen =
     (if x \<in> seen then collect_mutable_container_ids h xs seen
      else
        let (ids, seen1) = collect_mutable_container_ids h (iter_container_children h x) (insert x seen);
            (ids', seen2) = collect_mutable_container_ids h xs seen1
        in ((if is_mutable h x then insert x ids else ids) \<union> ids', seen2))"
  by pat_completeness auto

abbreviation unseen :: "heap \<Rightarrow> nat set \<Rightarrow> nat" where
  "unseen h seen \<equiv> card (set (dict_keys h) - seen)"

lemma children_outside: "x \<notin> set (dict_keys h) \<Longrightarrow> iter_container_children h x = []"
  by (simp add: iter_container_children_def flip: map_of_eq_None_iff)

lemma unseen_mono: "seen \<subseteq> seen' \<Longrightarrow> unseen h seen' \<le> unseen h seen"
  by (rule card_mono) auto

lemma unseen_insert: "x \<notin> seen \<Longrightarrow> x \<in> set (dict_keys h) \<Longrightarrow> unseen h (insert x seen) < unseen h seen"
  by (rule psubset_card_mono) auto

text \<open>A step into an object: fewer objects of the heap are unseen, or it is a leaf.\<close>

lemma into_object:
  assumes "x \<notin> seen"
  shows "unseen h (insert x seen) < unseen h seen \<or> (unseen h (insert x seen) = unseen h seen \<and> iter_container_children h x = [])"
proof (cases "x \<in> set (dict_keys h)")
  case False
  then have "set (dict_keys h) - insert x seen = set (dict_keys h) - seen" by blast
  then show ?thesis using children_outside [OF False] by simp
qed (use unseen_insert assms in blast)

lemma collect_keeps_seen: "collect_mutable_container_ids_dom (h, xs, seen) \<Longrightarrow> seen \<subseteq> snd (collect_mutable_container_ids h xs seen)"
  by (induction h xs seen rule: collect_mutable_container_ids.pinduct)
    (force simp: collect_mutable_container_ids.psimps Let_def split: prod.split)+

termination collect_mutable_container_ids
proof (relation "inv_image (less_than <*lex*> less_than) (\<lambda>(h, xs, seen). (unseen h seen, length xs))", goal_cases)
  case (3 h x xs seen)
  then show ?case using into_object [of x seen h] by auto
next
  case (4 h x xs seen p ids seen1)
  then have "seen1 = snd (collect_mutable_container_ids h (iter_container_children h x) (insert x seen))" by (metis snd_conv)
  then have "seen \<subseteq> seen1" using collect_keeps_seen [OF 4(4)] by auto
  then show ?case using unseen_mono [of seen seen1 h] by auto
qed auto

function contains_mutable_container_id :: "heap \<Rightarrow> nat set \<Rightarrow> nat list \<Rightarrow> nat set \<Rightarrow> bool \<times> nat set" where
  "contains_mutable_container_id h ids [] seen = (False, seen)"
| "contains_mutable_container_id h ids (x # xs) seen =
     (if x \<in> seen then contains_mutable_container_id h ids xs seen
      else if is_mutable h x \<and> x \<in> ids then (True, insert x seen)
      else
        let (found, seen1) = contains_mutable_container_id h ids (iter_container_children h x) (insert x seen)
        in if found then (True, seen1) else contains_mutable_container_id h ids xs seen1)"
  by pat_completeness auto

lemma contains_keeps_seen: "contains_mutable_container_id_dom (h, ids, xs, seen) \<Longrightarrow> seen \<subseteq> snd (contains_mutable_container_id h ids xs seen)"
  by (induction h ids xs seen rule: contains_mutable_container_id.pinduct)
    (force simp: contains_mutable_container_id.psimps Let_def split: prod.split)+

termination contains_mutable_container_id
proof (relation "inv_image (less_than <*lex*> less_than) (\<lambda>(h, ids, xs, seen). (unseen h seen, length xs))", goal_cases)
  case (3 h ids x xs seen)
  then show ?case using into_object [of x seen h] by auto
next
  case (4 h ids x xs seen p found seen1)
  then have "seen1 = snd (contains_mutable_container_id h ids (iter_container_children h x) (insert x seen))" by (metis snd_conv)
  then have "seen \<subseteq> seen1" using contains_keeps_seen [OF 4(6)] by auto
  then show ?case using unseen_mono [of seen seen1 h] by auto
qed auto

definition shares_mutable_container :: "heap \<Rightarrow> nat \<Rightarrow> nat \<Rightarrow> bool" where
  "shares_mutable_container h original projected =
     (let original_ids = fst (collect_mutable_container_ids h [original] {})
      in if original_ids = {} then False else fst (contains_mutable_container_id h original_ids [projected] {}))"

text \<open>
  The check itself, on two objects: each an identity and, of a \<^verbatim>\<open>StagePayload\<close>, the identity of its data. An object of
  another type is refused with its name.
\<close>

datatype payload_object = Stage_Payload nat nat | Other_Object nat string

primrec object_id :: "payload_object \<Rightarrow> nat" where
  "object_id (Stage_Payload i d) = i"
| "object_id (Other_Object i t) = i"

fun is_isolated_projected_payload :: "heap \<Rightarrow> payload_object \<Rightarrow> payload_object \<Rightarrow> bool \<Rightarrow> bool result" where
  "is_isolated_projected_payload h original projected projector_present =
     (if \<not> projector_present \<or> object_id projected = object_id original then Inr False
      else
        case (original, projected) of
          (Other_Object i t, _) \<Rightarrow> Inl (TypeError t)
        | (_, Other_Object i t) \<Rightarrow> Inl (TypeError t)
        | (Stage_Payload i d, Stage_Payload i' d') \<Rightarrow>
            Inr (if d' = d then False else \<not> shares_mutable_container h d d'))"

section \<open>What the walks find\<close>

text \<open>What the walks are about: a container holds its items, and an object reaches what it holds, at any depth.\<close>

definition holds :: "heap \<Rightarrow> nat \<Rightarrow> nat \<Rightarrow> bool" where
  "holds h x y \<longleftrightarrow>
     (\<exists>vs. dict_get h x \<in> {Some (Dict vs), Some (List vs), Some (Set vs), Some (Tuple vs), Some (Frozenset vs)} \<and> y \<in> set vs)"

inductive reaches :: "heap \<Rightarrow> nat \<Rightarrow> nat \<Rightarrow> bool" for h where
  reaches_self: "reaches h x x"
| reaches_held: "holds h x y \<Longrightarrow> reaches h y z \<Longrightarrow> reaches h x z"

lemma holds_iff_child [simp]: "holds h x y \<longleftrightarrow> y \<in> set (iter_container_children h x)"
proof (cases "dict_get h x")
  case (Some c)
  then show ?thesis by (cases c) (simp_all add: holds_def iter_container_children_def)
qed (simp add: holds_def iter_container_children_def)

lemma reaches_child: "y \<in> set (iter_container_children h x) \<Longrightarrow> reaches h y z \<Longrightarrow> reaches h x z"
  using reaches_held [of h x y z] by simp

text \<open>
  A walk from \<open>xs\<close> that turns the identities \<open>seen\<close> into \<open>seen'\<close>: it forgets none, sees all of \<open>xs\<close>, sees nothing
  else than what they reach, and leaves no child of a new object out.
\<close>

definition walked :: "heap \<Rightarrow> nat list \<Rightarrow> nat set \<Rightarrow> nat set \<Rightarrow> bool" where
  "walked h xs seen seen' \<longleftrightarrow>
     seen \<subseteq> seen' \<and> set xs \<subseteq> seen' \<and> (\<forall>y \<in> seen' - seen. \<exists>x \<in> set xs. reaches h x y)
     \<and> (\<forall>y \<in> seen' - seen. set (iter_container_children h y) \<subseteq> seen')"

lemma walked_nil: "walked h [] seen seen"
  by (simp add: walked_def)

lemma walked_again: "x \<in> seen \<Longrightarrow> walked h xs seen seen' \<Longrightarrow> walked h (x # xs) seen seen'"
  by (auto simp: walked_def)

lemma walked_cons:
  assumes "walked h (iter_container_children h x) (insert x seen) seen1" and "walked h xs seen1 seen2"
  shows "walked h (x # xs) seen seen2"
  unfolding walked_def
proof (intro conjI ballI)
  fix y assume y: "y \<in> seen2 - seen"
  consider "y = x" | "y \<in> seen1 - insert x seen" | "y \<in> seen2 - seen1" using y by blast
  note new = this
  show "\<exists>z \<in> set (x # xs). reaches h z y"
    using new assms by cases (auto simp: walked_def intro: reaches_self reaches_child)
  show "set (iter_container_children h y) \<subseteq> seen2"
    using new
  proof cases
    case 2
    then have "set (iter_container_children h y) \<subseteq> seen1" using assms(1) by (simp add: walked_def)
    then show ?thesis using assms(2) by (auto simp: walked_def)
  qed (use assms in \<open>auto simp: walked_def\<close>)
qed (use assms in \<open>auto simp: walked_def\<close>)

lemma walked_one: "walked h (iter_container_children h x) (insert x seen) seen1 \<Longrightarrow> walked h [x] seen seen1"
  by (rule walked_cons [OF _ walked_nil])

text \<open>From the start, a walk sees exactly what its object reaches.\<close>

lemma walked_reaches:
  assumes "walked h [x] {} seen"
  shows "y \<in> seen \<longleftrightarrow> reaches h x y"
proof
  assume "reaches h x y"
  moreover have "x \<in> seen" using assms by (simp add: walked_def)
  moreover have "\<forall>y \<in> seen. set (iter_container_children h y) \<subseteq> seen" using assms by (simp add: walked_def)
  ultimately show "y \<in> seen" by (induction rule: reaches.induct) auto
qed (use assms in \<open>auto simp: walked_def\<close>)

lemma collect_walks:
  "collect_mutable_container_ids h xs seen = (ids, seen') \<Longrightarrow> walked h xs seen seen' \<and> ids = {y \<in> seen' - seen. is_mutable h y}"
proof (induction h xs seen arbitrary: ids seen' rule: collect_mutable_container_ids.induct)
  case (2 h x xs seen)
  show ?case
  proof (cases "x \<in> seen")
    case True
    then show ?thesis using 2 by (auto intro: walked_again)
  next
    case False
    obtain ids1 seen1 where one: "collect_mutable_container_ids h (iter_container_children h x) (insert x seen) = (ids1, seen1)"
      by fastforce
    obtain ids2 seen2 where two: "collect_mutable_container_ids h xs seen1 = (ids2, seen2)" by fastforce
    have into: "walked h (iter_container_children h x) (insert x seen) seen1 \<and> ids1 = {y \<in> seen1 - insert x seen. is_mutable h y}"
      by (rule 2(2) [OF False one])
    have after: "walked h xs seen1 seen2 \<and> ids2 = {y \<in> seen2 - seen1. is_mutable h y}"
      by (rule 2(3) [OF False one [symmetric] refl two])
    have "ids = (if is_mutable h x then insert x ids1 else ids1) \<union> ids2" and "seen' = seen2"
      using 2(4) False one two by simp_all
    moreover have "insert x seen \<subseteq> seen1" and "seen1 \<subseteq> seen2" using into after by (simp_all add: walked_def)
    ultimately show ?thesis using into after False walked_cons [of h x seen seen1 xs seen2] by auto
  qed
qed (simp add: walked_nil)

lemma contains_walks:
  "contains_mutable_container_id h ids xs seen = (found, seen') \<Longrightarrow>
   if found then \<exists>x \<in> set xs. \<exists>y. reaches h x y \<and> is_mutable h y \<and> y \<in> ids
   else walked h xs seen seen' \<and> (\<forall>y \<in> seen' - seen. \<not> (is_mutable h y \<and> y \<in> ids))"
proof (induction h ids xs seen arbitrary: found seen' rule: contains_mutable_container_id.induct)
  case (2 h ids x xs seen)
  consider "x \<in> seen" | "x \<notin> seen" "is_mutable h x \<and> x \<in> ids" | "x \<notin> seen" "\<not> (is_mutable h x \<and> x \<in> ids)" by blast
  then show ?case
  proof cases
    case 1
    then show ?thesis using 2(1) [OF 1] 2(4) by (auto intro: walked_again split: if_splits)
  next
    case 2
    then show ?thesis using "2.prems" by (auto intro: reaches_self)
  next
    case 3
    obtain found1 seen1 where one: "contains_mutable_container_id h ids (iter_container_children h x) (insert x seen) = (found1, seen1)"
      by fastforce
    note into = 2(2) [OF 3(1) 3(2) one]
    show ?thesis
    proof (cases found1)
      case True
      then have "found" using 2(4) 3 one by auto
      then show ?thesis using into True by (auto intro: reaches_child)
    next
      case False
      then have "contains_mutable_container_id h ids xs seen1 = (found, seen')" using 2(4) 3 one by auto
      note after = 2(3) [OF 3(1) 3(2) one [symmetric] refl False this]
      have "walked h (x # xs) seen seen'" if "\<not> found" using into after False that walked_cons [of h x seen seen1 xs seen'] by simp
      then show ?thesis using into after False 3 by (auto split: if_splits)
    qed
  qed
qed (auto simp: walked_nil)

text \<open>The walk of the original collects what it reaches and can change; the walk of the projected looks for one of these.\<close>

lemma shares_common_mutable:
  "shares_mutable_container h original projected \<longleftrightarrow>
   (\<exists>x. is_mutable h x \<and> reaches h original x \<and> reaches h projected x)"
proof -
  obtain ids seen where collect: "collect_mutable_container_ids h [original] {} = (ids, seen)" by fastforce
  obtain found seen' where contains: "contains_mutable_container_id h ids [projected] {} = (found, seen')" by fastforce
  have ids: "y \<in> ids \<longleftrightarrow> is_mutable h y \<and> reaches h original y" for y
    using collect_walks [OF collect] walked_reaches [of h original seen y] by auto
  have "shares_mutable_container h original projected \<longleftrightarrow> ids \<noteq> {} \<and> found"
    using collect contains by (simp add: shares_mutable_container_def)
  also have "\<dots> \<longleftrightarrow> (\<exists>x. is_mutable h x \<and> x \<in> ids \<and> reaches h projected x)"
    using contains_walks [OF contains] walked_reaches [of h projected seen'] by (cases found) auto
  finally show ?thesis using ids by blast
qed

lemma isolated_no_common:
  assumes "is_isolated_projected_payload h original projected present = Inr True"
  shows "present \<and> (\<exists>i d i' d'. original = Stage_Payload i d \<and> projected = Stage_Payload i' d' \<and> i \<noteq> i' \<and> d \<noteq> d' \<and>
    \<not> (\<exists>x. is_mutable h x \<and> reaches h d x \<and> reaches h d' x))"
  using assms by (auto simp: shares_common_mutable split: if_splits payload_object.splits)

text \<open>
  C37. The check for shared parts is exact: it finds a shared container if and only if there is a dict, list, set or
  bytearray that both objects reach through dicts, lists, tuples, sets and frozensets, however deep and however cyclic
  they are. Each walk ends and looks at every object once, so the answer does not depend on the order of the walk.
\<close>

theorem shares_iff_common_mutable:
  "shares_mutable_container h original projected \<longleftrightarrow>
   (\<exists>x. is_mutable h x \<and> reaches h original x \<and> reaches h projected x)"
  by (rule shares_common_mutable)

end
