(* ===== verification/Stage_Send.thy ===== *)
theory Stage_Send
  imports Stage_Receive Payload_Isolation
begin

text \<open>
  The sending half of a stage, \<^verbatim>\<open>sglang_omni/pipeline/stage/runtime.py\<close>: the drain takes what the scheduler put into its
  outbox and routes it to other stages and to the coordinator, while the receiving half runs beside it.

  The drain is one coroutine. What it still has to do is a list of pieces, each the code up to a place where it may
  suspend; \<open>drain_exec\<close> runs it to its next suspension and \<open>drain_round\<close> resumes it, with the error of the send it
  waited for, if any. An error unwinds the pieces, through those that stand for \<open>finally\<close> and \<open>except\<close>. What a
  transport prepares, whether a chunk may be batched, and the callables of the configuration are arguments,
  and so are the heap of the payloads' containers and the objects in it. A gather
  of sends runs them one after the other. A KV page transfer is modelled up to its launch.
\<close>

section \<open>What is sent\<close>

datatype 'd stage_outcome = Payload "'d stage_payload_of" | Routed "(string, 'd stage_payload_of) dict" bool | Plain 'd

datatype 'd outgoing =
    Result string "'d stage_outcome"
  | Stream string "string option" "'d chunk_data"
  | SchedulerError string string
  | KvTransfer string
  | Admitted string "bindings option"
  | Wakeup

datatype done_targets = DoneNone | DoneOne string | DoneMany "string list" | DoneDefault

datatype 'd sent_message =
    SentLocal string "'d batched_chunk list"
  | SentBatch string "'d batched_chunk list"
  | SentChunk string "'d batched_chunk"
  | SentDone string string
  | SentPayload string string "'d stage_outcome" bool
  | SentComplete string "'d stage_outcome"
  | SentToCoordinator "'d batched_chunk"

text \<open>What the constructor fixes beyond the receiving half, and the code the drain calls.\<close>

record ('d, 'h) send_config =
  ss_stage :: "('d, 'h) stage_config_of"
  ss_is_terminal :: bool
  ss_has_dispatcher :: bool
  ss_owns_results :: bool
  ss_get_next :: "string \<Rightarrow> 'd stage_outcome \<Rightarrow> next_stage result"
  ss_get_stream_done_targets :: "(string \<Rightarrow> 'd stage_outcome \<Rightarrow> done_targets) option"
  ss_project_payload :: "string \<Rightarrow> ('d stage_outcome \<Rightarrow> 'd stage_outcome result) option"
  ss_heap :: heap
  ss_object :: "'d stage_outcome \<Rightarrow> payload_object"
  ss_strip :: "(string, 'd) dict option \<Rightarrow> (string, 'd) dict option"
  ss_batchable :: "'d chunk_data \<Rightarrow> bool"
  ss_prepare :: "string \<Rightarrow> 'd chunk_data \<Rightarrow> error option"
  ss_claim_result :: "'d stage_outcome \<Rightarrow> bool \<Rightarrow> bool"

section \<open>The drain's state\<close>

text \<open>A targeted stream message of a run: request, logical target, data.\<close>

type_synonym 'd run_message = "string \<times> string \<times> 'd chunk_data"

type_synonym 'd batches = "(string, 'd batched_chunk list) dict"

datatype 'd piece =
    Handle "'d run_message list" nat "'d outgoing"
  | EndIteration "'d run_message list" nat
  | Flush "'d run_message list"
  | Dispatch "'d outgoing"
  | RouteRun "string option" "'d batched_chunk list" "'d batches" "'d run_message list"
  | AddLocal "'d run_message" string "'d batches" "'d run_message list"
  | SendLocal "string option" "'d batched_chunk list"
  | SendBatches "'d batches"
  | StreamTo "'d run_message"
  | ToCoordinator string "'d chunk_data"
  | Fail string string
  | RouteResult string "'d stage_outcome" bool
  | SignalDone string "string list"
  | AfterSignals string "'d stage_outcome" bool bool next_stage "string list"
  | SendPayloads string "'d stage_outcome" bool bool "string list" "string list"
  | Submitted
  | ClearRequest string
  | FinallyClear string
  | Release "'d stage_outcome"
  | Sleep

datatype drain_at = DrainWaiting | DrainSuspended bool | DrainEnded | DrainFailed error

record ('d, 'h) sender =
  sd_stage :: "('d, 'h) stage"
  sd_outbox :: "'d outgoing list"
  sd_drain :: drain_at
  sd_todo :: "'d piece list"
  sd_delivered :: bool
  sd_emitted :: "'d outgoing list"
  sd_sent :: "'d sent_message list"
  sd_released :: "('d stage_outcome \<times> bool) list"
  sd_dropped :: "'d stage_outcome list"
  sd_kv :: "(string \<times> bool) list"

definition sender_init :: "('d, 'h) stage \<Rightarrow> ('d, 'h) sender" where
  "sender_init st =
     \<lparr>sd_stage = st, sd_outbox = [], sd_drain = DrainWaiting, sd_todo = [], sd_delivered = False, sd_emitted = [],
      sd_sent = [], sd_released = [], sd_dropped = [], sd_kv = []\<rparr>"

abbreviation on_stage :: "(('d, 'h) stage \<Rightarrow> ('d, 'h) stage) \<Rightarrow> ('d, 'h) sender \<Rightarrow> ('d, 'h) sender" where
  "on_stage f sd \<equiv> sd\<lparr>sd_stage := f (sd_stage sd)\<rparr>"

definition send :: "'d sent_message \<Rightarrow> ('d, 'h) sender \<Rightarrow> ('d, 'h) sender" where
  "send s sd = sd\<lparr>sd_sent := sd_sent sd @ [s]\<rparr>"

text \<open>What a piece does: the pieces that follow at once, or after a suspension (which reports a submission, or not).\<close>

datatype ('d, 'h) drained =
    Continue "'d piece list" "('d, 'h) sender"
  | Suspend bool "'d piece list" "('d, 'h) sender"
  | Raises error "('d, 'h) sender"
  | Returns "('d, 'h) sender"

section \<open>Stream chunks\<close>

definition record_local_stream_target :: "string \<Rightarrow> string \<Rightarrow> ('d, 'h) stage \<Rightarrow> ('d, 'h) stage" where
  "record_local_stream_target r target st =
     st\<lparr>sr_local_stream_targets := (sr_local_stream_targets st)(r := insert target (sr_local_stream_targets st r))\<rparr>"

definition record_nonlocal_stream_target :: "string \<Rightarrow> string \<Rightarrow> ('d, 'h) stage \<Rightarrow> ('d, 'h) stage" where
  "record_nonlocal_stream_target r target st =
     st\<lparr>sr_nonlocal_stream_targets := (sr_nonlocal_stream_targets st)(r := insert target (sr_nonlocal_stream_targets st r))\<rparr>"

definition next_chunk_id :: "string \<Rightarrow> string \<Rightarrow> ('d, 'h) stage \<Rightarrow> int \<times> ('d, 'h) stage" where
  "next_chunk_id r target st =
     (let chunk_id = (case dict_get (sr_stream_chunk_counters st) (r, target) of None \<Rightarrow> 0 | Some n \<Rightarrow> n)
      in (chunk_id, st\<lparr>sr_stream_chunk_counters := dict_set (r, target) (chunk_id + 1) (sr_stream_chunk_counters st),
                       sr_first_stream_chunk_seen := insert r (sr_first_stream_chunk_seen st)\<rparr>))"

definition number_stream_chunk ::
  "('d, 'h) send_config \<Rightarrow> string \<Rightarrow> string \<Rightarrow> ('d, 'h) stage \<Rightarrow> (int \<times> ('d, 'h) stage) result" where
  "number_stream_chunk sc r target st =
     (if target \<notin> set (sv_endpoints (ss_stage sc))
      then Inl (RuntimeError ''no endpoint configured for stream target'') else Inr (next_chunk_id r target st))"

definition local_stream_chunk ::
  "('d, 'h) send_config \<Rightarrow> string \<Rightarrow> string \<Rightarrow> 'd chunk_data \<Rightarrow> ('d, 'h) stage \<Rightarrow> ('d batched_chunk \<times> ('d, 'h) stage) result" where
  "local_stream_chunk sc r target data st =
     bind_r (number_stream_chunk sc r target st) (\<lambda>(chunk_id, st).
       Inr (\<lparr>bc_request_id = r, bc_chunk_id = chunk_id, bc_data = data\<rparr>, record_local_stream_target r target st))"

definition batched_stream_chunk ::
  "('d, 'h) send_config \<Rightarrow> string \<Rightarrow> string \<Rightarrow> 'd chunk_data \<Rightarrow> ('d, 'h) stage \<Rightarrow>
   ('d batched_chunk option \<times> ('d, 'h) stage) result" where
  "batched_stream_chunk sc r target data st =
     (let data = (fst data, ss_strip sc (snd data))
      in if \<not> ss_batchable sc data then Inr (None, st)
         else bind_r (number_stream_chunk sc r target st) (\<lambda>(chunk_id, st).
                Inr (Some \<lparr>bc_request_id = r, bc_chunk_id = chunk_id, bc_data = data\<rparr>,
                     record_nonlocal_stream_target r target st)))"

definition send_local_stream_chunks ::
  "('d, 'h) send_config \<Rightarrow> string option \<Rightarrow> 'd batched_chunk list \<Rightarrow> ('d, 'h) sender \<Rightarrow> ('d, 'h) drained" where
  "send_local_stream_chunks sc target chunks sd =
     (case target of
        Some t \<Rightarrow>
          if chunks = [] then Continue [] sd
          else if \<not> ss_has_dispatcher sc then Raises (RuntimeError ''same-process stream target requires a local dispatcher'') sd
          else Suspend False [] (send (SentLocal t chunks) sd)
      | None \<Rightarrow> Continue [] sd)"

fun send_stream_chunk_batches :: "'d batches \<Rightarrow> ('d, 'h) sender \<Rightarrow> ('d, 'h) drained" where
  "send_stream_chunk_batches [] sd = Continue [] sd"
| "send_stream_chunk_batches ((target, chunks) # batches) sd = Suspend False [SendBatches batches] (send (SentBatch target chunks) sd)"

definition stream_to_target ::
  "('d, 'h) send_config \<Rightarrow> string \<Rightarrow> string \<Rightarrow> 'd chunk_data \<Rightarrow> ('d, 'h) sender \<Rightarrow> ('d, 'h) drained" where
  "stream_to_target sc r target data sd =
     (if target \<in> set (sv_same_process_targets (ss_stage sc)) then
        (case local_stream_chunk sc r target data (sd_stage sd) of
           Inl e \<Rightarrow> Raises e sd
         | Inr (chunk, st) \<Rightarrow> Continue [SendLocal (Some target) [chunk]] (sd\<lparr>sd_stage := st\<rparr>))
      else
        (case batched_stream_chunk sc r target data (sd_stage sd) of
           Inl e \<Rightarrow> Raises e sd
         | Inr (Some chunk, st) \<Rightarrow> Suspend False [] (send (SentBatch target [chunk]) (sd\<lparr>sd_stage := st\<rparr>))
         | Inr (None, _) \<Rightarrow>
             (case number_stream_chunk sc r target (sd_stage sd) of
                Inl e \<Rightarrow> Raises e sd
              | Inr (chunk_id, st) \<Rightarrow>
                  (let sd = sd\<lparr>sd_stage := record_nonlocal_stream_target r target st\<rparr>;
                       data = (fst data, ss_strip sc (snd data))
                   in case ss_prepare sc target data of
                        Some e \<Rightarrow> Raises e sd
                      | None \<Rightarrow> Suspend False []
                                  (send (SentChunk target \<lparr>bc_request_id = r, bc_chunk_id = chunk_id, bc_data = data\<rparr>) sd)))))"

definition send_stream_to_target ::
  "('d, 'h) send_config \<Rightarrow> 'd run_message \<Rightarrow> ('d, 'h) sender \<Rightarrow> ('d, 'h) drained" where
  "send_stream_to_target sc message sd =
     (case message of
        (r, target, data) \<Rightarrow>
          if \<not> owns_external_io (ss_stage sc) then Continue [] sd
          else case resolve_target_instance (ss_stage sc) r target (sd_stage sd) of
                 Inl e \<Rightarrow> Raises e sd
               | Inr target \<Rightarrow> stream_to_target sc r target data sd)"

text \<open>The loop of \<open>route_stream_run\<close>: the run of a same-process target and the pending batches are its locals.\<close>

fun route_stream_run ::
  "('d, 'h) send_config \<Rightarrow> string option \<Rightarrow> 'd batched_chunk list \<Rightarrow> 'd batches \<Rightarrow> 'd run_message list \<Rightarrow>
   ('d, 'h) sender \<Rightarrow> ('d, 'h) drained" where
  "route_stream_run sc local_target local_chunks batches [] sd =
     Continue [SendLocal local_target local_chunks, SendBatches batches] sd"
| "route_stream_run sc local_target local_chunks batches ((r, target, data) # messages) sd =
     (if r \<notin> sr_active_requests (sd_stage sd) then Continue [RouteRun local_target local_chunks batches messages] sd
      else
        case resolve_target_instance (ss_stage sc) r target (sd_stage sd) of
          Inl e \<Rightarrow> Raises e sd
        | Inr instance \<Rightarrow>
            if instance \<in> set (sv_same_process_targets (ss_stage sc)) then
              if Some instance \<noteq> local_target
              then Continue [SendLocal local_target local_chunks, AddLocal (r, target, data) instance batches messages] sd
              else (case local_stream_chunk sc r instance data (sd_stage sd) of
                      Inl e \<Rightarrow> Raises e sd
                    | Inr (chunk, st) \<Rightarrow>
                        Continue [RouteRun local_target (local_chunks @ [chunk]) batches messages] (sd\<lparr>sd_stage := st\<rparr>))
            else
              (case batched_stream_chunk sc r instance data (sd_stage sd) of
                 Inl e \<Rightarrow> Raises e sd
               | Inr (Some chunk, st) \<Rightarrow>
                   Continue
                     [RouteRun local_target local_chunks
                        (dict_set instance ((case dict_get batches instance of None \<Rightarrow> [] | Some cs \<Rightarrow> cs) @ [chunk]) batches)
                        messages]
                     (sd\<lparr>sd_stage := st\<rparr>)
               | Inr (None, st) \<Rightarrow>
                   Continue [SendLocal local_target local_chunks, SendBatches batches, StreamTo (r, target, data),
                             RouteRun None [] [] messages] sd))"

text \<open>Behind the send of the earlier same-process run, a message opens the run of its own target.\<close>

definition open_local_run ::
  "('d, 'h) send_config \<Rightarrow> 'd run_message \<Rightarrow> string \<Rightarrow> 'd batches \<Rightarrow> 'd run_message list \<Rightarrow> ('d, 'h) sender \<Rightarrow> ('d, 'h) drained" where
  "open_local_run sc message instance batches messages sd =
     (case message of
        (r, _, data) \<Rightarrow>
          (case local_stream_chunk sc r instance data (sd_stage sd) of
             Inl e \<Rightarrow> Raises e sd
           | Inr (chunk, st) \<Rightarrow> Continue [RouteRun (Some instance) [chunk] batches messages] (sd\<lparr>sd_stage := st\<rparr>)))"

definition send_stream_to_coordinator ::
  "('d, 'h) send_config \<Rightarrow> string \<Rightarrow> 'd chunk_data \<Rightarrow> ('d, 'h) sender \<Rightarrow> ('d, 'h) drained" where
  "send_stream_to_coordinator sc r data sd =
     (if \<not> ss_is_terminal sc then Raises (RuntimeError ''stage emitted untargeted stream chunk but is not terminal'') sd
      else if \<not> owns_external_io (ss_stage sc) \<or> r \<in> set (sr_aborted (sd_stage sd)) then Continue [] sd
      else case next_chunk_id r ''coordinator'' (sd_stage sd) of
             (chunk_id, st) \<Rightarrow>
               Suspend False [] (send (SentToCoordinator \<lparr>bc_request_id = r, bc_chunk_id = chunk_id, bc_data = data\<rparr>)
                 (sd\<lparr>sd_stage := st\<rparr>)))"

section \<open>Payloads and results\<close>

definition can_send_full_payload_locally :: "string \<Rightarrow> string \<Rightarrow> string list \<Rightarrow> ('d, 'h) stage \<Rightarrow> bool" where
  "can_send_full_payload_locally r target stream_targets_for_request st \<longleftrightarrow>
     target \<notin> sr_nonlocal_stream_targets st r \<and>
     (target \<in> set stream_targets_for_request \<longrightarrow> target \<in> sr_local_stream_targets st r)"

text \<open>\<open>send_to_stage\<close> up to its transport: the instance, what it is sent, and whether by reference.\<close>

definition send_to_stage ::
  "('d, 'h) send_config \<Rightarrow> string \<Rightarrow> string \<Rightarrow> 'd stage_outcome \<Rightarrow> bool \<Rightarrow> bool \<Rightarrow> string list \<Rightarrow> ('d, 'h) stage \<Rightarrow>
   (string \<times> 'd stage_outcome \<times> bool) result" where
  "send_to_stage sc r target payload allow_local_object allow_projected_local_object stream_targets_for_request st =
     (if \<not> owns_external_io (ss_stage sc) then Inl (RuntimeError ''Follower stage cannot send downstream data'')
      else bind_r (resolve_target_instance (ss_stage sc) r target st) (\<lambda>target.
        if target \<notin> set (sv_endpoints (ss_stage sc)) then Inl (RuntimeError ''no endpoint configured for target'')
        else bind_r (case ss_project_payload sc target of None \<Rightarrow> Inr payload | Some projector \<Rightarrow> projector payload) (\<lambda>projected.
        bind_r (if allow_local_object then Inr True
                else if allow_projected_local_object
                then is_isolated_projected_payload (ss_heap sc) (ss_object sc payload) (ss_object sc projected) (ss_project_payload sc target \<noteq> None)
                else Inr False) (\<lambda>use_local_object.
        if use_local_object \<and> target \<in> set (sv_same_process_targets (ss_stage sc)) \<and>
           can_send_full_payload_locally r target stream_targets_for_request st
        then if \<not> ss_has_dispatcher sc then Inl (RuntimeError ''same-process target requires a local dispatcher'')
             else Inr (target, projected, True)
        else Inr (target, projected, False)))))"

definition send_stream_done :: "('d, 'h) send_config \<Rightarrow> string \<Rightarrow> string \<Rightarrow> ('d, 'h) stage \<Rightarrow> (string \<times> ('d, 'h) stage) result" where
  "send_stream_done sc r target st =
     bind_r (resolve_target_instance (ss_stage sc) r target st) (\<lambda>target.
       if target \<notin> set (sv_endpoints (ss_stage sc)) then Inl (RuntimeError ''no endpoint configured for stream target'')
       else if target \<in> set (sv_same_process_targets (ss_stage sc)) then
         if \<not> ss_has_dispatcher sc then Inl (RuntimeError ''same-process stream target requires a local dispatcher'')
         else Inr (target, record_local_stream_target r target st)
       else Inr (target, record_nonlocal_stream_target r target st))"

fun signal_done :: "('d, 'h) send_config \<Rightarrow> string \<Rightarrow> string list \<Rightarrow> ('d, 'h) sender \<Rightarrow> ('d, 'h) drained" where
  "signal_done sc r [] sd = Continue [] sd"
| "signal_done sc r (target # targets) sd =
     (if \<not> owns_external_io (ss_stage sc) then Continue [] sd
      else case send_stream_done sc r target (sd_stage sd) of
             Inl e \<Rightarrow> Raises e sd
           | Inr (target, st) \<Rightarrow> Suspend False [SignalDone r targets] (send (SentDone target r) (sd\<lparr>sd_stage := st\<rparr>)))"

fun session_of :: "'d stage_outcome \<Rightarrow> session_op option" where
  "session_of (Payload payload) = pl_session payload"
| "session_of _ = None"

text \<open>The stage after this one in a session's route, and the stage a result goes to when it goes to one or none.\<close>

definition expected_owner :: "('d, 'h) stage_config_of \<Rightarrow> session_op \<Rightarrow> string option" where
  "expected_owner sv op =
     (case dropWhile (\<lambda>owner. owner \<noteq> sv_name sv) (so_stages op) of
        _ # next_owner # _ \<Rightarrow> Some (logical_source sv next_owner)
      | _ \<Rightarrow> None)"

fun goes_to :: "next_stage \<Rightarrow> string option \<Rightarrow> bool" where
  "goes_to NoNext expected \<longleftrightarrow> expected = None"
| "goes_to (NextStage target) expected \<longleftrightarrow> expected = Some target"
| "goes_to (NextStages targets) expected \<longleftrightarrow> (case targets of [target] \<Rightarrow> expected = Some target | _ \<Rightarrow> False)"

definition session_route_error :: "('d, 'h) stage_config_of \<Rightarrow> session_op \<Rightarrow> next_stage \<Rightarrow> string option" where
  "session_route_error sv op actual =
     (if sv_name sv \<notin> set (so_stages op) then Some ''session route must use fixed, linear payload edges''
      else if \<exists>target \<in> set (sv_stream_targets sv). Some target \<noteq> expected_owner sv op
      then Some ''session route must use fixed, linear payload edges''
      else if \<not> goes_to actual (expected_owner sv op) then Some ''session route differs from the stage payload route''
      else None)"

definition is_forwarded_at_admission :: "('d, 'h) stage_config_of \<Rightarrow> session_op option \<Rightarrow> bool" where
  "is_forwarded_at_admission sv session =
     (case session of
        None \<Rightarrow> False
      | Some op \<Rightarrow> (case expected_owner sv op of None \<Rightarrow> False | Some owner \<Rightarrow> owner \<in> set (sv_stream_targets sv)))"

definition stream_done_targets :: "('d, 'h) send_config \<Rightarrow> string \<Rightarrow> 'd stage_outcome \<Rightarrow> string list" where
  "stream_done_targets sc r outcome =
     (case ss_get_stream_done_targets sc of
        None \<Rightarrow> sv_stream_targets (ss_stage sc)
      | Some resolve \<Rightarrow>
          (case resolve r outcome of
             DoneNone \<Rightarrow> []
           | DoneOne target \<Rightarrow> [target]
           | DoneMany targets \<Rightarrow> targets
           | DoneDefault \<Rightarrow> sv_stream_targets (ss_stage sc)))"

definition complete :: "string \<Rightarrow> 'd stage_outcome \<Rightarrow> bool \<Rightarrow> ('d, 'h) sender \<Rightarrow> ('d, 'h) drained" where
  "complete r outcome owned sd =
     Suspend owned ((if owned then [Submitted] else []) @ [ClearRequest r]) (send (SentComplete r outcome) sd)"

definition route_result :: "('d, 'h) send_config \<Rightarrow> string \<Rightarrow> 'd stage_outcome \<Rightarrow> bool \<Rightarrow> ('d, 'h) sender \<Rightarrow> ('d, 'h) drained" where
  "route_result sc r outcome owned sd =
     (let session = session_of outcome
      in if \<not> owns_external_io (ss_stage sc) then Continue [ClearRequest r] sd
         else if (case session of None \<Rightarrow> False | Some op \<Rightarrow> so_operation op \<noteq> ''append'') then complete r outcome owned sd
         else case ss_get_next sc r outcome of
                Inl e \<Rightarrow> Raises e sd
              | Inr actual \<Rightarrow>
                  (case (case session of None \<Rightarrow> None | Some op \<Rightarrow> session_route_error (ss_stage sc) op actual) of
                     Some failure \<Rightarrow> Continue [Fail r failure] sd
                   | None \<Rightarrow>
                       if owned \<and> \<not> ss_claim_result sc outcome (actual = NoNext) then Continue [] sd
                       else let targets = stream_done_targets sc r outcome
                            in Continue [SignalDone r targets,
                                 AfterSignals r outcome owned (is_forwarded_at_admission (ss_stage sc) session) actual targets] sd))"

fun routes_to_self :: "('d, 'h) send_config \<Rightarrow> string \<Rightarrow> string list \<Rightarrow> ('d, 'h) stage \<Rightarrow> bool result" where
  "routes_to_self sc r [] st = Inr False"
| "routes_to_self sc r (target # targets) st =
     bind_r (resolve_target_instance (ss_stage sc) r target st) (\<lambda>target.
       if target = sv_name (ss_stage sc) then Inr True else routes_to_self sc r targets st)"

fun next_stage_names :: "next_stage \<Rightarrow> string list" where
  "next_stage_names NoNext = []"
| "next_stage_names (NextStage target) = [target]"
| "next_stage_names (NextStages targets) = targets"

fun keeps_request_state :: "'d stage_outcome \<Rightarrow> bool" where
  "keeps_request_state (Routed payloads keep) \<longleftrightarrow> keep"
| "keeps_request_state _ \<longleftrightarrow> False"

definition route_payload ::
  "('d, 'h) send_config \<Rightarrow> string \<Rightarrow> 'd stage_outcome \<Rightarrow> bool \<Rightarrow> bool \<Rightarrow> next_stage \<Rightarrow> string list \<Rightarrow> ('d, 'h) sender \<Rightarrow> ('d, 'h) drained" where
  "route_payload sc r outcome owned forwarded actual stream_targets sd =
     (if forwarded then Continue [ClearRequest r] sd
      else if actual = NoNext then complete r outcome owned sd
      else
        let targets = next_stage_names actual; keeps = keeps_request_state outcome
        in case routes_to_self sc r targets (sd_stage sd) of
             Inl e \<Rightarrow> Raises e sd
           | Inr to_self \<Rightarrow>
               Continue (SendPayloads r outcome owned (length targets = 1) stream_targets targets #
                         (if to_self \<or> keeps then [] else [ClearRequest r]))
                 (if to_self \<and> \<not> keeps then on_stage (clear_request_state (ss_stage sc) True r) sd else sd))"

fun payload_for :: "'d stage_outcome \<Rightarrow> string \<Rightarrow> 'd stage_outcome result" where
  "payload_for (Routed payloads keep) target =
     (case dict_get payloads target of None \<Rightarrow> Inl (KeyError target) | Some payload \<Rightarrow> Inr (Payload payload))"
| "payload_for outcome target = Inr outcome"

fun send_payloads ::
  "('d, 'h) send_config \<Rightarrow> string \<Rightarrow> 'd stage_outcome \<Rightarrow> bool \<Rightarrow> bool \<Rightarrow> string list \<Rightarrow> string list \<Rightarrow> ('d, 'h) sender \<Rightarrow> ('d, 'h) drained" where
  "send_payloads sc r outcome owned single stream_targets [] sd = Continue [] sd"
| "send_payloads sc r outcome owned single stream_targets (target # targets) sd =
     (case bind_r (payload_for outcome target) (\<lambda>payload.
             send_to_stage sc r target payload single (\<not> single) stream_targets (sd_stage sd)) of
        Inl e \<Rightarrow> Raises e sd
      | Inr (target, payload, local) \<Rightarrow>
          Suspend False ((if owned then [Submitted] else []) @ [SendPayloads r outcome owned single stream_targets targets])
            (send (SentPayload target r payload local) sd))"

section \<open>The drain\<close>

definition OUTBOX_DRAIN_BATCH_SIZE :: nat where
  "OUTBOX_DRAIN_BATCH_SIZE = 64"

definition fail_request :: "('d, 'h) send_config \<Rightarrow> string \<Rightarrow> string \<Rightarrow> ('d, 'h) sender \<Rightarrow> ('d, 'h) drained" where
  "fail_request sc r failure sd =
     (case send_failure (ss_stage sc) r failure (sd_stage sd) of
        (AtEnd (Some e), st) \<Rightarrow> Raises e (sd\<lparr>sd_stage := st\<rparr>)
      | (_, st) \<Rightarrow> Suspend False [FinallyClear r] (sd\<lparr>sd_stage := st\<rparr>))"

definition release_result :: "'d stage_outcome \<Rightarrow> bool \<Rightarrow> ('d, 'h) sender \<Rightarrow> ('d, 'h) sender" where
  "release_result outcome delivered sd = sd\<lparr>sd_released := sd_released sd @ [(outcome, delivered)]\<rparr>"

definition dispatch_active :: "('d, 'h) send_config \<Rightarrow> 'd outgoing \<Rightarrow> ('d, 'h) sender \<Rightarrow> ('d, 'h) drained" where
  "dispatch_active sc out sd =
     (case out of
        Result r outcome \<Rightarrow>
          if ss_owns_results sc then Continue [RouteResult r outcome True, Release outcome] (sd\<lparr>sd_delivered := False\<rparr>)
          else Continue [RouteResult r outcome False] sd
      | Stream r target data \<Rightarrow>
          if sv_stream_targets (ss_stage sc) \<noteq> []
          then Suspend False (map (\<lambda>target. StreamTo (r, target, data)) (sv_stream_targets (ss_stage sc))) sd
          else Continue [ToCoordinator r data] sd
      | SchedulerError r failure \<Rightarrow> Continue [Fail r failure] sd
      | Wakeup \<Rightarrow> Returns sd
      | _ \<Rightarrow> Continue [] sd)"

fun out_request :: "'d outgoing \<Rightarrow> string" where
  "out_request (Result r outcome) = r"
| "out_request (Stream r target data) = r"
| "out_request (SchedulerError r failure) = r"
| "out_request (KvTransfer r) = r"
| "out_request (Admitted r b) = r"
| "out_request Wakeup = []"

definition dispatch :: "('d, 'h) send_config \<Rightarrow> 'd outgoing \<Rightarrow> ('d, 'h) sender \<Rightarrow> ('d, 'h) drained" where
  "dispatch sc out sd =
     (let active = out_request out \<in> sr_active_requests (sd_stage sd)
      in case out of
           Admitted r b \<Rightarrow>
             if r \<in> set (sr_aborted (sd_stage sd)) then Continue [] sd
             else let st = record_replica_bindings r b (sd_stage sd)
                  in Continue [] (sd\<lparr>sd_stage := st\<lparr>sr_active_requests := insert r (sr_active_requests st)\<rparr>\<rparr>)
         | KvTransfer r \<Rightarrow> Continue [] (sd\<lparr>sd_kv := sd_kv sd @ [(r, active)]\<rparr>)
         | _ \<Rightarrow>
             if active then dispatch_active sc out sd
             else case out of
                    Result r outcome \<Rightarrow> Continue [] (if ss_owns_results sc then release_result outcome False sd else sd)
                  | Wakeup \<Rightarrow> Returns sd
                  | _ \<Rightarrow> Continue [] sd)"

text \<open>The end of an iteration: the batch is full, the outbox is empty, or the next message follows.\<close>

definition end_iteration :: "'d run_message list \<Rightarrow> nat \<Rightarrow> ('d, 'h) sender \<Rightarrow> ('d, 'h) drained" where
  "end_iteration stream_run batch_index sd =
     (if batch_index + 1 \<ge> OUTBOX_DRAIN_BATCH_SIZE then Continue [Flush stream_run, Sleep] sd
      else case sd_outbox sd of
             [] \<Rightarrow> Continue [Flush stream_run] sd
           | out # outbox \<Rightarrow> Continue [Handle stream_run (batch_index + 1) out] (sd\<lparr>sd_outbox := outbox\<rparr>))"

fun run_piece :: "('d, 'h) send_config \<Rightarrow> 'd piece \<Rightarrow> ('d, 'h) sender \<Rightarrow> ('d, 'h) drained" where
  "run_piece sc (Handle stream_run i (Stream r (Some target) data)) sd =
     Continue [EndIteration (stream_run @ [(r, target, data)]) i] sd"
| "run_piece sc (Handle stream_run i out) sd = Continue [Flush stream_run, Dispatch out, EndIteration [] i] sd"
| "run_piece sc (EndIteration stream_run i) sd = end_iteration stream_run i sd"
| "run_piece sc (Flush stream_run) sd = Continue (if stream_run = [] then [] else [RouteRun None [] [] stream_run]) sd"
| "run_piece sc (Dispatch out) sd = dispatch sc out sd"
| "run_piece sc (RouteRun local_target local_chunks batches messages) sd =
     route_stream_run sc local_target local_chunks batches messages sd"
| "run_piece sc (AddLocal message instance batches messages) sd = open_local_run sc message instance batches messages sd"
| "run_piece sc (SendLocal target chunks) sd = send_local_stream_chunks sc target chunks sd"
| "run_piece sc (SendBatches batches) sd = send_stream_chunk_batches batches sd"
| "run_piece sc (StreamTo message) sd = send_stream_to_target sc message sd"
| "run_piece sc (ToCoordinator r data) sd = send_stream_to_coordinator sc r data sd"
| "run_piece sc (Fail r failure) sd = fail_request sc r failure sd"
| "run_piece sc (RouteResult r outcome owned) sd = route_result sc r outcome owned sd"
| "run_piece sc (SignalDone r targets) sd = signal_done sc r targets sd"
| "run_piece sc (AfterSignals r outcome owned forwarded actual targets) sd = route_payload sc r outcome owned forwarded actual targets sd"
| "run_piece sc (SendPayloads r outcome owned single stream_targets targets) sd =
     send_payloads sc r outcome owned single stream_targets targets sd"
| "run_piece sc Submitted sd = Continue [] (sd\<lparr>sd_delivered := True\<rparr>)"
| "run_piece sc (ClearRequest r) sd = Continue [] (on_stage (clear_request_state (ss_stage sc) False r) sd)"
| "run_piece sc (FinallyClear r) sd = Continue [] (on_stage (clear_request_state (ss_stage sc) False r) sd)"
| "run_piece sc (Release outcome) sd = Continue [] (release_result outcome (sd_delivered sd) sd)"
| "run_piece sc Sleep sd = Suspend False [] sd"

text \<open>
  An error, or a cancellation, on its way out of the drain. A result that the drain has taken from the outbox but not
  come to, since the run of stream messages before it failed, is dropped; \<open>sd_dropped\<close> records it.
\<close>

definition drop_out :: "'d outgoing \<Rightarrow> ('d, 'h) sender \<Rightarrow> ('d, 'h) sender" where
  "drop_out out sd = (case out of Result r outcome \<Rightarrow> sd\<lparr>sd_dropped := sd_dropped sd @ [outcome]\<rparr> | _ \<Rightarrow> sd)"

fun unwind :: "('d, 'h) send_config \<Rightarrow> 'd piece list \<Rightarrow> ('d, 'h) sender \<Rightarrow> ('d, 'h) sender" where
  "unwind sc [] sd = sd\<lparr>sd_todo := []\<rparr>"
| "unwind sc (FinallyClear r # pieces) sd = unwind sc pieces (on_stage (clear_request_state (ss_stage sc) False r) sd)"
| "unwind sc (Release outcome # pieces) sd = unwind sc pieces (release_result outcome (sd_delivered sd) sd)"
| "unwind sc (Handle stream_run i out # pieces) sd = unwind sc pieces (drop_out out sd)"
| "unwind sc (Dispatch out # pieces) sd = unwind sc pieces (drop_out out sd)"
| "unwind sc (_ # pieces) sd = unwind sc pieces sd"

definition drain_fails :: "('d, 'h) send_config \<Rightarrow> error \<Rightarrow> 'd piece list \<Rightarrow> ('d, 'h) sender \<Rightarrow> ('d, 'h) sender" where
  "drain_fails sc e pieces sd = on_stage (on_background_task_done (Some e)) ((unwind sc pieces sd)\<lparr>sd_drain := DrainFailed e\<rparr>)"

section \<open>Every round ends\<close>

fun piece_weight :: "'d piece \<Rightarrow> nat" where
  "piece_weight (Handle stream_run i out) = 5 * length stream_run + 23"
| "piece_weight (EndIteration stream_run i) = 5 * length stream_run + 7"
| "piece_weight (Flush stream_run) = 5 * length stream_run + 5"
| "piece_weight (Dispatch out) = 10"
| "piece_weight (RouteRun local_target local_chunks batches messages) = 5 * length messages + 4"
| "piece_weight (AddLocal message instance batches messages) = 5 * length messages + 5"
| "piece_weight (StreamTo message) = 2"
| "piece_weight (Fail r failure) = 2"
| "piece_weight (RouteResult r outcome owned) = 8"
| "piece_weight (AfterSignals r outcome owned forwarded actual targets) = 4"
| "piece_weight _ = 1"

abbreviation weight :: "'d piece list \<Rightarrow> nat" where
  "weight pieces \<equiv> sum_list (map piece_weight pieces)"

lemma drop_out_same [simp]:
  "sd_stage (drop_out out sd) = sd_stage sd" "sd_outbox (drop_out out sd) = sd_outbox sd" "sd_drain (drop_out out sd) = sd_drain sd"
  "sd_emitted (drop_out out sd) = sd_emitted sd" "sd_released (drop_out out sd) = sd_released sd"
  by (cases out; simp add: drop_out_def)+

lemma same_outbox [simp]: "sd_outbox (send s sd) = sd_outbox sd" "sd_outbox (release_result outcome d sd) = sd_outbox sd"
  by (simp_all add: send_def release_result_def)

lemma stream_lighter:
  "stream_to_target sc r target data sd = Continue pieces sd' \<Longrightarrow> sd_outbox sd' = sd_outbox sd \<and> weight pieces < 2"
  by (auto simp: stream_to_target_def Let_def split: if_splits sum.splits prod.splits option.splits)

lemma run_lighter:
  "route_stream_run sc lt lc batches messages sd = Continue pieces sd' \<Longrightarrow>
     sd_outbox sd' = sd_outbox sd \<and> weight pieces < 5 * length messages + 4"
  by (cases "(sc, lt, lc, batches, messages, sd)" rule: route_stream_run.cases)
    (auto split: if_splits sum.splits prod.splits option.splits)

lemma dispatch_lighter: "dispatch sc out sd = Continue pieces sd' \<Longrightarrow> sd_outbox sd' = sd_outbox sd \<and> weight pieces < 10"
  by (cases out) (auto simp: dispatch_def dispatch_active_def Let_def split: if_splits)

lemma result_lighter: "route_result sc r outcome owned sd = Continue pieces sd' \<Longrightarrow> sd_outbox sd' = sd_outbox sd \<and> weight pieces < 8"
  by (auto simp: route_result_def complete_def Let_def split: if_splits sum.splits option.splits)

lemma payload_lighter:
  "route_payload sc r outcome owned forwarded actual targets sd = Continue pieces sd' \<Longrightarrow> sd_outbox sd' = sd_outbox sd \<and> weight pieces < 4"
  by (auto simp: route_payload_def complete_def Let_def split: if_splits sum.splits)

lemma run_piece_lighter:
  assumes "run_piece sc piece sd = Continue pieces sd'"
  shows "length (sd_outbox sd') < length (sd_outbox sd) \<or> (sd_outbox sd' = sd_outbox sd \<and> weight pieces < piece_weight piece)"
proof (cases "(sc, piece, sd)" rule: run_piece.cases)
qed (use assms in \<open>auto simp: end_iteration_def fail_request_def open_local_run_def send_local_stream_chunks_def
      send_stream_to_target_def send_stream_to_coordinator_def
    dest!: run_lighter dispatch_lighter result_lighter payload_lighter stream_lighter
    split: if_splits list.splits option.splits sum.splits prod.splits receive_at.splits
    elim!: send_stream_chunk_batches.elims signal_done.elims send_payloads.elims\<close>)

function drain_exec :: "('d, 'h) send_config \<Rightarrow> 'd piece list \<Rightarrow> ('d, 'h) sender \<Rightarrow> ('d, 'h) sender" where
  "drain_exec sc [] sd = sd\<lparr>sd_drain := DrainWaiting, sd_todo := []\<rparr>"
| "drain_exec sc (piece # rest) sd =
     (case run_piece sc piece sd of
        Continue pieces sd \<Rightarrow> drain_exec sc (pieces @ rest) sd
      | Suspend reports pieces sd \<Rightarrow> sd\<lparr>sd_drain := DrainSuspended reports, sd_todo := pieces @ rest\<rparr>
      | Raises e sd \<Rightarrow> drain_fails sc e rest sd
      | Returns sd \<Rightarrow> sd\<lparr>sd_drain := DrainEnded, sd_todo := []\<rparr>)"
  by pat_completeness auto
termination
  by (relation "inv_image (less_than <*lex*> less_than) (\<lambda>(sc, pieces, sd). (length (sd_outbox sd), weight pieces))")
    (auto dest: run_piece_lighter)

text \<open>
  A round of the drain of a stage that owns its I/O: it takes a message, or resumes from a send, which failed or not;
  the send of a completion may have been submitted before it failed.
\<close>

definition drain_round :: "('d, 'h) send_config \<Rightarrow> error option \<Rightarrow> bool \<Rightarrow> ('d, 'h) sender \<Rightarrow> ('d, 'h) sender" where
  "drain_round sc failed submitted sd =
     (case sd_drain sd of
        DrainWaiting \<Rightarrow>
          (case sd_outbox sd of [] \<Rightarrow> sd | out # outbox \<Rightarrow> drain_exec sc [Handle [] 0 out] (sd\<lparr>sd_outbox := outbox\<rparr>))
      | DrainSuspended reports \<Rightarrow>
          (case failed of
             None \<Rightarrow> drain_exec sc (sd_todo sd) sd
           | Some e \<Rightarrow> drain_fails sc e (sd_todo sd) (if reports \<and> submitted then sd\<lparr>sd_delivered := True\<rparr> else sd))
      | _ \<Rightarrow> sd)"

text \<open>The drain is cancelled as the stage ends; a drain that waits puts the message that ends both drains.\<close>

definition drain_cancel :: "('d, 'h) send_config \<Rightarrow> bool \<Rightarrow> ('d, 'h) sender \<Rightarrow> ('d, 'h) sender" where
  "drain_cancel sc submitted sd =
     (case sd_drain sd of
        DrainWaiting \<Rightarrow> sd\<lparr>sd_drain := DrainEnded, sd_outbox := sd_outbox sd @ [Wakeup]\<rparr>
      | DrainSuspended reports \<Rightarrow>
          (unwind sc (sd_todo sd) (if reports \<and> submitted then sd\<lparr>sd_delivered := True\<rparr> else sd))\<lparr>sd_drain := DrainEnded\<rparr>
      | _ \<Rightarrow> sd)"

text \<open>The drain of a TP follower sends nothing.\<close>

definition drain_outbox_follower :: "('d, 'h) send_config \<Rightarrow> ('d, 'h) sender \<Rightarrow> ('d, 'h) sender" where
  "drain_outbox_follower sc sd =
     (case (sd_drain sd, sd_outbox sd) of
        (DrainWaiting, out # outbox) \<Rightarrow>
          (let sd = sd\<lparr>sd_outbox := outbox\<rparr>
           in case out of
                Wakeup \<Rightarrow> sd\<lparr>sd_drain := DrainEnded\<rparr>
              | Result r outcome \<Rightarrow>
                  on_stage (clear_request_state (ss_stage sc) False r)
                    (if ss_owns_results sc then release_result outcome False sd else sd)
              | Stream r target data \<Rightarrow> sd
              | Admitted r b \<Rightarrow> on_stage (\<lambda>st. st\<lparr>sr_active_requests := insert r (sr_active_requests st)\<rparr>) sd
              | KvTransfer r \<Rightarrow> drain_fails sc (RuntimeError ''TP follower stage cannot publish a KV transfer'') [] sd
              | SchedulerError r failure \<Rightarrow> drain_fails sc (RuntimeError ''TP follower stage received scheduler error'') [] sd)
      | _ \<Rightarrow> sd)"

definition put_messages :: "'d outgoing list \<Rightarrow> ('d, 'h) sender \<Rightarrow> ('d, 'h) sender" where
  "put_messages messages sd = sd\<lparr>sd_outbox := sd_outbox sd @ messages, sd_emitted := sd_emitted sd @ messages\<rparr>"

text \<open>The whole stage: both halves, the scheduler's outbox and the end.\<close>

inductive stage_step :: "('d, 'h) send_config \<Rightarrow> ('d, 'h) sender \<Rightarrow> ('d, 'h) sender \<Rightarrow> bool" for sc where
  receive: "receive_step (ss_stage sc) (sd_stage sd) st \<Longrightarrow> stage_step sc sd (sd\<lparr>sd_stage := st\<rparr>)"
| emit: "stage_step sc sd (put_messages messages sd)"
| drain: "owns_external_io (ss_stage sc) \<Longrightarrow> stage_step sc sd (drain_round sc failed submitted sd)"
| follower: "\<not> owns_external_io (ss_stage sc) \<Longrightarrow> stage_step sc sd (drain_outbox_follower sc sd)"
| cancel: "stage_step sc sd (drain_cancel sc submitted sd)"

end
