(* ===== verification/Stage_Streams.thy ===== *)
theory Stage_Streams
  imports Stage_Send
begin

text \<open>
  A run of stream messages: batching them by target, and sending same-process chunks by reference, gives every target
  the chunks it would get one message at a time, with the same numbers and in the same order.
\<close>

section \<open>Runs to the end\<close>

text \<open>The pieces run to their end, every send succeeding and nothing else running in between.\<close>

inductive runs :: "('d, 'h) send_config \<Rightarrow> 'd piece list \<Rightarrow> ('d, 'h) sender \<Rightarrow> ('d, 'h) sender \<Rightarrow> bool" for sc where
  ended: "runs sc [] sd sd"
| goes_on: "run_piece sc piece sd = Continue pieces sd1 \<Longrightarrow> runs sc (pieces @ rest) sd1 sd2 \<Longrightarrow> runs sc (piece # rest) sd sd2"
| resumes: "run_piece sc piece sd = Suspend reports pieces sd1 \<Longrightarrow> runs sc (pieces @ rest) sd1 sd2 \<Longrightarrow> runs sc (piece # rest) sd sd2"

lemma runs_append: "runs sc pieces sd sd1 \<Longrightarrow> runs sc rest sd1 sd2 \<Longrightarrow> runs sc (pieces @ rest) sd sd2"
  by (induction rule: runs.induct) (auto intro: runs.intros)

lemma runs_then: "runs sc [piece] sd sd1 \<Longrightarrow> runs sc rest sd1 sd2 \<Longrightarrow> runs sc (piece # rest) sd sd2"
  using runs_append [of sc "[piece]"] by simp

lemma runs_pause: "run_piece sc piece sd = Suspend reports [] sd1 \<Longrightarrow> runs sc [piece] sd sd1"
  using runs.resumes [of sc piece sd reports "[]" sd1 "[]" sd1] runs.ended [of sc sd1] by simp

lemma runs_go: "run_piece sc piece sd = Continue pieces sd1 \<Longrightarrow> runs sc pieces sd1 sd2 \<Longrightarrow> runs sc [piece] sd sd2"
  by (rule runs.goes_on) simp_all

section \<open>Chunks\<close>

fun chunks_in :: "string \<Rightarrow> 'd sent_message \<Rightarrow> 'd batched_chunk list" where
  "chunks_in t (SentLocal target chunks) = (if target = t then chunks else [])"
| "chunks_in t (SentBatch target chunks) = (if target = t then chunks else [])"
| "chunks_in t (SentChunk target chunk) = (if target = t then [chunk] else [])"
| "chunks_in t _ = []"

definition chunks_to :: "string \<Rightarrow> 'd sent_message list \<Rightarrow> 'd batched_chunk list" where
  "chunks_to t sent = concat (map (chunks_in t) sent)"

lemma chunks_to_simps [simp]: "chunks_to t [] = []" "chunks_to t (sent @ sent') = chunks_to t sent @ chunks_to t sent'"
  "chunks_to t [s] = chunks_in t s"
  by (simp_all add: chunks_to_def)

text \<open>How a message is numbered, and what its target gets.\<close>

definition number_one :: "('d, 'h) send_config \<Rightarrow> string \<Rightarrow> string \<Rightarrow> 'd chunk_data \<Rightarrow> ('d, 'h) stage \<Rightarrow> 'd batched_chunk \<times> ('d, 'h) stage" where
  "number_one sc r inst data st =
     (let local = inst \<in> set (sv_same_process_targets (ss_stage sc)); (chunk_id, st) = next_chunk_id r inst st
      in (\<lparr>bc_request_id = r, bc_chunk_id = chunk_id, bc_data = (if local then data else (fst data, ss_strip sc (snd data)))\<rparr>,
          if local then record_local_stream_target r inst st else record_nonlocal_stream_target r inst st))"

fun number_run :: "('d, 'h) send_config \<Rightarrow> 'd run_message list \<Rightarrow> ('d, 'h) stage \<Rightarrow> (string \<times> 'd batched_chunk) list \<times> ('d, 'h) stage" where
  "number_run sc [] st = ([], st)"
| "number_run sc ((r, target, data) # messages) st =
     (if r \<notin> sr_active_requests st then number_run sc messages st
      else case resolve_target_instance (ss_stage sc) r target st of
             Inl e \<Rightarrow> ([], st)
           | Inr inst \<Rightarrow>
               (let (chunk, st) = number_one sc r inst data st; (chunks, st) = number_run sc messages st
                in ((inst, chunk) # chunks, st)))"

definition picked :: "string \<Rightarrow> (string \<times> 'd batched_chunk) list \<Rightarrow> 'd batched_chunk list" where
  "picked t chunks = map snd (filter (\<lambda>(target, _). target = t) chunks)"

lemma picked_simps [simp]: "picked t [] = []" "picked t ((target, c) # chunks) = (if target = t then c # picked t chunks else picked t chunks)"
  by (simp_all add: picked_def)

text \<open>A message that can be sent: its target resolves to an inst with an endpoint, and the transport takes it.\<close>

definition sendable :: "('d, 'h) send_config \<Rightarrow> ('d, 'h) stage \<Rightarrow> 'd run_message \<Rightarrow> bool" where
  "sendable sc st message \<longleftrightarrow>
     (case message of
        (r, target, data) \<Rightarrow>
          r \<in> sr_active_requests st \<longrightarrow>
          (case resolve_target_instance (ss_stage sc) r target st of
             Inl e \<Rightarrow> False
           | Inr inst \<Rightarrow>
               inst \<in> set (sv_endpoints (ss_stage sc)) \<and>
               (if inst \<in> set (sv_same_process_targets (ss_stage sc)) then ss_has_dispatcher sc
                else let data = (fst data, ss_strip sc (snd data)) in ss_batchable sc data \<or> ss_prepare sc inst data = None)))"

definition same_routes :: "('d, 'h) stage \<Rightarrow> ('d, 'h) stage \<Rightarrow> bool" where
  "same_routes st st' \<longleftrightarrow>
     sr_active_requests st' = sr_active_requests st \<and> sr_replica_bindings st' = sr_replica_bindings st"

lemma same_routes_one: "same_routes st (snd (number_one sc r inst data st))"
  by (simp add: same_routes_def number_one_def next_chunk_id_def record_local_stream_target_def record_nonlocal_stream_target_def
      Let_def split: prod.split)

lemma same_routes_sendable: "same_routes st st' \<Longrightarrow> sendable sc st' message \<longleftrightarrow> sendable sc st message"
  by (simp add: sendable_def same_routes_def resolve_target_instance_def split: prod.split)

lemma local_chunk:
  assumes "inst \<in> set (sv_endpoints (ss_stage sc))" and "inst \<in> set (sv_same_process_targets (ss_stage sc))"
  shows "local_stream_chunk sc r inst data st = Inr (number_one sc r inst data st)"
  using assms by (simp add: local_stream_chunk_def number_stream_chunk_def number_one_def Let_def split: prod.split)

lemma batched_chunk_cases:
  assumes "inst \<in> set (sv_endpoints (ss_stage sc))" and "inst \<notin> set (sv_same_process_targets (ss_stage sc))"
  shows "batched_stream_chunk sc r inst data st =
    (if ss_batchable sc (fst data, ss_strip sc (snd data))
     then Inr (Some (fst (number_one sc r inst data st)), snd (number_one sc r inst data st)) else Inr (None, st))"
  using assms by (simp add: batched_stream_chunk_def number_stream_chunk_def number_one_def Let_def split: prod.split)

text \<open>One message at a time.\<close>

lemma runs_stream_to:
  assumes owns: "owns_external_io (ss_stage sc)" and ok: "sendable sc (sd_stage sd) (r, target, data)"
    and active: "r \<in> sr_active_requests (sd_stage sd)"
    and target: "resolve_target_instance (ss_stage sc) r target (sd_stage sd) = Inr inst"
  shows "\<exists>sd'. runs sc [StreamTo (r, target, data)] sd sd' \<and> sd_stage sd' = snd (number_one sc r inst data (sd_stage sd)) \<and>
    (\<forall>t. chunks_to t (sd_sent sd') = chunks_to t (sd_sent sd) @
       (if inst = t then [fst (number_one sc r inst data (sd_stage sd))] else []))"
proof -
  let ?chunk = "fst (number_one sc r inst data (sd_stage sd))" and ?st = "snd (number_one sc r inst data (sd_stage sd))"
  have endpoint: "inst \<in> set (sv_endpoints (ss_stage sc))" using ok active target by (simp add: sendable_def)
  have goes: "run_piece sc (StreamTo (r, target, data)) sd = stream_to_target sc r inst data sd"
    using owns target by (simp add: send_stream_to_target_def)
  show ?thesis
  proof (cases "inst \<in> set (sv_same_process_targets (ss_stage sc))")
    case True
    then have "ss_has_dispatcher sc" using ok active target by (simp add: sendable_def)
    then have sent: "runs sc [SendLocal (Some inst) [?chunk]] (sd\<lparr>sd_stage := ?st\<rparr>)
        (send (SentLocal inst [?chunk]) (sd\<lparr>sd_stage := ?st\<rparr>))"
      by (intro runs_pause [where reports = False]) (simp add: send_local_stream_chunks_def)
    have step: "run_piece sc (StreamTo (r, target, data)) sd = Continue [SendLocal (Some inst) [?chunk]] (sd\<lparr>sd_stage := ?st\<rparr>)"
      using goes True local_chunk [OF endpoint True, of r data "sd_stage sd"] by (simp add: stream_to_target_def split: prod.split)
    from runs_go [OF step sent]
    show ?thesis by (intro exI [of _ "send (SentLocal inst [?chunk]) (sd\<lparr>sd_stage := ?st\<rparr>)"]) (simp add: send_def)
  next
    case False
    note batched = batched_chunk_cases [OF endpoint False, of r data "sd_stage sd"]
    define s where "s = (if ss_batchable sc (fst data, ss_strip sc (snd data)) then SentBatch inst [?chunk] else SentChunk inst ?chunk)"
    have "stream_to_target sc r inst data sd = Suspend False [] (send s (sd\<lparr>sd_stage := ?st\<rparr>))"
      using False batched ok active target endpoint
      by (auto simp: s_def stream_to_target_def sendable_def number_stream_chunk_def number_one_def Let_def split: prod.split)
    then have "runs sc [StreamTo (r, target, data)] sd (send s (sd\<lparr>sd_stage := ?st\<rparr>))"
      using goes by (intro runs_pause [where reports = False]) simp
    then show ?thesis by (intro exI [of _ "send s (sd\<lparr>sd_stage := ?st\<rparr>)"]) (simp add: send_def s_def)
  qed
qed


lemma number_run_cons:
  assumes "r \<in> sr_active_requests st" and "resolve_target_instance (ss_stage sc) r target st = Inr inst"
  shows "number_run sc ((r, target, data) # messages) st =
    ((inst, fst (number_one sc r inst data st)) # fst (number_run sc messages (snd (number_one sc r inst data st))),
     snd (number_run sc messages (snd (number_one sc r inst data st))))"
  using assms by (simp add: Let_def split: prod.split)

abbreviation active_messages :: "('d, 'h) stage \<Rightarrow> 'd run_message list \<Rightarrow> 'd run_message list" where
  "active_messages st messages \<equiv> filter (\<lambda>(r, _). r \<in> sr_active_requests st) messages"

lemma runs_one_by_one:
  assumes "owns_external_io (ss_stage sc)" and "\<forall>message \<in> set messages. sendable sc (sd_stage sd) message"
  shows "\<exists>sd'. runs sc (map StreamTo (active_messages (sd_stage sd) messages)) sd sd' \<and>
    sd_stage sd' = snd (number_run sc messages (sd_stage sd)) \<and>
    (\<forall>t. chunks_to t (sd_sent sd') = chunks_to t (sd_sent sd) @ picked t (fst (number_run sc messages (sd_stage sd))))"
  using assms(2)
proof (induction messages arbitrary: sd)
  case Nil
  show ?case by (rule exI [of _ sd]) (simp add: runs.ended)
next
  case (Cons message messages)
  obtain r target data where m: "message = (r, target, data)" by (metis prod_cases3)
  show ?case
  proof (cases "r \<in> sr_active_requests (sd_stage sd)")
    case False
    then show ?thesis using Cons.IH [of sd] Cons.prems m by simp
  next
    case True
    obtain inst where i: "resolve_target_instance (ss_stage sc) r target (sd_stage sd) = Inr inst"
      using Cons.prems True m by (auto simp: sendable_def split: sum.splits)
    obtain sd1 where 1: "runs sc [StreamTo (r, target, data)] sd sd1" "sd_stage sd1 = snd (number_one sc r inst data (sd_stage sd))"
      "\<And>t. chunks_to t (sd_sent sd1) = chunks_to t (sd_sent sd) @
         (if inst = t then [fst (number_one sc r inst data (sd_stage sd))] else [])"
      using runs_stream_to [OF assms(1) _ True i, of data] Cons.prems m by auto
    have routes: "same_routes (sd_stage sd) (sd_stage sd1)" using same_routes_one 1(2) by simp
    obtain sd2 where 2: "runs sc (map StreamTo (active_messages (sd_stage sd1) messages)) sd1 sd2"
      "sd_stage sd2 = snd (number_run sc messages (sd_stage sd1))"
      "\<And>t. chunks_to t (sd_sent sd2) = chunks_to t (sd_sent sd1) @ picked t (fst (number_run sc messages (sd_stage sd1)))"
      using Cons.IH [of sd1] Cons.prems same_routes_sendable [OF routes] by auto
    have "runs sc (map StreamTo (active_messages (sd_stage sd) (message # messages))) sd sd2"
      using runs_then [OF 1(1) 2(1)] True m routes by (simp add: same_routes_def)
    then show ?thesis using 1 2 number_run_cons [OF True i, of data messages] m by (intro exI [of _ sd2]) simp
  qed
qed

section \<open>The run\<close>

definition pending_chunks :: "string \<Rightarrow> string option \<Rightarrow> 'd batched_chunk list \<Rightarrow> 'd batches \<Rightarrow> 'd batched_chunk list" where
  "pending_chunks t local_target local_chunks batches =
     (if local_target = Some t then local_chunks else []) @ (case dict_get batches t of None \<Rightarrow> [] | Some chunks \<Rightarrow> chunks)"

definition run_ok :: "('d, 'h) send_config \<Rightarrow> string option \<Rightarrow> 'd batched_chunk list \<Rightarrow> 'd batches \<Rightarrow> bool" where
  "run_ok sc local_target local_chunks batches \<longleftrightarrow>
     dict_ok batches \<and> (\<forall>t \<in> set (dict_keys batches). t \<notin> set (sv_same_process_targets (ss_stage sc))) \<and>
     (\<forall>t. local_target = Some t \<longrightarrow> t \<in> set (sv_same_process_targets (ss_stage sc)) \<and> ss_has_dispatcher sc)"

lemma runs_send_local:
  assumes "\<And>t. local_target = Some t \<Longrightarrow> ss_has_dispatcher sc"
  shows "\<exists>sd'. runs sc [SendLocal local_target local_chunks] sd sd' \<and> sd_stage sd' = sd_stage sd \<and>
    (\<forall>t. chunks_to t (sd_sent sd') = chunks_to t (sd_sent sd) @ (if local_target = Some t then local_chunks else []))"
proof (cases "local_target = None \<or> local_chunks = []")
  case True
  then have "run_piece sc (SendLocal local_target local_chunks) sd = Continue [] sd"
    by (auto simp: send_local_stream_chunks_def split: option.split)
  from runs_go [OF this runs.ended] show ?thesis using True by (intro exI [of _ sd]) auto
next
  case False
  then obtain target where t: "local_target = Some target" by auto
  then have "runs sc [SendLocal local_target local_chunks] sd (send (SentLocal target local_chunks) sd)"
    using False assms by (intro runs_pause [where reports = False]) (simp add: send_local_stream_chunks_def)
  then show ?thesis using t by (intro exI [of _ "send (SentLocal target local_chunks) sd"]) (simp add: send_def)
qed

lemma runs_send_batches:
  assumes "dict_ok batches"
  shows "\<exists>sd'. runs sc [SendBatches batches] sd sd' \<and> sd_stage sd' = sd_stage sd \<and>
    (\<forall>t. chunks_to t (sd_sent sd') = chunks_to t (sd_sent sd) @ (case dict_get batches t of None \<Rightarrow> [] | Some chunks \<Rightarrow> chunks))"
  using assms
proof (induction batches arbitrary: sd)
  case Nil
  show ?case by (intro exI [of _ sd]) (simp add: runs_go [OF _ runs.ended])
next
  case (Cons batch batches)
  obtain target chunks where b: "batch = (target, chunks)" by (cases batch)
  obtain sd' where "runs sc [SendBatches batches] (send (SentBatch target chunks) sd) sd'" "sd_stage sd' = sd_stage sd"
    "\<And>t. chunks_to t (sd_sent sd') = chunks_to t (sd_sent (send (SentBatch target chunks) sd)) @
       (case dict_get batches t of None \<Rightarrow> [] | Some chunks \<Rightarrow> chunks)"
    using Cons.IH [of "send (SentBatch target chunks) sd"] Cons.prems by (auto simp: send_def)
  moreover have "dict_get batches target = None" using Cons.prems b by (simp add: map_of_eq_None_iff)
  ultimately show ?case using b
    by (intro exI [of _ sd']) (auto simp: send_def intro: runs.resumes)
qed

lemma runs_flush:
  assumes "run_ok sc local_target local_chunks batches"
  shows "\<exists>sd'. runs sc [SendLocal local_target local_chunks, SendBatches batches] sd sd' \<and> sd_stage sd' = sd_stage sd \<and>
    (\<forall>t. chunks_to t (sd_sent sd') = chunks_to t (sd_sent sd) @ pending_chunks t local_target local_chunks batches)"
proof -
  obtain sd1 where 1: "runs sc [SendLocal local_target local_chunks] sd sd1" "sd_stage sd1 = sd_stage sd"
    "\<And>t. chunks_to t (sd_sent sd1) = chunks_to t (sd_sent sd) @ (if local_target = Some t then local_chunks else [])"
    using runs_send_local [of local_target sc local_chunks sd] assms unfolding run_ok_def by blast
  obtain sd2 where 2: "runs sc [SendBatches batches] sd1 sd2" "sd_stage sd2 = sd_stage sd1"
    "\<And>t. chunks_to t (sd_sent sd2) = chunks_to t (sd_sent sd1) @ (case dict_get batches t of None \<Rightarrow> [] | Some chunks \<Rightarrow> chunks)"
    using runs_send_batches [of batches sc sd1] assms unfolding run_ok_def by blast
  show ?thesis using runs_then [OF 1(1) 2(1)] 1 2 by (intro exI [of _ sd2]) (simp add: pending_chunks_def)
qed


definition routed ::
  "('d, 'h) send_config \<Rightarrow> string option \<Rightarrow> 'd batched_chunk list \<Rightarrow> 'd batches \<Rightarrow> 'd run_message list \<Rightarrow>
   ('d, 'h) sender \<Rightarrow> ('d, 'h) sender \<Rightarrow> bool" where
  "routed sc local_target local_chunks batches messages sd sd' \<longleftrightarrow>
     sd_stage sd' = snd (number_run sc messages (sd_stage sd)) \<and>
     (\<forall>t. chunks_to t (sd_sent sd') = chunks_to t (sd_sent sd) @ pending_chunks t local_target local_chunks batches @
        picked t (fst (number_run sc messages (sd_stage sd))))"

text \<open>The three ways on from a message: into the open run, into a batch, or behind everything pending.\<close>

lemma routed_append:
  assumes "routed sc local_target (local_chunks @ [fst one]) batches messages (sd\<lparr>sd_stage := snd one\<rparr>) sd'"
    and "local_target = Some inst" and "dict_get batches inst = None"
    and "number_run sc (message # messages) (sd_stage sd) =
      ((inst, fst one) # fst (number_run sc messages (snd one)), snd (number_run sc messages (snd one)))"
  shows "routed sc local_target local_chunks batches (message # messages) sd sd'"
  using assms by (auto simp: routed_def pending_chunks_def)

lemma routed_batch:
  assumes "routed sc local_target local_chunks (dict_set inst ((case dict_get batches inst of None \<Rightarrow> [] | Some cs \<Rightarrow> cs) @ [fst one]) batches)
      messages (sd\<lparr>sd_stage := snd one\<rparr>) sd'"
    and "local_target \<noteq> Some inst"
    and "number_run sc (message # messages) (sd_stage sd) =
      ((inst, fst one) # fst (number_run sc messages (snd one)), snd (number_run sc messages (snd one)))"
  shows "routed sc local_target local_chunks batches (message # messages) sd sd'"
  using assms by (auto simp: routed_def pending_chunks_def split: option.split)

lemma routed_behind:
  assumes "routed sc new_target new_chunks new_batches messages sd1 sd'" and "sd_stage sd1 = snd one"
    and "\<And>t. chunks_to t (sd_sent sd1) @ pending_chunks t new_target new_chunks new_batches =
      chunks_to t (sd_sent sd) @ pending_chunks t local_target local_chunks batches @ (if inst = t then [fst one] else [])"
    and "number_run sc (message # messages) (sd_stage sd) =
      ((inst, fst one) # fst (number_run sc messages (snd one)), snd (number_run sc messages (snd one)))"
  shows "routed sc local_target local_chunks batches (message # messages) sd sd'"
proof -
  have "chunks_to t (sd_sent sd') = (chunks_to t (sd_sent sd1) @ pending_chunks t new_target new_chunks new_batches) @
      picked t (fst (number_run sc messages (snd one)))" for t using assms(1,2) by (simp add: routed_def)
  then show ?thesis using assms unfolding routed_def assms(3) by simp
qed

lemma run_ok_steps:
  assumes "run_ok sc local_target local_chunks batches"
  shows "run_ok sc local_target chunks batches" and "run_ok sc None [] []"
    and "inst \<in> set (sv_same_process_targets (ss_stage sc)) \<Longrightarrow> ss_has_dispatcher sc \<Longrightarrow> run_ok sc (Some inst) chunks batches"
    and "inst \<notin> set (sv_same_process_targets (ss_stage sc)) \<Longrightarrow> run_ok sc local_target local_chunks (dict_set inst cs batches)"
    and "inst \<in> set (sv_same_process_targets (ss_stage sc)) \<Longrightarrow> dict_get batches inst = None"
    and "inst \<notin> set (sv_same_process_targets (ss_stage sc)) \<Longrightarrow> local_target \<noteq> Some inst"
  using assms by (auto simp: run_ok_def dict_set_keys dict_has_def map_of_eq_None_iff)

text \<open>What a run of messages does, for the messages behind a first one.\<close>

definition routes :: "('d, 'h) send_config \<Rightarrow> 'd run_message list \<Rightarrow> ('d, 'h) stage \<Rightarrow> bool" where
  "routes sc messages st \<longleftrightarrow>
     (\<forall>local_target local_chunks batches sd. sd_stage sd = st \<longrightarrow> run_ok sc local_target local_chunks batches \<longrightarrow>
        (\<exists>sd'. runs sc [RouteRun local_target local_chunks batches messages] sd sd' \<and>
               routed sc local_target local_chunks batches messages sd sd'))"

lemma routesE:
  assumes "routes sc messages (sd_stage sd)" and "run_ok sc local_target local_chunks batches"
  obtains sd' where "runs sc [RouteRun local_target local_chunks batches messages] sd sd'"
    and "routed sc local_target local_chunks batches messages sd sd'"
  using assms unfolding routes_def by blast

lemma routes_local:
  assumes ok: "run_ok sc local_target local_chunks batches" and active: "r \<in> sr_active_requests (sd_stage sd)"
    and i: "resolve_target_instance (ss_stage sc) r target (sd_stage sd) = Inr inst"
    and endpoint: "inst \<in> set (sv_endpoints (ss_stage sc))" and local: "inst \<in> set (sv_same_process_targets (ss_stage sc))"
    and dispatcher: "ss_has_dispatcher sc" and later: "routes sc messages (snd (number_one sc r inst data (sd_stage sd)))"
  shows "\<exists>sd'. runs sc [RouteRun local_target local_chunks batches ((r, target, data) # messages)] sd sd' \<and>
    routed sc local_target local_chunks batches ((r, target, data) # messages) sd sd'"
proof -
  let ?one = "number_one sc r inst data (sd_stage sd)" and ?piece = "RouteRun local_target local_chunks batches ((r, target, data) # messages)"
  note number = number_run_cons [OF active i, of data messages] and numbered = local_chunk [OF endpoint local, of r data]
  have after: "routes sc messages (sd_stage (sd1\<lparr>sd_stage := snd ?one\<rparr>))" for sd1 :: "('a, 'b) sender" using later by simp
  show ?thesis
  proof (cases "local_target = Some inst")
    case True
    have "run_piece sc ?piece sd = Continue [RouteRun local_target (local_chunks @ [fst ?one]) batches messages] (sd\<lparr>sd_stage := snd ?one\<rparr>)"
      using True active i local numbered by (simp split: prod.split)
    moreover obtain sd' where "runs sc [RouteRun local_target (local_chunks @ [fst ?one]) batches messages] (sd\<lparr>sd_stage := snd ?one\<rparr>) sd'"
      and "routed sc local_target (local_chunks @ [fst ?one]) batches messages (sd\<lparr>sd_stage := snd ?one\<rparr>) sd'"
      by (rule routesE [OF after run_ok_steps(1) [OF ok]])
    ultimately show ?thesis using routed_append [OF _ True run_ok_steps(5) [OF ok local] number] by (blast intro: runs_go)
  next
    case False
    have step: "run_piece sc ?piece sd = Continue [SendLocal local_target local_chunks, AddLocal (r, target, data) inst batches messages] sd"
      using False active i local by simp
    obtain sd1 where 1: "runs sc [SendLocal local_target local_chunks] sd sd1" "sd_stage sd1 = sd_stage sd"
      "\<And>t. chunks_to t (sd_sent sd1) = chunks_to t (sd_sent sd) @ (if local_target = Some t then local_chunks else [])"
      using runs_send_local [of local_target sc local_chunks sd] dispatcher by blast
    have add: "run_piece sc (AddLocal (r, target, data) inst batches messages) sd1 =
        Continue [RouteRun (Some inst) [fst ?one] batches messages] (sd1\<lparr>sd_stage := snd ?one\<rparr>)"
      using numbered 1(2) by (simp add: open_local_run_def split: prod.split)
    obtain sd' where 2: "runs sc [RouteRun (Some inst) [fst ?one] batches messages] (sd1\<lparr>sd_stage := snd ?one\<rparr>) sd'"
      "routed sc (Some inst) [fst ?one] batches messages (sd1\<lparr>sd_stage := snd ?one\<rparr>) sd'"
      by (rule routesE [OF after run_ok_steps(3) [OF ok local dispatcher]])
    have "runs sc [?piece] sd sd'" by (rule runs_go [OF step runs_then [OF 1(1) runs_go [OF add 2(1)]]])
    moreover have "routed sc local_target local_chunks batches ((r, target, data) # messages) sd sd'"
    proof (rule routed_behind [OF 2(2) _ _ number])
      fix t
      have "dict_get batches t = None" if "local_target = Some t \<or> inst = t"
        using that run_ok_steps(5) [OF ok] local ok by (auto simp: run_ok_def)
      then show "chunks_to t (sd_sent (sd1\<lparr>sd_stage := snd ?one\<rparr>)) @ pending_chunks t (Some inst) [fst ?one] batches =
          chunks_to t (sd_sent sd) @ pending_chunks t local_target local_chunks batches @ (if inst = t then [fst ?one] else [])"
        using 1(3) False by (auto simp: pending_chunks_def)
    qed simp
    ultimately show ?thesis by blast
  qed
qed


lemma routes_remote:
  assumes owns: "owns_external_io (ss_stage sc)" and ok: "run_ok sc local_target local_chunks batches"
    and active: "r \<in> sr_active_requests (sd_stage sd)" and sendable: "sendable sc (sd_stage sd) (r, target, data)"
    and i: "resolve_target_instance (ss_stage sc) r target (sd_stage sd) = Inr inst"
    and remote: "inst \<notin> set (sv_same_process_targets (ss_stage sc))"
    and later: "routes sc messages (snd (number_one sc r inst data (sd_stage sd)))"
  shows "\<exists>sd'. runs sc [RouteRun local_target local_chunks batches ((r, target, data) # messages)] sd sd' \<and>
    routed sc local_target local_chunks batches ((r, target, data) # messages) sd sd'"
proof -
  let ?one = "number_one sc r inst data (sd_stage sd)" and ?piece = "RouteRun local_target local_chunks batches ((r, target, data) # messages)"
  have endpoint: "inst \<in> set (sv_endpoints (ss_stage sc))" using sendable active i by (simp add: sendable_def)
  note number = number_run_cons [OF active i, of data messages] and batched = batched_chunk_cases [OF endpoint remote, of r data]
  show ?thesis
  proof (cases "ss_batchable sc (fst data, ss_strip sc (snd data))")
    case True
    let ?batches = "dict_set inst ((case dict_get batches inst of None \<Rightarrow> [] | Some cs \<Rightarrow> cs) @ [fst ?one]) batches"
    have step: "run_piece sc ?piece sd = Continue [RouteRun local_target local_chunks ?batches messages] (sd\<lparr>sd_stage := snd ?one\<rparr>)"
      using True active i remote batched by simp
    have after: "routes sc messages (sd_stage (sd\<lparr>sd_stage := snd ?one\<rparr>))" using later by simp
    obtain sd' where "runs sc [RouteRun local_target local_chunks ?batches messages] (sd\<lparr>sd_stage := snd ?one\<rparr>) sd'"
      and "routed sc local_target local_chunks ?batches messages (sd\<lparr>sd_stage := snd ?one\<rparr>) sd'"
      by (rule routesE [OF after run_ok_steps(4) [OF ok remote]])
    then show ?thesis using runs_go [OF step] routed_batch [OF _ run_ok_steps(6) [OF ok remote] number] by blast
  next
    case False
    have step: "run_piece sc ?piece sd = Continue ([SendLocal local_target local_chunks, SendBatches batches] @
        StreamTo (r, target, data) # [RouteRun None [] [] messages]) sd"
      using False active i remote batched by simp
    obtain sd1 where 1: "runs sc [SendLocal local_target local_chunks, SendBatches batches] sd sd1" "sd_stage sd1 = sd_stage sd"
      "\<And>t. chunks_to t (sd_sent sd1) = chunks_to t (sd_sent sd) @ pending_chunks t local_target local_chunks batches"
      using runs_flush [OF ok, of sd] by blast
    obtain sd2 where 2: "runs sc [StreamTo (r, target, data)] sd1 sd2" "sd_stage sd2 = snd ?one"
      "\<And>t. chunks_to t (sd_sent sd2) = chunks_to t (sd_sent sd1) @ (if inst = t then [fst ?one] else [])"
      using runs_stream_to [OF owns, of sd1 r target data inst] sendable active i 1(2) by auto
    have after: "routes sc messages (sd_stage sd2)" using later 2(2) by simp
    obtain sd' where 3: "runs sc [RouteRun None [] [] messages] sd2 sd'" "routed sc None [] [] messages sd2 sd'"
      by (rule routesE [OF after run_ok_steps(2) [OF ok]])
    have "runs sc [?piece] sd sd'" by (rule runs_go [OF step runs_append [OF 1(1) runs_then [OF 2(1) 3(1)]]])
    moreover have "routed sc local_target local_chunks batches ((r, target, data) # messages) sd sd'"
      by (rule routed_behind [OF 3(2) 2(2) _ number]) (simp add: 1(3) 2(3) pending_chunks_def)
    ultimately show ?thesis by blast
  qed
qed

lemma routes_all:
  assumes owns: "owns_external_io (ss_stage sc)"
  shows "\<forall>message \<in> set messages. sendable sc st message \<Longrightarrow> routes sc messages st"
proof (induction messages arbitrary: st)
  case Nil
  have "\<exists>sd'. runs sc [RouteRun lt lc batches []] sd sd' \<and> routed sc lt lc batches [] sd sd'"
    if ok: "run_ok sc lt lc batches" for lt lc batches and sd
  proof -
    obtain sd' where 1: "runs sc [SendLocal lt lc, SendBatches batches] sd sd'" "sd_stage sd' = sd_stage sd"
      "\<And>t. chunks_to t (sd_sent sd') = chunks_to t (sd_sent sd) @ pending_chunks t lt lc batches"
      using runs_flush [OF ok, of sd] by blast
    have "run_piece sc (RouteRun lt lc batches []) sd = Continue [SendLocal lt lc, SendBatches batches] sd" by simp
    from runs_go [OF this 1(1)] show ?thesis using 1(2,3) by (intro exI [of _ sd']) (simp add: routed_def)
  qed
  then show ?case by (simp add: routes_def)
next
  case (Cons message messages)
  obtain r target data where m: "message = (r, target, data)" by (metis prod_cases3)
  show ?case unfolding routes_def m
  proof (intro allI impI)
    fix lt lc batches and sd :: "('a, 'b) sender"
    assume st: "sd_stage sd = st" and ok: "run_ok sc lt lc batches"
    show "\<exists>sd'. runs sc [RouteRun lt lc batches ((r, target, data) # messages)] sd sd' \<and>
        routed sc lt lc batches ((r, target, data) # messages) sd sd'"
    proof (cases "r \<in> sr_active_requests st")
      case False
      then have step: "run_piece sc (RouteRun lt lc batches ((r, target, data) # messages)) sd = Continue [RouteRun lt lc batches messages] sd"
        using st by simp
      have after: "routes sc messages (sd_stage sd)" using Cons st by simp
      obtain sd' where "runs sc [RouteRun lt lc batches messages] sd sd'" "routed sc lt lc batches messages sd sd'"
        by (rule routesE [OF after ok])
      then show ?thesis using runs_go [OF step] False st by (auto simp: routed_def)
    next
      case True
      obtain inst where i: "resolve_target_instance (ss_stage sc) r target st = Inr inst"
        using Cons.prems True m by (auto simp: sendable_def split: sum.splits)
      have later: "routes sc messages (snd (number_one sc r inst data (sd_stage sd)))"
        using Cons.prems by (intro Cons.IH) (simp add: same_routes_sendable [OF same_routes_one] st)
      show ?thesis
        using routes_local [OF ok _ _ _ _ _ later, of target] routes_remote [OF owns ok _ _ _ _ later, of target] Cons.prems True i m st
        by (cases "inst \<in> set (sv_same_process_targets (ss_stage sc))") (auto simp: sendable_def)
    qed
  qed
qed

end
