(* ===== verification/Stage_Routing.thy ===== *)
theory Stage_Routing
  imports Stage_Send Stage_Order
begin

text \<open>
  What the sending half leaves to the receiving half, and what becomes of the results it takes: the drain does not
  touch the lanes, and a result of a scheduler that owns its results is released once.
\<close>

section \<open>The lanes of the whole stage\<close>

fun sender_of :: "('d, 'h) drained \<Rightarrow> ('d, 'h) sender" where
  "sender_of (Continue pieces sd) = sd"
| "sender_of (Suspend reports pieces sd) = sd"
| "sender_of (Raises e sd) = sd"
| "sender_of (Returns sd) = sd"

definition keeps_stage_lanes :: "('d, 'h) sender \<Rightarrow> ('d, 'h) sender \<Rightarrow> bool" where
  "keeps_stage_lanes sd sd' \<longleftrightarrow> keeps_lanes (sd_stage sd) (sd_stage sd')"

lemma keeps_stage_refl [simp]: "keeps_stage_lanes sd sd"
  by (simp add: keeps_stage_lanes_def)

lemma keeps_stage_trans: "keeps_stage_lanes sd sd' \<Longrightarrow> keeps_stage_lanes sd' sd'' \<Longrightarrow> keeps_stage_lanes sd sd''"
  by (auto simp: keeps_stage_lanes_def intro: keeps_lanes_trans)

lemma keeps_stage_same: "sd_stage sd' = sd_stage sd \<Longrightarrow> keeps_stage_lanes sd sd'"
  by (simp add: keeps_stage_lanes_def)

lemma keeps_lanes_next_id: "keeps_lanes st (snd (next_chunk_id r target st))"
  by (rule keeps_lanes_fields) (simp_all add: next_chunk_id_def Let_def)

lemma keeps_lanes_targets: "keeps_lanes st (record_local_stream_target r target st)" "keeps_lanes st (record_nonlocal_stream_target r target st)"
  by (rule keeps_lanes_fields; simp add: record_local_stream_target_def record_nonlocal_stream_target_def)+

lemma keeps_lanes_number: "number_stream_chunk sc r target st = Inr (i, st') \<Longrightarrow> keeps_lanes st st'"
  using keeps_lanes_next_id [of st r target] by (auto simp: number_stream_chunk_def split: if_splits)

lemma keeps_lanes_local_chunk: "local_stream_chunk sc r target data st = Inr (chunk, st') \<Longrightarrow> keeps_lanes st st'"
  by (auto simp: local_stream_chunk_def bind_r_def split: sum.splits prod.splits
      intro: keeps_lanes_trans [OF keeps_lanes_number keeps_lanes_targets(1)])

lemma keeps_lanes_batched_chunk: "batched_stream_chunk sc r target data st = Inr (chunk, st') \<Longrightarrow> keeps_lanes st st'"
  by (auto simp: batched_stream_chunk_def bind_r_def Let_def split: if_splits sum.splits prod.splits
      intro: keeps_lanes_trans [OF keeps_lanes_number keeps_lanes_targets(2)])

lemma keeps_lanes_done: "send_stream_done sc r target st = Inr (inst, st') \<Longrightarrow> keeps_lanes st st'"
  by (auto simp: send_stream_done_def bind_r_def split: if_splits sum.splits intro: keeps_lanes_targets)

lemma sd_stage_send [simp]: "sd_stage (send s sd) = sd_stage sd" "sd_stage (release_result outcome d sd) = sd_stage sd"
  by (simp_all add: send_def release_result_def)

lemma keeps_stage_stream: "keeps_stage_lanes sd (sender_of (stream_to_target sc r target data sd))"
  by (auto simp: stream_to_target_def keeps_stage_lanes_def Let_def split: sum.split option.split prod.split
      dest: keeps_lanes_local_chunk keeps_lanes_batched_chunk intro: keeps_lanes_trans [OF keeps_lanes_number keeps_lanes_targets(2)])

lemma keeps_stage_run: "keeps_stage_lanes sd (sender_of (route_stream_run sc lt lc batches messages sd))"
  by (cases "(sc, lt, lc, batches, messages, sd)" rule: route_stream_run.cases)
    (auto simp: keeps_stage_lanes_def split: sum.split option.split prod.split
      dest: keeps_lanes_local_chunk keeps_lanes_batched_chunk)

lemma keeps_stage_dispatch: "keeps_stage_lanes sd (sender_of (dispatch sc out sd))"
proof -
  have "keeps_lanes (sd_stage sd) (record_replica_bindings r b (sd_stage sd)\<lparr>sr_active_requests := a\<rparr>)" for r b a
    by (rule keeps_lanes_trans [OF keeps_lanes_record_bindings keeps_lanes_active])
  then show ?thesis
    by (cases out) (auto simp: dispatch_def dispatch_active_def keeps_stage_lanes_def Let_def)
qed

lemma keeps_stage_fail: "keeps_stage_lanes sd (sender_of (fail_request sc r failure sd))"
proof -
  have "keeps_lanes (sd_stage sd) (snd (send_failure (ss_stage sc) r failure (sd_stage sd)))" by (rule keeps_lanes_send_failure)
  then show ?thesis by (auto simp: fail_request_def keeps_stage_lanes_def split: prod.split receive_at.split option.split)
qed

lemma keeps_stage_result: "keeps_stage_lanes sd (sender_of (route_result sc r outcome owned sd))"
  by (auto simp: route_result_def complete_def Let_def intro: keeps_stage_same split: sum.split option.split)

lemma keeps_stage_payload: "keeps_stage_lanes sd (sender_of (route_payload sc r outcome owned forwarded actual targets sd))"
  by (auto simp: route_payload_def complete_def Let_def keeps_stage_lanes_def keeps_lanes_clear split: sum.split)

lemma keeps_stage_payloads: "keeps_stage_lanes sd (sender_of (send_payloads sc r outcome owned single sts targets sd))"
  by (cases targets) (auto intro: keeps_stage_same split: sum.split prod.split)

lemma keeps_stage_signal: "keeps_stage_lanes sd (sender_of (signal_done sc r targets sd))"
  by (cases targets) (auto simp: keeps_stage_lanes_def dest: keeps_lanes_done split: sum.split prod.split)

lemma keeps_stage_clear: "keeps_stage_lanes sd (on_stage (clear_request_state sv False r) sd)"
  by (simp add: keeps_stage_lanes_def keeps_lanes_clear)

lemma keeps_stage_batches: "keeps_stage_lanes sd (sender_of (send_stream_chunk_batches batches sd))"
  by (cases "(batches, sd)" rule: send_stream_chunk_batches.cases) (auto intro: keeps_stage_same)

lemma keeps_stage_open: "keeps_stage_lanes sd (sender_of (open_local_run sc message inst batches messages sd))"
  by (auto simp: open_local_run_def keeps_stage_lanes_def dest: keeps_lanes_local_chunk split: prod.split sum.split)

lemma keeps_stage_coordinator: "keeps_stage_lanes sd (sender_of (send_stream_to_coordinator sc r data sd))"
  using keeps_lanes_next_id [of "sd_stage sd" r "''coordinator''"]
  by (auto simp: send_stream_to_coordinator_def keeps_stage_lanes_def split: prod.split)

lemma keeps_stage_piece: "keeps_stage_lanes sd (sender_of (run_piece sc piece sd))"
proof (cases "(sc, piece, sd)" rule: run_piece.cases)
qed (auto simp: keeps_stage_run keeps_stage_dispatch keeps_stage_fail keeps_stage_result keeps_stage_payload keeps_stage_payloads
    keeps_stage_signal keeps_stage_clear keeps_stage_batches keeps_stage_open keeps_stage_coordinator keeps_stage_stream
    end_iteration_def send_local_stream_chunks_def send_stream_to_target_def keeps_stage_same
    split: list.split option.split sum.split prod.split)

lemma keeps_stage_unwind: "keeps_stage_lanes sd (unwind sc pieces sd)"
proof -
  have "keeps_stage_lanes sd (release_result outcome d sd)" for outcome d and sd :: "('a, 'b) sender" by (simp add: keeps_stage_same)
  moreover have "keeps_stage_lanes (drop_out out sd) sd' = keeps_stage_lanes sd sd'" for out and sd sd' :: "('a, 'b) sender"
    by (simp add: keeps_stage_lanes_def)
  ultimately show ?thesis by (induction sc pieces sd rule: unwind.induct)
      (auto intro: keeps_stage_same keeps_stage_trans [OF keeps_stage_clear] keeps_stage_trans)
qed

lemma keeps_lanes_background: "keeps_lanes st (on_background_task_done e st)"
  by (rule keeps_lanes_fields) (simp_all add: on_background_task_done_def split: option.split)

lemma keeps_stage_fails: "keeps_stage_lanes sd (drain_fails sc e pieces sd)"
proof -
  have "keeps_stage_lanes (unwind sc pieces sd) (drain_fails sc e pieces sd)"
    by (simp add: drain_fails_def keeps_stage_lanes_def keeps_lanes_background)
  with keeps_stage_unwind show ?thesis by (rule keeps_stage_trans)
qed

lemma keeps_stage_exec: "keeps_stage_lanes sd (drain_exec sc pieces sd)"
proof (induction sc pieces sd rule: drain_exec.induct)
  case (1 sc sd)
  show ?case by (simp add: keeps_stage_same)
next
  case (2 sc piece rest sd)
  have first: "keeps_stage_lanes sd (sender_of (run_piece sc piece sd))" by (rule keeps_stage_piece)
  show ?case
  proof (cases "run_piece sc piece sd")
    case (Continue pieces sd1)
    then show ?thesis using first 2 keeps_stage_trans by fastforce
  next
    case (Suspend reports pieces sd1)
    then show ?thesis using first by (simp add: keeps_stage_lanes_def)
  next
    case (Raises e sd1)
    then show ?thesis using first keeps_stage_trans [OF _ keeps_stage_fails] by simp
  next
    case (Returns sd1)
    then show ?thesis using first by (simp add: keeps_stage_lanes_def)
  qed
qed

lemma keeps_stage_drain: "keeps_stage_lanes sd (drain_round sc failed submitted sd)"
proof -
  have "keeps_stage_lanes sd (drain_exec sc pieces (sd\<lparr>sd_outbox := outbox\<rparr>))" for pieces outbox
    by (rule keeps_stage_trans [OF keeps_stage_same keeps_stage_exec]) simp
  moreover have "keeps_stage_lanes sd (drain_fails sc e pieces (sd\<lparr>sd_delivered := d\<rparr>))" for e pieces d
    by (rule keeps_stage_trans [OF keeps_stage_same keeps_stage_fails]) simp
  ultimately show ?thesis
    by (simp add: drain_round_def keeps_stage_exec keeps_stage_fails del: drain_exec.simps split: drain_at.split list.split option.split)
qed

lemma keeps_stage_follower: "keeps_stage_lanes sd (drain_outbox_follower sc sd)"
proof -
  have "keeps_stage_lanes sd (drain_fails sc e [] (sd\<lparr>sd_outbox := outbox\<rparr>))" for e outbox
    by (rule keeps_stage_trans [OF keeps_stage_same keeps_stage_fails]) simp
  then show ?thesis
    by (auto simp: drain_outbox_follower_def keeps_stage_lanes_def keeps_lanes_clear keeps_lanes_active Let_def
        split: drain_at.split list.split outgoing.split)
qed

lemma keeps_stage_cancel: "keeps_stage_lanes sd (drain_cancel sc submitted sd)"
proof -
  have "keeps_stage_lanes sd (unwind sc pieces (sd\<lparr>sd_delivered := d\<rparr>)\<lparr>sd_drain := p\<rparr>)" for pieces d p
    using keeps_stage_unwind [of "sd\<lparr>sd_delivered := d\<rparr>" sc pieces] by (simp add: keeps_stage_lanes_def)
  moreover have "keeps_stage_lanes sd (unwind sc pieces sd\<lparr>sd_drain := p\<rparr>)" for pieces p
    using keeps_stage_unwind [of sd sc pieces] by (simp add: keeps_stage_lanes_def)
  ultimately show ?thesis by (simp add: drain_cancel_def keeps_stage_same split: drain_at.split)
qed

lemma stage_order_step: "stage_step sc sd sd' \<Longrightarrow> order_inv (sd_stage sd) \<Longrightarrow> order_inv (sd_stage sd')"
proof (induction rule: stage_step.induct)
  case (receive sd st)
  then show ?case using order_inv_step by simp
next
  case (emit sd messages)
  then show ?case by (simp add: put_messages_def)
next
  case (drain sd failed submitted)
  then show ?case using keeps_stage_drain order_inv_keeps unfolding keeps_stage_lanes_def by blast
next
  case (follower sd)
  then show ?case using keeps_stage_follower order_inv_keeps unfolding keeps_stage_lanes_def by blast
next
  case (cancel sd submitted)
  then show ?case using keeps_stage_cancel order_inv_keeps unfolding keeps_stage_lanes_def by blast
qed

interpretation whole_stage: step_system "\<lambda>sd. \<exists>handler b. sd = sender_init (stage_init handler b)" "stage_step sc"
  "\<lambda>sd. order_inv (sd_stage sd)"
  by unfold_locales (auto simp: sender_init_def intro: order_inv_init stage_order_step)

end
