(* ===== verification/Stage_Results.thy ===== *)
theory Stage_Results
  imports Stage_Routing "HOL-Library.Multiset"
begin

text \<open>
  A scheduler that owns its results hears of each once: the results it emitted are those released, those on their way
  through the drain, those still in the outbox, and, when the drain has failed or was cancelled, at most one that it
  had in hand and dropped.
\<close>

fun out_results :: "'d outgoing \<Rightarrow> 'd stage_outcome multiset" where
  "out_results (Result r outcome) = {#outcome#}"
| "out_results _ = {#}"

abbreviation results_of :: "'d outgoing list \<Rightarrow> 'd stage_outcome multiset" where
  "results_of messages \<equiv> sum_list (map out_results messages)"

fun piece_results :: "'d piece \<Rightarrow> 'd stage_outcome multiset" where
  "piece_results (Handle stream_run i out) = out_results out"
| "piece_results (Dispatch out) = out_results out"
| "piece_results (Release outcome) = {#outcome#}"
| "piece_results _ = {#}"

abbreviation pending_results :: "'d piece list \<Rightarrow> 'd stage_outcome multiset" where
  "pending_results pieces \<equiv> sum_list (map piece_results pieces)"

definition accounted :: "'d piece list \<Rightarrow> ('d, 'h) sender \<Rightarrow> 'd stage_outcome multiset" where
  "accounted pieces sd = mset (map fst (sd_released sd)) + mset (sd_dropped sd) + pending_results pieces + results_of (sd_outbox sd)"

lemma accounted_simps [simp]:
  "accounted (pieces @ rest) sd = accounted pieces sd + pending_results rest"
  "accounted (piece # rest) sd = accounted rest sd + piece_results piece"
  by (simp_all add: accounted_def)

text \<open>What a piece does to the accounts; it neither loses a result nor invents one.\<close>

definition balanced :: "'d stage_outcome multiset \<Rightarrow> ('d, 'h) sender \<Rightarrow> ('d, 'h) drained \<Rightarrow> bool" where
  "balanced extra sd result \<longleftrightarrow>
     (case result of
        Continue pieces sd' \<Rightarrow> accounted pieces sd' = accounted [] sd + extra
      | Suspend reports pieces sd' \<Rightarrow> accounted pieces sd' = accounted [] sd + extra
      | Raises e sd' \<Rightarrow> accounted [] sd' = accounted [] sd + extra
      | Returns sd' \<Rightarrow> accounted [] sd' = accounted [] sd + extra)
     \<and> sd_emitted (sender_of result) = sd_emitted sd \<and> sd_dropped (sender_of result) = sd_dropped sd"

lemma accounted_same:
  assumes "sd_released sd' = sd_released sd" and "sd_outbox sd' = sd_outbox sd" and "sd_dropped sd' = sd_dropped sd"
  shows "accounted pieces sd' = accounted pieces sd"
  using assms by (simp add: accounted_def)

lemma accounted_upd [simp]:
  "accounted pieces (sd\<lparr>sd_stage := st\<rparr>) = accounted pieces sd" "accounted pieces (sd\<lparr>sd_delivered := d\<rparr>) = accounted pieces sd"
  "accounted pieces (sd\<lparr>sd_kv := kv\<rparr>) = accounted pieces sd" "accounted pieces (send s sd) = accounted pieces sd"
  "accounted pieces (sd\<lparr>sd_drain := p\<rparr>) = accounted pieces sd" "accounted pieces (sd\<lparr>sd_todo := ps\<rparr>) = accounted pieces sd"
  by (rule accounted_same; simp add: send_def)+

lemma accounted_release [simp]: "accounted pieces (release_result outcome d sd) = accounted pieces sd + {#outcome#}"
  by (simp add: accounted_def release_result_def)

lemma emitted_send [simp]: "sd_emitted (send s sd) = sd_emitted sd" "sd_emitted (release_result outcome d sd) = sd_emitted sd"
  "sd_dropped (send s sd) = sd_dropped sd" "sd_dropped (release_result outcome d sd) = sd_dropped sd"
  by (simp_all add: send_def release_result_def)

lemma release_fields [simp]: "sd_drain (release_result outcome d sd) = sd_drain sd" "sd_todo (release_result outcome d sd) = sd_todo sd"
  by (simp_all add: release_result_def)

lemma balanced_stream: "balanced {#} sd (stream_to_target sc r target data sd)"
  by (auto simp: balanced_def stream_to_target_def Let_def split: sum.split option.split prod.split)

lemma balanced_run: "balanced {#} sd (route_stream_run sc lt lc batches messages sd)"
  by (cases "(sc, lt, lc, batches, messages, sd)" rule: route_stream_run.cases)
    (auto simp: balanced_def split: sum.split option.split prod.split)

lemma accounted_gather: "accounted (map (\<lambda>target. StreamTo (r, target, data)) targets) sd = accounted [] sd"
  by (induction targets) simp_all

lemma balanced_dispatch: "ss_owns_results sc \<Longrightarrow> balanced (out_results out) sd (dispatch sc out sd)"
  by (cases out) (auto simp: balanced_def dispatch_def dispatch_active_def accounted_gather Let_def)

lemma balanced_result: "balanced {#} sd (route_result sc r outcome owned sd)"
  by (auto simp: balanced_def route_result_def complete_def Let_def split: sum.split option.split)

lemma balanced_payload: "balanced {#} sd (route_payload sc r outcome owned forwarded actual targets sd)"
  by (auto simp: balanced_def route_payload_def complete_def Let_def split: sum.split)

lemma balanced_payloads: "balanced {#} sd (send_payloads sc r outcome owned single sts targets sd)"
  by (cases targets) (auto simp: balanced_def split: sum.split prod.split)

lemma balanced_signal: "balanced {#} sd (signal_done sc r targets sd)"
  by (cases targets) (auto simp: balanced_def split: sum.split prod.split)

lemma balanced_end: "balanced {#} sd (end_iteration stream_run i sd)"
  by (auto simp: balanced_def end_iteration_def accounted_def split: list.split)

lemma balanced_others:
  "balanced {#} sd (send_local_stream_chunks sc target chunks sd)"
  "balanced {#} sd (open_local_run sc message inst batches messages sd)"
  "balanced {#} sd (send_stream_to_coordinator sc r data sd)"
  "balanced {#} sd (fail_request sc r failure sd)"
  by (auto simp: balanced_def send_local_stream_chunks_def open_local_run_def send_stream_to_coordinator_def fail_request_def
      split: option.split prod.split sum.split receive_at.split)

lemma balanced_stream_to: "balanced {#} sd (send_stream_to_target sc message sd)"
proof -
  have "balanced {#} sd (Continue [] sd)" "balanced {#} sd (Raises e sd)" for e by (simp_all add: balanced_def)
  then show ?thesis by (simp add: send_stream_to_target_def balanced_stream split: prod.split sum.split)
qed

lemma balanced_batches: "balanced {#} sd (send_stream_chunk_batches batches sd)"
  by (cases "(batches, sd)" rule: send_stream_chunk_batches.cases) (auto simp: balanced_def)

lemma balanced_piece: "ss_owns_results sc \<Longrightarrow> balanced (piece_results piece) sd (run_piece sc piece sd)"
proof (cases "(sc, piece, sd)" rule: run_piece.cases)
qed (auto simp: balanced_run balanced_dispatch balanced_result balanced_payload balanced_payloads balanced_signal balanced_end
    balanced_others balanced_stream_to balanced_batches, auto simp: balanced_def)


section \<open>What the drain has in hand\<close>

text \<open>
  The pieces of a drain, from the top: those of one message, then that message if it waits for the run before it, then
  the rest of the loop.
\<close>

fun is_loop :: "'d piece \<Rightarrow> bool" where
  "is_loop (Handle stream_run i out) \<longleftrightarrow> True"
| "is_loop (EndIteration stream_run i) \<longleftrightarrow> True"
| "is_loop (Dispatch out) \<longleftrightarrow> True"
| "is_loop _ \<longleftrightarrow> False"

fun stack_ok :: "'d piece list \<Rightarrow> bool" where
  "stack_ok [] \<longleftrightarrow> True"
| "stack_ok (Handle stream_run i out # pieces) \<longleftrightarrow> pieces = []"
| "stack_ok (EndIteration stream_run i # pieces) \<longleftrightarrow> pieces = []"
| "stack_ok (Dispatch out # pieces) \<longleftrightarrow> (case pieces of [EndIteration stream_run i] \<Rightarrow> True | _ \<Rightarrow> False)"
| "stack_ok (_ # pieces) \<longleftrightarrow> stack_ok pieces"

abbreviation no_loop :: "'d piece list \<Rightarrow> bool" where
  "no_loop pieces \<equiv> (\<forall>piece \<in> set pieces. \<not> is_loop piece)"

lemma stack_ok_other: "\<not> is_loop piece \<Longrightarrow> stack_ok (piece # pieces) = stack_ok pieces"
  by (cases piece) simp_all

lemma stack_ok_append: "no_loop pieces \<Longrightarrow> stack_ok (pieces @ rest) = stack_ok rest"
  by (induction pieces) (simp_all add: stack_ok_other)

text \<open>No piece but those of the loop adds to the loop.\<close>

fun pieces_of :: "('d, 'h) drained \<Rightarrow> 'd piece list" where
  "pieces_of (Continue pieces sd) = pieces"
| "pieces_of (Suspend reports pieces sd) = pieces"
| "pieces_of _ = []"

lemma no_loop_stream: "no_loop (pieces_of (stream_to_target sc r target data sd))"
  by (auto simp: stream_to_target_def Let_def split: sum.split option.split prod.split)

lemma no_loop_run: "no_loop (pieces_of (route_stream_run sc lt lc batches messages sd))"
  by (cases "(sc, lt, lc, batches, messages, sd)" rule: route_stream_run.cases) (auto split: sum.split option.split prod.split)

lemma no_loop_dispatch: "no_loop (pieces_of (dispatch sc out sd))"
  by (cases out) (auto simp: dispatch_def dispatch_active_def Let_def)

lemma no_loop_result: "no_loop (pieces_of (route_result sc r outcome owned sd))"
  by (auto simp: route_result_def complete_def Let_def split: sum.split option.split)

lemma no_loop_payload: "no_loop (pieces_of (route_payload sc r outcome owned forwarded actual targets sd))"
  by (auto simp: route_payload_def complete_def Let_def split: sum.split)

lemma no_loop_others:
  "no_loop (pieces_of (send_payloads sc r outcome owned single sts targets sd))" "no_loop (pieces_of (signal_done sc r targets sd))"
  by (cases targets; auto split: sum.split prod.split)+

lemma no_loop_more:
  "no_loop (pieces_of (send_local_stream_chunks sc target chunks sd))" "no_loop (pieces_of (open_local_run sc message inst batches messages sd))"
  "no_loop (pieces_of (send_stream_to_coordinator sc r data sd))" "no_loop (pieces_of (fail_request sc r failure sd))"
  by (auto simp: send_local_stream_chunks_def open_local_run_def send_stream_to_coordinator_def fail_request_def
      split: option.split prod.split sum.split receive_at.split)

lemma no_loop_stream_to: "no_loop (pieces_of (send_stream_to_target sc message sd))"
  by (simp add: send_stream_to_target_def no_loop_stream split: prod.split sum.split)

lemma no_loop_batches: "no_loop (pieces_of (send_stream_chunk_batches batches sd))"
  by (cases "(batches, sd)" rule: send_stream_chunk_batches.cases) auto

lemma stack_end: "stack_ok (pieces_of (end_iteration stream_run i sd))"
  by (simp add: end_iteration_def split: list.split)

lemma stack_piece:
  assumes "stack_ok (piece # rest)"
  shows "stack_ok (pieces_of (run_piece sc piece sd) @ rest)"
proof (cases "(sc, piece, sd)" rule: run_piece.cases)
qed (use assms in \<open>auto simp: stack_ok_append no_loop_run no_loop_dispatch no_loop_result no_loop_payload no_loop_others no_loop_more
      no_loop_stream_to no_loop_batches stack_end split: list.splits piece.splits\<close>)

text \<open>The drain returns at a wakeup, when nothing else is left of the iteration.\<close>

lemma dispatch_no_return:
  "stream_to_target sc r target data sd \<noteq> Returns sd'" "route_stream_run sc lt lc batches messages sd \<noteq> Returns sd'"
  "route_result sc r outcome owned sd \<noteq> Returns sd'" "route_payload sc r outcome owned forwarded actual targets sd \<noteq> Returns sd'"
  "fail_request sc r failure sd \<noteq> Returns sd'"
  by (auto simp: stream_to_target_def route_result_def route_payload_def complete_def fail_request_def Let_def
      elim!: route_stream_run.elims split: sum.splits option.splits prod.splits if_splits receive_at.splits)

lemma returns_only_dispatch: "run_piece sc piece sd = Returns sd' \<Longrightarrow> \<exists>out. piece = Dispatch out"
  by (cases "(sc, piece, sd)" rule: run_piece.cases)
    (auto simp: dispatch_no_return end_iteration_def open_local_run_def send_local_stream_chunks_def
      send_stream_to_target_def send_stream_to_coordinator_def
      split: if_splits list.splits option.splits sum.splits prod.splits
      elim!: send_stream_chunk_batches.elims signal_done.elims send_payloads.elims)

lemma returns_rest: "stack_ok (piece # rest) \<Longrightarrow> run_piece sc piece sd = Returns sd' \<Longrightarrow> pending_results rest = {#}"
  by (auto dest!: returns_only_dispatch split: list.splits piece.splits)

section \<open>The account\<close>

abbreviation account :: "('d, 'h) sender \<Rightarrow> 'd stage_outcome multiset" where
  "account sd \<equiv> accounted (sd_todo sd) sd"

fun drain_lives :: "drain_at \<Rightarrow> bool" where
  "drain_lives DrainWaiting \<longleftrightarrow> True"
| "drain_lives (DrainSuspended reports) \<longleftrightarrow> True"
| "drain_lives _ \<longleftrightarrow> False"

fun drain_suspended :: "drain_at \<Rightarrow> bool" where
  "drain_suspended (DrainSuspended reports) \<longleftrightarrow> True"
| "drain_suspended _ \<longleftrightarrow> False"

fun in_hand :: "'d piece \<Rightarrow> 'd stage_outcome multiset" where
  "in_hand (Handle stream_run i out) = out_results out"
| "in_hand (Dispatch out) = out_results out"
| "in_hand _ = {#}"

lemma out_results_size: "size (out_results out) \<le> Suc 0"
  by (cases out) simp_all

lemma stack_in_hand: "stack_ok pieces \<Longrightarrow> size (sum_list (map in_hand pieces)) \<le> 1"
  by (induction pieces rule: stack_ok.induct) (auto simp: out_results_size split: list.splits piece.splits)

lemma dropped_out: "mset (sd_dropped (drop_out out sd)) = mset (sd_dropped sd) + out_results out"
  by (cases out) (simp_all add: drop_out_def)

lemma accounted_drop [simp]: "accounted pieces (drop_out out sd) = accounted pieces sd + out_results out"
  by (simp add: accounted_def dropped_out)

lemma unwind_account:
  "accounted [] (unwind sc pieces sd) = accounted pieces sd \<and> sd_todo (unwind sc pieces sd) = [] \<and>
   sd_emitted (unwind sc pieces sd) = sd_emitted sd \<and>
   mset (sd_dropped (unwind sc pieces sd)) = mset (sd_dropped sd) + sum_list (map in_hand pieces)"
  by (induction sc pieces sd rule: unwind.induct) (simp_all add: dropped_out ac_simps)

text \<open>What holds of a drain that runs \<open>pieces\<close> once it is at \<open>sd'\<close>.\<close>

definition settles :: "'d piece list \<Rightarrow> ('d, 'h) sender \<Rightarrow> ('d, 'h) sender \<Rightarrow> bool" where
  "settles pieces sd sd' \<longleftrightarrow>
     account sd' = accounted pieces sd \<and> sd_emitted sd' = sd_emitted sd \<and> stack_ok (sd_todo sd') \<and>
     size (sd_dropped sd') \<le> size (sd_dropped sd) + 1 \<and> (drain_lives (sd_drain sd') \<longrightarrow> sd_dropped sd' = sd_dropped sd) \<and>
     (\<not> drain_suspended (sd_drain sd') \<longrightarrow> sd_todo sd' = [])"

lemma settles_stage [simp]: "settles pieces sd (sd'\<lparr>sd_stage := st\<rparr>) = settles pieces sd sd'"
  by (simp add: settles_def)

lemma settles_unwind:
  assumes "stack_ok pieces" and "\<not> drain_lives p"
  shows "settles pieces sd (unwind sc pieces sd\<lparr>sd_drain := p\<rparr>)"
proof -
  note u = unwind_account [of sc pieces sd]
  have "size (mset (sd_dropped (unwind sc pieces sd))) = size (mset (sd_dropped sd) + sum_list (map in_hand pieces))" using u by simp
  then have "size (sd_dropped (unwind sc pieces sd)) \<le> size (sd_dropped sd) + 1" using stack_in_hand [OF assms(1)] by simp
  then show ?thesis using u assms(2) by (simp add: settles_def)
qed

lemma settles_fails: "stack_ok pieces \<Longrightarrow> settles pieces sd (drain_fails sc e pieces sd)"
  by (simp add: drain_fails_def settles_unwind)

lemma settles_exec:
  assumes "ss_owns_results sc" and "stack_ok pieces"
  shows "settles pieces sd (drain_exec sc pieces sd)"
  using assms
proof (induction sc pieces sd rule: drain_exec.induct)
  case (2 sc piece rest sd)
  have piece: "balanced (piece_results piece) sd (run_piece sc piece sd)" by (rule balanced_piece [OF 2(2)])
  have stack: "stack_ok (pieces_of (run_piece sc piece sd) @ rest)" by (rule stack_piece [OF 2(3)])
  show ?case
  proof (cases "run_piece sc piece sd")
    case (Continue pieces sd1)
    then have "accounted (pieces @ rest) sd1 = accounted (piece # rest) sd" "sd_emitted sd1 = sd_emitted sd" "sd_dropped sd1 = sd_dropped sd"
      using piece by (auto simp: balanced_def accounted_def ac_simps)
    then show ?thesis using 2(1) [OF Continue 2(2)] stack Continue by (simp add: settles_def)
  next
    case (Suspend reports pieces sd1)
    then have "accounted (pieces @ rest) sd1 = accounted (piece # rest) sd"
      using piece by (auto simp: balanced_def accounted_def ac_simps)
    then show ?thesis using piece stack Suspend by (simp add: settles_def balanced_def)
  next
    case (Raises e sd1)
    then have "accounted rest sd1 = accounted (piece # rest) sd" "sd_emitted sd1 = sd_emitted sd" "sd_dropped sd1 = sd_dropped sd"
      using piece by (auto simp: balanced_def accounted_def ac_simps)
    then show ?thesis using settles_fails [of rest sd1 sc e] stack Raises by (simp add: settles_def)
  next
    case (Returns sd1)
    then have "accounted [] sd1 = accounted (piece # rest) sd"
      using piece returns_rest [OF 2(3) Returns] by (auto simp: balanced_def accounted_def ac_simps)
    then show ?thesis using piece Returns by (simp add: settles_def balanced_def)
  qed
qed (simp add: settles_def)

text \<open>The invariant of the whole stage.\<close>

definition results_inv :: "('d, 'h) sender \<Rightarrow> bool" where
  "results_inv sd \<longleftrightarrow>
     account sd = results_of (sd_emitted sd) \<and> stack_ok (sd_todo sd) \<and> size (sd_dropped sd) \<le> 1 \<and>
     (drain_lives (sd_drain sd) \<longrightarrow> sd_dropped sd = []) \<and>
     (\<not> drain_suspended (sd_drain sd) \<longrightarrow> sd_todo sd = [])"

lemma results_inv_settles:
  assumes "settles pieces sd sd'" and "accounted pieces sd = results_of (sd_emitted sd)" and "sd_dropped sd = []"
  shows "results_inv sd'"
  using assms by (simp add: settles_def results_inv_def)

lemma results_inv_drain:
  assumes "ss_owns_results sc" and "results_inv sd"
  shows "results_inv (drain_round sc failed submitted sd)"
proof (cases "sd_drain sd")
  case DrainWaiting
  show ?thesis
  proof (cases "sd_outbox sd")
    case (Cons out outbox)
    have "results_inv (drain_exec sc [Handle [] 0 out] (sd\<lparr>sd_outbox := outbox\<rparr>))"
      using assms(2) DrainWaiting Cons
      by (intro results_inv_settles [OF settles_exec [OF assms(1)]]) (auto simp: results_inv_def accounted_def ac_simps)
    then show ?thesis using DrainWaiting Cons by (simp add: drain_round_def del: drain_exec.simps)
  qed (use assms(2) DrainWaiting in \<open>simp add: drain_round_def\<close>)
next
  case (DrainSuspended reports)
  let ?sd = "if reports \<and> submitted then sd\<lparr>sd_delivered := True\<rparr> else sd"
  have sd: "stack_ok (sd_todo sd)" "accounted (sd_todo sd) ?sd = results_of (sd_emitted ?sd)" "sd_dropped ?sd = []"
    "account sd = results_of (sd_emitted sd)" "sd_dropped sd = []"
    using assms(2) DrainSuspended by (auto simp: results_inv_def)
  have "results_inv (drain_exec sc (sd_todo sd) sd)" by (rule results_inv_settles [OF settles_exec [OF assms(1) sd(1)] sd(4,5)])
  moreover have "results_inv (drain_fails sc e (sd_todo sd) ?sd)" for e by (rule results_inv_settles [OF settles_fails [OF sd(1)] sd(2,3)])
  ultimately show ?thesis unfolding drain_round_def DrainSuspended by (cases failed) (simp_all only: drain_at.case option.case)
qed (use assms(2) in \<open>simp_all add: drain_round_def\<close>)

lemma results_inv_same:
  assumes "results_inv sd" and "sd_drain sd' = sd_drain sd" and "sd_todo sd' = sd_todo sd" and "sd_emitted sd' = sd_emitted sd"
    and "sd_released sd' = sd_released sd" and "sd_outbox sd' = sd_outbox sd" and "sd_dropped sd' = sd_dropped sd"
  shows "results_inv sd'"
  using assms by (simp add: results_inv_def accounted_def)

lemma results_inv_emit: "results_inv sd \<Longrightarrow> results_inv (put_messages messages sd)"
  by (auto simp: results_inv_def accounted_def put_messages_def ac_simps)

lemma results_inv_cancel:
  assumes "results_inv sd"
  shows "results_inv (drain_cancel sc submitted sd)"
proof (cases "sd_drain sd")
  case (DrainSuspended reports)
  let ?sd = "if reports \<and> submitted then sd\<lparr>sd_delivered := True\<rparr> else sd"
  have "settles (sd_todo sd) ?sd (unwind sc (sd_todo sd) ?sd\<lparr>sd_drain := DrainEnded\<rparr>)"
    by (rule settles_unwind) (use assms in \<open>simp_all add: results_inv_def\<close>)
  then have "results_inv (unwind sc (sd_todo sd) ?sd\<lparr>sd_drain := DrainEnded\<rparr>)"
    by (rule results_inv_settles) (use assms DrainSuspended in \<open>auto simp: results_inv_def\<close>)
  then show ?thesis using DrainSuspended by (simp add: drain_cancel_def)
qed (use assms in \<open>auto simp: drain_cancel_def results_inv_def accounted_def\<close>)

lemma results_inv_follower:
  assumes "ss_owns_results sc" and "results_inv sd"
  shows "results_inv (drain_outbox_follower sc sd)"
proof (cases "sd_drain sd = DrainWaiting \<and> sd_outbox sd \<noteq> []")
  case True
  then obtain out outbox where o: "sd_outbox sd = out # outbox" by (cases "sd_outbox sd") auto
  let ?sd = "sd\<lparr>sd_outbox := outbox\<rparr>"
  have todo: "sd_todo sd = []" and all: "accounted [] ?sd + out_results out = results_of (sd_emitted sd)"
    using assms(2) True o by (auto simp: results_inv_def accounted_def ac_simps)
  have fails: "results_inv (drain_fails sc e [] ?sd)" if "out_results out = {#}" for e
    using all that assms(2) True by (intro results_inv_settles [OF settles_fails]) (simp_all add: results_inv_def)
  have other: "results_inv (?sd\<lparr>sd_drain := p\<rparr>)" "results_inv (?sd\<lparr>sd_stage := st\<rparr>)" "results_inv ?sd" if "out_results out = {#}" for p st
    using all that todo True assms(2) by (simp_all add: results_inv_def)
  have released: "results_inv (release_result outcome d ?sd\<lparr>sd_stage := st\<rparr>)" if "out_results out = {#outcome#}" for outcome d st
    using all that todo True assms(2) by (simp add: results_inv_def)
  show ?thesis using True o assms(1) fails other released
    by (cases out) (simp_all add: drain_outbox_follower_def Let_def)
next
  case False
  then have "drain_outbox_follower sc sd = sd" by (auto simp: drain_outbox_follower_def split: drain_at.split list.split)
  then show ?thesis using assms(2) by simp
qed

lemma results_inv_step:
  assumes "ss_owns_results sc" and "stage_step sc sd sd'" and "results_inv sd"
  shows "results_inv sd'"
  using assms(2,3)
proof (induction rule: stage_step.induct)
  case (receive sd st)
  then show ?case by (auto intro: results_inv_same)
qed (auto intro: results_inv_emit results_inv_drain [OF assms(1)] results_inv_follower [OF assms(1)] results_inv_cancel)

lemma results_inv_init: "results_inv (sender_init st)"
  by (simp add: results_inv_def sender_init_def accounted_def)

end
