(* ===== verification/Stage_Whole.thy ===== *)
theory Stage_Whole
  imports Stage_Streams Stage_Results Stage_Runtime
begin

text \<open>The properties of a whole stage, whose two halves run side by side.\<close>

section \<open>A small stage\<close>

text \<open>A thinker that sends its results to a talker and to one of two replicas of a vocoder, in other processes.\<close>

definition demo_thinker :: "(nat, unit) stage_config_of" where
  "demo_thinker =
     \<lparr>sv_name = ''thinker'', sv_role = Single, sv_stream_targets = [], sv_same_process_targets = [''critic''],
      sv_endpoints = [''talker'', ''vocoder@r0'', ''vocoder@r1'', ''critic''],
      sv_topology = [(''vocoder'', [''vocoder@r0'', ''vocoder@r1''])],
      sv_can_accept_stream_before_payload = False, sv_has_tp_fanout = False, sv_requires_tp_work_fanout = False,
      sv_receive = (\<lambda>r from_stage payload h. (Inr (Some payload), h)), sv_cancel = (\<lambda>r h. h), sv_set_order = id\<rparr>"

definition demo_sends :: "(nat, unit) send_config" where
  "demo_sends =
     \<lparr>ss_stage = demo_thinker, ss_is_terminal = False, ss_has_dispatcher = True, ss_owns_results = True,
      ss_get_next = (\<lambda>r outcome. Inr (NextStages [''talker'', ''vocoder''])), ss_get_stream_done_targets = None,
      ss_project_payload = (\<lambda>target. None), ss_heap = [], ss_object = (\<lambda>outcome. Stage_Payload 0 0), ss_strip = id,
      ss_batchable = (\<lambda>data. fst data < 100), ss_prepare = (\<lambda>target data. None), ss_claim_result = (\<lambda>outcome terminal. True)\<rparr>"

definition demo_payload_of :: "nat \<Rightarrow> nat stage_payload_of" where
  "demo_payload_of n = \<lparr>pl_request_id = ''r1'', pl_session = None, pl_data = n\<rparr>"

text \<open>The request is submitted, its result is emitted, and the drain has sent it to the talker.\<close>

definition demo_submitted :: "(nat, unit) sender" where
  "demo_submitted = sender_init (add_call ''r1'' [] []
     (on_submit demo_thinker ''r1'' (Some [(''vocoder'', 1)]) (demo_payload_of 5) (stage_init () False)))"

definition demo_emitted :: "(nat, unit) sender" where
  "demo_emitted = put_messages [Result ''r1'' (Payload (demo_payload_of 7))] demo_submitted"

definition demo_routing :: "(nat, unit) sender" where
  "demo_routing = drain_round demo_sends None False demo_emitted"

definition demo_aborted :: "(nat, unit) sender" where
  "demo_aborted = demo_routing\<lparr>sd_stage := on_abort demo_thinker ''r1'' (sd_stage demo_routing)\<rparr>"

lemma demo_sends_stage [simp]: "ss_stage demo_sends = demo_thinker" "owns_external_io demo_thinker" "ss_owns_results demo_sends"
  by (simp_all add: demo_sends_def demo_thinker_def)

lemma demo_submitted_step: "stage_step demo_sends (sender_init (stage_init () False)) demo_submitted"
  using stage_step.receive [of demo_sends "sender_init (stage_init () False)", OF receive_step.submit]
  by (simp add: demo_submitted_def sender_init_def)

lemma demo_routing_reached: "(stage_step demo_sends)\<^sup>*\<^sup>* (sender_init (stage_init () False)) demo_routing"
proof -
  note demo_submitted_step
  moreover have "stage_step demo_sends demo_submitted demo_emitted" unfolding demo_emitted_def by (rule stage_step.emit)
  moreover have "stage_step demo_sends demo_emitted demo_routing" unfolding demo_routing_def by (rule stage_step.drain) simp
  ultimately show ?thesis by (meson converse_rtranclp_into_rtranclp rtranclp.rtrancl_refl)
qed

lemma demo_aborted_reached: "(stage_step demo_sends)\<^sup>*\<^sup>* (sender_init (stage_init () False)) demo_aborted"
proof -
  have "stage_step demo_sends demo_routing demo_aborted"
    using stage_step.receive [of demo_sends demo_routing, OF receive_step.abort] by (simp add: demo_aborted_def)
  with demo_routing_reached show ?thesis by (rule rtranclp.rtrancl_into_rtrancl)
qed

section \<open>Properties\<close>

text \<open>
  C4. Whatever the sending half does in between, the messages that a stage receives for one request from one stage
  reach its scheduler in the order in which they arrived, and none twice; and the oldest of them that is not finished
  waits for no other.
\<close>

theorem stage_delivers_in_order:
  assumes "(stage_step sc)\<^sup>*\<^sup>* (sender_init (stage_init handler has_stream_queue)) sd"
  shows "sorted_wrt (<) (arrivals_of lane (sr_inbox (sd_stage sd))) \<and>
    (\<forall>t ts. lane_tasks lane (sd_stage sd) = t # ts \<longrightarrow> predecessor_done t (sd_stage sd))"
proof -
  have inv: "order_inv (sd_stage sd)" by (rule whole_stage.inv_reachable [OF _ assms]) auto
  show ?thesis using order_inv_lane [OF inv, of lane] lane_head(3) [OF inv] by (auto simp: lane_inv_def)
qed

lemma receive_steps: "(receive_step (ss_stage sc))\<^sup>*\<^sup>* (sd_stage sd) st \<Longrightarrow> (stage_step sc)\<^sup>*\<^sup>* sd (sd\<lparr>sd_stage := st\<rparr>)"
proof (induction rule: rtranclp_induct)
  case (step st1 st2)
  have "stage_step sc (sd\<lparr>sd_stage := st1\<rparr>) (sd\<lparr>sd_stage := st2\<rparr>)"
    using stage_step.receive [of sc "sd\<lparr>sd_stage := st1\<rparr>" st2] step.hyps(2) by simp
  with step.IH show ?case by (rule rtranclp.rtrancl_into_rtrancl)
qed simp

definition demo_hears :: "(nat, unit) send_config" where
  "demo_hears = demo_sends\<lparr>ss_stage := demo_vocoder\<rparr>"

theorem stage_delivers_in_order_witness:
  "arrivals_of demo_lane (sr_inbox demo_waiting) = [] \<and>
   map rv_at (sr_tasks demo_waiting) = [AtTurn (HChunk (20, None)), AtTurn (HChunk (21, None))] \<and>
   arrivals_of demo_lane (sr_inbox demo_delivered) = [0, 1] \<and> sorted_wrt (<) (arrivals_of demo_lane (sr_inbox demo_delivered))"
proof -
  have "(stage_step demo_hears)\<^sup>*\<^sup>* (sender_init (stage_init () True)) (sender_init (stage_init () True)\<lparr>sd_stage := demo_delivered\<rparr>)"
    using demo_delivered_reached by (intro receive_steps) (simp add: demo_hears_def sender_init_def)
  from stage_delivers_in_order [OF this, of demo_lane] have "sorted_wrt (<) (arrivals_of demo_lane (sr_inbox demo_delivered))" by simp
  moreover have "arrivals_of demo_lane (sr_inbox demo_waiting) = []" by code_simp
  moreover have "map rv_at (sr_tasks demo_waiting) = [AtTurn (HChunk (20, None)), AtTurn (HChunk (21, None))]" by code_simp
  moreover have "arrivals_of demo_lane (sr_inbox demo_delivered) = [0, 1]" by code_simp
  ultimately show ?thesis by simp
qed

text \<open>
  C6. A scheduler that owns its results hears of each at most once, and no result gets lost while the drain lives: when it
  waits at an empty outbox, every result emitted has been released, whether it was routed, refused or belonged to a
  request that is gone. When the drain has ended, by a wakeup, an error or a cancellation in any place, every result
  it had begun to route has been released too: what is missing is still in the outbox, except for at most one result,
  which the drain had taken but not come to.
\<close>

theorem owned_results_released_once:
  assumes "(stage_step sc)\<^sup>*\<^sup>* (sender_init (stage_init handler has_stream_queue)) sd" and "ss_owns_results sc"
  shows "mset (map fst (sd_released sd)) \<subseteq># results_of (sd_emitted sd) \<and>
    (sd_drain sd = DrainWaiting \<and> sd_outbox sd = [] \<longrightarrow> mset (map fst (sd_released sd)) = results_of (sd_emitted sd)) \<and>
    (\<not> drain_lives (sd_drain sd) \<longrightarrow> length (sd_dropped sd) \<le> 1 \<and>
       mset (map fst (sd_released sd)) + mset (sd_dropped sd) + results_of (sd_outbox sd) = results_of (sd_emitted sd))"
proof -
  have inv: "results_inv sd" using assms(1)
    by (induction rule: rtranclp_induct) (auto intro: results_inv_init results_inv_step [OF assms(2)])
  have "mset (map fst (sd_released sd)) \<subseteq># account sd" by (simp add: accounted_def)
  then have "mset (map fst (sd_released sd)) \<subseteq># results_of (sd_emitted sd)" using inv by (simp add: results_inv_def)
  moreover have "drain_lives DrainWaiting" and "\<not> drain_suspended DrainWaiting" by simp_all
  moreover have "drain_suspended p \<Longrightarrow> drain_lives p" for p by (cases p) simp_all
  ultimately show ?thesis using inv by (auto simp: results_inv_def accounted_def)
qed

text \<open>A chunk and then a result, which waits for the chunk to be sent.\<close>

definition demo_streamed :: "(nat, unit) sender" where
  "demo_streamed = drain_round demo_sends None False
     (put_messages [Stream ''r1'' (Some ''talker'') (300, None), Result ''r1'' (Payload (demo_payload_of 7))] demo_submitted)"

theorem owned_results_released_once_witness:
  "mset (map fst (sd_released (drain_round demo_sends None False (drain_round demo_sends None False demo_routing)))) =
     {#Payload (demo_payload_of 7)#} \<and>
   sd_dropped (drain_round demo_sends (Some (RuntimeError ''send'')) False demo_streamed) = [Payload (demo_payload_of 7)] \<and>
   sd_released (drain_round demo_sends (Some (RuntimeError ''send'')) False demo_routing) = [(Payload (demo_payload_of 7), False)]"
proof -
  let ?sd = "drain_round demo_sends None False (drain_round demo_sends None False demo_routing)"
  have "(stage_step demo_sends)\<^sup>*\<^sup>* (sender_init (stage_init () False)) ?sd"
    using demo_routing_reached by (rule rtranclp.rtrancl_into_rtrancl [OF rtranclp.rtrancl_into_rtrancl]) (auto intro: stage_step.drain)
  moreover have "sd_drain ?sd = DrainWaiting" by code_simp
  moreover have "sd_outbox ?sd = []" by code_simp
  moreover have "sd_emitted ?sd = [Result ''r1'' (Payload (demo_payload_of 7))]" by code_simp
  ultimately have "mset (map fst (sd_released ?sd)) = {#Payload (demo_payload_of 7)#}"
    using owned_results_released_once [of demo_sends "()" False ?sd] by simp
  moreover have "sd_dropped (drain_round demo_sends (Some (RuntimeError ''send'')) False demo_streamed) = [Payload (demo_payload_of 7)]"
    by code_simp
  moreover have "sd_released (drain_round demo_sends (Some (RuntimeError ''send'')) False demo_routing) = [(Payload (demo_payload_of 7), False)]"
    by code_simp
  ultimately show ?thesis by simp
qed


definition demo_run :: "nat run_message list" where
  "demo_run = [(''r1'', ''vocoder'', (1, None)), (''r1'', ''critic'', (2, None)), (''r1'', ''vocoder'', (300, None)),
     (''r2'', ''vocoder'', (4, None)), (''r1'', ''vocoder'', (5, None))]"




definition demo_projects :: "(nat, unit) send_config" where
  "demo_projects = demo_sends\<lparr>ss_heap := [(1, Dict [2, 5]), (2, List []), (3, Dict [4, 5]), (4, Tuple [3]), (5, Tuple [])],
     ss_object := (\<lambda>outcome. if outcome = Payload (demo_payload_of 7) then Stage_Payload 10 1 else Stage_Payload 11 3),
     ss_project_payload := (\<lambda>target. Some (\<lambda>outcome. Inr (Payload (demo_payload_of 8))))\<rparr>"


section \<open>An abort while a request is being routed\<close>


text \<open>The request streams two chunks to the talker; the second is too large to be batched and goes by itself.\<close>

definition demo_streaming :: "(nat, unit) sender" where
  "demo_streaming = drain_round demo_sends None False
     (put_messages [Stream ''r1'' (Some ''talker'') (1, None), Stream ''r1'' (Some ''talker'') (300, None)] demo_submitted)"

definition demo_leaked :: "(nat, unit) sender" where
  "demo_leaked = drain_round demo_sends None False (drain_round demo_sends None False
     (demo_streaming\<lparr>sd_stage := on_abort demo_thinker ''r1'' (sd_stage demo_streaming)\<rparr>))"

lemma demo_leaked_reached: "(stage_step demo_sends)\<^sup>*\<^sup>* (sender_init (stage_init () False)) demo_leaked"
proof -
  have drain: "(stage_step demo_sends)\<^sup>*\<^sup>* sd (drain_round demo_sends None False sd)" for sd
    using stage_step.drain [of demo_sends] by auto
  have "(stage_step demo_sends)\<^sup>*\<^sup>* demo_submitted demo_streaming" unfolding demo_streaming_def
    by (rule rtranclp_trans [OF r_into_rtranclp drain]) (rule stage_step.emit)
  moreover have "(stage_step demo_sends)\<^sup>*\<^sup>* demo_streaming demo_leaked" unfolding demo_leaked_def
    using stage_step.receive [of demo_sends demo_streaming, OF receive_step.abort]
    by (intro rtranclp_trans [OF rtranclp_trans [OF r_into_rtranclp drain] drain]) simp
  ultimately have "(stage_step demo_sends)\<^sup>*\<^sup>* demo_submitted demo_leaked" by (rule rtranclp_trans)
  with demo_submitted_step show ?thesis by (rule converse_rtranclp_into_rtranclp)
qed

lemma request_clear_counter: "request_clear r st \<Longrightarrow> dict_get (sr_stream_chunk_counters st) (r, target) = None"
  by (simp add: request_clear_def)


end
