(* ===== verification/Spec2Isabelle.thy ===== *)
theory Spec2Isabelle
  imports Stream_Queue Fan_In Topology Session_Proto Delivery Stage_Cache Prepared_Queue Pending_Text
    Session_Scheduler Coordinator Sessions Session_Graph Graph_Invariants Graph_Properties Graph_Fences
    Stage_Receive Stage_Lanes Stage_Order Stage_Aborts Stage_Drain Stage_Runtime
    Payload_Isolation Stage_Send Stage_Streams Stage_Routing Stage_Results Stage_Whole
begin

text \<open>
  \<^bold>\<open>A verification of the multi-stage serving runtime of sglang-omni.\<close>

  \<^bold>\<open>The program.\<close> sglang-omni serves multi-modal models as a pipeline of stages. A configuration names
  the stages, the processes they run in and how often each process is replicated. A coordinator process
  admits requests, sends each to the entry stage, collects the results of the terminal stages and streams
  partial results to its readers. A stage receives payloads from its upstream stages (one, or several that
  it merges), receives stream chunks in per-request queues, runs its model behind a scheduler and sends the
  result on. On top of requests lie sessions: a long-lived conversation whose inputs are timed chunks that
  every stage of the session's route sees in order, and whose outputs are delivered at the pace of playback.
  The files named below are under \<^verbatim>\<open>src/sglang_omni/\<close>.

  \<^bold>\<open>The theories.\<close>

  \<^item> \<open>Omni_Prelude\<close>: Python dictionaries as association lists in insertion order, the exceptions of the
    modelled code as the type \<open>error\<close>, \<open>'a result\<close> for code that may raise, the locale \<open>step_system\<close> with its
    rule for invariants, and lemmas on sums and queues for the byte budgets.

  \<^item> \<open>Stream_Queue\<close> (\<^verbatim>\<open>pipeline/stage/stream_queue.py\<close>): the queues of stream chunks. The asyncio queue
    objects live in a store, so that a reader blocked on one keeps it when the table drops it. Chunks come
    out in the order they went in, a close wakes the blocked reader, and the set of closed ids stays bounded.

  \<^item> \<open>Fan_In\<close> (\<^verbatim>\<open>pipeline/stage/input.py\<close>): the direct and the aggregating input handler. The contract of
    the protocol \<open>InputHandler\<close> is a locale, interpreted on both. A merge happens once, when exactly the
    expected sources have arrived.

  \<^item> \<open>Topology\<close> (\<^verbatim>\<open>config/topology.py\<close>, \<^verbatim>\<open>pipeline/replicas.py\<close>, parts of \<^verbatim>\<open>config/schema.py\<close>): grouping of
    stages into processes, the check of process-local edges, replica names, expansion of replicas, splitting
    of devices and the binding of a request to replica instances. The compiled processes partition the
    stages, a local edge never crosses a process, names and addresses are inverse to each other, devices are
    split into consecutive shares, and every bound stage resolves to an instance that exists.

  \<^item> \<open>Session_Proto\<close> (\<^verbatim>\<open>proto/session.py\<close>, \<^verbatim>\<open>proto/streams.py\<close>): chunks and their checks, controls, ports and
    the session graph, the exact wire size of a chunk and the fragmentation of a chunk that is too large.
    The order of a graph lists upstream nodes first and fails exactly on a cycle; fragments fit their limit
    and join to the original.

  \<^item> \<open>Delivery\<close> (\<^verbatim>\<open>pipeline/session_delivery.py\<close>): the pacer. A release never runs further ahead of playback
    than the lead allows, loses and duplicates nothing, ends a turn only when its audio has been played, and
    a wait of the computed delay makes a release possible.

  \<^item> \<open>Stage_Cache\<close> (\<^verbatim>\<open>scheduling/stage_cache.py\<close>, \<^verbatim>\<open>scheduling/speaker_cache.py\<close>): the LRU cache with its
    entry and byte bounds, and the speaker artifacts keyed by encoded strings.

  \<^item> \<open>Prepared_Queue\<close> (\<^verbatim>\<open>scheduling/prepared_request_queue.py\<close>): the hand-off from preprocessing threads to the
    engine. Whatever the interleaving, an aborted request is not handed over.

  \<^item> \<open>Pending_Text\<close> (\<^verbatim>\<open>scheduling/pending_text_queue.py\<close>, \<^verbatim>\<open>scheduling/exact_text_streaming.py\<close>): the chunked
    row queue refines a plain list, and the streamed text deltas join to the final text.

  \<^item> \<open>Session_Scheduler\<close> (\<^verbatim>\<open>scheduling/session.py\<close>): the session side of a stage. Operations of a session run
    in the order they arrived, also when they are batched or cancelled; a preempting operation cancels the
    appends of its own session only; a failing append closes its session; a fragmented chunk reaches the
    model whole.

  \<^item> \<open>Coordinator\<close> (\<^verbatim>\<open>pipeline/coordinator.py\<close>, \<^verbatim>\<open>admission.py\<close>, \<^verbatim>\<open>proto/request.py\<close>, \<^verbatim>\<open>proto/messages.py\<close>):
    admission, submission, aborts, completions and the stream backlog. The completion loop never ends in an
    exception, the backlog counter is the sum of the bytes still queued and stays within its limit, admission
    stays within its capacity, and a request with several terminal stages is resolved once, with all of them.

  \<^item> \<open>Sessions\<close> (\<^verbatim>\<open>pipeline/sessions.py\<close>): the coordinator's side of a session over a fixed route. Inputs leave
    in the order they were accepted, both budgets are exact, a control is not overtaken by later input and
    does not overtake earlier input, and the cleanup keeps the slots of the owners it could not confirm.

  \<^item> \<open>Session_Graph\<close> (\<^verbatim>\<open>pipeline/session_graph.py\<close>): a session over a graph of nodes, each with a session of its
    own. The record \<open>graph\<close> is \<open>SessionGraphRuntime\<close>; the runner's tasks are the forwarder that feeds a node
    from its inbox, the router that takes its outputs to the readers, the control edges and the client, the
    pacer's delivery, and the deliveries of controls. A task is its program point, and \<open>graph_step\<close> runs one
    task to its next suspension.

  \<^item> \<open>Graph_Invariants\<close>: the invariant of a graph session, by parts: the bounds and counters of the edges, the
    copies of the client's input and their counters, the output budget over queue, pacers and waiting routers,
    and the budgets of the nodes' sessions; and that every operation keeps it.

  \<^item> \<open>Graph_Properties\<close>: what follows for every reachable state. Edges stay within their bounds, an input is
    confirmed once and not while a copy of it is left, the output budget is exact, the nodes' sessions keep their
    budgets; opening is all or nothing, and the close reaches every node.

  \<^item> \<open>Graph_Fences\<close>: once a node has been fenced for an interrupted turn, nothing of that turn waits for it, in
    its pacer or in the client's queue, in any later state.

  \<^item> \<open>Stage_Receive\<close> (\<^verbatim>\<open>pipeline/stage/runtime.py\<close>): the receiving half of a stage. Messages arrive over relays,
    direct CUDA IPC, packed batches and calls in the same process; each is a receive task, chained behind the
    earlier tasks of its lane (a request and the stage it comes from), and \<open>receive_round\<close> runs a task to its next
    await. \<open>receive_step\<close> interleaves arrivals, rounds, local calls, aborts and the stop.

  \<^item> \<open>Stage_Lanes\<close>, \<open>Stage_Order\<close>: what a handler may do to the lanes and the inbox, and the invariant of the lanes:
    the unfinished tasks of a lane are linked in the order of arrival, the first waits for nothing, and what the
    lane brought into the inbox is older.

  \<^item> \<open>Stage_Aborts\<close>: what an abort leaves behind, and that no handler brings the stream of an aborted request to the
    scheduler. \<open>Stage_Drain\<close>: how many rounds a task can still have.

  \<^item> \<open>Stage_Runtime\<close>: the properties of the receiving half. A lane never stalls although its messages are read
    concurrently; nothing of an aborted request's stream is delivered, and its state is gone.

  \<^item> \<open>Payload_Isolation\<close> (\<^verbatim>\<open>pipeline/stage/runtime.py\<close>): the check that a projected payload shares no container
    with the original that can be changed. Two depth-first walks over a heap of containers, which may be cyclic, are
    proved to decide exactly that.

  \<^item> \<open>Stage_Send\<close> (\<^verbatim>\<open>pipeline/stage/runtime.py\<close>): the sending half. The drain takes the scheduler's messages from the
    outbox and routes results, streams, failures and admissions. It is one coroutine, here a list of pieces up to the
    places where it may suspend: \<open>drain_exec\<close> runs them, \<open>drain_round\<close> resumes them, \<open>unwind\<close> takes an error through
    the handlers, \<open>drain_cancel\<close> ends them. \<open>stage_step\<close> interleaves this with \<open>receive_step\<close>.

  \<^item> \<open>Stage_Streams\<close>: a run of stream chunks routed together gives every target what sending them one by one gives.
    \<open>Stage_Routing\<close>: the sending half keeps the invariant of the lanes. \<open>Stage_Results\<close>: an account of the results of
    a scheduler that owns them: emitted, waiting, in routing, released, dropped by a failing drain.

  \<^item> \<open>Stage_Whole\<close>: the properties of a stage with both halves. Each lane delivers in the order of arrival, owned
    results are released once, runs of chunks are faithful, and a payload handed over by reference to one of several
    targets is isolated. Two runs show what an abort does when it arrives while the drain waits for a send: routing a
    result raises out of the drain and stops the stage, and a stream chunk is sent and its bookkeeping stays.

  \<^bold>\<open>How the model follows the code.\<close> A class is a \<open>record\<close> whose fields carry the names of the attributes
  behind a short prefix; a method is a function from the record to the updated record and the result. A
  raise is a value \<open>Inl e\<close>. Floats that only carry times are rationals, with NaN and infinities where the
  code tests for them. Objects compared by identity (futures, asyncio queues, request records) are
  addresses into a store of the state.

  Concurrency is interleaving. On an asyncio loop, the code between two suspensions is one step: a call that
  suspends is split there and what it holds across the suspension is part of the state. Code under a lock is
  one step. The step relations \<open>coord_step\<close>, \<open>session_step\<close>, \<open>graph_step\<close>, \<open>receive_step\<close> and \<open>stage_step\<close>, and the run relations of the queues
  and of the scheduler, allow every order of such steps, and the invariants are proved over all reachable
  states. Their initial states are those of the constructors.

  Every loop of the model is a function that terminates, so there is no fuel and no bound on the inputs.

  \<^bold>\<open>What is an argument.\<close> Code of other packages is an argument of the definitions, and what is relied on is
  a hypothesis: that decoding an encoded chunk, if it succeeds, gives back the chunk's sequence number
  (msgpack), that the sizes a cache measures are not negative. The coordinator's steps let no stage answer a
  request before the send that carries it has returned. The hooks of a stage's model are functions on a hook
  state that return or raise, with no hypothesis. Time is an argument of every operation that reads a clock.

  \<^bold>\<open>Not modelled.\<close> The administrative operations and the health report of the coordinator;
  the validation that pydantic performs on the configuration and the checks on GPU colocation. Serialisation
  of messages, sockets, shared memory and process launching (\<^verbatim>\<open>relay\<close>, \<^verbatim>\<open>comm\<close>, \<^verbatim>\<open>pipeline/control_plane.py\<close>) are
  input and output around the modelled parts: here a send is a step that succeeds or fails, and a read brings what
  an argument says. Of a stage's runtime, the administrative operations, the profiler hooks, the scheduler's thread
  and a KV page transfer after its launch; the sends that the code gathers run one after the other. The models,
  kernels and the autoregressive scheduler are tensor code over torch and a subclass of a scheduler that lives in
  another package. The HTTP server, the client and the command line
  translate between formats.
\<close>

end
